(* ===== verification/Prelude.thy ===== *)
theory Prelude
  imports
    Main
    "HOL-Library.Word"
    "HOL-Library.Char_ord"
    "HOL-Library.List_Lexorder"
    "HOL-Library.Code_Target_Nat"
begin

text \<open>
  Shared vocabulary of the development: the machine integers and byte strings of the
  C++ sources, results with an error value, computations that thread a state and may
  stop with an error, first-match search in a list, decimal and hexadecimal text,
  little-endian integers and the bounded ASCII identifiers that several components
  check with code of their own.  The lemmas are collected in \<^theory_text>\<open>res_simps\<close>
  (results), \<^theory_text>\<open>gx_simps\<close> (stateful results) and \<^theory_text>\<open>codec_simps\<close>
  (byte encodings), which the component theories pass to the simplifier.
\<close>

named_theorems res_simps \<open>unfolding and inversion of results\<close>
named_theorems gx_simps \<open>unfolding of computations with a state and an error\<close>
named_theorems codec_simps \<open>lengths and inverses of byte encodings\<close>

section \<open>Machine types\<close>

type_synonym u8 = "8 word"
type_synonym u16 = "16 word"
type_synonym u32 = "32 word"
type_synonym u64 = "64 word"
type_synonym bytes = "8 word list"

abbreviation u64_max :: u64 where
  "u64_max \<equiv> - 1"

lemma u64_less_max_no_wrap: "w \<noteq> u64_max \<Longrightarrow> unat (w + 1) = Suc (unat w)"
  by (metis add.commute add_left_cancel unatSuc word_sp_01 ab_left_minus)

lemma u64_succ_less: "w \<noteq> u64_max \<Longrightarrow> w < w + 1"
  by (simp add: word_less_nat_alt u64_less_max_no_wrap)

lemma u64_succ_neq: "(w :: u64) + 1 \<noteq> w"
  by simp

lemma unat_u8_less [simp]: "unat (b :: u8) < 256"
proof -
  have "unat b < 2 ^ LENGTH(8)" by (rule unsigned_less)
  then show ?thesis by simp
qed

lemma unat_u32_less [simp]: "unat (w :: u32) < 2 ^ 32"
  and unat_u64_less [simp]: "unat (v :: u64) < 2 ^ 64"
proof -
  have "unat w < 2 ^ LENGTH(32)" "unat v < 2 ^ LENGTH(64)" by (rule unsigned_less)+
  then show "unat w < 2 ^ 32" "unat v < 2 ^ 64" by simp_all
qed

section \<open>Results: an error value or a value\<close>

definition rbind :: "'err + 'v \<Rightarrow> ('v \<Rightarrow> 'err + 'w) \<Rightarrow> 'err + 'w" where
  "rbind r f = (case r of Inl e \<Rightarrow> Inl e | Inr a \<Rightarrow> f a)"

definition require :: "bool \<Rightarrow> 'e \<Rightarrow> 'e + unit" where
  "require b e = (if b then Inr () else Inl e)"

lemma rbind_Inl [simp, res_simps]: "rbind (Inl e) f = Inl e"
  and rbind_Inr [simp, res_simps]: "rbind (Inr a) f = f a"
  by (simp_all add: rbind_def)

lemma rbind_eq_Inr [res_simps]: "rbind r f = Inr b \<longleftrightarrow> (\<exists>a. r = Inr a \<and> f a = Inr b)"
  by (cases r) simp_all

lemma rbind_eq_Inl [res_simps]:
  "rbind r f = Inl e \<longleftrightarrow> r = Inl e \<or> (\<exists>a. r = Inr a \<and> f a = Inl e)"
  by (cases r) simp_all

lemma require_eq_Inr [simp, res_simps]: "require b e = Inr u \<longleftrightarrow> b"
  by (simp add: require_def)

lemma require_eq_Inl [simp, res_simps]: "require b e = Inl e' \<longleftrightarrow> \<not> b \<and> e' = e"
  by (auto simp: require_def)

lemma require_True [simp]: "require True e = Inr ()"
  by (simp add: require_def)

fun rmap_list :: "('a \<Rightarrow> 'e + 'b) \<Rightarrow> 'a list \<Rightarrow> 'e + 'b list" where
  "rmap_list f [] = Inr []"
| "rmap_list f (x # xs) = rbind (f x) (\<lambda>y. rbind (rmap_list f xs) (\<lambda>ys. Inr (y # ys)))"

lemma rmap_list_Inr_length: "rmap_list f xs = Inr ys \<Longrightarrow> length ys = length xs"
  by (induction xs arbitrary: ys) (auto simp: res_simps)

lemma rmap_list_Inr_conv:
  "rmap_list f xs = Inr ys \<longleftrightarrow> list_all2 (\<lambda>x y. f x = Inr y) xs ys"
proof (induction xs arbitrary: ys)
  case Nil
  then show ?case by auto
next
  case (Cons x xs)
  then show ?case by (cases ys) (auto simp: res_simps)
qed

lemma rmap_list_enumerate:
  "rmap_list f (enumerate n xs) = Inr ys \<longleftrightarrow>
     length ys = length xs \<and> (\<forall>i < length xs. f (n + i, xs ! i) = Inr (ys ! i))"
  by (auto simp: rmap_list_Inr_conv list_all2_conv_all_nth nth_enumerate_eq)

section \<open>Computations with a state and an error\<close>

text \<open>
  A callback of a collaborator may change the collaborator and then stop with an error;
  the change stays.  The state is therefore returned beside the result.
\<close>

type_synonym ('s, 'e, 'a) gx = "'s \<Rightarrow> 's \<times> ('e + 'a)"

definition gret :: "'a \<Rightarrow> ('s, 'e, 'a) gx" where
  "gret a s = (s, Inr a)"

definition glift :: "'e + 'a \<Rightarrow> ('s, 'e, 'a) gx" where
  "glift r s = (s, r)"

definition gbind :: "('s, 'e, 'a) gx \<Rightarrow> ('a \<Rightarrow> ('s, 'e, 'b) gx) \<Rightarrow> ('s, 'e, 'b) gx" where
  "gbind m f s = (case m s of (s', Inl e) \<Rightarrow> (s', Inl e) | (s', Inr a) \<Rightarrow> f a s')"

lemma gret_apply [simp, gx_simps]: "gret a s = (s, Inr a)"
  by (simp add: gret_def)

lemma glift_apply [simp, gx_simps]: "glift r s = (s, r)"
  by (simp add: glift_def)

lemma gbind_eq_Inr [gx_simps]:
  "gbind m f s = (s'', Inr b) \<longleftrightarrow> (\<exists>s' a. m s = (s', Inr a) \<and> f a s' = (s'', Inr b))"
  by (auto simp: gbind_def split: prod.splits sum.splits)

lemma gbind_glift: "gbind (glift r) f s = (case r of Inl e \<Rightarrow> (s, Inl e) | Inr a \<Rightarrow> f a s)"
  by (simp add: gbind_def)

section \<open>First match in a list\<close>

fun find_index :: "('a \<Rightarrow> bool) \<Rightarrow> 'a list \<Rightarrow> nat option" where
  "find_index P [] = None"
| "find_index P (x # xs) = (if P x then Some 0 else map_option Suc (find_index P xs))"

lemma find_index_None: "find_index P xs = None \<longleftrightarrow> (\<forall>x \<in> set xs. \<not> P x)"
  by (induction xs) auto

lemma find_index_Some:
  "find_index P xs = Some i \<longleftrightarrow> i < length xs \<and> P (xs ! i) \<and> (\<forall>j < i. \<not> P (xs ! j))"
proof (induction xs arbitrary: i)
  case Nil
  then show ?case by simp
next
  case (Cons x xs)
  then show ?case
    by (cases i) (auto simp: nth_Cons All_less_Suc2 split: nat.splits)
qed

lemma find_index_SomeD:
  assumes "find_index P xs = Some i"
  shows "i < length xs" "P (xs ! i)"
  using assms by (auto simp: find_index_Some)

section \<open>Decimal text\<close>

definition digit :: "nat \<Rightarrow> char" where
  "digit n = char_of (48 + n)"

fun to_string :: "nat \<Rightarrow> string" where
  "to_string n = (if n < 10 then [digit n] else to_string (n div 10) @ [digit (n mod 10)])"

declare to_string.simps [simp del]

lemma to_string_small: "n < 10 \<Longrightarrow> to_string n = [digit n]"
  by (simp add: to_string.simps)

lemma to_string_not_Nil [simp]: "to_string n \<noteq> []"
  by (simp add: to_string.simps [of n])

section \<open>ASCII identifiers\<close>

definition char_between :: "char \<Rightarrow> char \<Rightarrow> char \<Rightarrow> bool" where
  "char_between lo hi c \<longleftrightarrow> lo \<le> c \<and> c \<le> hi"

definition is_digit_char :: "char \<Rightarrow> bool" where
  "is_digit_char = char_between CHR ''0'' CHR ''9''"

definition is_letter :: "char \<Rightarrow> bool" where
  "is_letter c \<longleftrightarrow> char_between CHR ''A'' CHR ''Z'' c \<or> char_between CHR ''a'' CHR ''z'' c"

definition is_alnum :: "char \<Rightarrow> bool" where
  "is_alnum c \<longleftrightarrow> is_letter c \<or> is_digit_char c"

definition is_lower_hex :: "char \<Rightarrow> bool" where
  "is_lower_hex c \<longleftrightarrow> is_digit_char c \<or> char_between CHR ''a'' CHR ''f'' c"

definition id_char :: "char \<Rightarrow> bool" where
  "id_char c \<longleftrightarrow> is_alnum c \<or> c = CHR ''.'' \<or> c = CHR ''_'' \<or> c = CHR '':'' \<or> c = CHR ''-''"

definition ascii_id :: "nat \<Rightarrow> string \<Rightarrow> bool" where
  "ascii_id limit s \<longleftrightarrow> s \<noteq> [] \<and> length s \<le> limit \<and> is_alnum (hd s) \<and> list_all id_char s"

definition uuid_separator :: "nat \<Rightarrow> bool" where
  "uuid_separator i \<longleftrightarrow> i = 8 \<or> i = 13 \<or> i = 18 \<or> i = 23"

definition canonical_uuid :: "string \<Rightarrow> bool" where
  "canonical_uuid s \<longleftrightarrow> length s = 36 \<and>
     list_all (\<lambda>(i, c). if uuid_separator i then c = CHR ''-'' else is_lower_hex c) (enumerate 0 s)"

lemma ascii_id_mono: "ascii_id m s \<Longrightarrow> m \<le> n \<Longrightarrow> ascii_id n s"
  by (auto simp: ascii_id_def)

lemma canonical_uuid_length: "canonical_uuid s \<Longrightarrow> length s = 36"
  by (simp add: canonical_uuid_def)

end
