(* ===== verification/Simulation.thy ===== *)
theory Simulation
  imports Prelude
begin

text \<open>
  The fixed 60 Hz stepper of \<open>include/omniweft/simulation.hpp\<close> and
  \<open>src/simulation.cpp\<close>: elapsed nanoseconds become due ticks in exact 64-bit arithmetic,
  at most four of them are executed and the rest is counted as dropped.  The callback is a
  computation on a state of its own that may throw.  The lemmas show that the arithmetic
  never wraps and that no time is lost.
\<close>

record step_stats =
  simulation_tick :: u64
  overload_count :: u64
  dropped_ticks :: u64
  remainder_units :: u64

record step_batch =
  due_ticks :: u64
  executed_ticks :: u64
  batch_dropped_ticks :: u64
  batch_remainder_units :: u64
  batch_overloaded :: bool

datatype 'x step_error = Invalid_Argument | Overflow_Error | Callback_Threw 'x

definition initial_stats :: step_stats where
  "initial_stats =
     \<lparr>simulation_tick = 0, overload_count = 0, dropped_ticks = 0, remainder_units = 0\<rparr>"

definition catch_up_cap :: u64 where
  "catch_up_cap = 4"

definition phase_units :: u64 where
  "phase_units = 1000000000"

definition step_batch_of :: "step_stats \<Rightarrow> u64 \<Rightarrow> step_batch" where
  "step_batch_of stats elapsed_ns =
     (let partial = remainder_units stats + (elapsed_ns mod phase_units) * 60;
          due = (elapsed_ns div phase_units) * 60 + partial div phase_units
      in \<lparr>due_ticks = due, executed_ticks = min due catch_up_cap,
          batch_dropped_ticks = (if due > catch_up_cap then due - catch_up_cap else 0),
          batch_remainder_units = partial mod phase_units, batch_overloaded = due > catch_up_cap\<rparr>)"

definition counters_exhausted :: "step_stats \<Rightarrow> step_batch \<Rightarrow> bool" where
  "counters_exhausted stats batch \<longleftrightarrow>
     simulation_tick stats > u64_max - executed_ticks batch \<or>
     dropped_ticks stats > u64_max - batch_dropped_ticks batch \<or>
     batch_overloaded batch \<and> overload_count stats = u64_max"

fun run_steps ::
  "nat \<Rightarrow> (u64 \<Rightarrow> ('s, 'x, unit) gx) \<Rightarrow> step_stats \<times> 's \<Rightarrow> (step_stats \<times> 's) \<times> ('x + unit)" where
  "run_steps 0 on_step (stats, s) = ((stats, s), Inr ())"
| "run_steps (Suc n) on_step (stats, s) =
     (case on_step (simulation_tick stats + 1) s of
        (s', Inl x) \<Rightarrow> ((stats, s'), Inl x)
      | (s', Inr _) \<Rightarrow>
          run_steps n on_step (stats\<lparr>simulation_tick := simulation_tick stats + 1\<rparr>, s'))"

definition advance ::
  "u64 \<Rightarrow> (u64 \<Rightarrow> ('s, 'x, unit) gx) option \<Rightarrow>
     (step_stats \<times> 's, 'x step_error, step_batch) gx" where
  "advance elapsed_ns callback st =
     (case callback of
        None \<Rightarrow> (st, Inl Invalid_Argument)
      | Some on_step \<Rightarrow>
          let batch = step_batch_of (fst st) elapsed_ns in
          if counters_exhausted (fst st) batch then (st, Inl Overflow_Error)
          else case run_steps (unat (executed_ticks batch)) on_step st of
                 (st', Inl x) \<Rightarrow> (st', Inl (Callback_Threw x))
               | ((stats, s), Inr _) \<Rightarrow>
                   ((stats\<lparr>dropped_ticks := dropped_ticks stats + batch_dropped_ticks batch,
                           overload_count := overload_count stats + (if batch_overloaded batch then 1 else 0),
                           remainder_units := batch_remainder_units batch\<rparr>, s), Inr batch))"

section \<open>Exact arithmetic\<close>

definition stats_ok :: "step_stats \<Rightarrow> bool" where
  "stats_ok stats \<longleftrightarrow> remainder_units stats < phase_units"

lemma unat_phase_units [simp]: "unat phase_units = 1000000000"
  by (simp add: phase_units_def)

lemma unat_catch_up_cap [simp]: "unat catch_up_cap = 4"
  by (simp add: catch_up_cap_def)

lemma unat_no_overflow:
  "unat a + unat b < 2 ^ 64 \<Longrightarrow> unat (a + b :: u64) = unat a + unat b"
  "unat a * unat b < 2 ^ 64 \<Longrightarrow> unat (a * b :: u64) = unat a * unat b"
  by (simp_all add: unat_word_ariths)

lemma split_quotient:
  assumes "0 < (n :: nat)"
  shows "(r + c * e) div n = c * (e div n) + (r + c * (e mod n)) div n"
    and "(r + c * e) mod n = (r + c * (e mod n)) mod n"
proof -
  have "c * (n * (e div n) + e mod n) = c * e" by simp
  then have eq: "r + c * e = (r + c * (e mod n)) + (c * (e div n)) * n"
    by (metis add.assoc add.commute distrib_left mult.assoc mult.commute)
  show "(r + c * e) div n = c * (e div n) + (r + c * (e mod n)) div n"
    unfolding eq using assms by (simp only: div_mult_self1)
  show "(r + c * e) mod n = (r + c * (e mod n)) mod n"
    unfolding eq by (simp only: mod_mult_self1)
qed

text \<open>
  With the remainder below one phase, the due ticks and the new remainder are the exact
  quotient and remainder of \<open>60 * elapsed\<close> plus the old remainder.
\<close>

lemma step_batch_exact:
  assumes "stats_ok stats"
  shows "unat (due_ticks (step_batch_of stats e)) =
           (unat (remainder_units stats) + 60 * unat e) div 1000000000"
    and "unat (batch_remainder_units (step_batch_of stats e)) =
           (unat (remainder_units stats) + 60 * unat e) mod 1000000000"
proof -
  let ?r = "unat (remainder_units stats)" and ?e = "unat e"
  let ?partial = "remainder_units stats + (e mod phase_units) * 60"
  let ?k = "?r + 60 * (?e mod 1000000000)"
  have r: "?r < 1000000000"
    using assms by (simp add: stats_ok_def word_less_nat_alt)
  have m: "unat (e mod phase_units) = ?e mod 1000000000" "?e mod 1000000000 < 1000000000"
    and q: "unat (e div phase_units) = ?e div 1000000000" "?e div 1000000000 < 18446744074"
    using unat_u64_less [of e] by (simp_all add: unat_mod_distrib unat_div_distrib)
  have "unat ((e mod phase_units) * 60) = 60 * (?e mod 1000000000)"
    using m by (subst unat_no_overflow(2)) simp_all
  with r m(2) have p: "unat ?partial = ?k"
    by (subst unat_no_overflow(1)) simp_all
  have d: "unat ((e div phase_units) * 60) = 60 * (?e div 1000000000)"
    using q by (subst unat_no_overflow(2)) simp_all
  have k: "?k div 1000000000 < 62"
    using r m(2) by (simp add: less_mult_imp_div_less)
  have "unat (due_ticks (step_batch_of stats e)) = 60 * (?e div 1000000000) + ?k div 1000000000"
    unfolding step_batch_of_def Let_def using q(2) k
    by (simp add: d p unat_div_distrib unat_no_overflow(1))
  also have "\<dots> = (?r + 60 * ?e) div 1000000000"
    by (rule split_quotient(1) [symmetric]) simp
  finally show "unat (due_ticks (step_batch_of stats e)) = (?r + 60 * ?e) div 1000000000" .
  have "unat (batch_remainder_units (step_batch_of stats e)) = ?k mod 1000000000"
    by (simp add: step_batch_of_def Let_def p unat_mod_distrib)
  also have "\<dots> = (?r + 60 * ?e) mod 1000000000"
    by (rule split_quotient(2) [symmetric]) simp
  finally show "unat (batch_remainder_units (step_batch_of stats e)) = (?r + 60 * ?e) mod 1000000000" .
qed

section \<open>A step\<close>

text \<open>
  A callback that cannot throw is a function on its state; \<open>tick_calls\<close> is what calling it
  for \<open>n\<close> consecutive ticks after \<open>t\<close> does.
\<close>

definition total_callback :: "(u64 \<Rightarrow> 's \<Rightarrow> 's) \<Rightarrow> u64 \<Rightarrow> ('s, 'x, unit) gx" where
  "total_callback f t = (\<lambda>s. (f t s, Inr ()))"

fun tick_calls :: "nat \<Rightarrow> (u64 \<Rightarrow> 's \<Rightarrow> 's) \<Rightarrow> u64 \<Rightarrow> 's \<Rightarrow> 's" where
  "tick_calls 0 f t s = s"
| "tick_calls (Suc n) f t s = tick_calls n f (t + 1) (f (t + 1) s)"

lemma run_steps_total:
  "run_steps n (total_callback f) (stats, s) =
     ((stats\<lparr>simulation_tick := simulation_tick stats + word_of_nat n\<rparr>,
       tick_calls n f (simulation_tick stats) s), Inr ())"
  by (induction n arbitrary: stats s) (simp_all add: total_callback_def algebra_simps)

lemma run_steps_remainder:
  "run_steps n f (stats, s) = ((stats', s'), r) \<Longrightarrow>
     remainder_units stats' = remainder_units stats \<and> dropped_ticks stats' = dropped_ticks stats \<and>
     overload_count stats' = overload_count stats"
proof (induction n arbitrary: stats s)
  case 0
  then show ?case by simp
next
  case (Suc n)
  then show ?case by (fastforce split: prod.splits sum.splits)
qed

lemma remainder_below_phase: "x mod phase_units < phase_units"
  by (simp add: word_less_nat_alt unat_mod_distrib)

lemma advance_stats_ok:
  assumes "stats_ok stats" "advance e callback (stats, s) = ((stats', s'), r)"
  shows "stats_ok stats'"
  using assms run_steps_remainder remainder_below_phase
  by (fastforce simp: advance_def stats_ok_def step_batch_of_def Let_def
      split: option.splits if_splits prod.splits sum.splits)

lemma batch_split:
  fixes stats e
  defines "b \<equiv> step_batch_of stats e"
  shows "unat (executed_ticks b) = min (unat (due_ticks b)) 4"
    and "unat (due_ticks b) = unat (executed_ticks b) + unat (batch_dropped_ticks b)"
proof -
  let ?d = "due_ticks b"
  have ex: "executed_ticks b = min ?d catch_up_cap"
    and dr: "batch_dropped_ticks b = (if ?d > catch_up_cap then ?d - catch_up_cap else 0)"
    by (simp_all add: b_def step_batch_of_def Let_def)
  show m: "unat (executed_ticks b) = min (unat ?d) 4"
    unfolding ex by (simp add: min_def word_le_nat_alt)
  show "unat ?d = unat (executed_ticks b) + unat (batch_dropped_ticks b)"
    unfolding m dr by (simp add: word_less_nat_alt unat_sub_if_size word_le_nat_alt)
qed

lemma no_wrap: "a \<le> u64_max - b \<Longrightarrow> unat (a + b) = unat a + unat b"
proof -
  assume "a \<le> u64_max - b"
  moreover have "unat (u64_max - b) = unat u64_max - unat b"
    by (rule unat_sub) simp
  ultimately have "unat a + unat b \<le> unat u64_max"
    using word_n1_ge [of b] by (simp add: word_le_nat_alt)
  then have "unat a + unat b < 2 ^ 64"
    using unat_u64_less [of u64_max] by (rule le_less_trans)
  then show ?thesis by (rule unat_no_overflow(1))
qed

definition sixtieths :: "step_stats \<Rightarrow> nat" where
  "sixtieths stats =
     1000000000 * (unat (simulation_tick stats) + unat (dropped_ticks stats)) +
     unat (remainder_units stats)"

lemma advance_total_cases:
  assumes "advance e (Some (total_callback f)) (stats, s) = ((stats', s'), r)"
  shows "r = Inl Overflow_Error \<and> stats' = stats \<and> s' = s \<or>
    (let b = step_batch_of stats e in
      r = Inr b \<and> \<not> counters_exhausted stats b \<and>
      simulation_tick stats' = simulation_tick stats + executed_ticks b \<and>
      dropped_ticks stats' = dropped_ticks stats + batch_dropped_ticks b \<and>
      overload_count stats' = overload_count stats + (if batch_overloaded b then 1 else 0) \<and>
      remainder_units stats' = batch_remainder_units b \<and>
      s' = tick_calls (unat (executed_ticks b)) f (simulation_tick stats) s)"
  using assms
  by (auto simp: advance_def run_steps_total Let_def split: if_splits)

lemma advance_exact:
  assumes ok: "stats_ok stats"
    and adv: "advance e (Some (total_callback f)) (stats, s) = ((stats', s'), Inr batch)"
  shows "sixtieths stats' = sixtieths stats + 60 * unat e"
    and "unat (simulation_tick stats') = unat (simulation_tick stats) + min (unat (due_ticks batch)) 4"
    and "s' = tick_calls (min (unat (due_ticks batch)) 4) f (simulation_tick stats) s"
proof -
  define b where "b = step_batch_of stats e"
  note c = advance_total_cases [OF adv, folded b_def, simplified Let_def, simplified]
  have b: "batch = b" and nx: "\<not> counters_exhausted stats b"
    and t: "simulation_tick stats' = simulation_tick stats + executed_ticks b"
    and d: "dropped_ticks stats' = dropped_ticks stats + batch_dropped_ticks b"
    and r: "remainder_units stats' = batch_remainder_units b"
    and s': "s' = tick_calls (unat (executed_ticks b)) f (simulation_tick stats) s"
    using c by auto
  have tn: "unat (simulation_tick stats') = unat (simulation_tick stats) + unat (executed_ticks b)"
    unfolding t using nx by (intro no_wrap) (simp add: counters_exhausted_def not_less)
  have dn: "unat (dropped_ticks stats') = unat (dropped_ticks stats) + unat (batch_dropped_ticks b)"
    unfolding d using nx by (intro no_wrap) (simp add: counters_exhausted_def not_less)
  note split = batch_split [of stats e, folded b_def]
  show "unat (simulation_tick stats') = unat (simulation_tick stats) + min (unat (due_ticks batch)) 4"
    using tn split(1) b by simp
  show "s' = tick_calls (min (unat (due_ticks batch)) 4) f (simulation_tick stats) s"
    using s' split(1) b by simp
  have "1000000000 * unat (due_ticks b) + unat (batch_remainder_units b) =
      unat (remainder_units stats) + 60 * unat e"
    unfolding b_def step_batch_exact [OF ok] by (rule mult_div_mod_eq)
  then show "sixtieths stats' = sixtieths stats + 60 * unat e"
    using split(2) tn dn r by (simp add: sixtieths_def)
qed

section \<open>A run of steps\<close>

fun advance_all ::
  "u64 list \<Rightarrow> (u64 \<Rightarrow> 's \<Rightarrow> 's) \<Rightarrow> (step_stats \<times> 's, 'x step_error, unit) gx" where
  "advance_all [] f st = (st, Inr ())"
| "advance_all (e # es) f st =
     (case advance e (Some (total_callback f)) st of
        (st', Inl x) \<Rightarrow> (st', Inl x) | (st', Inr _) \<Rightarrow> advance_all es f st')"

lemma advance_all_sixtieths:
  fixes u :: unit and r0 :: "'x step_error + unit"
  shows "stats_ok stats \<Longrightarrow> advance_all es f (stats, s) = ((stats', s'), r0) \<Longrightarrow> r0 = Inr u \<Longrightarrow>
     sixtieths stats' = sixtieths stats + 60 * sum_list (map unat es) \<and> stats_ok stats'"
proof (induction es arbitrary: stats s)
  case Nil
  then show ?case by simp
next
  case (Cons e es)
  obtain stats1 s1 r1 where one: "advance e (Some (total_callback f)) (stats, s) =
      ((stats1, s1), r1 :: 'x step_error + step_batch)"
    by (metis prod.exhaust)
  with Cons.prems(2, 3) obtain b where r1: "r1 = Inr b"
    and rest: "advance_all es f (stats1, s1) = ((stats', s'), r0)"
    by (cases r1) auto
  note one = one [unfolded r1]
  have "stats_ok stats1" using advance_stats_ok [OF Cons.prems(1) one] .
  from Cons.IH [OF this rest Cons.prems(3)] advance_exact(1) [OF Cons.prems(1) one] show ?case by simp
qed

section \<open>The schedule\<close>

text \<open>
  What a run owes by the wall clock: after \<open>e\<close> nanoseconds \<open>60 * e div 10^9\<close> ticks are due; a call
  executes those that have become due since the previous call, at most four of them.
\<close>

definition due_at :: "nat \<Rightarrow> nat" where
  "due_at e = 60 * e div 1000000000"

fun scheduled :: "nat \<Rightarrow> u64 list \<Rightarrow> nat" where
  "scheduled now [] = 0"
| "scheduled now (e # es) = min (due_at (now + unat e) - due_at now) 4 + scheduled (now + unat e) es"

definition on_schedule :: "nat \<Rightarrow> nat \<Rightarrow> step_stats \<Rightarrow> bool" where
  "on_schedule now calls stats \<longleftrightarrow>
     unat (simulation_tick stats) + unat (dropped_ticks stats) = due_at now \<and>
     unat (remainder_units stats) = 60 * now mod 1000000000 \<and> unat (overload_count stats) \<le> calls"

lemma on_schedule_ok: "on_schedule now calls stats \<Longrightarrow> stats_ok stats"
  by (simp add: on_schedule_def stats_ok_def word_less_nat_alt)

lemma due_at_mono: "a \<le> b \<Longrightarrow> due_at a \<le> due_at b"
  by (simp add: due_at_def div_le_mono)

lemma tick_calls_add: "tick_calls (m + n) f t s = tick_calls n f (t + word_of_nat m) (tick_calls m f t s)"
  by (induction m arbitrary: t s) (simp_all add: algebra_simps)

lemma due_since:
  assumes "on_schedule now calls stats"
  shows "unat (due_ticks (step_batch_of stats e)) = due_at (now + unat e) - due_at now"
    and "unat (batch_remainder_units (step_batch_of stats e)) = 60 * (now + unat e) mod 1000000000"
proof -
  have r: "unat (remainder_units stats) = 60 * now mod 1000000000" using assms by (simp add: on_schedule_def)
  have add_rest: "a = b + c \<Longrightarrow> a + d = (b + d) + c" for a b c d :: nat by simp
  have eq: "60 * (now + unat e) = (unat (remainder_units stats) + 60 * unat e) + due_at now * 1000000000"
    unfolding r due_at_def distrib_left
    by (rule add_rest) (rule mod_div_mult_eq [symmetric])
  show "unat (due_ticks (step_batch_of stats e)) = due_at (now + unat e) - due_at now"
    unfolding step_batch_exact [OF on_schedule_ok [OF assms]] due_at_def [of "now + unat e"] eq by simp
  show "unat (batch_remainder_units (step_batch_of stats e)) = 60 * (now + unat e) mod 1000000000"
    unfolding step_batch_exact [OF on_schedule_ok [OF assms]] eq by simp
qed

lemma advance_on_schedule:
  assumes s: "on_schedule now calls stats" and room: "due_at (now + unat e) < 2 ^ 64" "Suc calls < 2 ^ 64"
  obtains stats' where
    "advance e (Some (total_callback f)) (stats, s) =
       ((stats', tick_calls (min (due_at (now + unat e) - due_at now) 4) f (simulation_tick stats) s),
        Inr (step_batch_of stats e) :: 'x step_error + step_batch)"
    "on_schedule (now + unat e) (Suc calls) stats'"
    "unat (simulation_tick stats') = unat (simulation_tick stats) + min (due_at (now + unat e) - due_at now) 4"
proof -
  define b where "b = step_batch_of stats e"
  note due = due_since [OF s, of e, folded b_def] and split = batch_split [of stats e, folded b_def]
  have "due_at now \<le> due_at (now + unat e)" by (rule due_at_mono) simp
  then have sum: "unat (simulation_tick stats) + unat (dropped_ticks stats) + unat (executed_ticks b) + unat (batch_dropped_ticks b) =
      due_at (now + unat e)"
    using s split(2) due(1) by (simp add: on_schedule_def)
  have unat_max_u64: "unat u64_max = 18446744073709551615"
    by code_simp
  have fits: "x \<le> u64_max - y" if "unat x + unat y < 2 ^ 64" for x y :: u64
  proof -
    have "unat (u64_max - y) = 2 ^ 64 - 1 - unat y" by (subst unat_sub) (simp_all add: unat_max_u64)
    then show ?thesis using that by (simp add: word_le_nat_alt)
  qed
  have few: "unat (overload_count stats) + 1 < 2 ^ 64" using s room(2) by (simp add: on_schedule_def)
  have "overload_count stats \<noteq> u64_max"
    using few unat_max_u64 by auto
  moreover have "simulation_tick stats \<le> u64_max - executed_ticks b" "dropped_ticks stats \<le> u64_max - batch_dropped_ticks b"
    by (rule fits; use sum room(1) in linarith)+
  ultimately have nx: "\<not> counters_exhausted stats b" by (simp add: counters_exhausted_def not_less)
  define stats' where "stats' = stats\<lparr>simulation_tick := simulation_tick stats + executed_ticks b,
      dropped_ticks := dropped_ticks stats + batch_dropped_ticks b,
      overload_count := overload_count stats + (if batch_overloaded b then 1 else 0),
      remainder_units := batch_remainder_units b\<rparr>"
  have t: "unat (simulation_tick stats') = unat (simulation_tick stats) + unat (executed_ticks b)"
      "unat (dropped_ticks stats') = unat (dropped_ticks stats) + unat (batch_dropped_ticks b)"
    using nx by (auto simp: stats'_def counters_exhausted_def not_less intro: no_wrap)
  have o: "unat (overload_count stats') \<le> Suc calls"
    using s few by (auto simp: stats'_def on_schedule_def unat_no_overflow(1) split: if_splits)
  have "on_schedule (now + unat e) (Suc calls) stats'"
    using t o sum due(2) by (simp add: on_schedule_def) (simp add: stats'_def)
  moreover have n: "min (due_at (now + unat e) - due_at now) 4 = unat (executed_ticks b)"
    using split(1) due(1) by simp
  moreover have "advance e (Some (total_callback f)) (stats, s) =
      ((stats', tick_calls (min (due_at (now + unat e) - due_at now) 4) f (simulation_tick stats) s),
       Inr b :: 'x step_error + step_batch)"
    using nx unfolding n by (simp add: advance_def Let_def b_def [symmetric] run_steps_total stats'_def)
  ultimately show ?thesis using that t(1) unfolding b_def by simp
qed

lemma advance_all_scheduled:
  assumes "on_schedule now calls stats" "due_at (now + sum_list (map unat es)) < 2 ^ 64" "calls + length es < 2 ^ 64"
  shows "\<exists>stats'. advance_all es f (stats, s) =
      ((stats', tick_calls (scheduled now es) f (simulation_tick stats) s), Inr () :: 'x step_error + unit) \<and>
    on_schedule (now + sum_list (map unat es)) (calls + length es) stats' \<and>
    unat (simulation_tick stats') = unat (simulation_tick stats) + scheduled now es"
  using assms
proof (induction es arbitrary: now calls stats s)
  case Nil
  then show ?case by simp
next
  case (Cons e es)
  let ?n = "min (due_at (now + unat e) - due_at now) 4"
  have "due_at (now + unat e) \<le> due_at (now + sum_list (map unat (e # es)))" by (rule due_at_mono) simp
  then have "due_at (now + unat e) < 2 ^ 64" "Suc calls < 2 ^ 64" using Cons.prems(2,3) by simp_all
  from advance_on_schedule [OF Cons.prems(1) this, of f s] obtain stats1 where
    one: "advance e (Some (total_callback f)) (stats, s) =
       ((stats1, tick_calls ?n f (simulation_tick stats) s), Inr (step_batch_of stats e) :: 'x step_error + step_batch)"
    and s1: "on_schedule (now + unat e) (Suc calls) stats1"
    and t: "unat (simulation_tick stats1) = unat (simulation_tick stats) + ?n" by metis
  have w: "simulation_tick stats1 = simulation_tick stats + word_of_nat ?n"
  proof -
    have "simulation_tick stats1 = word_of_nat (unat (simulation_tick stats1))" by simp
    also have "\<dots> = simulation_tick stats + word_of_nat ?n" unfolding t by simp
    finally show ?thesis .
  qed
  obtain stats' where "advance_all es f (stats1, tick_calls ?n f (simulation_tick stats) s) =
      ((stats', tick_calls (scheduled (now + unat e) es) f (simulation_tick stats1) (tick_calls ?n f (simulation_tick stats) s)),
       Inr () :: 'x step_error + unit)"
    "on_schedule (now + unat e + sum_list (map unat es)) (Suc calls + length es) stats'"
    "unat (simulation_tick stats') = unat (simulation_tick stats1) + scheduled (now + unat e) es"
    using Cons.IH [OF s1, of "tick_calls ?n f (simulation_tick stats) s"] Cons.prems(2,3) by (auto simp: add.assoc)
  then show ?case using one t w tick_calls_add [of ?n "scheduled (now + unat e) es" f "simulation_tick stats" s]
    by (simp add: add.assoc)
qed

section \<open>Properties\<close>

text \<open>C40: No time is lost: as long as the ticks due fit 64 bits, a run of \<open>advance\<close> calls from a new
  stepper, with a callback that does not throw, never reports an exhausted counter; each call executes the ticks that have become due at
  60 Hz by the exact elapsed time, at most four, and counts the others as dropped; the remainder is
  the exact rest; and the callbacks that ran are those of ticks 1, 2, 3, ..., once each, in order.\<close>

theorem no_time_lost:
  assumes "60 * sum_list (map unat es) div 1000000000 < 2 ^ 64" "length es < 2 ^ 64"
  shows "\<exists>stats. advance_all es f (initial_stats, s) =
      ((stats, tick_calls (scheduled 0 es) f 0 s), Inr () :: 'x step_error + unit) \<and>
    unat (simulation_tick stats) = scheduled 0 es \<and>
    unat (simulation_tick stats) + unat (dropped_ticks stats) = 60 * sum_list (map unat es) div 1000000000 \<and>
    unat (remainder_units stats) = 60 * sum_list (map unat es) mod 1000000000"
proof -
  have "on_schedule 0 0 initial_stats" by (simp add: on_schedule_def initial_stats_def due_at_def)
  from advance_all_scheduled [OF this, of es f s] assms show ?thesis
    by (auto simp: on_schedule_def due_at_def initial_stats_def)
qed

theorem no_time_lost_witness:
  "\<exists>stats. advance_all [20000000, 100000000, 5000000] (\<lambda>t ts. ts @ [t]) (initial_stats, []) =
      ((stats, [1, 2, 3, 4, 5]), Inr () :: unit step_error + unit) \<and>
    unat (simulation_tick stats) = 5 \<and> unat (dropped_ticks stats) = 2 \<and> unat (remainder_units stats) = 500000000"
proof -
  have n: "scheduled 0 [20000000, 100000000, 5000000] = 5" by (simp add: due_at_def)
  have t: "tick_calls 5 (\<lambda>t ts. ts @ [t]) 0 [] = [1, 2, 3, 4, 5]" by (simp add: eval_nat_numeral)
  show ?thesis
    using no_time_lost [of "[20000000, 100000000, 5000000]" "\<lambda>t ts. ts @ [t]" "[]", unfolded n t] by auto
qed

end
