(* ===== verification/Byte_Codec.thy ===== *)
theory Byte_Codec
  imports Prelude
begin

text \<open>
  Byte strings shared by the encoders and decoders of the program (\<open>world.cpp\<close>,
  \<open>assets.cpp\<close>, \<open>persistence.cpp\<close>, \<open>gltf.cpp\<close>): little-endian integers, the bytes
  of a string, lower-case hexadecimal text, and the contract of an encoding that can be
  read back out of a longer byte string.  Every concrete field encoder of a component is
  an instance of that contract.
\<close>

section \<open>Little-endian integers\<close>

primrec le_bytes :: "nat \<Rightarrow> nat \<Rightarrow> bytes" where
  "le_bytes 0 n = []"
| "le_bytes (Suc k) n = word_of_nat n # le_bytes k (n div 256)"

fun le_value :: "bytes \<Rightarrow> nat" where
  "le_value [] = 0"
| "le_value (b # bs) = unat b + 256 * le_value bs"

lemma length_le_bytes [simp, codec_simps]: "length (le_bytes k n) = k"
  by (induction k arbitrary: n) auto

lemma le_value_le_bytes_mod: "le_value (le_bytes k n) = n mod 256 ^ k"
proof (induction k arbitrary: n)
  case 0
  then show ?case by simp
next
  case (Suc k)
  have "n mod 256 + 256 * (n div 256 mod 256 ^ k) = n mod (256 * 256 ^ k)"
    by (metis mod_mult2_eq add.commute mult.commute)
  then show ?case by (simp add: Suc unsigned_of_nat take_bit_eq_mod)
qed

lemma le_value_le_bytes [codec_simps]: "n < 256 ^ k \<Longrightarrow> le_value (le_bytes k n) = n"
  by (simp add: le_value_le_bytes_mod)

lemma le_value_bound: "le_value bs < 256 ^ length bs"
proof (induction bs)
  case Nil
  then show ?case by simp
next
  case (Cons b bs)
  have "unat b + 256 * le_value bs < 256 * Suc (le_value bs)"
    using unat_u8_less [of b] by simp
  also have "\<dots> \<le> 256 * 256 ^ length bs"
    using Cons by (intro mult_le_mono2) simp
  finally show ?case by simp
qed

lemma le_bytes_le_value [codec_simps]: "le_bytes (length bs) (le_value bs) = bs"
proof (induction bs)
  case Nil
  then show ?case by simp
next
  case (Cons b bs)
  have "(unat b + 256 * le_value bs) div 256 = le_value bs"
    using unat_u8_less [of b] by simp
  moreover have z: "(256 :: u8) = 0" by simp
  have "(word_of_nat (unat b + 256 * le_value bs) :: u8) = b"
    by (simp only: of_nat_add of_nat_mult of_nat_unat ucast_id of_nat_numeral z)
      (simp only: mult_zero_left add_0_right)
  ultimately show ?case using Cons by simp
qed

lemma le_bytes_inject:
  "m < 256 ^ k \<Longrightarrow> n < 256 ^ k \<Longrightarrow> le_bytes k m = le_bytes k n \<longleftrightarrow> m = n"
  by (metis le_value_le_bytes)

section \<open>Text as bytes\<close>

definition str_bytes :: "string \<Rightarrow> bytes" where
  "str_bytes s = map of_char s"

definition bytes_str :: "bytes \<Rightarrow> string" where
  "bytes_str bs = map (\<lambda>b. char_of (unat b)) bs"

lemma length_str_bytes [simp, codec_simps]: "length (str_bytes s) = length s"
  by (simp add: str_bytes_def)

lemma length_bytes_str [simp, codec_simps]: "length (bytes_str bs) = length bs"
  by (simp add: bytes_str_def)

lemma of_char_byte: "(of_char c :: 8 word) = word_of_nat (of_char c)"
  by (simp add: of_nat_of_char)

lemma unat_of_char_byte [simp]: "unat (of_char c :: 8 word) = of_char c"
proof -
  have "(of_char c :: nat) < 256" by simp
  then show ?thesis
    by (simp add: of_char_byte unsigned_of_nat take_bit_eq_mod)
qed

lemma bytes_str_str_bytes [simp, codec_simps]: "bytes_str (str_bytes s) = s"
  by (simp add: bytes_str_def str_bytes_def comp_def)

lemma str_bytes_inject [simp]: "str_bytes s = str_bytes t \<longleftrightarrow> s = t"
  by (metis bytes_str_str_bytes)

lemma str_bytes_bytes_str [simp, codec_simps]: "str_bytes (bytes_str bs) = bs"
proof -
  have "(of_char (char_of (unat b) :: char) :: 8 word) = b" for b :: "8 word"
    by (simp add: of_char_byte)
  then show ?thesis by (simp add: str_bytes_def bytes_str_def comp_def)
qed

section \<open>Encodings that can be read back\<close>

locale self_delimiting =
  fixes enc :: "'a \<Rightarrow> bytes"
    and ok :: "'a \<Rightarrow> bool"
  assumes enc_inject: "ok a \<Longrightarrow> ok b \<Longrightarrow> enc a @ r = enc b @ s \<Longrightarrow> a = b \<and> r = s"
begin

lemma enc_eqD: "ok a \<Longrightarrow> ok b \<Longrightarrow> enc a = enc b \<Longrightarrow> a = b"
  using enc_inject [of a b "[]" "[]"] by simp

lemma concat_inject:
  assumes "list_all ok xs" "list_all ok ys" "length xs = length ys"
    and "concat (map enc xs) @ r = concat (map enc ys) @ s"
  shows "xs = ys \<and> r = s"
  using assms(3, 1, 2, 4)
proof (induction xs ys rule: list_induct2)
  case Nil
  then show ?case by simp
next
  case (Cons x xs y ys)
  from Cons.prems have "x = y \<and> concat (map enc xs) @ r = concat (map enc ys) @ s"
    using enc_inject [of x y "concat (map enc xs) @ r" "concat (map enc ys) @ s"] by simp
  with Cons show ?case by simp
qed

end

lemma self_delimiting_fixed:
  assumes "\<And>a. ok a \<Longrightarrow> length (enc a) = n"
    and "\<And>a b. ok a \<Longrightarrow> ok b \<Longrightarrow> enc a = enc b \<Longrightarrow> a = b"
  shows "self_delimiting enc ok"
  using assms by unfold_locales (metis append_eq_append_conv)

lemma self_delimiting_pair:
  assumes "self_delimiting e1 ok1" "self_delimiting e2 ok2"
  shows "self_delimiting (\<lambda>(a, b). e1 a @ e2 b) (\<lambda>(a, b). ok1 a \<and> ok2 b)"
proof (unfold_locales, clarsimp simp del: append_assoc)
  fix a b c d r s
  assume ok: "ok1 a" "ok2 b" "ok1 c" "ok2 d" and eq: "(e1 a @ e2 b) @ r = (e1 c @ e2 d) @ s"
  have a: "a = c \<and> e2 b @ r = e2 d @ s"
    using self_delimiting.enc_inject [OF assms(1) ok(1, 3)] eq by simp
  then show "a = c \<and> b = d \<and> r = s"
    using self_delimiting.enc_inject [OF assms(2) ok(2, 4), of r s] by blast
qed

end
