(* ===== verification/Ieee754.thy ===== *)
theory Ieee754
  imports Prelude
begin

text \<open>
  The arithmetic of the C++ type \<open>double\<close> (IEEE-754 binary64; \<open>world.cpp\<close> asserts
  \<open>is_iec559\<close>) on its 64-bit representation: classification, comparison, and addition,
  subtraction, multiplication, division and square root, each the exact result rounded
  once to nearest, ties to even, as the default rounding mode of C++ gives it without
  contraction.  Exact intermediate results are integers scaled by a power of two, so every
  operation computes.  A result that is not a number is the default quiet NaN; the sources
  never read a NaN's payload.
\<close>

type_synonym f64 = "64 word"

section \<open>Fields and classes\<close>

definition f_sign :: "f64 \<Rightarrow> bool" where
  "f_sign x \<longleftrightarrow> 2 ^ 63 \<le> uint x"

definition f_biased :: "f64 \<Rightarrow> int" where
  "f_biased x = uint x div 2 ^ 52 mod 2048"

definition f_frac :: "f64 \<Rightarrow> int" where
  "f_frac x = uint x mod 2 ^ 52"

definition f_mag :: "f64 \<Rightarrow> int" where
  "f_mag x = uint x mod 2 ^ 63"

definition is_nan :: "f64 \<Rightarrow> bool" where
  "is_nan x \<longleftrightarrow> f_biased x = 2047 \<and> f_frac x \<noteq> 0"

definition is_inf :: "f64 \<Rightarrow> bool" where
  "is_inf x \<longleftrightarrow> f_biased x = 2047 \<and> f_frac x = 0"

definition is_finite :: "f64 \<Rightarrow> bool" where
  "is_finite x \<longleftrightarrow> f_biased x \<noteq> 2047"

definition is_zero :: "f64 \<Rightarrow> bool" where
  "is_zero x \<longleftrightarrow> f_mag x = 0"

text \<open>A finite value is \<open>\<plusminus> f_mant x * 2 ^ f_exp x\<close>.\<close>

definition f_mant :: "f64 \<Rightarrow> int" where
  "f_mant x = (if f_biased x = 0 then f_frac x else f_frac x + 2 ^ 52)"

definition f_exp :: "f64 \<Rightarrow> int" where
  "f_exp x = (if f_biased x = 0 then - 1074 else f_biased x - 1075)"

section \<open>Rounding to nearest, ties to even\<close>

function bitlen :: "int \<Rightarrow> int" where
  "bitlen n = (if n \<le> 0 then 0 else 1 + bitlen (n div 2))"
  by pat_completeness auto
termination by (relation "measure nat") auto

declare bitlen.simps [simp del]

definition rne :: "int \<Rightarrow> int \<Rightarrow> int" where
  "rne m d =
     (let h = m div 2 ^ nat d; r = m mod 2 ^ nat d; half = 2 ^ nat (d - 1)
      in if half < r \<or> r = half \<and> odd h then h + 1 else h)"

text \<open>
  The magnitude bits (exponent field and fraction) nearest to \<open>m * 2 ^ e\<close> in the format
  with \<open>p\<close> bits of precision, least exponent \<open>emin\<close> and an exponent field of \<open>w\<close>
  bits.  A carry out of the significand moves into the exponent field; a value past the
  largest finite one gives infinity.
\<close>

definition round_mag :: "nat \<Rightarrow> int \<Rightarrow> nat \<Rightarrow> int \<Rightarrow> int \<Rightarrow> int" where
  "round_mag p emin w m e =
     (if m \<le> 0 then 0
      else let q = max (e + bitlen m - int p) emin;
               m' = (if q \<le> e then m * 2 ^ nat (e - q) else rne m (q - e))
           in min ((q - emin) * 2 ^ (p - 1) + m') ((2 ^ w - 1) * 2 ^ (p - 1)))"

definition f_pack :: "bool \<Rightarrow> int \<Rightarrow> f64" where
  "f_pack s mag = word_of_int (if s then 2 ^ 63 + mag else mag)"

definition round64 :: "bool \<Rightarrow> int \<Rightarrow> int \<Rightarrow> f64" where
  "round64 s m e = f_pack s (round_mag 53 (- 1074) 11 m e)"

section \<open>Constants\<close>

definition f_nan :: f64 where "f_nan = 0x7FF8000000000000"
definition f_zero :: f64 where "f_zero = 0"
definition f_half :: f64 where "f_half = 0x3FE0000000000000"
definition f_one :: f64 where "f_one = 0x3FF0000000000000"
definition f_two :: f64 where "f_two = 0x4000000000000000"
definition f_1em12 :: f64 where "f_1em12 = 0x3D719799812DEA11"

definition f_infinity :: "bool \<Rightarrow> f64" where
  "f_infinity s = f_pack s (2047 * 2 ^ 52)"

definition f_signed_zero :: "bool \<Rightarrow> f64" where
  "f_signed_zero s = f_pack s 0"

section \<open>Comparison\<close>

text \<open>
  The magnitude bits order the non-NaN values of one sign, infinities included; both
  zeros have key 0.
\<close>

definition f_key :: "f64 \<Rightarrow> int" where
  "f_key x = (if f_sign x then - f_mag x else f_mag x)"

definition feq :: "f64 \<Rightarrow> f64 \<Rightarrow> bool" where
  "feq a b \<longleftrightarrow> \<not> is_nan a \<and> \<not> is_nan b \<and> f_key a = f_key b"

definition flt :: "f64 \<Rightarrow> f64 \<Rightarrow> bool" where
  "flt a b \<longleftrightarrow> \<not> is_nan a \<and> \<not> is_nan b \<and> f_key a < f_key b"

definition fle :: "f64 \<Rightarrow> f64 \<Rightarrow> bool" where
  "fle a b \<longleftrightarrow> \<not> is_nan a \<and> \<not> is_nan b \<and> f_key a \<le> f_key b"

section \<open>Arithmetic\<close>

definition fneg :: "f64 \<Rightarrow> f64" where
  "fneg x = x + 0x8000000000000000"

definition fabs :: "f64 \<Rightarrow> f64" where
  "fabs x = word_of_int (f_mag x)"

definition f_scaled :: "f64 \<Rightarrow> int \<Rightarrow> int" where
  "f_scaled x e = (if f_sign x then - 1 else 1) * f_mant x * 2 ^ nat (f_exp x - e)"

definition fadd :: "f64 \<Rightarrow> f64 \<Rightarrow> f64" where
  "fadd a b =
     (if is_nan a \<or> is_nan b then f_nan
      else if is_inf a then (if is_inf b \<and> f_sign a \<noteq> f_sign b then f_nan else a)
      else if is_inf b then b
      else let e = min (f_exp a) (f_exp b); s = f_scaled a e + f_scaled b e
           in if s = 0 then f_signed_zero (f_sign a \<and> f_sign b) else round64 (s < 0) \<bar>s\<bar> e)"

definition fsub :: "f64 \<Rightarrow> f64 \<Rightarrow> f64" where
  "fsub a b = fadd a (fneg b)"

definition fmul :: "f64 \<Rightarrow> f64 \<Rightarrow> f64" where
  "fmul a b =
     (if is_nan a \<or> is_nan b \<or> is_inf a \<and> is_zero b \<or> is_zero a \<and> is_inf b then f_nan
      else if is_inf a \<or> is_inf b then f_infinity (f_sign a \<noteq> f_sign b)
      else round64 (f_sign a \<noteq> f_sign b) (f_mant a * f_mant b) (f_exp a + f_exp b))"

text \<open>
  The quotient and the root carry at least 55 exact bits and one more bit that tells
  whether anything was cut off, enough for a single correct rounding to 53 bits.
\<close>

definition fdiv :: "f64 \<Rightarrow> f64 \<Rightarrow> f64" where
  "fdiv a b =
     (let s = (f_sign a \<noteq> f_sign b) in
      if is_nan a \<or> is_nan b \<or> is_inf a \<and> is_inf b \<or> is_zero a \<and> is_zero b then f_nan
      else if is_inf a \<or> is_zero b then f_infinity s
      else if is_inf b then f_signed_zero s
      else let n = f_mant a * 2 ^ 108; q = n div f_mant b; r = n mod f_mant b
           in round64 s (2 * q + (if r = 0 then 0 else 1)) (f_exp a - f_exp b - 109))"

function isqrt :: "int \<Rightarrow> int" where
  "isqrt n =
     (if n \<le> 0 then 0
      else let r = 2 * isqrt (n div 4) in if (r + 1) * (r + 1) \<le> n then r + 1 else r)"
  by pat_completeness auto
termination by (relation "measure nat") auto

declare isqrt.simps [simp del]

definition fsqrt :: "f64 \<Rightarrow> f64" where
  "fsqrt x =
     (if is_nan x then f_nan
      else if is_zero x then x
      else if f_sign x then f_nan
      else if is_inf x then x
      else let k = (if even (f_exp x) then 110 else 111); n = f_mant x * 2 ^ nat k; s = isqrt n
           in round64 False (2 * s + (if s * s = n then 0 else 1)) ((f_exp x - k) div 2 - 1))"

section \<open>Facts the components use\<close>

lemma f_class_cases: "is_finite x \<or> is_nan x \<or> is_inf x"
  by (auto simp: is_finite_def is_nan_def is_inf_def)

lemma finite_not_nan: "is_finite x \<Longrightarrow> \<not> is_nan x"
  and finite_not_inf: "is_finite x \<Longrightarrow> \<not> is_inf x"
  by (auto simp: is_finite_def is_nan_def is_inf_def)

lemma f_nan_class [simp]: "is_nan f_nan" "\<not> is_finite f_nan"
  by code_simp+

lemma f_infinity_class [simp]: "\<not> is_finite (f_infinity s)"
proof -
  have "\<not> is_finite (f_infinity True)" "\<not> is_finite (f_infinity False)"
    by code_simp+
  then show ?thesis by (cases s) auto
qed

lemma f_constants_finite [simp]:
  "is_finite 0" "is_finite f_zero" "is_finite f_half" "is_finite f_one" "is_finite f_two"
  by code_simp+

lemma finite_fadd: "is_finite (fadd a b) \<Longrightarrow> is_finite a \<and> is_finite b"
  using f_class_cases [of a] f_class_cases [of b]
  by (auto simp: fadd_def dest: finite_not_inf split: if_splits)

lemma int_mod_half: "0 \<le> (u :: int) \<Longrightarrow> u < 2 * N \<Longrightarrow> u mod N = (if N \<le> u then u - N else u)"
  using minus_mod_self2 [of u N] by (cases "N \<le> u") (simp_all del: minus_mod_self2)

lemma f_mag_eq: "f_mag x = (if f_sign x then uint x - 2 ^ 63 else uint x)"
  using int_mod_half [of "uint x" "2 ^ 63"] uint_lt2p [of x] by (simp add: f_mag_def f_sign_def)

lemma fneg_fields [simp]:
  "f_biased (fneg x) = f_biased x" "f_frac (fneg x) = f_frac x" "f_mag (fneg x) = f_mag x"
proof -
  have u: "uint (fneg x) = (uint x + 2 ^ 63) mod 2 ^ 64"
    by (simp add: fneg_def uint_word_ariths)
  have m: "(uint x + 2 ^ 63) mod 2 ^ 64 = uint x + (if 2 ^ 63 \<le> uint x then - (2 ^ 63) else 2 ^ 63)"
    using int_mod_half [of "uint x + 2 ^ 63" "2 ^ 64"] uint_lt2p [of x] by simp
  have "(uint x + (if 2 ^ 63 \<le> uint x then - (2 ^ 63) else 2 ^ 63)) div 2 ^ 52 =
      uint x div 2 ^ 52 + (if 2 ^ 63 \<le> uint x then - 2048 else 2048)"
    using div_mult_self1 [of "2 ^ 52 :: int" "uint x" 2048]
      div_mult_self1 [of "2 ^ 52 :: int" "uint x" "- 2048"] by simp
  then show "f_biased (fneg x) = f_biased x"
    unfolding f_biased_def u m by simp
  show "f_frac (fneg x) = f_frac x"
    unfolding f_frac_def u m using mod_mult_self1 [of "uint x" 2048 "2 ^ 52 :: int"]
      mod_mult_self1 [of "uint x" "- 2048" "2 ^ 52 :: int"] by simp
  show "f_mag (fneg x) = f_mag x"
    unfolding f_mag_def u m by simp
qed

lemma finite_fneg [simp]: "is_finite (fneg x) = is_finite x"
  by (simp add: is_finite_def)

lemma finite_fsub: "is_finite (fsub a b) \<Longrightarrow> is_finite a \<and> is_finite b"
  using finite_fadd [of a "fneg b"] by (simp add: fsub_def)

lemma finite_fmul: "is_finite (fmul a b) \<Longrightarrow> is_finite a \<and> is_finite b"
  using f_class_cases [of a] f_class_cases [of b]
  by (auto simp: fmul_def split: if_splits)

lemma fle_refl: "\<not> is_nan a \<Longrightarrow> fle a a"
  and fle_trans: "fle a b \<Longrightarrow> fle b c \<Longrightarrow> fle a c"
  and fle_antisym: "fle a b \<Longrightarrow> fle b a \<Longrightarrow> feq a b"
  and flt_fle: "flt a b \<Longrightarrow> fle a b"
  and not_flt: "\<not> is_nan a \<Longrightarrow> \<not> is_nan b \<Longrightarrow> \<not> flt a b \<longleftrightarrow> fle b a"
  by (auto simp: fle_def flt_def feq_def)

lemma feq_refl [simp]: "feq a a \<longleftrightarrow> \<not> is_nan a"
  and feq_sym: "feq a b \<Longrightarrow> feq b a"
  and feq_trans: "feq a b \<Longrightarrow> feq b c \<Longrightarrow> feq a c"
  by (auto simp: feq_def)

text \<open>Two non-NaN values compare equal exactly when they have the same bits or both are zero.\<close>

lemma f_mag_sign_inject: "f_mag a = f_mag b \<Longrightarrow> f_sign a = f_sign b \<Longrightarrow> a = b"
  by (auto simp: f_mag_eq intro: word_uint_eqI split: if_splits)

lemma feq_iff: "feq a b \<longleftrightarrow> \<not> is_nan a \<and> \<not> is_nan b \<and> (a = b \<or> is_zero a \<and> is_zero b)"
proof -
  have nn: "0 \<le> f_mag a" "0 \<le> f_mag b" by (auto simp: f_mag_def)
  show ?thesis
  proof (cases "f_sign a = f_sign b")
    case True
    then show ?thesis
      using f_mag_sign_inject [of a b] by (auto simp: feq_def f_key_def is_zero_def)
  next
    case False
    then show ?thesis
      using nn by (auto simp: feq_def f_key_def is_zero_def)
  qed
qed

lemma zero_not_nan: "is_zero x \<Longrightarrow> \<not> is_nan x" "is_zero x \<Longrightarrow> is_finite x"
proof -
  assume "is_zero x"
  then have "uint x = 0 \<or> uint x = 2 ^ 63"
    by (auto simp: is_zero_def f_mag_eq split: if_splits)
  then have "f_biased x = 0"
    unfolding f_biased_def by auto
  then show "\<not> is_nan x" "is_finite x" by (auto simp: is_nan_def is_finite_def)
qed

end
