(* ===== verification/World.thy ===== *)
theory World
  imports Byte_Codec Ieee754
begin

text \<open>
  The authoring storage of \<open>include/omniweft/world.hpp\<close> and \<open>src/world.cpp\<close>: entities in
  generation-counted slots, the detached snapshot of a world, its constructor and the
  canonical bytes of a snapshot.  An array of doubles is a tuple.  The lemmas show that the
  canonical bytes determine the snapshot they were made from, which is what the replay
  checkpoints rely on.
\<close>

section \<open>Data\<close>

type_synonym vec3 = "f64 \<times> f64 \<times> f64"
type_synonym quat = "f64 \<times> f64 \<times> f64 \<times> f64"

fun vec3_list :: "vec3 \<Rightarrow> f64 list" where
  "vec3_list (x, y, z) = [x, y, z]"

fun quat_list :: "quat \<Rightarrow> f64 list" where
  "quat_list (x, y, z, w) = [x, y, z, w]"

record transform =
  position_m :: vec3
  rotation_xyzw :: quat
  scale :: vec3

definition default_transform :: transform where
  "default_transform =
     \<lparr>position_m = (0, 0, 0), rotation_xyzw = (0, 0, 0, f_one), scale = (f_one, f_one, f_one)\<rparr>"

record parent_identity =
  parent_uuid :: string
  parent_generation :: u64

record entity =
  prefab :: string
  authoring_revision :: u64
  transform_of :: transform
  parent :: "parent_identity option"
  local_transform :: transform
  tags :: "string list"

record slot =
  entity_uuid :: string
  generation :: u64
  retired :: bool
  entity_of :: "entity option"

record snapshot =
  format_version :: u32
  snapshot_world_id :: string
  seed :: u32
  max_slots :: u32
  world_revision :: u64
  slots :: "slot list"

text \<open>
  A world is its address, by which a policy ledger recognises it, and the snapshot it
  stores.  Only a coordinator replaces the snapshot.
\<close>

record world =
  world_address :: nat
  state :: snapshot

section \<open>Canonical bytes\<close>

definition integer_bytes :: "u64 \<Rightarrow> nat \<Rightarrow> bytes" where
  "integer_bytes value count =
     map (\<lambda>index. ucast (and (drop_bit (8 * index) value) 255)) [0 ..< count]"

definition text_bytes :: "string \<Rightarrow> bytes" where
  "text_bytes value =
     integer_bytes (ucast (word_of_nat (length value) :: u32)) 4 @ str_bytes value"

definition positive_zero :: "f64 \<Rightarrow> f64" where
  "positive_zero value = (if feq value 0 then 0 else value)"

definition numbers :: "f64 list \<Rightarrow> bytes" where
  "numbers values = concat (map (\<lambda>value. integer_bytes (positive_zero value) 8) values)"

definition transform_bytes :: "transform \<Rightarrow> bytes" where
  "transform_bytes t =
     numbers (vec3_list (position_m t)) @ numbers (quat_list (rotation_xyzw t)) @
     numbers (vec3_list (scale t))"

definition parent_bytes :: "entity \<Rightarrow> bytes" where
  "parent_bytes e =
     (case parent e of
        None \<Rightarrow> [0]
      | Some p \<Rightarrow> [1] @ str_bytes (parent_uuid p) @ integer_bytes (parent_generation p) 8 @
                  transform_bytes (local_transform e))"

definition tags_bytes :: "entity \<Rightarrow> bytes" where
  "tags_bytes e =
     integer_bytes (word_of_nat (length (tags e))) 4 @ concat (map text_bytes (tags e))"

definition entity_bytes :: "u32 \<Rightarrow> entity \<Rightarrow> bytes" where
  "entity_bytes version e =
     text_bytes (prefab e) @ integer_bytes (authoring_revision e) 8 @
     transform_bytes (transform_of e) @
     (if version \<ge> 2 then parent_bytes e else []) @
     (if version = 3 then tags_bytes e else [])"

definition slot_bytes :: "u32 \<Rightarrow> slot \<Rightarrow> bytes" where
  "slot_bytes version s =
     str_bytes (entity_uuid s) @ integer_bytes (generation s) 8 @
     [if retired s then 1 else 0] @
     (case entity_of s of None \<Rightarrow> [0] | Some e \<Rightarrow> [1] @ entity_bytes version e)"

definition canonical_magic :: "u32 \<Rightarrow> bytes" where
  "canonical_magic version =
     str_bytes (if version = 3 then ''OWOBJ003'' else if version = 2 then ''OWOBJ002''
                else ''OWOBJ001'')"

definition header_bytes :: "snapshot \<Rightarrow> bytes" where
  "header_bytes s =
     text_bytes (snapshot_world_id s) @ integer_bytes (ucast (seed s)) 4 @
     integer_bytes (ucast (max_slots s)) 4 @ integer_bytes (world_revision s) 8 @
     integer_bytes (ucast (word_of_nat (length (slots s)) :: u32)) 4"

definition canonical_bytes :: "snapshot \<Rightarrow> bytes" where
  "canonical_bytes s =
     canonical_magic (format_version s) @ header_bytes s @
     concat (map (slot_bytes (format_version s)) (slots s))"

section \<open>Construction\<close>

definition valid_id :: "string \<Rightarrow> bool" where
  "valid_id text \<longleftrightarrow> ascii_id 128 text"

text \<open>The constructor, with the text of the \<open>std::invalid_argument\<close> it throws.\<close>

definition make_world :: "nat \<Rightarrow> string \<Rightarrow> u32 \<Rightarrow> u32 \<Rightarrow> string + world" where
  "make_world address world_id0 seed0 max_slots0 =
     (if \<not> valid_id world_id0
      then Inl ''World ID must match the bounded ASCII identifier contract.''
      else if max_slots0 = 0 \<or> max_slots0 > 1024
      then Inl ''World max_slots must be from 1 through 1024.''
      else Inr \<lparr>world_address = address,
                state = \<lparr>format_version = 1, snapshot_world_id = world_id0, seed = seed0,
                         max_slots = max_slots0, world_revision = 0, slots = []\<rparr>\<rparr>)"

definition world_snapshot :: "world \<Rightarrow> snapshot" where
  "world_snapshot w = state w"

definition world_canonical_bytes :: "world \<Rightarrow> bytes" where
  "world_canonical_bytes w = canonical_bytes (state w)"

section \<open>What the canonical bytes can tell apart\<close>

text \<open>
  The fields a snapshot must have for its encoding to be complete: no negative zero (the
  encoder writes both zeros alike), a local transform only beside a parent, and a version
  that admits the parents and tags it holds.
\<close>

definition canonical_double :: "f64 \<Rightarrow> bool" where
  "canonical_double v \<longleftrightarrow> (is_zero v \<longrightarrow> v = 0)"

definition canonical_transform :: "transform \<Rightarrow> bool" where
  "canonical_transform t \<longleftrightarrow>
     list_all canonical_double
       (vec3_list (position_m t) @ quat_list (rotation_xyzw t) @ vec3_list (scale t))"

definition encodable_entity :: "u32 \<Rightarrow> entity \<Rightarrow> bool" where
  "encodable_entity version e \<longleftrightarrow>
     length (prefab e) < 2 ^ 32 \<and> canonical_transform (transform_of e) \<and>
     canonical_transform (local_transform e) \<and>
     (case parent e of None \<Rightarrow> local_transform e = default_transform
      | Some p \<Rightarrow> version \<ge> 2 \<and> length (parent_uuid p) = 36) \<and>
     (tags e \<noteq> [] \<longrightarrow> version = 3) \<and> length (tags e) < 2 ^ 32 \<and>
     list_all (\<lambda>t. length t < 2 ^ 32) (tags e)"

definition encodable_slot :: "u32 \<Rightarrow> slot \<Rightarrow> bool" where
  "encodable_slot version s \<longleftrightarrow>
     length (entity_uuid s) = 36 \<and> (case entity_of s of None \<Rightarrow> True | Some e \<Rightarrow> encodable_entity version e)"

definition encodable :: "snapshot \<Rightarrow> bool" where
  "encodable s \<longleftrightarrow>
     format_version s \<in> {1, 2, 3} \<and> length (snapshot_world_id s) < 2 ^ 32 \<and>
     length (slots s) < 2 ^ 32 \<and> list_all (encodable_slot (format_version s)) (slots s)"

lemma integer_bytes_eq: "k \<le> 8 \<Longrightarrow> integer_bytes v k = le_bytes k (unat v)"
proof -
  have "integer_bytes v k = map (\<lambda>i. word_of_nat (unat v div 256 ^ i)) [0 ..< k]" for k
    unfolding integer_bytes_def
  proof (rule map_cong [OF refl])
    fix i
    have m: "(255 :: u64) = mask 8" by (simp add: mask_eq_exp_minus_1)
    have d: "unat v div 256 ^ i = drop_bit (8 * i) (unat v)"
      by (simp add: drop_bit_eq_div power_mult)
    show "ucast (and (drop_bit (8 * i) v) 255) = (word_of_nat (unat v div 256 ^ i) :: u8)"
      unfolding m d by (rule bit_word_eqI) (auto simp: bit_simps)
  qed
  moreover have "le_bytes k n = map (\<lambda>i. word_of_nat (n div 256 ^ i)) [0 ..< k]" for k n
    by (induction k arbitrary: n)
      (simp_all add: upt_conv_Cons map_Suc_upt [symmetric] div_mult2_eq del: upt_Suc)
  ultimately show ?thesis by simp
qed

lemma length_integer_bytes [simp, codec_simps]: "length (integer_bytes v k) = k"
  by (simp add: integer_bytes_def)

lemma integer_bytes_inject:
  "k \<le> 8 \<Longrightarrow> unat v < 256 ^ k \<Longrightarrow> unat w < 256 ^ k \<Longrightarrow> integer_bytes v k = integer_bytes w k \<longleftrightarrow> v = w"
  by (simp add: integer_bytes_eq le_bytes_inject word_unat_eq_iff)

interpretation u64_field: self_delimiting "\<lambda>v. integer_bytes v 8" "\<lambda>_. True"
proof (rule self_delimiting_fixed)
  fix v w :: u64
  assume "integer_bytes v 8 = integer_bytes w 8"
  then show "v = w"
    using integer_bytes_inject [of 8 v w] unat_u64_less [of v] unat_u64_less [of w] by simp
qed simp

lemma unat_ucast_u32 [simp]: "unat (ucast (w :: u32) :: u64) = unat w"
  using unat_u32_less [of w] by (simp add: unsigned_ucast_eq take_bit_nat_eq_self_iff)

interpretation u32_field: self_delimiting "\<lambda>v. integer_bytes (ucast (v :: u32)) 4" "\<lambda>_. True"
proof (rule self_delimiting_fixed)
  fix v w :: u32
  assume "integer_bytes (ucast v) 4 = integer_bytes (ucast w) 4"
  then have "(ucast v :: u64) = ucast w"
    using integer_bytes_inject [of 4 "ucast v" "ucast w"] unat_u32_less [of v] unat_u32_less [of w]
    by simp
  then show "v = w"
    by (metis unat_ucast_u32 word_unat_eq_iff)
qed simp

lemma word32_of_nat_inject: "m < 2 ^ 32 \<Longrightarrow> n < 2 ^ 32 \<Longrightarrow> (word_of_nat m :: u32) = word_of_nat n \<longleftrightarrow> m = n"
  by (simp add: word_of_nat_eq_iff take_bit_nat_eq_self)

lemma append_same_length: "length a = length b \<Longrightarrow> a @ r = b @ s \<longleftrightarrow> a = b \<and> r = s"
  by simp

interpretation text_field: self_delimiting text_bytes "\<lambda>s. length s < 2 ^ 32"
proof
  fix a b :: string and r s :: bytes
  assume ok: "length a < 2 ^ 32" "length b < 2 ^ 32" and eq: "text_bytes a @ r = text_bytes b @ s"
  from u32_field.enc_inject [OF TrueI TrueI eq [unfolded text_bytes_def append_assoc]]
  have "(word_of_nat (length a) :: u32) = word_of_nat (length b)"
    and rest: "str_bytes a @ r = str_bytes b @ s" by auto
  then have "length a = length b" using ok by (simp add: word32_of_nat_inject)
  with rest show "a = b \<and> r = s" by (simp add: append_same_length)
qed

lemma positive_zero_canonical: "canonical_double v \<Longrightarrow> positive_zero v = v"
  by (auto simp: positive_zero_def canonical_double_def feq_iff)

lemma positive_zero_is_canonical [simp]: "canonical_double (positive_zero v)"
  by (auto simp: positive_zero_def canonical_double_def feq_iff zero_not_nan is_zero_def f_mag_def)

lemma numbers_Cons: "numbers (v # vs) = integer_bytes (positive_zero v) 8 @ numbers vs"
  and numbers_Nil [simp]: "numbers [] = []"
  by (simp_all add: numbers_def)

lemma numbers_inject:
  assumes "length vs = length ws" "list_all canonical_double vs" "list_all canonical_double ws"
    and "numbers vs @ r = numbers ws @ s"
  shows "vs = ws \<and> r = s"
  using assms
proof (induction vs ws rule: list_induct2)
  case Nil
  then show ?case by simp
next
  case (Cons v vs w ws)
  then have "integer_bytes v 8 @ numbers vs @ r = integer_bytes w 8 @ numbers ws @ s"
    by (simp add: numbers_Cons positive_zero_canonical)
  from u64_field.enc_inject [OF TrueI TrueI this] Cons show ?case by simp
qed

lemma vec3_list_inject [simp]: "vec3_list a = vec3_list b \<longleftrightarrow> a = b"
  by (cases a; cases b) simp

lemma quat_list_inject [simp]: "quat_list a = quat_list b \<longleftrightarrow> a = b"
  by (cases a; cases b) simp

lemma length_vec3_list [simp]: "length (vec3_list a) = 3"
  by (cases a) simp

lemma length_quat_list [simp]: "length (quat_list a) = 4"
  by (cases a) simp

interpretation transform_field: self_delimiting transform_bytes canonical_transform
proof
  fix a b :: transform and r s :: bytes
  assume ok: "canonical_transform a" "canonical_transform b"
    and eq: "transform_bytes a @ r = transform_bytes b @ s"
  have p: "position_m a = position_m b" and eq1: "numbers (quat_list (rotation_xyzw a)) @
      numbers (vec3_list (scale a)) @ r = numbers (quat_list (rotation_xyzw b)) @
      numbers (vec3_list (scale b)) @ s"
    using numbers_inject [of "vec3_list (position_m a)" "vec3_list (position_m b)"] ok eq
    by (auto simp: transform_bytes_def canonical_transform_def)
  have q: "rotation_xyzw a = rotation_xyzw b" and
    eq2: "numbers (vec3_list (scale a)) @ r = numbers (vec3_list (scale b)) @ s"
    using numbers_inject [OF _ _ _ eq1] ok by (auto simp: canonical_transform_def)
  have "scale a = scale b \<and> r = s"
    using numbers_inject [OF _ _ _ eq2] ok by (auto simp: canonical_transform_def)
  with p q show "a = b \<and> r = s" by simp
qed

lemma parent_bytes_inject:
  assumes ok: "encodable_entity v a" "encodable_entity v b"
    and eq: "parent_bytes a @ r = parent_bytes b @ s"
  shows "parent a = parent b \<and> local_transform a = local_transform b \<and> r = s"
proof (cases "parent a")
  case None
  then show ?thesis
    using ok eq by (auto simp: parent_bytes_def encodable_entity_def split: option.splits)
next
  case (Some p)
  then obtain q where q: "parent b = Some q"
    using ok eq by (auto simp: parent_bytes_def split: option.splits)
  from Some q ok eq have "str_bytes (parent_uuid p) = str_bytes (parent_uuid q)"
    and eq1: "integer_bytes (parent_generation p) 8 @ transform_bytes (local_transform a) @ r =
      integer_bytes (parent_generation q) 8 @ transform_bytes (local_transform b) @ s"
    by (auto simp: parent_bytes_def encodable_entity_def append_eq_append_conv)
  moreover from u64_field.enc_inject [OF TrueI TrueI eq1]
  have "parent_generation p = parent_generation q"
    and "transform_bytes (local_transform a) @ r = transform_bytes (local_transform b) @ s" by auto
  moreover from this(2) transform_field.enc_inject ok
  have "local_transform a = local_transform b \<and> r = s" by (auto simp: encodable_entity_def)
  ultimately show ?thesis using Some q by simp
qed

lemma tags_bytes_inject:
  assumes ok: "encodable_entity v a" "encodable_entity v b"
    and eq: "tags_bytes a @ r = tags_bytes b @ s"
  shows "tags a = tags b \<and> r = s"
proof -
  let ?n = "\<lambda>c. word_of_nat (length (tags c)) :: u64"
  have la: "unat (?n a) = length (tags a)" and lb: "unat (?n b) = length (tags b)"
    using ok by (simp_all add: encodable_entity_def unsigned_of_nat take_bit_nat_eq_self_iff)
  have bound: "unat (?n a) < 256 ^ 4" "unat (?n b) < 256 ^ 4"
    unfolding la lb using ok by (simp_all add: encodable_entity_def)
  have "integer_bytes (?n a) 4 @ concat (map text_bytes (tags a)) @ r =
      integer_bytes (?n b) 4 @ concat (map text_bytes (tags b)) @ s"
    using eq by (simp only: tags_bytes_def append_assoc)
  then have "integer_bytes (?n a) 4 = integer_bytes (?n b) 4"
    and rest: "concat (map text_bytes (tags a)) @ r = concat (map text_bytes (tags b)) @ s"
    by (simp_all only: append_same_length length_integer_bytes)
  then have "?n a = ?n b"
    using integer_bytes_inject [OF _ bound] by fastforce
  then have "length (tags a) = length (tags b)"
    using la lb by metis
  with rest text_field.concat_inject [of "tags a" "tags b" r s] ok show ?thesis
    by (auto simp: encodable_entity_def)
qed

lemma entity_bytes_inject:
  assumes ok: "encodable_entity v a" "encodable_entity v b"
    and eq: "entity_bytes v a @ r = entity_bytes v b @ s"
  shows "a = b \<and> r = s"
proof -
  define ra where "ra = (if v = 3 then tags_bytes a else []) @ r"
  define rb where "rb = (if v = 3 then tags_bytes b else []) @ s"
  define qa where "qa = (if v \<ge> 2 then parent_bytes a else []) @ ra"
  define qb where "qb = (if v \<ge> 2 then parent_bytes b else []) @ rb"
  have "text_bytes (prefab a) @ integer_bytes (authoring_revision a) 8 @
      transform_bytes (transform_of a) @ qa = text_bytes (prefab b) @
      integer_bytes (authoring_revision b) 8 @ transform_bytes (transform_of b) @ qb"
    using eq by (simp add: entity_bytes_def ra_def rb_def qa_def qb_def)
  from text_field.enc_inject [OF _ _ this] ok have p: "prefab a = prefab b"
    and "integer_bytes (authoring_revision a) 8 @ transform_bytes (transform_of a) @ qa =
      integer_bytes (authoring_revision b) 8 @ transform_bytes (transform_of b) @ qb"
    by (auto simp: encodable_entity_def)
  from u64_field.enc_inject [OF TrueI TrueI this(2)]
  have v: "authoring_revision a = authoring_revision b"
    and "transform_bytes (transform_of a) @ qa = transform_bytes (transform_of b) @ qb" by auto
  from transform_field.enc_inject [OF _ _ this(2)] ok
  have t: "transform_of a = transform_of b" and q: "qa = qb"
    by (auto simp: encodable_entity_def)
  have l: "parent a = parent b \<and> local_transform a = local_transform b \<and> ra = rb"
  proof (cases "v \<ge> 2")
    case True
    then show ?thesis using parent_bytes_inject [OF ok, of ra rb] q by (simp add: qa_def qb_def)
  next
    case False
    then show ?thesis
      using ok q by (auto simp: qa_def qb_def encodable_entity_def split: option.splits)
  qed
  have "tags a = tags b \<and> r = s"
    using l ok tags_bytes_inject [OF ok, of r s]
    by (auto simp: ra_def rb_def encodable_entity_def split: if_splits)
  with p v t l show ?thesis by (cases a; cases b) simp
qed

interpretation slot_field: self_delimiting "slot_bytes v" "encodable_slot v"
proof
  fix a b :: slot and r s :: bytes
  assume ok: "encodable_slot v a" "encodable_slot v b" and eq: "slot_bytes v a @ r = slot_bytes v b @ s"
  define body :: "slot \<Rightarrow> bytes" where
    "body c = (case entity_of c of None \<Rightarrow> [0] | Some e \<Rightarrow> [1] @ entity_bytes v e)" for c
  have len: "length (str_bytes (entity_uuid a)) = length (str_bytes (entity_uuid b))"
    using ok by (simp add: encodable_slot_def)
  have u: "entity_uuid a = entity_uuid b" and eq1: "integer_bytes (generation a) 8 @
      [if retired a then 1 else 0] @ body a @ r = integer_bytes (generation b) 8 @
      [if retired b then 1 else 0] @ body b @ s"
    using eq append_same_length [OF len] by (auto simp: slot_bytes_def body_def)
  have g: "generation a = generation b" and t: "retired a = retired b" and eq2: "body a @ r = body b @ s"
    using u64_field.enc_inject [OF TrueI TrueI eq1] by (auto split: if_splits)
  have "entity_of a = entity_of b \<and> r = s"
  proof (cases "entity_of a")
    case None
    then show ?thesis using eq2 by (simp add: body_def split: option.splits)
  next
    case (Some d)
    then obtain e where e: "entity_of b = Some e" and eq3: "entity_bytes v d @ r = entity_bytes v e @ s"
      using eq2 by (auto simp: body_def split: option.splits)
    then show ?thesis
      using Some ok entity_bytes_inject [OF _ _ eq3] by (simp add: encodable_slot_def)
  qed
  with u g t show "a = b \<and> r = s" by simp
qed

lemma canonical_magic_inject:
  assumes "v \<in> {1, 2, 3}" "w \<in> {1, 2, 3}"
    and "canonical_magic v @ r = canonical_magic w @ s"
  shows "v = w \<and> r = s"
proof -
  have "length (canonical_magic v) = length (canonical_magic w)"
    by (simp add: canonical_magic_def)
  with assms(3) have "canonical_magic v = canonical_magic w" and rs: "r = s" by simp_all
  with assms(1, 2) show ?thesis
    by (auto simp: canonical_magic_def)
qed

text \<open>The header is five fields in a row, each of which can be read back.\<close>

lemmas header_fields =
  self_delimiting_pair [OF text_field.self_delimiting_axioms
   self_delimiting_pair [OF u32_field.self_delimiting_axioms
   self_delimiting_pair [OF u32_field.self_delimiting_axioms
   self_delimiting_pair [OF u64_field.self_delimiting_axioms u32_field.self_delimiting_axioms]]]]

lemma header_bytes_inject:
  assumes ok: "encodable a" "encodable b" and eq: "header_bytes a @ r = header_bytes b @ s"
  shows "snapshot_world_id a = snapshot_world_id b \<and> seed a = seed b \<and> max_slots a = max_slots b \<and>
    world_revision a = world_revision b \<and> length (slots a) = length (slots b) \<and> r = s"
proof -
  let ?h = "\<lambda>c. (snapshot_world_id c, seed c, max_slots c, world_revision c,
    word_of_nat (length (slots c)) :: u32)"
  have "?h a = ?h b \<and> r = s"
    using self_delimiting.enc_inject [OF header_fields, of "?h a" "?h b" r s] ok eq
    by (simp add: header_bytes_def encodable_def)
  then show ?thesis
    using ok by (simp add: encodable_def word32_of_nat_inject)
qed

theorem canonical_bytes_inject:
  assumes ok: "encodable a" "encodable b" and eq: "canonical_bytes a = canonical_bytes b"
  shows "a = b"
proof -
  let ?body = "\<lambda>c. concat (map (slot_bytes (format_version c)) (slots c))"
  have v: "format_version a = format_version b" and eq1: "header_bytes a @ ?body a = header_bytes b @ ?body b"
    using canonical_magic_inject [OF _ _ eq [unfolded canonical_bytes_def]] ok
    by (auto simp: encodable_def)
  note h = header_bytes_inject [OF ok eq1]
  have "slots a = slots b"
    using slot_field.concat_inject [of "format_version a" "slots a" "slots b" "[]" "[]"] ok v h
    by (simp add: encodable_def)
  with v h show ?thesis by simp
qed

end
