(* ===== verification/Hierarchy.thy ===== *)
theory Hierarchy
  imports World
begin

text \<open>
  The part of \<open>src/transactions.cpp\<close> that works on a staged snapshot: transform arithmetic in
  the order of the source's floating-point operations, the parent and child relation between
  slots, the breadth-first update of a subtree and reparenting.  A slot reference is the
  slot's index.  The lemmas show which slots and fields each operation can change, that every
  stored transform is finite and that a reparented slot never closes a cycle.
\<close>

record terror =
  terr_code :: string
  terr_path :: string
  terr_message :: string
  operation_index :: "nat option"

definition terr :: "string \<Rightarrow> string \<Rightarrow> string \<Rightarrow> nat \<Rightarrow> terror" where
  "terr code path message index =
     \<lparr>terr_code = code, terr_path = path, terr_message = message, operation_index = Some index\<rparr>"

definition terr_batch :: "string \<Rightarrow> string \<Rightarrow> string \<Rightarrow> terror" where
  "terr_batch code path message =
     \<lparr>terr_code = code, terr_path = path, terr_message = message, operation_index = None\<rparr>"

section \<open>Transforms\<close>

fun map3 :: "(f64 \<Rightarrow> f64) \<Rightarrow> vec3 \<Rightarrow> vec3" where
  "map3 f (x, y, z) = (f x, f y, f z)"

fun map4 :: "(f64 \<Rightarrow> f64) \<Rightarrow> quat \<Rightarrow> quat" where
  "map4 f (x, y, z, w) = (f x, f y, f z, f w)"

fun zip3 :: "(f64 \<Rightarrow> f64 \<Rightarrow> f64) \<Rightarrow> vec3 \<Rightarrow> vec3 \<Rightarrow> vec3" where
  "zip3 f (x, y, z) (a, b, c) = (f x a, f y b, f z c)"

definition normalize_zero :: "transform \<Rightarrow> transform" where
  "normalize_zero t =
     \<lparr>position_m = map3 positive_zero (position_m t), rotation_xyzw = map4 positive_zero (rotation_xyzw t),
      scale = map3 positive_zero (scale t)\<rparr>"

definition squared_norm :: "quat \<Rightarrow> f64" where
  "squared_norm q = foldl (\<lambda>sum value. fadd sum (fmul value value)) f_zero (quat_list q)"

definition replacement_transform :: "transform \<Rightarrow> string \<Rightarrow> nat \<Rightarrow> terror + transform" where
  "replacement_transform result path index =
     (let norm = squared_norm (rotation_xyzw result) in
      if \<not> is_finite norm \<or> flt f_1em12 (fabs (fsub norm f_one))
      then Inl (terr ''INVALID_SCHEMA'' (path @ ''/rotation_xyzw'')
             ''Quaternion squared norm must be within 1e-12 of one.'' index)
      else if list_ex (\<lambda>value. feq value 0) (vec3_list (scale result))
      then Inl (terr ''INVALID_SCHEMA'' (path @ ''/scale'') ''Scale components must be nonzero.'' index)
      else Inr (normalize_zero result))"

fun uniform_positive :: "vec3 \<Rightarrow> bool" where
  "uniform_positive (x, y, z) \<longleftrightarrow> flt 0 x \<and> feq x y \<and> feq x z"

definition parent_scale :: "transform \<Rightarrow> string \<Rightarrow> nat \<Rightarrow> terror + unit" where
  "parent_scale value path index =
     require (uniform_positive (scale value))
       (terr ''INVALID_SCHEMA'' path ''Parents require positive uniform world scale.'' index)"

definition unit_quat :: "quat \<Rightarrow> quat" where
  "unit_quat q = (let len = fsqrt (squared_norm q) in map4 (\<lambda>v. fdiv v len) q)"

fun quat_product :: "quat \<Rightarrow> quat \<Rightarrow> quat" where
  "quat_product (a0, a1, a2, a3) (b0, b1, b2, b3) =
     unit_quat
      (fsub (fadd (fadd (fmul a3 b0) (fmul a0 b3)) (fmul a1 b2)) (fmul a2 b1),
       fadd (fadd (fsub (fmul a3 b1) (fmul a0 b2)) (fmul a1 b3)) (fmul a2 b0),
       fadd (fsub (fadd (fmul a3 b2) (fmul a0 b1)) (fmul a1 b0)) (fmul a2 b3),
       fsub (fsub (fsub (fmul a3 b3) (fmul a0 b0)) (fmul a1 b1)) (fmul a2 b2))"

fun quat_rotate :: "quat \<Rightarrow> vec3 \<Rightarrow> vec3" where
  "quat_rotate (x, y, z, w) (v0, v1, v2) =
     (let twice = fmul f_two; one_minus = fsub f_one in
      (fadd (fadd (fmul (one_minus (twice (fadd (fmul y y) (fmul z z)))) v0)
                  (fmul (twice (fsub (fmul x y) (fmul z w))) v1))
            (fmul (twice (fadd (fmul x z) (fmul y w))) v2),
       fadd (fadd (fmul (twice (fadd (fmul x y) (fmul z w))) v0)
                  (fmul (one_minus (twice (fadd (fmul x x) (fmul z z)))) v1))
            (fmul (twice (fsub (fmul y z) (fmul x w))) v2),
       fadd (fadd (fmul (twice (fsub (fmul x z) (fmul y w))) v0)
                  (fmul (twice (fadd (fmul y z) (fmul x w))) v1))
            (fmul (one_minus (twice (fadd (fmul x x) (fmul y y)))) v2)))"

definition transform_numbers :: "transform \<Rightarrow> f64 list" where
  "transform_numbers t = vec3_list (position_m t) @ quat_list (rotation_xyzw t) @ vec3_list (scale t)"

definition checked :: "transform \<Rightarrow> string \<Rightarrow> nat \<Rightarrow> terror + transform" where
  "checked value path index =
     (if \<not> list_all is_finite (transform_numbers value) \<or>
         list_ex (\<lambda>v. feq v 0) (vec3_list (scale value))
      then Inl (terr ''INVALID_SCHEMA'' path
             ''Derived hierarchy transform must be finite with nonzero scale.'' index)
      else Inr (normalize_zero value))"

definition compose :: "transform \<Rightarrow> transform \<Rightarrow> string \<Rightarrow> nat \<Rightarrow> terror + transform" where
  "compose parent_t loc path index =
     rbind (parent_scale parent_t path index) (\<lambda>_.
     let s = fst (scale parent_t);
         displacement = map3 (\<lambda>v. fmul v s) (position_m loc);
         rotated = quat_rotate (unit_quat (rotation_xyzw parent_t)) displacement
     in checked
          \<lparr>position_m = zip3 fadd rotated (position_m parent_t),
           rotation_xyzw =
             quat_product (unit_quat (rotation_xyzw parent_t)) (unit_quat (rotation_xyzw loc)),
           scale = map3 (\<lambda>v. fmul v s) (scale loc)\<rparr> path index)"

fun conjugate :: "quat \<Rightarrow> quat" where
  "conjugate (x, y, z, w) = (fneg x, fneg y, fneg z, w)"

definition relative :: "transform \<Rightarrow> transform \<Rightarrow> string \<Rightarrow> nat \<Rightarrow> terror + transform" where
  "relative parent_t value path index =
     rbind (parent_scale parent_t path index) (\<lambda>_.
     let inverse = conjugate (unit_quat (rotation_xyzw parent_t));
         s = fst (scale parent_t);
         displacement = zip3 fsub (position_m value) (position_m parent_t);
         rotated = quat_rotate inverse displacement
     in checked
          \<lparr>position_m = map3 (\<lambda>v. fdiv v s) rotated,
           rotation_xyzw = quat_product inverse (unit_quat (rotation_xyzw value)),
           scale = map3 (\<lambda>v. fdiv v s) (scale value)\<rparr> path index)"

section \<open>The hierarchy of slots\<close>

definition child_of :: "slot \<Rightarrow> slot \<Rightarrow> bool" where
  "child_of child_slot parent_slot \<longleftrightarrow>
     (case entity_of child_slot of
        None \<Rightarrow> False
      | Some e \<Rightarrow>
          (case parent e of
             None \<Rightarrow> False
           | Some p \<Rightarrow> parent_uuid p = entity_uuid parent_slot \<and>
                       parent_generation p = generation parent_slot))"

definition has_children :: "slot list \<Rightarrow> slot \<Rightarrow> bool" where
  "has_children ss parent_slot \<longleftrightarrow> list_ex (\<lambda>c. child_of c parent_slot) ss"

text \<open>The slot passed to \<open>parent_of\<close> always holds an entity.\<close>

definition parent_of :: "slot list \<Rightarrow> slot \<Rightarrow> terror + nat option" where
  "parent_of ss child_slot =
     (case entity_of child_slot of
        None \<Rightarrow> Inr None
      | Some e \<Rightarrow>
          if parent e = None then Inr None
          else case find_index (\<lambda>p. entity_of p \<noteq> None \<and> \<not> retired p \<and> child_of child_slot p) ss of
            None \<Rightarrow> Inl (terr_batch ''STALE_HANDLE'' ''/parent'' ''Parent generation is no longer live.'')
          | Some i \<Rightarrow> Inr (Some i))"

definition map_entity :: "(entity \<Rightarrow> entity) \<Rightarrow> nat \<Rightarrow> slot list \<Rightarrow> slot list" where
  "map_entity f i ss = ss[i := (ss ! i)\<lparr>entity_of := map_option f (entity_of (ss ! i))\<rparr>]"

text \<open>The entity of a slot that is known to hold one.\<close>

definition entity_at :: "slot list \<Rightarrow> nat \<Rightarrow> entity" where
  "entity_at ss i = the (entity_of (ss ! i))"

definition subtree_child ::
  "string \<Rightarrow> nat \<Rightarrow> nat \<Rightarrow> slot list \<times> nat list \<Rightarrow> nat \<Rightarrow> terror + slot list \<times> nat list" where
  "subtree_child path index p st c =
     (let (ss, queue) = st in
      if \<not> child_of (ss ! c) (ss ! p) then Inr (ss, queue)
      else if length queue \<ge> length ss
      then Inl (terr ''INVALID_SCHEMA'' path ''Hierarchy must be acyclic.'' index)
      else
        rbind (compose (transform_of (entity_at ss p)) (local_transform (entity_at ss c)) path index) (\<lambda>t.
        Inr (map_entity (transform_of_update (\<lambda>_. t)) c ss, queue @ [c])))"

fun subtree_children ::
  "string \<Rightarrow> nat \<Rightarrow> nat \<Rightarrow> nat list \<Rightarrow> slot list \<times> nat list \<Rightarrow> terror + slot list \<times> nat list" where
  "subtree_children path index p [] st = Inr st"
| "subtree_children path index p (c # cs) st =
     rbind (subtree_child path index p st c) (\<lambda>st'. subtree_children path index p cs st')"

lemma subtree_child_lengths:
  "subtree_child path index p (ss, queue) c = Inr (ss', queue') \<Longrightarrow>
     length ss' = length ss \<and> length queue \<le> length queue' \<and>
     (length queue' \<le> length queue \<or> length queue' \<le> length ss)"
  by (auto simp: subtree_child_def map_entity_def res_simps split: if_splits)

lemma subtree_children_lengths:
  "subtree_children path index p cs (ss, queue) = Inr (ss', queue') \<Longrightarrow>
     length ss' = length ss \<and> length queue \<le> length queue' \<and>
     (length queue' \<le> length queue \<or> length queue' \<le> length ss)"
proof (induction cs arbitrary: ss queue)
  case Nil
  then show ?case by simp
next
  case (Cons c cs)
  then obtain ss1 q1 where 1: "subtree_child path index p (ss, queue) c = Inr (ss1, q1)"
    and 2: "subtree_children path index p cs (ss1, q1) = Inr (ss', queue')"
    by (auto simp: res_simps)
  from subtree_child_lengths [OF 1] Cons.IH [OF 2] show ?case by auto
qed

function subtree_loop ::
  "string \<Rightarrow> nat \<Rightarrow> u64 \<Rightarrow> nat \<Rightarrow> slot list \<Rightarrow> nat list \<Rightarrow> terror + slot list" where
  "subtree_loop path index revision at ss queue =
     (if at < length queue then
        let p = queue ! at;
            ss1 = map_entity (authoring_revision_update (\<lambda>_. revision)) p ss
        in case subtree_children path index p [0 ..< length ss1] (ss1, queue) of
             Inl err \<Rightarrow> Inl err
           | Inr (ss2, queue2) \<Rightarrow> subtree_loop path index revision (Suc at) ss2 queue2
      else Inr ss)"
  by pat_completeness auto
termination
proof (relation "measure (\<lambda>(path, index, revision, at, ss, queue). max (length queue) (length ss) - at)")
  fix path :: string and index at p :: nat and revision :: u64 and ss ss1 ss2 :: "slot list"
    and queue queue2 :: "nat list" and res pr
  assume at: "at < length queue" and p: "p = queue ! at"
    and ss1: "ss1 = map_entity (authoring_revision_update (\<lambda>_. revision)) p ss"
    and "subtree_children path index p [0 ..< length ss1] (ss1, queue) = Inr pr"
    and "(ss2, queue2) = pr"
  then have "length ss2 = length ss1 \<and> length queue \<le> length queue2 \<and>
      (length queue2 \<le> length queue \<or> length queue2 \<le> length ss1)"
    by (intro subtree_children_lengths) simp
  moreover have "length ss1 = length ss" by (simp add: ss1 map_entity_def)
  ultimately show "((path, index, revision, Suc at, ss2, queue2), (path, index, revision, at, ss, queue))
      \<in> measure (\<lambda>(path, index, revision, at, ss, queue). max (length queue) (length ss) - at)"
    using at by auto
qed simp

declare subtree_loop.simps [simp del]

definition subtree :: "slot list \<Rightarrow> nat \<Rightarrow> u64 \<Rightarrow> string \<Rightarrow> nat \<Rightarrow> terror + slot list" where
  "subtree ss root revision path index = subtree_loop path index revision 0 ss [root]"

section \<open>Reparenting\<close>

text \<open>The walk to the root; \<open>count\<close> is the number of steps still allowed.\<close>

fun check_ancestors ::
  "slot list \<Rightarrow> nat \<Rightarrow> string \<Rightarrow> nat \<Rightarrow> nat \<Rightarrow> nat option \<Rightarrow> terror + unit" where
  "check_ancestors ss i path index count None = Inr ()"
| "check_ancestors ss i path index 0 (Some a) =
     Inl (terr ''INVALID_SCHEMA'' (path @ ''/parent'') ''Reparenting must not create a cycle.'' index)"
| "check_ancestors ss i path index (Suc count) (Some a) =
     (if a = i
      then Inl (terr ''INVALID_SCHEMA'' (path @ ''/parent'') ''Reparenting must not create a cycle.'' index)
      else rbind (parent_of ss (ss ! a)) (\<lambda>next_ancestor.
           check_ancestors ss i path index count next_ancestor))"

definition attach :: "slot list \<Rightarrow> nat \<Rightarrow> nat \<Rightarrow> string \<Rightarrow> string \<Rightarrow> nat \<Rightarrow> terror + entity" where
  "attach ss i p mode path index =
     (let e = entity_at ss i;
          loc = (if parent e \<noteq> None then local_transform e else transform_of e);
          pt = transform_of (entity_at ss p) in
      rbind (parent_scale pt (path @ ''/parent'') index) (\<lambda>_.
      rbind (if mode = ''preserve_world''
             then rbind (relative pt (transform_of e) path index) (\<lambda>l. Inr (e\<lparr>local_transform := l\<rparr>))
             else rbind (compose pt loc path index) (\<lambda>t. Inr (e\<lparr>local_transform := loc, transform_of := t\<rparr>))) (\<lambda>e'.
      Inr (e'\<lparr>parent := Some \<lparr>parent_uuid = entity_uuid (ss ! p),
                               parent_generation = generation (ss ! p)\<rparr>\<rparr>))))"

definition detach :: "slot list \<Rightarrow> nat \<Rightarrow> string \<Rightarrow> entity" where
  "detach ss i mode =
     (let e = entity_at ss i;
          loc = (if parent e \<noteq> None then local_transform e else transform_of e);
          e' = (if mode = ''preserve_local'' then e\<lparr>transform_of := loc\<rparr> else e)
      in e'\<lparr>parent := None, local_transform := default_transform\<rparr>)"

definition reparent ::
  "slot list \<Rightarrow> nat \<Rightarrow> nat option \<Rightarrow> string \<Rightarrow> string \<Rightarrow> nat \<Rightarrow> terror + slot list" where
  "reparent ss i new_parent mode path index =
     rbind (check_ancestors ss i path index (length ss) new_parent) (\<lambda>_.
     rbind (case new_parent of Some p \<Rightarrow> attach ss i p mode path index | None \<Rightarrow> Inr (detach ss i mode)) (\<lambda>e.
     Inr (map_entity (\<lambda>_. e) i ss)))"

end
