(* ===== verification/Json.thy ===== *)
theory Json
  imports Byte_Codec Ieee754
begin

text \<open>
  The values and events of the JSON library (\<open>nlohmann/json\<close>) as the program uses them: the
  value type with its tags, an object as an association list in the order of its
  \<open>std::map\<close>, the events a SAX parse reports, and the access functions the sources call.
  The parser and the printer are third-party code, hence the parameter \<^theory_text>\<open>json_lib\<close>;
  \<^theory_text>\<open>json_events\<close> is the event sequence of the printed form of a value.
\<close>

datatype json =
    JNull
  | JBool bool
  | JUInt u64
  | JInt int
  | JFloat f64
  | JStr string
  | JArr "json list"
  | JObj "(string \<times> json) list"

datatype sax_event =
    Sax_Null
  | Sax_Boolean bool
  | Sax_Integer int
  | Sax_Unsigned u64
  | Sax_Float f64
  | Sax_String string
  | Sax_Binary
  | Sax_Start_Object
  | Sax_Key string
  | Sax_End_Object
  | Sax_Start_Array
  | Sax_End_Array
  | Sax_Parse_Error nat

record json_lib =
  sax_events :: "string \<Rightarrow> sax_event list"
  json_parse :: "string \<Rightarrow> json option"
  json_dump :: "json \<Rightarrow> string option"

section \<open>Access\<close>

fun is_object :: "json \<Rightarrow> bool" where
  "is_object (JObj m) = True"
| "is_object _ = False"

fun is_string :: "json \<Rightarrow> bool" where
  "is_string (JStr s) = True"
| "is_string _ = False"

fun members :: "json \<Rightarrow> (string \<times> json) list" where
  "members (JObj m) = m"
| "members _ = []"

definition contains :: "json \<Rightarrow> string \<Rightarrow> bool" where
  "contains v key \<longleftrightarrow> key \<in> set (map fst (members v))"

text \<open>The sources read a member only after checking that it is there.\<close>

definition jget :: "json \<Rightarrow> string \<Rightarrow> json" where
  "jget v key = (case map_of (members v) key of Some x \<Rightarrow> x | None \<Rightarrow> JNull)"

text \<open>An object made from an initializer list: its members are sorted by key.\<close>

definition json_object :: "(string \<times> json) list \<Rightarrow> json" where
  "json_object ms = JObj (sort_key fst ms)"

text \<open>\<open>get<double>()\<close> of a number, and of anything else nothing.\<close>

fun json_number :: "json \<Rightarrow> f64 option" where
  "json_number (JUInt u) = Some (round64 False (uint u) 0)"
| "json_number (JInt i) = Some (round64 (i < 0) \<bar>i\<bar> 0)"
| "json_number (JFloat x) = Some x"
| "json_number _ = None"

lemma map_of_insort_fst: "map_of (insort_key fst (k, v) xs) = (map_of xs)(k \<mapsto> v)"
  by (induction xs) (auto simp: fun_eq_iff)

lemma map_of_sort_fst [simp]: "map_of (sort_key fst xs) = map_of xs"
  by (induction xs) (auto simp: map_of_insort_fst)

lemma members_json_object [simp]: "members (json_object ms) = sort_key fst ms"
  by (simp add: json_object_def)

lemma jget_json_object [simp]:
  "jget (json_object ms) key = (case map_of ms key of Some x \<Rightarrow> x | None \<Rightarrow> JNull)"
  by (simp add: jget_def)

lemma contains_json_object [simp]: "contains (json_object ms) key \<longleftrightarrow> key \<in> fst ` set ms"
  by (simp add: contains_def)

lemma is_object_json_object [simp]: "is_object (json_object ms)"
  by (simp add: json_object_def)

lemma json_object_not [simp]:
  "json_object ms \<noteq> JNull" "JNull \<noteq> json_object ms"
  by (simp_all add: json_object_def)

section \<open>Events of a value\<close>

fun json_events :: "json \<Rightarrow> sax_event list" where
  "json_events JNull = [Sax_Null]"
| "json_events (JBool b) = [Sax_Boolean b]"
| "json_events (JUInt u) = [Sax_Unsigned u]"
| "json_events (JInt i) = [Sax_Integer i]"
| "json_events (JFloat x) = [Sax_Float x]"
| "json_events (JStr s) = [Sax_String s]"
| "json_events (JArr vs) = [Sax_Start_Array] @ concat (map json_events vs) @ [Sax_End_Array]"
| "json_events (JObj ms) =
     [Sax_Start_Object] @ concat (map (\<lambda>m. Sax_Key (fst m) # json_events (snd m)) ms) @
     [Sax_End_Object]"

fun json_depth :: "json \<Rightarrow> nat" where
  "json_depth (JArr vs) = Suc (fold max (map json_depth vs) 0)"
| "json_depth (JObj ms) = Suc (fold max (map (\<lambda>m. json_depth (snd m)) ms) 0)"
| "json_depth _ = 0"

text \<open>Every number is finite and the keys of every object are distinct.\<close>

fun json_clean :: "json \<Rightarrow> bool" where
  "json_clean (JFloat x) = is_finite x"
| "json_clean (JArr vs) = list_all json_clean vs"
| "json_clean (JObj ms) = (distinct (map fst ms) \<and> list_all (\<lambda>m. json_clean (snd m)) ms)"
| "json_clean _ = True"

lemma fold_max_le: "fold max xs a \<le> n \<longleftrightarrow> a \<le> n \<and> (\<forall>x \<in> set xs. x \<le> n)" for n :: nat
  by (induction xs arbitrary: a) auto

lemma json_clean_object [simp]:
  "json_clean (json_object ms) \<longleftrightarrow> distinct (map fst ms) \<and> list_all (\<lambda>m. json_clean (snd m)) ms"
proof -
  have "distinct (map fst (sort_key fst ms)) \<longleftrightarrow> distinct (map fst ms)"
    by (metis distinct_map distinct_sort set_sort)
  then show ?thesis by (simp add: json_object_def list_all_iff)
qed

lemma json_depth_object:
  "json_depth (json_object ms) \<le> Suc n \<longleftrightarrow> (\<forall>m \<in> set ms. json_depth (snd m) \<le> n)"
  by (auto simp: json_object_def fold_max_le)

lemma json_depth_array: "json_depth (JArr vs) \<le> Suc n \<longleftrightarrow> (\<forall>v \<in> set vs. json_depth v \<le> n)"
  by (auto simp: fold_max_le)

text \<open>
  The library reads a value back from its own output: the printed text parses to the
  value, and parsing it reports the events of the value.  The library documents this for
  values whose strings are UTF-8 and whose numbers are finite.
\<close>

definition reads_back :: "json_lib \<Rightarrow> json \<Rightarrow> bool" where
  "reads_back J v \<longleftrightarrow>
     (case json_dump J v of None \<Rightarrow> False
      | Some text \<Rightarrow> json_parse J text = Some v \<and> sax_events J text = json_events v \<and>
          CHR 0x00 \<notin> set text)"

end
