(* ===== verification/Commands.thy ===== *)
theory Commands
  imports Json World
begin

text \<open>
  The command protocol of \<open>include/omniweft/commands.hpp\<close> and \<open>src/commands.cpp\<close>: the
  envelope and its operations, the bounded SAX pass over untrusted bytes, the conversion of
  a JSON value into an envelope with its error codes and paths, and the printer, which
  validates what it prints.  A \<open>ParseResult\<close> or \<open>SerializeResult\<close> is a sum: the errors, or
  the value.  The lemmas show that an accepted envelope satisfies the schema, that printing
  and conversion are inverse and that the SAX pass enforces depth, key and number bounds.
\<close>

section \<open>Data\<close>

record validation_error =
  verr_code :: string
  verr_path :: string
  verr_message :: string

record idempotency_key =
  epoch :: string
  idem_sequence :: u64

record apply_time =
  apply_mode :: string
  expires_after_ticks :: u64

record budget_limits =
  budget_max_operations :: u64
  budget_max_blob_bytes :: u64

datatype target =
    TemporaryTarget string
  | EntityTarget string string u64

datatype operation =
    EntityCreate string string
  | TransformSet target transform
  | EntityDelete target string
  | EntityReparent target "target option" string
  | EntityTagsSet target "string list"

record envelope =
  protocol_version :: string
  world_id :: string
  transaction_id :: string
  idempotency :: idempotency_key
  expected_world_revision :: u64
  apply_at :: apply_time
  budget :: budget_limits
  operations :: "operation list"

definition max_envelope_bytes :: nat where
  "max_envelope_bytes = 1048576"

definition max_nesting_depth :: nat where
  "max_nesting_depth = 32"

definition max_operations :: nat where
  "max_operations = 256"

definition verr :: "string \<Rightarrow> string \<Rightarrow> string \<Rightarrow> validation_error" where
  "verr code path message = \<lparr>verr_code = code, verr_path = path, verr_message = message\<rparr>"

section \<open>The bounded SAX pass\<close>

text \<open>A frame is an open container: whether it is an object, and the keys seen in it.\<close>

type_synonym frame = "bool \<times> string list"

definition open_frame :: "bool \<Rightarrow> frame list \<Rightarrow> validation_error + frame list" where
  "open_frame object frames =
     (if length frames \<ge> max_nesting_depth
      then Inl (verr ''BUDGET_EXCEEDED'' '''' ''JSON container nesting exceeds depth 32.'')
      else Inr ((object, []) # frames))"

fun sax_step :: "frame list \<Rightarrow> sax_event \<Rightarrow> validation_error + frame list" where
  "sax_step frames (Sax_Float value) =
     (if is_finite value then Inr frames
      else Inl (verr ''NONFINITE_VALUE'' '''' ''Numbers must be finite.''))"
| "sax_step frames Sax_Binary =
     Inl (verr ''INVALID_SCHEMA'' '''' ''Binary values are not JSON.'')"
| "sax_step frames Sax_Start_Object = open_frame True frames"
| "sax_step frames Sax_Start_Array = open_frame False frames"
| "sax_step frames (Sax_Key value) =
     (case frames of
        (True, keys) # rest \<Rightarrow>
          if value \<in> set keys
          then Inl (verr ''INVALID_SCHEMA'' '''' ''Decoded object keys must be unique.'')
          else Inr ((True, value # keys) # rest)
      | _ \<Rightarrow> Inl (verr ''INVALID_SCHEMA'' '''' ''Object key outside an object.''))"
| "sax_step frames Sax_End_Object = Inr (tl frames)"
| "sax_step frames Sax_End_Array = Inr (tl frames)"
| "sax_step frames (Sax_Parse_Error code) =
     Inl (if code = 406 then verr ''NONFINITE_VALUE'' '''' ''Numbers must fit a finite double.''
          else verr ''INVALID_SCHEMA'' '''' ''Input must be one strict UTF-8 JSON value.'')"
| "sax_step frames _ = Inr frames"

fun sax_run :: "frame list \<Rightarrow> sax_event list \<Rightarrow> validation_error + frame list" where
  "sax_run frames [] = Inr frames"
| "sax_run frames (ev # evs) = rbind (sax_step frames ev) (\<lambda>frames'. sax_run frames' evs)"

section \<open>Conversion\<close>

definition child :: "string \<Rightarrow> string \<Rightarrow> string" where
  "child path key =
     path @ ''/'' @
     concat (map (\<lambda>c. if c = CHR ''~'' then ''~0'' else if c = CHR ''/'' then ''~1'' else [c]) key)"

definition fields :: "json \<Rightarrow> string \<Rightarrow> string list \<Rightarrow> validation_error + unit" where
  "fields object path names =
     (if \<not> is_object object then Inl (verr ''INVALID_SCHEMA'' path ''Expected an object.'')
      else case find (\<lambda>key. key \<notin> set names) (map fst (members object)) of
        Some key \<Rightarrow> Inl (verr ''INVALID_SCHEMA'' (child path key) ''Unknown field.'')
      | None \<Rightarrow>
          (case find (\<lambda>name. \<not> contains object name) names of
             Some name \<Rightarrow> Inl (verr ''INVALID_SCHEMA'' (child path name) ''Required field is missing.'')
           | None \<Rightarrow> Inr ()))"

fun unsigned_integer :: "json \<Rightarrow> string \<Rightarrow> validation_error + u64" where
  "unsigned_integer (JUInt u) path = Inr u"
| "unsigned_integer _ path =
     Inl (verr ''INVALID_SCHEMA'' path
       ''Expected an unsigned 64-bit integer token, without fraction or exponent.'')"

definition vector_item :: "string \<Rightarrow> nat \<times> json \<Rightarrow> validation_error + f64" where
  "vector_item path item =
     (let item_path = child path (to_string (fst item)) in
      case json_number (snd item) of
        None \<Rightarrow> Inl (verr ''INVALID_SCHEMA'' item_path ''Expected a number.'')
      | Some x \<Rightarrow>
          if is_finite x then Inr x
          else Inl (verr ''NONFINITE_VALUE'' item_path ''Numbers must be finite.''))"

definition vector_value :: "nat \<Rightarrow> json \<Rightarrow> string \<Rightarrow> validation_error + f64 list" where
  "vector_value count value path =
     (case value of
        JArr items \<Rightarrow>
          if length items \<noteq> count
          then Inl (verr ''INVALID_SCHEMA'' path ''Numeric vector has the wrong shape.'')
          else rmap_list (vector_item path) (enumerate 0 items)
      | _ \<Rightarrow> Inl (verr ''INVALID_SCHEMA'' path ''Numeric vector has the wrong shape.''))"

text \<open>A list of doubles as the array it is stored in.\<close>

fun array3 :: "f64 list \<Rightarrow> vec3" where
  "array3 (x # y # z # _) = (x, y, z)"
| "array3 _ = (0, 0, 0)"

fun array4 :: "f64 list \<Rightarrow> quat" where
  "array4 (x # y # z # w # _) = (x, y, z, w)"
| "array4 _ = (0, 0, 0, 0)"

definition finite_vector :: "f64 list \<Rightarrow> string \<Rightarrow> validation_error + unit" where
  "finite_vector value path =
     (case find_index (\<lambda>x. \<not> is_finite x) value of
        Some index \<Rightarrow>
          Inl (verr ''NONFINITE_VALUE'' (child path (to_string index)) ''Numbers must be finite.'')
      | None \<Rightarrow> Inr ())"

fun identifier_value :: "json \<Rightarrow> string \<Rightarrow> nat \<Rightarrow> validation_error + string" where
  "identifier_value (JStr text) path maximum =
     (if text = [] \<or> length text > maximum \<or> \<not> is_alnum (hd text)
      then Inl (verr ''INVALID_SCHEMA'' path ''Identifier length or first character is invalid.'')
      else if \<not> list_all id_char text
      then Inl (verr ''INVALID_SCHEMA'' path ''Identifier contains an unsupported character.'')
      else Inr text)"
| "identifier_value _ path maximum =
     Inl (verr ''INVALID_SCHEMA'' path ''Expected an ASCII identifier string.'')"

fun uuid_value :: "json \<Rightarrow> string \<Rightarrow> validation_error + string" where
  "uuid_value (JStr text) path =
     (if length text \<noteq> 36 then Inl (verr ''INVALID_SCHEMA'' path ''UUID must have 36 characters.'')
      else if \<not> canonical_uuid text
      then Inl (verr ''INVALID_SCHEMA'' path
             ''UUID must use lowercase hexadecimal and canonical hyphens.'')
      else Inr text)"
| "uuid_value _ path =
     Inl (verr ''INVALID_SCHEMA'' path ''Expected a lowercase hyphenated UUID string.'')"

definition target_value :: "json \<Rightarrow> string \<Rightarrow> validation_error + target" where
  "target_value t path =
     (if is_object t \<and> contains t ''temporary_id'' then
        rbind (fields t path [''temporary_id'']) (\<lambda>_.
        rbind (identifier_value (jget t ''temporary_id'') (child path ''temporary_id'') 64) (\<lambda>name.
        Inr (TemporaryTarget name)))
      else
        rbind (fields t path [''world_id'', ''entity_uuid'', ''generation'']) (\<lambda>_.
        rbind (identifier_value (jget t ''world_id'') (child path ''world_id'') 128) (\<lambda>w.
        rbind (uuid_value (jget t ''entity_uuid'') (child path ''entity_uuid'')) (\<lambda>u.
        rbind (unsigned_integer (jget t ''generation'') (child path ''generation'')) (\<lambda>g.
        Inr (EntityTarget w u g))))))"

fun target_json :: "target \<Rightarrow> json" where
  "target_json (TemporaryTarget name) = json_object [(''temporary_id'', JStr name)]"
| "target_json (EntityTarget w u g) =
     json_object [(''world_id'', JStr w), (''entity_uuid'', JStr u), (''generation'', JUInt g)]"

text \<open>The tags of one operation, appended one by one; a repeated tag is rejected.\<close>

fun tag_values :: "string \<Rightarrow> json list \<Rightarrow> string list \<Rightarrow> validation_error + string list" where
  "tag_values path [] seen = Inr seen"
| "tag_values path (label # labels) seen =
     rbind (identifier_value label (child path ''tags'') 32) (\<lambda>tag_value.
     if tag_value \<in> set seen
     then Inl (verr ''INVALID_SCHEMA'' (child path ''tags'') ''Tags must be unique.'')
     else tag_values path labels (seen @ [tag_value]))"

definition convert_create :: "string \<Rightarrow> json \<Rightarrow> validation_error + operation" where
  "convert_create path op =
     rbind (fields op path [''type'', ''temporary_id'', ''prefab'']) (\<lambda>_.
     rbind (identifier_value (jget op ''temporary_id'') (child path ''temporary_id'') 64) (\<lambda>name.
     rbind (identifier_value (jget op ''prefab'') (child path ''prefab'') 128) (\<lambda>pf.
     Inr (EntityCreate name pf))))"

definition convert_transform :: "string \<Rightarrow> json \<Rightarrow> validation_error + operation" where
  "convert_transform path op =
     rbind (fields op path [''type'', ''target'', ''position_m'', ''rotation_xyzw'', ''scale'']) (\<lambda>_.
     rbind (target_value (jget op ''target'') (child path ''target'')) (\<lambda>t.
     rbind (vector_value 3 (jget op ''position_m'') (child path ''position_m'')) (\<lambda>p.
     rbind (vector_value 4 (jget op ''rotation_xyzw'') (child path ''rotation_xyzw'')) (\<lambda>r.
     rbind (vector_value 3 (jget op ''scale'') (child path ''scale'')) (\<lambda>s.
     Inr (TransformSet t \<lparr>position_m = array3 p, rotation_xyzw = array4 r, scale = array3 s\<rparr>))))))"

definition convert_tags :: "string \<Rightarrow> json \<Rightarrow> validation_error + operation" where
  "convert_tags path op =
     rbind (fields op path [''type'', ''target'', ''tags'']) (\<lambda>_.
     case jget op ''tags'' of
       JArr labels \<Rightarrow>
         if length labels > 8
         then Inl (verr ''INVALID_SCHEMA'' (child path ''tags'')
                ''Expected at most eight unique bounded tags.'')
         else
           rbind (target_value (jget op ''target'') (child path ''target'')) (\<lambda>t.
           rbind (tag_values path labels []) (\<lambda>ts.
           Inr (EntityTagsSet t ts)))
     | _ \<Rightarrow> Inl (verr ''INVALID_SCHEMA'' (child path ''tags'')
              ''Expected at most eight unique bounded tags.''))"

definition convert_reparent :: "string \<Rightarrow> json \<Rightarrow> validation_error + operation" where
  "convert_reparent path op =
     rbind (fields op path [''type'', ''target'', ''parent'', ''mode'']) (\<lambda>_.
     if jget op ''mode'' \<noteq> JStr ''preserve_world'' \<and> jget op ''mode'' \<noteq> JStr ''preserve_local''
     then Inl (verr ''INVALID_SCHEMA'' (child path ''mode'') ''Expected preserve_world or preserve_local.'')
     else
       rbind (target_value (jget op ''target'') (child path ''target'')) (\<lambda>t.
       rbind (if jget op ''parent'' = JNull then Inr None
              else rbind (target_value (jget op ''parent'') (child path ''parent'')) (\<lambda>p. Inr (Some p))) (\<lambda>p.
       Inr (EntityReparent t p
         (if jget op ''mode'' = JStr ''preserve_world'' then ''preserve_world'' else ''preserve_local'')))))"

definition convert_delete :: "string \<Rightarrow> json \<Rightarrow> validation_error + operation" where
  "convert_delete path op =
     rbind (fields op path [''type'', ''target'', ''child_policy'']) (\<lambda>_.
     if jget op ''child_policy'' \<noteq> JStr ''reject_if_children''
     then Inl (verr ''INVALID_SCHEMA'' (child path ''child_policy'')
            ''Only reject_if_children deletion is supported.'')
     else
       rbind (target_value (jget op ''target'') (child path ''target'')) (\<lambda>t.
       Inr (EntityDelete t ''reject_if_children'')))"

definition convert_operation :: "nat \<times> json \<Rightarrow> validation_error + operation" where
  "convert_operation item =
     (let path = ''/operations/'' @ to_string (fst item); op = snd item in
      if \<not> is_object op then Inl (verr ''INVALID_SCHEMA'' path ''Expected an operation object.'')
      else
        case jget op ''type'' of
          JStr type \<Rightarrow>
            if type = ''entity.create'' then convert_create path op
            else if type = ''transform.set'' then convert_transform path op
            else if type = ''entity.tags.set'' then convert_tags path op
            else if type = ''entity.reparent'' then convert_reparent path op
            else if type = ''entity.delete'' then convert_delete path op
            else Inl (verr ''UNSUPPORTED_OPERATION'' (child path ''type'')
                   ''Operation type is not supported by schema 0.1.'')
        | _ \<Rightarrow> Inl (verr ''INVALID_SCHEMA'' (child path ''type'') ''Operation type must be a string.''))"

definition convert_idempotency :: "json \<Rightarrow> validation_error + idempotency_key" where
  "convert_idempotency value =
     rbind (fields value ''/idempotency'' [''epoch'', ''sequence'']) (\<lambda>_.
     rbind (identifier_value (jget value ''epoch'') ''/idempotency/epoch'' 128) (\<lambda>e.
     rbind (unsigned_integer (jget value ''sequence'') ''/idempotency/sequence'') (\<lambda>n.
     Inr \<lparr>epoch = e, idem_sequence = n\<rparr>)))"

definition convert_apply_at :: "json \<Rightarrow> validation_error + apply_time" where
  "convert_apply_at value =
     rbind (fields value ''/apply_at'' [''mode'', ''expires_after_ticks'']) (\<lambda>_.
     rbind (require (jget value ''mode'' = JStr ''next_tick'')
       (verr ''INVALID_SCHEMA'' ''/apply_at/mode'' ''Only next_tick scheduling syntax is supported.'')) (\<lambda>_.
     rbind (unsigned_integer (jget value ''expires_after_ticks'') ''/apply_at/expires_after_ticks'') (\<lambda>ticks.
     rbind (require (\<not> (ticks = 0 \<or> ticks > 4294967295))
       (verr ''INVALID_SCHEMA'' ''/apply_at/expires_after_ticks''
         ''Expiry must be an integer from 1 through 4294967295.'')) (\<lambda>_.
     Inr \<lparr>apply_mode = ''next_tick'', expires_after_ticks = ticks\<rparr>))))"

definition convert_budget :: "json \<Rightarrow> validation_error + budget_limits" where
  "convert_budget value =
     rbind (fields value ''/budget'' [''max_operations'', ''max_blob_bytes'']) (\<lambda>_.
     rbind (unsigned_integer (jget value ''max_operations'') ''/budget/max_operations'') (\<lambda>ops.
     rbind (require (\<not> (ops = 0 \<or> unat ops > max_operations))
       (verr ''BUDGET_EXCEEDED'' ''/budget/max_operations''
         ''Operation budget must be from 1 through 256.'')) (\<lambda>_.
     rbind (unsigned_integer (jget value ''max_blob_bytes'') ''/budget/max_blob_bytes'') (\<lambda>blob.
     Inr \<lparr>budget_max_operations = ops, budget_max_blob_bytes = blob\<rparr>))))"

definition convert_operations :: "budget_limits \<Rightarrow> json \<Rightarrow> validation_error + operation list" where
  "convert_operations limits value =
     (case value of
        JArr ops \<Rightarrow>
          if ops = [] \<or> length ops > max_operations \<or> length ops > unat (budget_max_operations limits)
          then Inl (verr ''BUDGET_EXCEEDED'' ''/operations''
                 ''Require 1 through 256 operations within the declared operation budget.'')
          else rmap_list convert_operation (enumerate 0 ops)
      | _ \<Rightarrow> Inl (verr ''INVALID_SCHEMA'' ''/operations'' ''Expected an operation array.''))"

definition envelope_fields :: "string list" where
  "envelope_fields =
     [''protocol_version'', ''world_id'', ''transaction_id'', ''idempotency'',
      ''expected_world_revision'', ''apply_at'', ''budget'', ''operations'']"

definition convert :: "json \<Rightarrow> validation_error + envelope" where
  "convert value =
     rbind (fields value '''' envelope_fields) (\<lambda>_.
     rbind (require (is_string (jget value ''protocol_version''))
       (verr ''INVALID_SCHEMA'' ''/protocol_version'' ''Protocol version must be a string.'')) (\<lambda>_.
     rbind (require (jget value ''protocol_version'' = JStr ''0.1'')
       (verr ''UNSUPPORTED_VERSION'' ''/protocol_version'' ''Only protocol version 0.1 is supported.'')) (\<lambda>_.
     rbind (identifier_value (jget value ''world_id'') ''/world_id'' 128) (\<lambda>w.
     rbind (uuid_value (jget value ''transaction_id'') ''/transaction_id'') (\<lambda>t.
     rbind (convert_idempotency (jget value ''idempotency'')) (\<lambda>key.
     rbind (unsigned_integer (jget value ''expected_world_revision'') ''/expected_world_revision'') (\<lambda>rev.
     rbind (convert_apply_at (jget value ''apply_at'')) (\<lambda>at.
     rbind (convert_budget (jget value ''budget'')) (\<lambda>limits.
     rbind (convert_operations limits (jget value ''operations'')) (\<lambda>ops.
     Inr \<lparr>protocol_version = ''0.1'', world_id = w, transaction_id = t, idempotency = key,
          expected_world_revision = rev, apply_at = at, budget = limits, operations = ops\<rparr>))))))))))"

definition parse :: "json_lib \<Rightarrow> string \<Rightarrow> validation_error list + envelope" where
  "parse J text =
     (if length text > max_envelope_bytes
      then Inl [verr ''BUDGET_EXCEEDED'' '''' ''JSON envelope exceeds 1048576 bytes.'']
      else case sax_run [] (sax_events J text) of
        Inl error \<Rightarrow> Inl [error]
      | Inr _ \<Rightarrow>
          if CHR 0x00 \<in> set text
          then Inl [verr ''INVALID_SCHEMA'' '''' ''Raw NUL bytes are not valid JSON.'']
          else case json_parse J text of
            None \<Rightarrow> Inl [verr ''INVALID_SCHEMA'' ''''
                      ''Input could not be decoded as the required JSON envelope.'']
          | Some value \<Rightarrow>
              (case convert value of Inl error \<Rightarrow> Inl [error] | Inr e \<Rightarrow> Inr e))"

section \<open>Printing\<close>

definition vector_json :: "f64 list \<Rightarrow> json" where
  "vector_json vs = JArr (map JFloat vs)"

definition operation_json :: "nat \<times> operation \<Rightarrow> validation_error + json" where
  "operation_json item =
     (let path = ''/operations/'' @ to_string (fst item) in
      case snd item of
        EntityCreate name pf \<Rightarrow>
          Inr (json_object [(''type'', JStr ''entity.create''), (''temporary_id'', JStr name),
            (''prefab'', JStr pf)])
      | TransformSet t v \<Rightarrow>
          rbind (finite_vector (vec3_list (position_m v)) (child path ''position_m'')) (\<lambda>_.
          rbind (finite_vector (quat_list (rotation_xyzw v)) (child path ''rotation_xyzw'')) (\<lambda>_.
          rbind (finite_vector (vec3_list (scale v)) (child path ''scale'')) (\<lambda>_.
          Inr (json_object [(''type'', JStr ''transform.set''), (''target'', target_json t),
            (''position_m'', vector_json (vec3_list (position_m v))),
            (''rotation_xyzw'', vector_json (quat_list (rotation_xyzw v))),
            (''scale'', vector_json (vec3_list (scale v)))]))))
      | EntityDelete t policy \<Rightarrow>
          Inr (json_object [(''type'', JStr ''entity.delete''), (''target'', target_json t),
            (''child_policy'', JStr policy)])
      | EntityReparent t p mode \<Rightarrow>
          Inr (json_object [(''type'', JStr ''entity.reparent''), (''target'', target_json t),
            (''parent'', case p of Some q \<Rightarrow> target_json q | None \<Rightarrow> JNull), (''mode'', JStr mode)])
      | EntityTagsSet t ts \<Rightarrow>
          rbind (require (\<not> length ts > 8) (verr ''INVALID_SCHEMA'' (child path ''tags'')
            ''Expected at most eight unique bounded tags.'')) (\<lambda>_.
          rbind (require (list_all (\<lambda>tag. \<not> length tag > 32) ts) (verr ''INVALID_SCHEMA'' (child path ''tags'')
            ''Tag length exceeds the native bound.'')) (\<lambda>_.
          Inr (json_object [(''type'', JStr ''entity.tags.set''), (''target'', target_json t),
            (''tags'', JArr (map JStr ts))]))))"

definition envelope_json :: "envelope \<Rightarrow> validation_error + json" where
  "envelope_json e =
     rbind (rmap_list operation_json (enumerate 0 (operations e))) (\<lambda>ops.
     Inr (json_object
       [(''protocol_version'', JStr (protocol_version e)), (''world_id'', JStr (world_id e)),
        (''transaction_id'', JStr (transaction_id e)),
        (''idempotency'', json_object [(''epoch'', JStr (epoch (idempotency e))),
           (''sequence'', JUInt (idem_sequence (idempotency e)))]),
        (''expected_world_revision'', JUInt (expected_world_revision e)),
        (''apply_at'', json_object [(''mode'', JStr (apply_mode (apply_at e))),
           (''expires_after_ticks'', JUInt (expires_after_ticks (apply_at e)))]),
        (''budget'', json_object [(''max_operations'', JUInt (budget_max_operations (budget e))),
           (''max_blob_bytes'', JUInt (budget_max_blob_bytes (budget e)))]),
        (''operations'', JArr ops)]))"

definition validated_json :: "envelope \<Rightarrow> validation_error + json" where
  "validated_json e =
     rbind (require (\<not> length (operations e) > max_operations)
       (verr ''BUDGET_EXCEEDED'' ''/operations'' ''At most 256 operations are allowed.'')) (\<lambda>_.
     rbind (envelope_json e) (\<lambda>value.
     rbind (convert value) (\<lambda>_. Inr value)))"

definition serialize :: "json_lib \<Rightarrow> envelope \<Rightarrow> validation_error list + string" where
  "serialize J e =
     (case validated_json e of
        Inl error \<Rightarrow> Inl [error]
      | Inr value \<Rightarrow>
          (case json_dump J value of
             None \<Rightarrow> Inl [verr ''INVALID_SCHEMA'' ''''
                       ''Typed envelope could not be encoded as strict UTF-8 JSON.'']
           | Some text \<Rightarrow> rbind (parse J text) (\<lambda>_. Inr text)))"

section \<open>The schema of an envelope\<close>

fun target_ok :: "target \<Rightarrow> bool" where
  "target_ok (TemporaryTarget name) = ascii_id 64 name"
| "target_ok (EntityTarget w u g) = (ascii_id 128 w \<and> canonical_uuid u)"

definition finite_transform :: "transform \<Rightarrow> bool" where
  "finite_transform t \<longleftrightarrow>
     list_all is_finite (vec3_list (position_m t)) \<and> list_all is_finite (quat_list (rotation_xyzw t)) \<and>
     list_all is_finite (vec3_list (scale t))"

fun operation_ok :: "operation \<Rightarrow> bool" where
  "operation_ok (EntityCreate name pf) = (ascii_id 64 name \<and> ascii_id 128 pf)"
| "operation_ok (TransformSet t v) = (target_ok t \<and> finite_transform v)"
| "operation_ok (EntityDelete t policy) = (target_ok t \<and> policy = ''reject_if_children'')"
| "operation_ok (EntityReparent t p mode) =
     (target_ok t \<and> pred_option target_ok p \<and> (mode = ''preserve_world'' \<or> mode = ''preserve_local''))"
| "operation_ok (EntityTagsSet t ts) =
     (target_ok t \<and> length ts \<le> 8 \<and> distinct ts \<and> list_all (ascii_id 32) ts)"

definition envelope_ok :: "envelope \<Rightarrow> bool" where
  "envelope_ok e \<longleftrightarrow>
     protocol_version e = ''0.1'' \<and> ascii_id 128 (world_id e) \<and> canonical_uuid (transaction_id e) \<and>
     ascii_id 128 (epoch (idempotency e)) \<and>
     apply_mode (apply_at e) = ''next_tick'' \<and>
     0 < expires_after_ticks (apply_at e) \<and> expires_after_ticks (apply_at e) \<le> 4294967295 \<and>
     0 < budget_max_operations (budget e) \<and> unat (budget_max_operations (budget e)) \<le> max_operations \<and>
     operations e \<noteq> [] \<and> length (operations e) \<le> unat (budget_max_operations (budget e)) \<and>
     list_all operation_ok (operations e)"

section \<open>Reading back one value\<close>

text \<open>
  Each reader accepts exactly the well-formed values and returns what was written.  These
  equivalences, collected as simplification rules, carry the round trip of an envelope.
\<close>

named_theorems reader_simps \<open>what a reader accepts, and what it returns\<close>

lemma find_None_Inr: "(case find P xs of Some x \<Rightarrow> Inl (f x) | None \<Rightarrow> r) = Inr u \<longleftrightarrow>
    (\<forall>x \<in> set xs. \<not> P x) \<and> r = Inr u"
proof (cases "find P xs")
  case None
  then have "\<forall>x \<in> set xs. \<not> P x" by (simp add: find_None_iff)
  with None show ?thesis by simp
next
  case (Some x)
  then have "\<exists>x \<in> set xs. P x" by (auto simp: find_Some_iff)
  with Some show ?thesis by auto
qed

lemma fields_Inr:
  "fields object path names = Inr u \<longleftrightarrow>
     is_object object \<and> fst ` set (members object) = set names"
  by (auto simp: fields_def find_None_Inr contains_def)

lemma fields_json_object [reader_simps]:
  "fields (json_object ms) path names = Inr u \<longleftrightarrow> fst ` set ms = set names"
  by (simp add: fields_Inr)

lemma identifier_value_Inr [reader_simps]:
  "identifier_value v path n = Inr s \<longleftrightarrow> v = JStr s \<and> ascii_id n s"
  by (cases v) (auto simp: ascii_id_def)

declare identifier_value.simps [simp del]

lemma uuid_value_Inr [reader_simps]: "uuid_value v path = Inr s \<longleftrightarrow> v = JStr s \<and> canonical_uuid s"
  by (cases v) (auto simp: canonical_uuid_length)

declare uuid_value.simps [simp del]

lemma unsigned_integer_Inr [reader_simps]: "unsigned_integer v path = Inr u \<longleftrightarrow> v = JUInt u"
  by (cases v) auto

declare unsigned_integer.simps [simp del]

lemma target_value_ok: "target_value v path = Inr t \<Longrightarrow> target_ok t"
  by (auto simp: target_value_def res_simps reader_simps split: if_splits)

lemma target_value_json [reader_simps]:
  "target_value (target_json t) path = Inr t' \<longleftrightarrow> target_ok t \<and> t' = t"
  by (cases t) (auto simp: target_value_def res_simps reader_simps)

lemma target_json_not_null [simp]: "target_json t \<noteq> JNull"
  by (cases t) simp_all

lemma vector_value_finite:
  assumes "vector_value n v path = Inr xs"
  shows "length xs = n \<and> list_all is_finite xs"
  using assms
  by (auto simp: vector_value_def rmap_list_enumerate vector_item_def Let_def list_all_length
      split: json.splits if_splits option.splits)

lemma vector_value_json [reader_simps]:
  "vector_value n (vector_json vs) path = Inr ws \<longleftrightarrow> length vs = n \<and> list_all is_finite vs \<and> ws = vs"
proof
  assume *: "vector_value n (vector_json vs) path = Inr ws"
  then have "length ws = length vs" "ws ! i = vs ! i" if "i < length vs" for i
    using that by (auto simp: vector_value_def vector_json_def rmap_list_enumerate vector_item_def Let_def
        split: if_splits)
  moreover have "length ws = length vs"
    using * by (auto simp: vector_value_def vector_json_def rmap_list_enumerate split: if_splits)
  ultimately have "ws = vs" by (simp add: list_eq_iff_nth_eq)
  then show "length vs = n \<and> list_all is_finite vs \<and> ws = vs"
    using vector_value_finite [OF *] by simp
next
  assume "length vs = n \<and> list_all is_finite vs \<and> ws = vs"
  then show "vector_value n (vector_json vs) path = Inr ws"
    by (auto simp: vector_value_def vector_json_def rmap_list_enumerate vector_item_def Let_def list_all_length)
qed

lemma array3_vec3_list [simp]: "array3 (vec3_list v) = v"
  by (cases v) simp

lemma array4_quat_list [simp]: "array4 (quat_list q) = q"
  by (cases q) simp

lemma vec3_list_array3: "length xs = 3 \<Longrightarrow> vec3_list (array3 xs) = xs"
  by (auto simp: numeral_3_eq_3 length_Suc_conv)

lemma quat_list_array4: "length xs = 4 \<Longrightarrow> quat_list (array4 xs) = xs"
  by (auto simp: numeral_eq_Suc length_Suc_conv)

lemma tag_values_ok:
  "tag_values path vs seen = Inr ts \<Longrightarrow> distinct seen \<Longrightarrow> list_all (ascii_id 32) seen \<Longrightarrow>
     distinct ts \<and> list_all (ascii_id 32) ts \<and> length ts = length seen + length vs"
  by (induction vs arbitrary: seen) (fastforce simp: res_simps reader_simps split: if_splits)+

lemma tag_values_json [reader_simps]:
  "tag_values path (map JStr vs) seen = Inr ts \<longleftrightarrow>
     list_all (ascii_id 32) vs \<and> distinct vs \<and> set vs \<inter> set seen = {} \<and> ts = seen @ vs"
  by (induction vs arbitrary: seen) (auto simp: res_simps reader_simps split: if_splits)

lemma finite_vector_Inr [simp, reader_simps]: "finite_vector vs path = Inr u \<longleftrightarrow> list_all is_finite vs"
proof (cases "find_index (\<lambda>x. \<not> is_finite x) vs")
  case None
  then have "list_all is_finite vs" by (simp add: find_index_None list_all_iff)
  with None show ?thesis by (simp add: finite_vector_def)
next
  case (Some i)
  then show ?thesis
    using find_index_SomeD [OF Some] by (auto simp: finite_vector_def list_all_length)
qed

section \<open>Conversion is sound and inverse to printing\<close>

lemma convert_create_ok: "convert_create path v = Inr op \<Longrightarrow> operation_ok op"
  by (auto simp: convert_create_def res_simps reader_simps)

lemma convert_transform_ok: "convert_transform path v = Inr op \<Longrightarrow> operation_ok op"
  by (auto simp: convert_transform_def res_simps finite_transform_def vec3_list_array3 quat_list_array4
      dest!: target_value_ok vector_value_finite)

lemma convert_tags_ok: "convert_tags path v = Inr op \<Longrightarrow> operation_ok op"
  by (auto simp: convert_tags_def res_simps split: json.splits if_splits
      dest!: target_value_ok tag_values_ok)

lemma convert_reparent_ok: "convert_reparent path v = Inr op \<Longrightarrow> operation_ok op"
  by (auto simp: convert_reparent_def res_simps split: if_splits dest!: target_value_ok)

lemma convert_delete_ok: "convert_delete path v = Inr op \<Longrightarrow> operation_ok op"
  by (auto simp: convert_delete_def res_simps split: if_splits dest!: target_value_ok)

lemmas convert_ok = convert_create_ok convert_transform_ok convert_tags_ok convert_reparent_ok
  convert_delete_ok

lemma convert_operation_ok: "convert_operation item = Inr op \<Longrightarrow> operation_ok op"
  by (auto simp: convert_operation_def Let_def split: json.splits if_splits intro: convert_ok)

lemma convert_ok_envelope:
  assumes "convert value = Inr e"
  shows "envelope_ok e"
proof -
  have ops: "convert_operations limits v = Inr os \<Longrightarrow> os \<noteq> [] \<and>
      length os \<le> unat (budget_max_operations limits) \<and> list_all operation_ok os" for limits v os
    by (auto simp: convert_operations_def rmap_list_enumerate list_all_length
        split: json.splits if_splits dest: convert_operation_ok)
  have key: "convert_idempotency v = Inr k \<Longrightarrow> ascii_id 128 (epoch k)" for v k
    by (auto simp: convert_idempotency_def res_simps reader_simps)
  have at: "convert_apply_at v = Inr a \<Longrightarrow> apply_mode a = ''next_tick'' \<and>
      0 < expires_after_ticks a \<and> expires_after_ticks a \<le> 4294967295" for v a
    by (auto simp: convert_apply_at_def res_simps word_neq_0_conv not_less)
  have bud: "convert_budget v = Inr b \<Longrightarrow> 0 < budget_max_operations b \<and>
      unat (budget_max_operations b) \<le> max_operations" for v b
    by (auto simp: convert_budget_def res_simps word_neq_0_conv not_less)
  show ?thesis
    using assms
    by (auto simp: convert_def envelope_ok_def res_simps reader_simps dest!: ops key at bud)
qed

lemma operation_json_total: "operation_ok op \<Longrightarrow> \<exists>v. operation_json (i, op) = Inr v"
  by (cases op) (auto simp: operation_json_def Let_def res_simps finite_transform_def
      list_all_iff ascii_id_def)

lemma convert_operation_json:
  assumes "operation_json (i, op) = Inr v"
  shows "convert_operation (i, v) = Inr op' \<longleftrightarrow> operation_ok op \<and> op' = op"
proof (cases op)
  case (EntityCreate name pf)
  then show ?thesis
    using assms by (auto simp: operation_json_def Let_def convert_operation_def convert_create_def
        res_simps reader_simps)
next
  case (TransformSet t w)
  then show ?thesis
    using assms by (auto simp: operation_json_def Let_def convert_operation_def convert_transform_def
        res_simps reader_simps finite_transform_def)
next
  case (EntityDelete t policy)
  then show ?thesis
    using assms by (auto simp: operation_json_def Let_def convert_operation_def convert_delete_def
        res_simps reader_simps split: if_splits)
next
  case (EntityReparent t p mode)
  then show ?thesis
    using assms by (auto simp: operation_json_def Let_def convert_operation_def convert_reparent_def
        res_simps reader_simps split: option.splits if_splits)
next
  case (EntityTagsSet t ts)
  then show ?thesis
    using assms by (auto simp: operation_json_def Let_def convert_operation_def convert_tags_def
        res_simps reader_simps)
qed

lemma convert_operations_json:
  assumes "rmap_list operation_json (enumerate 0 ops) = Inr vs"
  shows "convert_operations limits (JArr vs) = Inr ops' \<longleftrightarrow>
    ops \<noteq> [] \<and> length ops \<le> max_operations \<and> length ops \<le> unat (budget_max_operations limits) \<and>
    list_all operation_ok ops \<and> ops' = ops"
proof -
  have len: "length vs = length ops"
    and js: "\<And>i. i < length ops \<Longrightarrow> operation_json (i, ops ! i) = Inr (vs ! i)"
    using assms by (auto simp: rmap_list_enumerate)
  have "rmap_list convert_operation (enumerate 0 vs) = Inr ops' \<longleftrightarrow>
      list_all operation_ok ops \<and> ops' = ops"
    using len convert_operation_json [OF js]
    by (auto simp: rmap_list_enumerate list_all_length list_eq_iff_nth_eq)
  moreover have "vs = [] \<longleftrightarrow> ops = []" using len by auto
  ultimately show ?thesis
    using len by (auto simp: convert_operations_def)
qed

text \<open>Converting the value printed for an envelope gives that envelope, or fails.\<close>

lemma convert_envelope_json:
  assumes "envelope_json e = Inr value"
  shows "convert value = Inr e' \<longleftrightarrow> envelope_ok e \<and> e' = e"
proof -
  obtain ops where ops: "rmap_list operation_json (enumerate 0 (operations e)) = Inr ops"
    using assms by (auto simp: envelope_json_def res_simps)
  note cops = convert_operations_json [OF ops]
  have key: "convert_idempotency (json_object [(''epoch'', JStr (epoch k)), (''sequence'', JUInt (idem_sequence k))])
      = Inr k' \<longleftrightarrow> ascii_id 128 (epoch k) \<and> k' = k" for k k'
    by (auto simp: convert_idempotency_def res_simps reader_simps)
  have at: "convert_apply_at (json_object [(''mode'', JStr (apply_mode a)),
      (''expires_after_ticks'', JUInt (expires_after_ticks a))]) = Inr a' \<longleftrightarrow>
      apply_mode a = ''next_tick'' \<and> 0 < expires_after_ticks a \<and>
      expires_after_ticks a \<le> 4294967295 \<and> a' = a" for a a'
    by (cases a) (auto simp: convert_apply_at_def res_simps reader_simps word_neq_0_conv not_less)
  have bud: "convert_budget (json_object [(''max_operations'', JUInt (budget_max_operations b)),
      (''max_blob_bytes'', JUInt (budget_max_blob_bytes b))]) = Inr b' \<longleftrightarrow>
      0 < budget_max_operations b \<and> unat (budget_max_operations b) \<le> max_operations \<and> b' = b" for b b'
    by (auto simp: convert_budget_def res_simps reader_simps word_neq_0_conv not_less)
  have fs: "fields value '''' envelope_fields = Inr u \<longleftrightarrow> True"
    and g: "jget value ''protocol_version'' = JStr (protocol_version e)"
      "jget value ''world_id'' = JStr (world_id e)"
      "jget value ''transaction_id'' = JStr (transaction_id e)"
      "jget value ''idempotency'' = json_object [(''epoch'', JStr (epoch (idempotency e))),
         (''sequence'', JUInt (idem_sequence (idempotency e)))]"
      "jget value ''expected_world_revision'' = JUInt (expected_world_revision e)"
      "jget value ''apply_at'' = json_object [(''mode'', JStr (apply_mode (apply_at e))),
         (''expires_after_ticks'', JUInt (expires_after_ticks (apply_at e)))]"
      "jget value ''budget'' = json_object [(''max_operations'', JUInt (budget_max_operations (budget e))),
         (''max_blob_bytes'', JUInt (budget_max_blob_bytes (budget e)))]"
      "jget value ''operations'' = JArr ops" for u
    using assms by (auto simp: envelope_json_def ops envelope_fields_def fields_json_object)
  show ?thesis
    unfolding convert_def g fs key at bud cops res_simps reader_simps
    by (cases e) (auto simp: envelope_ok_def)
qed

lemma envelope_json_total:
  assumes "envelope_ok e"
  shows "\<exists>value. envelope_json e = Inr value"
proof -
  have "\<forall>i < length (operations e). \<exists>v. operation_json (i, operations e ! i) = Inr v"
    using assms operation_json_total by (auto simp: envelope_ok_def list_all_length)
  then obtain f where f: "\<forall>i < length (operations e). operation_json (i, operations e ! i) = Inr (f i)"
    by metis
  have "rmap_list operation_json (enumerate 0 (operations e)) = Inr (map f [0 ..< length (operations e)])"
    using f by (simp add: rmap_list_enumerate)
  then show ?thesis by (auto simp: envelope_json_def res_simps)
qed

lemma validated_json_iff: "(\<exists>value. validated_json e = Inr value) \<longleftrightarrow> envelope_ok e"
proof
  assume "\<exists>value. validated_json e = Inr value"
  then show "envelope_ok e"
    by (auto simp: validated_json_def res_simps convert_envelope_json)
next
  assume ok: "envelope_ok e"
  then obtain jv where v: "envelope_json e = Inr jv"
    using envelope_json_total by blast
  with ok have "convert jv = Inr e" by (simp add: convert_envelope_json)
  moreover have "length (operations e) \<le> max_operations"
    using ok by (auto simp: envelope_ok_def)
  ultimately show "\<exists>value. validated_json e = Inr value"
    using v by (auto simp: validated_json_def)
qed

lemma validated_json_convert: "validated_json e = Inr value \<Longrightarrow> convert value = Inr e"
  using convert_envelope_json validated_json_iff by (auto simp: validated_json_def res_simps)

section \<open>What the SAX pass accepts\<close>

text \<open>
  On the events of a value the pass succeeds, leaving the open containers as they were,
  exactly when the value nests within the depth left and is clean.
\<close>

definition sax_accepts :: "frame list \<Rightarrow> json \<Rightarrow> bool" where
  "sax_accepts frames v \<longleftrightarrow> json_clean v \<and> length frames + json_depth v \<le> max_nesting_depth"

definition sax_passes :: "json \<Rightarrow> bool" where
  "sax_passes v \<longleftrightarrow>
     (\<forall>frames rest. length frames \<le> max_nesting_depth \<longrightarrow>
        (if sax_accepts frames v then sax_run frames (json_events v @ rest) = sax_run frames rest
         else \<exists>err. sax_run frames (json_events v @ rest) = Inl err))"

lemma depth_within:
  "d + Suc (fold max xs 0) \<le> n \<longleftrightarrow> d < n \<and> (\<forall>x \<in> set xs. Suc d + x \<le> n)" for n :: nat
  using fold_max_le [of xs 0 "n - Suc d"] by (cases "d < n") (auto simp: le_diff_conv2)

lemma sax_passesD:
  assumes "sax_passes v" "length frames \<le> max_nesting_depth"
  shows "sax_accepts frames v \<Longrightarrow> sax_run frames (json_events v @ rest) = sax_run frames rest"
    and "\<not> sax_accepts frames v \<Longrightarrow> \<exists>err. sax_run frames (json_events v @ rest) = Inl err"
  using assms by (auto simp: sax_passes_def)

lemma sax_passes_array:
  fixes frames :: "frame list"
  assumes "\<forall>v \<in> set vs. sax_passes v" "length frames \<le> max_nesting_depth"
  shows "if list_all (sax_accepts frames) vs
    then sax_run frames (concat (map json_events vs) @ rest) = sax_run frames rest
    else \<exists>err. sax_run frames (concat (map json_events vs) @ rest) = Inl err"
  using assms(1)
proof (induction vs)
  case Nil
  then show ?case by simp
next
  case (Cons v vs)
  then show ?case
    using sax_passesD [of v frames "concat (map json_events vs) @ rest"] assms(2)
    by (cases "sax_accepts frames v") auto
qed

lemma sax_passes_members:
  fixes frames :: "frame list"
  assumes "\<forall>m \<in> set ms. sax_passes (snd m)" "Suc (length frames) \<le> max_nesting_depth"
  shows "if distinct (map fst ms) \<and> fst ` set ms \<inter> set keys = {} \<and>
      list_all (\<lambda>m. json_clean (snd m) \<and> Suc (length frames) + json_depth (snd m) \<le> max_nesting_depth) ms
    then \<exists>keys'. sax_run ((True, keys) # frames)
        (concat (map (\<lambda>m. Sax_Key (fst m) # json_events (snd m)) ms) @ rest) =
        sax_run ((True, keys') # frames) rest
    else \<exists>err. sax_run ((True, keys) # frames)
        (concat (map (\<lambda>m. Sax_Key (fst m) # json_events (snd m)) ms) @ rest) = Inl err"
  using assms(1)
proof (induction ms arbitrary: keys)
  case Nil
  then show ?case by auto
next
  case (Cons m ms)
  let ?top = "(True, fst m # keys) # frames"
  have pass: "sax_passes (snd m)" using Cons.prems by simp
  have acc: "sax_accepts ?top (snd m) \<longleftrightarrow>
      json_clean (snd m) \<and> Suc (length frames) + json_depth (snd m) \<le> max_nesting_depth"
    by (simp add: sax_accepts_def)
  show ?case
  proof (cases "fst m \<notin> set keys \<and> sax_accepts ?top (snd m)")
    case True
    then show ?thesis
      using Cons.IH [of "fst m # keys"] Cons.prems assms(2) acc
        sax_passesD(1) [OF pass, of ?top "concat (map (\<lambda>m. Sax_Key (fst m) # json_events (snd m)) ms) @ rest"]
      by (auto split: if_splits)
  next
    case False
    then show ?thesis
      using Cons.prems assms(2) acc
        sax_passesD(2) [OF pass, of ?top "concat (map (\<lambda>m. Sax_Key (fst m) # json_events (snd m)) ms) @ rest"]
      by auto
  qed
qed

lemma sax_passes_all: "sax_passes v"
proof (induction v)
  case (JArr vs)
  show ?case
    unfolding sax_passes_def
  proof (intro allI impI)
    fix frames :: "frame list" and rest
    assume len: "length frames \<le> max_nesting_depth"
    show "if sax_accepts frames (JArr vs) then sax_run frames (json_events (JArr vs) @ rest) = sax_run frames rest
      else \<exists>err. sax_run frames (json_events (JArr vs) @ rest) = Inl err"
    proof (cases "length frames < max_nesting_depth")
      case True
      have "sax_accepts frames (JArr vs) \<longleftrightarrow> list_all (sax_accepts ((False, []) # frames)) vs"
        using True by (auto simp: sax_accepts_def list_all_iff depth_within simp del: add_Suc_right)
      with True JArr show ?thesis
        using sax_passes_array [of vs "(False, []) # frames" "Sax_End_Array # rest"]
        by (auto simp: open_frame_def split: if_splits)
    next
      case False
      then show ?thesis
        using len by (auto simp: sax_accepts_def open_frame_def)
    qed
  qed
next
  case (JObj ms)
  show ?case
    unfolding sax_passes_def
  proof (intro allI impI)
    fix frames :: "frame list" and rest
    assume len: "length frames \<le> max_nesting_depth"
    show "if sax_accepts frames (JObj ms) then sax_run frames (json_events (JObj ms) @ rest) = sax_run frames rest
      else \<exists>err. sax_run frames (json_events (JObj ms) @ rest) = Inl err"
    proof (cases "length frames < max_nesting_depth")
      case True
      have "sax_accepts frames (JObj ms) \<longleftrightarrow> distinct (map fst ms) \<and>
          list_all (\<lambda>m. json_clean (snd m) \<and> Suc (length frames) + json_depth (snd m) \<le> max_nesting_depth) ms"
        using True by (auto simp: sax_accepts_def list_all_iff depth_within simp del: add_Suc_right)
      moreover have "\<forall>m \<in> set ms. sax_passes (snd m)" using JObj by (force simp: snds.simps)
      ultimately show ?thesis
        using True sax_passes_members [of ms frames "[]" "Sax_End_Object # rest"]
        by (auto simp: open_frame_def split: if_splits)
    next
      case False
      then show ?thesis
        using len by (auto simp: sax_accepts_def open_frame_def)
    qed
  qed
qed (auto simp: sax_passes_def sax_accepts_def max_nesting_depth_def)

lemma sax_run_events:
  "(\<exists>frames. sax_run [] (json_events v) = Inr frames) \<longleftrightarrow> json_clean v \<and> json_depth v \<le> max_nesting_depth"
  using sax_passes_all [of v, unfolded sax_passes_def, rule_format, of "[]" "[]"]
  by (auto simp: sax_accepts_def split: if_splits)

section \<open>Printing and parsing\<close>

lemma target_json_bounds: "json_clean (target_json t) \<and> json_depth (target_json t) \<le> Suc 0"
  by (cases t) (simp_all add: json_depth_object)

lemma vector_json_bounds:
  "json_depth (vector_json vs) \<le> Suc 0" "json_clean (vector_json vs) \<longleftrightarrow> list_all is_finite vs"
  by (auto simp: vector_json_def json_depth_array list_all_iff simp del: json_depth.simps(1, 2))

lemma strings_bounds:
  "json_depth (JArr (map JStr ts)) \<le> Suc 0" "json_clean (JArr (map JStr ts))"
  by (auto simp: json_depth_array list_all_iff simp del: json_depth.simps(1, 2))

lemma operation_json_bounds:
  assumes "operation_json (i, op) = Inr v"
  shows "json_clean v \<and> json_depth v \<le> Suc (Suc 0)"
  using assms target_json_bounds
  by (cases op) (auto simp: operation_json_def Let_def res_simps json_depth_object vector_json_bounds
      strings_bounds simp del: json_depth.simps(1, 2) json_clean.simps(2) split: option.splits)

lemma envelope_json_bounds:
  assumes "envelope_json e = Inr v"
  shows "json_clean v \<and> json_depth v \<le> 4"
proof -
  obtain ops where ops: "rmap_list operation_json (enumerate 0 (operations e)) = Inr ops"
    using assms by (auto simp: envelope_json_def res_simps)
  then have "\<forall>v \<in> set ops. json_clean v \<and> json_depth v \<le> Suc (Suc 0)"
    by (auto simp: rmap_list_enumerate in_set_conv_nth dest!: operation_json_bounds)
  then have "json_clean (JArr ops)" "json_depth (JArr ops) \<le> Suc (Suc (Suc 0))"
    by (simp_all add: json_depth_array list_all_iff del: json_depth.simps(1, 2))
  moreover have "json_depth (json_object ms) \<le> Suc (Suc (Suc 0))"
    if "\<forall>m \<in> set ms. json_depth (snd m) = 0" for ms
    using that by (simp add: json_depth_object)
  moreover have four: "(4 :: nat) = Suc (Suc (Suc (Suc 0)))" by simp
  ultimately show ?thesis
    using assms unfolding four
    by (auto simp: envelope_json_def ops json_depth_object simp del: json_depth.simps(1, 2))
qed

lemma parse_printed:
  assumes "validated_json e = Inr jv" "reads_back J jv" "json_dump J jv = Some text"
    and "length text \<le> max_envelope_bytes"
  shows "parse J text = Inr e"
proof -
  have "envelope_json e = Inr jv"
    using assms(1) by (auto simp: validated_json_def res_simps)
  then have "json_clean jv \<and> json_depth jv \<le> max_nesting_depth"
    using envelope_json_bounds [of e jv] by (simp add: max_nesting_depth_def)
  then obtain frames where "sax_run [] (json_events jv) = Inr frames"
    using sax_run_events by blast
  then show ?thesis
    using assms validated_json_convert [OF assms(1)] by (simp add: parse_def reads_back_def)
qed

lemma serialize_Inr_iff:
  assumes "validated_json e = Inr jv" "reads_back J jv" "json_dump J jv = Some text"
  shows "serialize J e = Inr t \<longleftrightarrow> t = text \<and> length text \<le> max_envelope_bytes"
proof (cases "length text \<le> max_envelope_bytes")
  case True
  then show ?thesis
    using assms parse_printed [OF assms True] by (auto simp: serialize_def)
next
  case False
  then show ?thesis
    using assms by (simp add: serialize_def parse_def)
qed

lemma parse_ok: "parse J text = Inr e \<Longrightarrow> envelope_ok e"
  by (auto simp: parse_def intro: convert_ok_envelope split: if_splits sum.splits option.splits)

lemma serialize_ok: "serialize J e = Inr text \<Longrightarrow> envelope_ok e"
  using validated_json_iff [of e] by (auto simp: serialize_def split: sum.splits)

section \<open>Properties\<close>

text \<open>
  A library that answers for one value only, and an envelope to try the properties on.
\<close>

definition one_value_lib :: "json \<Rightarrow> json_lib" where
  "one_value_lib v =
     \<lparr>sax_events = (\<lambda>_. json_events v), json_parse = (\<lambda>_. Some v), json_dump = (\<lambda>_. Some ''{}'')\<rparr>"

definition sample_operations :: "operation list" where
  "sample_operations =
     [EntityCreate ''a'' ''builtin.unit_cube'', EntityCreate ''b'' ''builtin.unit_cube'',
      TransformSet (TemporaryTarget ''a'')
        \<lparr>position_m = (f_one, 0, 0), rotation_xyzw = (0, 0, 0, f_one), scale = (f_two, f_two, f_two)\<rparr>,
      EntityReparent (TemporaryTarget ''b'') (Some (TemporaryTarget ''a'')) ''preserve_local'',
      EntityTagsSet (EntityTarget ''w'' ''00000007-0000-4000-8000-000000000001'' 1) [''lamp'', ''door'']]"

definition sample_envelope :: envelope where
  "sample_envelope =
     \<lparr>protocol_version = ''0.1'', world_id = ''w'',
      transaction_id = ''0123abcd-0000-4000-8000-00000000000f'',
      idempotency = \<lparr>epoch = ''e'', idem_sequence = 1\<rparr>, expected_world_revision = 0,
      apply_at = \<lparr>apply_mode = ''next_tick'', expires_after_ticks = 60\<rparr>,
      budget = \<lparr>budget_max_operations = 8, budget_max_blob_bytes = 0\<rparr>,
      operations = sample_operations\<rparr>"

definition printed_json :: "envelope \<Rightarrow> json" where
  "printed_json e = (case validated_json e of Inr v \<Rightarrow> v | Inl _ \<Rightarrow> JNull)"

lemma sample_validated: "validated_json sample_envelope = Inr (printed_json sample_envelope)"
  by code_simp

lemma one_value_events: "sax_events (one_value_lib v) s = json_events v"
  by (simp add: one_value_lib_def)

lemma one_value_dump: "json_dump (one_value_lib v) v = Some ''{}''"
  by (simp add: one_value_lib_def)

lemma one_value_fits: "length ''{}'' \<le> max_envelope_bytes"
  by (simp add: max_envelope_bytes_def)

lemma one_value_reads_back: "reads_back (one_value_lib v) v"
  by (simp add: reads_back_def one_value_lib_def)

text \<open>C8: Whatever bytes a caller sends, an envelope that \<open>parse\<close> returns satisfies the whole
  schema (versions, identifiers, UUIDs, expiry, budgets, between 1 and the declared number of
  operations, each well formed with finite numbers), and the accepted text is within the size,
  nesting, key-uniqueness and number bounds and holds no NUL byte.\<close>

theorem parse_guarantees:
  assumes "parse J txt = Inr e" "sax_events J txt = json_events v"
  shows "envelope_ok e \<and> length txt \<le> 1048576 \<and> CHR 0x00 \<notin> set txt \<and>
    json_depth v \<le> 32 \<and> json_clean v"
proof -
  have "envelope_ok e" by (rule parse_ok [OF assms(1)])
  moreover obtain frames where "sax_run [] (json_events v) = Inr frames"
    and "length txt \<le> max_envelope_bytes" "CHR 0x00 \<notin> set txt"
    using assms by (auto simp: parse_def split: if_splits sum.splits)
  moreover from this(1) have "json_clean v \<and> json_depth v \<le> max_nesting_depth"
    using sax_run_events by blast
  ultimately show ?thesis by (simp add: max_envelope_bytes_def max_nesting_depth_def)
qed

theorem parse_guarantees_witness:
  "envelope_ok sample_envelope \<and> length ''{}'' \<le> 1048576 \<and> CHR 0x00 \<notin> set ''{}'' \<and>
     json_depth (printed_json sample_envelope) \<le> 32 \<and> json_clean (printed_json sample_envelope)"
proof (rule parse_guarantees)
  let ?J = "one_value_lib (printed_json sample_envelope)"
  show "parse ?J ''{}'' = Inr sample_envelope"
    by (rule parse_printed [OF sample_validated one_value_reads_back one_value_dump one_value_fits])
  show "sax_events ?J ''{}'' = json_events (printed_json sample_envelope)"
    by (rule one_value_events)
qed

text \<open>C7: Round trip of the command protocol: when the JSON library reads back what it prints for
  this envelope, the bytes \<open>serialize\<close> publishes parse to exactly the envelope that was given,
  and that envelope satisfies the schema.\<close>

theorem serialize_parse_round_trip:
  assumes "\<forall>v. validated_json e = Inr v \<longrightarrow> reads_back J v" "serialize J e = Inr txt"
  shows "parse J txt = Inr e \<and> envelope_ok e"
proof -
  have ok: "envelope_ok e" by (rule serialize_ok [OF assms(2)])
  then obtain jv where jv: "validated_json e = Inr jv" using validated_json_iff by blast
  with assms(1) have rb: "reads_back J jv" by blast
  obtain s where s: "json_dump J jv = Some s"
    using rb by (auto simp: reads_back_def split: option.splits)
  have "s = txt" "length s \<le> max_envelope_bytes"
    using iffD1 [OF serialize_Inr_iff [OF jv rb s] assms(2)] by simp_all
  with parse_printed [OF jv rb s] ok show ?thesis by simp
qed

theorem serialize_parse_round_trip_witness:
  "parse (one_value_lib (printed_json sample_envelope)) ''{}'' = Inr sample_envelope"
proof -
  let ?J = "one_value_lib (printed_json sample_envelope)"
  have "serialize ?J sample_envelope = Inr ''{}''"
    using serialize_Inr_iff [OF sample_validated one_value_reads_back one_value_dump] one_value_fits
    by blast
  from serialize_parse_round_trip [OF _ this] show ?thesis
    using one_value_reads_back sample_validated by simp
qed

text \<open>C9: \<open>serialize\<close> succeeds exactly for the envelopes of the schema whose printed text fits the
  envelope limit: no well-formed envelope is refused for another reason, and no malformed one
  is published.\<close>

theorem serialize_succeeds_iff:
  assumes "\<forall>v. validated_json e = Inr v \<longrightarrow> reads_back J v"
  shows "serialize J e = Inr txt \<longleftrightarrow>
    envelope_ok e \<and> length txt \<le> 1048576 \<and> (\<exists>v. envelope_json e = Inr v \<and> json_dump J v = Some txt)"
proof (cases "envelope_ok e")
  case False
  then show ?thesis using serialize_ok by blast
next
  case True
  then obtain jv where jv: "validated_json e = Inr jv" using validated_json_iff by blast
  then have "envelope_json e = Inr jv" by (auto simp: validated_json_def res_simps)
  moreover from jv assms have rb: "reads_back J jv" by blast
  moreover from rb obtain s where s: "json_dump J jv = Some s"
    by (auto simp: reads_back_def split: option.splits)
  ultimately show ?thesis
    using serialize_Inr_iff [OF jv rb s] True s by (auto simp: max_envelope_bytes_def)
qed

theorem serialize_succeeds_iff_witness:
  "serialize (one_value_lib (printed_json sample_envelope)) sample_envelope = Inr ''{}'' \<longleftrightarrow>
     envelope_ok sample_envelope \<and> length ''{}'' \<le> 1048576 \<and>
     (\<exists>v. envelope_json sample_envelope = Inr v \<and>
        json_dump (one_value_lib (printed_json sample_envelope)) v = Some ''{}'')"
  by (rule serialize_succeeds_iff) (simp add: sample_validated one_value_reads_back)

text \<open>C10: The streaming pass over untrusted input accepts the event sequence of a JSON value exactly
  when containers nest at most 32 deep, the keys of every object are distinct and every number
  is finite.\<close>

theorem sax_pass_exact:
  "(\<exists>frames. sax_run [] (json_events v) = Inr frames) \<longleftrightarrow> json_clean v \<and> json_depth v \<le> 32"
  using sax_run_events [of v] by (simp add: max_nesting_depth_def)

end
