(* ===== verification/Transactions.thy ===== *)
theory Transactions
  imports Hierarchy Commands
begin

text \<open>
  The coordinator of \<open>include/omniweft/transactions.hpp\<close> and \<open>src/transactions.cpp\<close>: an
  envelope is admitted by an optional staging guard, validated, applied operation by
  operation to a copy of the world, offered to an optional commit observer and then swapped
  in.  The guard and the observer are parameters with a state of their own; every exception
  a hook can throw is a value.  The lemmas show that a rejection leaves the world as it was,
  that a commit raises the revision by one and keeps the world well-formed, and that the
  recorded bindings of a commit reproduce it.
\<close>

section \<open>Data\<close>

record created_binding =
  binding_temporary_id :: string
  binding_world_id :: string
  binding_uuid :: string
  binding_generation :: u64

record receipt =
  receipt_status :: string
  receipt_durability :: string
  receipt_transaction_id :: string
  receipt_revision :: u64
  receipt_created :: "created_binding list"
  receipt_errors :: "terror list"

definition empty_receipt :: receipt where
  "empty_receipt =
     \<lparr>receipt_status = ''rejected'', receipt_durability = ''volatile'', receipt_transaction_id = [],
      receipt_revision = 0, receipt_created = [], receipt_errors = []\<rparr>"

text \<open>
  The virtual functions of a \<open>StagingGuard\<close>, over the guard's state; each may throw an
  \<open>Error\<close>, except \<open>commit\<close>.
\<close>

record 'g staging_hooks =
  guard_begin :: "world \<Rightarrow> snapshot \<Rightarrow> envelope \<Rightarrow> ('g, terror, unit) gx"
  guard_create :: "nat \<Rightarrow> nat \<Rightarrow> ('g, terror, unit) gx"
  guard_transform :: "nat \<Rightarrow> transform \<Rightarrow> transform \<Rightarrow> nat \<Rightarrow> ('g, terror, unit) gx"
  guard_erase :: "nat \<Rightarrow> transform \<Rightarrow> nat \<Rightarrow> ('g, terror, unit) gx"
  guard_finish :: "snapshot \<Rightarrow> ('g, terror, unit) gx"
  guard_commit :: "'g \<Rightarrow> 'g"

text \<open>
  A \<open>CommitObserver\<close>: \<open>prepare\<close> may throw an \<open>Error\<close>, which the coordinator turns into a
  rejection, or anything else, which it lets pass.
\<close>

datatype 'x prepare_failure = Rejects terror | Throws 'x

record ('o, 'x) observer_hooks =
  observer_prepare :: "snapshot \<Rightarrow> receipt \<Rightarrow> ('o, 'x prepare_failure, unit) gx"
  observer_publish :: "'o \<Rightarrow> 'o"

section \<open>Errors and identifiers\<close>

fun decimal_value :: "string \<Rightarrow> nat \<Rightarrow> nat" where
  "decimal_value [] n = n"
| "decimal_value (c # cs) n = decimal_value cs (10 * n + (of_char c - 48))"

definition operations_prefix :: string where
  "operations_prefix = ''/operations/''"

definition schema_error :: "validation_error \<Rightarrow> terror" where
  "schema_error source =
     (let n = length operations_prefix; path = verr_path source in
      \<lparr>terr_code = verr_code source, terr_path = path, terr_message = verr_message source,
       operation_index =
         (if take n path = operations_prefix then
            let suffix = drop n path; digits = takeWhile is_digit_char suffix;
                rest = dropWhile is_digit_char suffix
            in if digits \<noteq> [] \<and> decimal_value digits 0 < 2 ^ 64 \<and> (rest = [] \<or> hd rest = CHR ''/'')
               then Some (decimal_value digits 0) else None
          else None)\<rparr>)"

definition hex_digit :: "u64 \<Rightarrow> char" where
  "hex_digit v = ''0123456789abcdef'' ! unat (and v 15)"

fun hex :: "u64 \<Rightarrow> nat \<Rightarrow> string" where
  "hex v 0 = []"
| "hex v (Suc width) = hex (drop_bit 4 v) width @ [hex_digit v]"

definition slot_uuid :: "u32 \<Rightarrow> nat \<Rightarrow> string" where
  "slot_uuid seed0 index =
     hex (ucast seed0) 8 @ ''-0000-4000-8000-'' @ hex (word_of_nat index + 1) 12"

section \<open>Staging\<close>

text \<open>The world, UUID and generation a temporary name stands for.\<close>

type_synonym identity = "string \<times> string \<times> u64"

record staging =
  staged :: snapshot
  staged_names :: "(string \<times> identity) list"
  staged_created :: "created_binding list"

definition staged_slots :: "staging \<Rightarrow> slot list" where
  "staged_slots st = slots (staged st)"

definition set_slots :: "slot list \<Rightarrow> staging \<Rightarrow> staging" where
  "set_slots ss st = st\<lparr>staged := (staged st)\<lparr>slots := ss\<rparr>\<rparr>"

definition hook :: "'g staging_hooks option \<Rightarrow> ('g staging_hooks \<Rightarrow> ('g, terror, unit) gx) \<Rightarrow> ('g, terror, unit) gx" where
  "hook guard call = (case guard of None \<Rightarrow> gret () | Some g \<Rightarrow> call g)"

definition operation_path :: "nat \<Rightarrow> string" where
  "operation_path index = ''/operations/'' @ to_string index"

definition resolve_identity ::
  "snapshot \<Rightarrow> bool \<Rightarrow> identity \<Rightarrow> string \<Rightarrow> nat \<Rightarrow> terror + nat" where
  "resolve_identity sn temporary identity path index =
     (case identity of (w, u, g) \<Rightarrow>
        if w \<noteq> snapshot_world_id sn
        then Inl (terr ''NOT_FOUND'' (path @ ''/world_id'') ''Target world is not this world.'' index)
        else case find_index (\<lambda>s. entity_uuid s = u) (slots sn) of
          None \<Rightarrow>
            Inl (terr ''NOT_FOUND'' (path @ ''/entity_uuid'') ''Entity UUID is not known in this world.'' index)
        | Some i \<Rightarrow>
            let s = slots sn ! i in
            if retired s \<or> entity_of s = None \<or> generation s \<noteq> g
            then Inl (terr ''STALE_HANDLE'' (path @ (if temporary then ''/temporary_id'' else ''/generation''))
                   ''Entity handle is deleted, retired or has a stale generation.'' index)
            else Inr i)"

fun resolve ::
  "snapshot \<Rightarrow> target \<Rightarrow> (string \<times> identity) list \<Rightarrow> string \<Rightarrow> nat \<Rightarrow> terror + nat" where
  "resolve sn (TemporaryTarget name) names path index =
     (case map_of names name of
        None \<Rightarrow> Inl (terr ''NOT_FOUND'' (path @ ''/temporary_id'')
                  ''Temporary target must reference an earlier create in this batch.'' index)
      | Some identity \<Rightarrow> resolve_identity sn True identity path index)"
| "resolve sn (EntityTarget w u g) names path index = resolve_identity sn False (w, u, g) path index"

section \<open>Operations\<close>

definition new_slot :: "string \<Rightarrow> slot" where
  "new_slot u = \<lparr>entity_uuid = u, generation = 1, retired = False, entity_of = None\<rparr>"

definition allocate_slot ::
  "'g staging_hooks option \<Rightarrow> string \<Rightarrow> nat \<Rightarrow> snapshot \<Rightarrow> ('g, terror, nat \<times> slot list) gx" where
  "allocate_slot guard path index sn =
     (case find_index (\<lambda>s. entity_of s = None \<and> \<not> retired s) (slots sn) of
        None \<Rightarrow>
          if length (slots sn) \<ge> unat (max_slots sn)
          then glift (Inl (terr ''BUDGET_EXCEEDED'' path ''World slot capacity is exhausted.'' index))
          else gbind (hook guard (\<lambda>g. guard_create g (length (slots sn)) index)) (\<lambda>_.
               gret (length (slots sn), slots sn @ [new_slot (slot_uuid (seed sn) (length (slots sn)))]))
      | Some i \<Rightarrow> gbind (hook guard (\<lambda>g. guard_create g i index)) (\<lambda>_. gret (i, slots sn)))"

definition binding_matches :: "created_binding \<Rightarrow> string \<Rightarrow> string \<Rightarrow> slot \<Rightarrow> bool" where
  "binding_matches b name w s \<longleftrightarrow>
     binding_temporary_id b = name \<and> binding_world_id b = w \<and>
     binding_uuid b = entity_uuid s \<and> binding_generation b = generation s"

definition use_binding ::
  "created_binding list option \<Rightarrow> nat \<Rightarrow> string \<Rightarrow> string \<Rightarrow> nat \<Rightarrow> slot \<Rightarrow> terror + slot" where
  "use_binding bindings n name w index s =
     (case bindings of
        None \<Rightarrow> Inr s
      | Some bs \<Rightarrow>
          if n \<ge> length bs
          then Inl (terr ''INVALID_REPLAY'' ''/created'' ''Missing recorded creation mapping.'' index)
          else if \<not> binding_matches (bs ! n) name w s
          then Inl (terr ''INVALID_REPLAY'' ''/created''
                 ''Recorded creation mapping differs from allocator contract.'' index)
          else Inr (s\<lparr>entity_uuid := binding_uuid (bs ! n), generation := binding_generation (bs ! n)\<rparr>))"

definition new_entity :: "string \<Rightarrow> u64 \<Rightarrow> entity" where
  "new_entity pf revision =
     \<lparr>prefab = pf, authoring_revision = revision, transform_of = default_transform, parent = None,
      local_transform = default_transform, tags = []\<rparr>"

definition unit_cube :: string where
  "unit_cube = ''builtin.unit_cube''"

definition apply_create ::
  "'g staging_hooks option \<Rightarrow> created_binding list option \<Rightarrow> u64 \<Rightarrow> nat \<Rightarrow> string \<Rightarrow> string \<Rightarrow>
     staging \<Rightarrow> ('g, terror, staging) gx" where
  "apply_create guard bindings revision index name pf st =
     (let path = operation_path index; sn = staged st in
      if name \<in> fst ` set (staged_names st)
      then glift (Inl (terr ''INVALID_SCHEMA'' (path @ ''/temporary_id'')
             ''Temporary names must be unique throughout the batch.'' index))
      else if pf \<noteq> unit_cube
      then glift (Inl (terr ''NOT_FOUND'' (path @ ''/prefab'')
             ''Only the builtin.unit_cube prefab is executable.'' index))
      else
        gbind (allocate_slot guard path index sn) (\<lambda>(i, ss).
        gbind (glift (use_binding bindings (length (staged_created st)) name (snapshot_world_id sn) index (ss ! i))) (\<lambda>s.
        gret \<lparr>staged = sn\<lparr>slots := ss[i := s\<lparr>entity_of := Some (new_entity pf revision)\<rparr>]\<rparr>,
              staged_names = (name, (snapshot_world_id sn, entity_uuid s, generation s)) # staged_names st,
              staged_created = staged_created st @
                [\<lparr>binding_temporary_id = name, binding_world_id = snapshot_world_id sn,
                  binding_uuid = entity_uuid s, binding_generation = generation s\<rparr>]\<rparr>)))"

definition apply_transform ::
  "'g staging_hooks option \<Rightarrow> u64 \<Rightarrow> nat \<Rightarrow> target \<Rightarrow> transform \<Rightarrow> staging \<Rightarrow> ('g, terror, staging) gx" where
  "apply_transform guard revision index t value st =
     (let path = operation_path index; sn = staged st; ss = slots sn in
      gbind (glift (replacement_transform value path index)) (\<lambda>replacement.
      gbind (glift (resolve sn t (staged_names st) (path @ ''/target'') index)) (\<lambda>i.
      gbind (hook guard (\<lambda>g. guard_transform g i (transform_of (entity_at ss i)) replacement index)) (\<lambda>_.
      glift (
        rbind (if has_children ss (ss ! i) then parent_scale replacement (path @ ''/scale'') index
               else Inr ()) (\<lambda>_.
        rbind (parent_of ss (ss ! i)) (\<lambda>p.
        rbind (case p of
                 Some j \<Rightarrow> relative (transform_of (entity_at ss j)) replacement path index
               | None \<Rightarrow> Inr (local_transform (entity_at ss i))) (\<lambda>loc.
        rbind (subtree (map_entity (\<lambda>e. e\<lparr>local_transform := loc, transform_of := replacement\<rparr>) i ss)
                 i revision path index) (\<lambda>ss'.
        Inr (set_slots ss' st))))))))))"

definition apply_tags ::
  "u64 \<Rightarrow> nat \<Rightarrow> target \<Rightarrow> string list \<Rightarrow> staging \<Rightarrow> terror + staging" where
  "apply_tags revision index t ts st =
     (let path = operation_path index; sn = staged st in
      rbind (resolve sn t (staged_names st) (path @ ''/target'') index) (\<lambda>i.
      Inr (set_slots (map_entity (\<lambda>e. e\<lparr>tags := sort ts, authoring_revision := revision\<rparr>) i (slots sn)) st)))"

definition apply_reparent ::
  "u64 \<Rightarrow> nat \<Rightarrow> target \<Rightarrow> target option \<Rightarrow> string \<Rightarrow> staging \<Rightarrow> terror + staging" where
  "apply_reparent revision index t p mode st =
     (let path = operation_path index; sn = staged st in
      rbind (resolve sn t (staged_names st) (path @ ''/target'') index) (\<lambda>i.
      rbind (case p of
               Some q \<Rightarrow> rbind (resolve sn q (staged_names st) (path @ ''/parent'') index) (\<lambda>j. Inr (Some j))
             | None \<Rightarrow> Inr None) (\<lambda>new_parent.
      rbind (reparent (slots sn) i new_parent mode path index) (\<lambda>ss.
      rbind (subtree ss i revision path index) (\<lambda>ss'.
      Inr (set_slots ss' st))))))"

text \<open>A deleted slot keeps its UUID; a new entity in it has the next generation.\<close>

definition tombstone :: "slot \<Rightarrow> slot" where
  "tombstone s =
     (if generation s = u64_max then s\<lparr>entity_of := None, retired := True\<rparr>
      else s\<lparr>entity_of := None, generation := generation s + 1\<rparr>)"

definition apply_delete ::
  "'g staging_hooks option \<Rightarrow> nat \<Rightarrow> target \<Rightarrow> staging \<Rightarrow> ('g, terror, staging) gx" where
  "apply_delete guard index t st =
     (let path = operation_path index; sn = staged st; ss = slots sn in
      gbind (glift (resolve sn t (staged_names st) (path @ ''/target'') index)) (\<lambda>i.
      if has_children ss (ss ! i)
      then glift (Inl (terr ''INVALID_SCHEMA'' (path @ ''/child_policy'')
             ''Detach or delete children before deleting their parent.'' index))
      else gbind (hook guard (\<lambda>g. guard_erase g i (transform_of (entity_at ss i)) index)) (\<lambda>_.
           gret (set_slots (ss[i := tombstone (ss ! i)]) st))))"

fun apply_operation ::
  "'g staging_hooks option \<Rightarrow> created_binding list option \<Rightarrow> u64 \<Rightarrow> nat \<Rightarrow> operation \<Rightarrow>
     staging \<Rightarrow> ('g, terror, staging) gx" where
  "apply_operation guard bindings revision index (EntityCreate name pf) st =
     apply_create guard bindings revision index name pf st"
| "apply_operation guard bindings revision index (TransformSet t value) st =
     apply_transform guard revision index t value st"
| "apply_operation guard bindings revision index (EntityTagsSet t ts) st =
     glift (apply_tags revision index t ts st)"
| "apply_operation guard bindings revision index (EntityReparent t p mode) st =
     glift (apply_reparent revision index t p mode st)"
| "apply_operation guard bindings revision index (EntityDelete t policy) st =
     apply_delete guard index t st"

fun apply_operations ::
  "'g staging_hooks option \<Rightarrow> created_binding list option \<Rightarrow> u64 \<Rightarrow> nat \<Rightarrow> operation list \<Rightarrow>
     staging \<Rightarrow> ('g, terror, staging) gx" where
  "apply_operations guard bindings revision index [] st = gret st"
| "apply_operations guard bindings revision index (op # ops) st =
     gbind (apply_operation guard bindings revision index op st) (\<lambda>st'.
     apply_operations guard bindings revision (Suc index) ops st')"

section \<open>The coordinator\<close>

definition staged_version :: "slot list \<Rightarrow> u32" where
  "staged_version ss =
     (if list_ex (\<lambda>s. case entity_of s of Some e \<Rightarrow> tags e \<noteq> [] | None \<Rightarrow> False) ss then 3
      else if list_ex (\<lambda>s. case entity_of s of Some e \<Rightarrow> parent e \<noteq> None | None \<Rightarrow> False) ss then 2
      else 1)"

definition stage ::
  "'g staging_hooks option \<Rightarrow> created_binding list option \<Rightarrow> snapshot \<Rightarrow> operation list \<Rightarrow>
     ('g, terror, staging) gx" where
  "stage guard bindings sn ops =
     gbind (apply_operations guard bindings (world_revision sn + 1) 0 ops
              \<lparr>staged = sn, staged_names = [], staged_created = []\<rparr>) (\<lambda>st.
     let st' = st\<lparr>staged := (staged st)\<lparr>format_version := staged_version (slots (staged st))\<rparr>\<rparr> in
     if (case bindings of Some bs \<Rightarrow> length (staged_created st) \<noteq> length bs | None \<Rightarrow> False)
     then glift (Inl (terr_batch ''INVALID_REPLAY'' ''/created'' ''Extra recorded creation mapping.''))
     else gbind (hook guard (\<lambda>g. guard_finish g (staged st'))) (\<lambda>_. gret st'))"

definition admission :: "world \<Rightarrow> json_lib \<Rightarrow> envelope \<Rightarrow> terror list + unit" where
  "admission w J e =
     (case serialize J e of
        Inl errors \<Rightarrow> Inl (map schema_error errors)
      | Inr _ \<Rightarrow>
          if world_id e \<noteq> snapshot_world_id (state w)
          then Inl [terr_batch ''NOT_FOUND'' ''/world_id'' ''Envelope world is not this world.'']
          else if expected_world_revision e \<noteq> world_revision (state w)
          then Inl [terr_batch ''REVISION_CONFLICT'' ''/expected_world_revision''
                 ''Expected authoring revision is stale.'']
          else if world_revision (state w) = u64_max
          then Inl [terr_batch ''BUDGET_EXCEEDED'' ''/expected_world_revision''
                 ''World revision is exhausted.'']
          else Inr ())"

definition initial_receipt :: "'g staging_hooks option \<Rightarrow> world \<Rightarrow> envelope \<Rightarrow> receipt" where
  "initial_receipt guard w e =
     empty_receipt\<lparr>receipt_transaction_id :=
         (if guard = None \<or> length (transaction_id e) \<le> 128 then transaction_id e else []),
       receipt_revision := world_revision (state w)\<rparr>"

definition rejection :: "receipt \<Rightarrow> terror list \<Rightarrow> receipt" where
  "rejection r errors = r\<lparr>receipt_errors := receipt_errors r @ errors\<rparr>"

definition commit_receipt :: "receipt \<Rightarrow> u64 \<Rightarrow> created_binding list \<Rightarrow> receipt" where
  "commit_receipt r revision created =
     r\<lparr>receipt_status := ''committed'', receipt_revision := revision, receipt_created := created\<rparr>"

type_synonym ('g, 'o) boundary = "world \<times> 'g \<times> 'o"

definition publish_commit ::
  "'g staging_hooks option \<Rightarrow> ('o, 'x) observer_hooks option \<Rightarrow> snapshot \<Rightarrow> ('g, 'o) boundary \<Rightarrow> ('g, 'o) boundary" where
  "publish_commit guard observer sn b =
     (let (w, g, obs) = b in
      (w\<lparr>state := sn\<rparr>,
       (case guard of Some h \<Rightarrow> guard_commit h g | None \<Rightarrow> g),
       (case observer of Some h \<Rightarrow> observer_publish h obs | None \<Rightarrow> obs)))"

definition apply_envelope ::
  "json_lib \<Rightarrow> 'g staging_hooks option \<Rightarrow> ('o, 'x) observer_hooks option \<Rightarrow> created_binding list option \<Rightarrow>
     envelope \<Rightarrow> (('g, 'o) boundary, 'x, receipt) gx" where
  "apply_envelope J guard observer bindings e b =
     (let (w, g, obs) = b; r = initial_receipt guard w e in
      case hook guard (\<lambda>h. guard_begin h w (state w) e) g of
        (g1, Inl err) \<Rightarrow> ((w, g1, obs), Inr (rejection r [err]))
      | (g1, Inr _) \<Rightarrow>
          (case admission w J e of
             Inl errors \<Rightarrow> ((w, g1, obs), Inr (rejection r errors))
           | Inr _ \<Rightarrow>
               (case stage guard bindings (state w) (operations e) g1 of
                  (g2, Inl err) \<Rightarrow> ((w, g2, obs), Inr (rejection r [err]))
                | (g2, Inr st) \<Rightarrow>
                    let next_revision = world_revision (state w) + 1;
                        sn = (staged st)\<lparr>world_revision := next_revision\<rparr>;
                        r' = commit_receipt r next_revision (staged_created st)
                    in case (case observer of None \<Rightarrow> gret () | Some h \<Rightarrow> observer_prepare h sn r') obs of
                         (obs1, Inl (Rejects err)) \<Rightarrow> ((w, g2, obs1), Inr (rejection r [err]))
                       | (obs1, Inl (Throws x)) \<Rightarrow> ((w, g2, obs1), Inl x)
                       | (obs1, Inr _) \<Rightarrow> (publish_commit guard observer sn (w, g2, obs1), Inr r'))))"

definition apply_at_boundary ::
  "json_lib \<Rightarrow> 'g staging_hooks option \<Rightarrow> ('o, 'x) observer_hooks option \<Rightarrow> envelope \<Rightarrow>
     (('g, 'o) boundary, 'x, receipt) gx" where
  "apply_at_boundary J guard observer e = apply_envelope J guard observer None e"

text \<open>Replay has neither hook; what is left is a function on the world.\<close>

definition replay_at_boundary ::
  "json_lib \<Rightarrow> created_binding list \<Rightarrow> envelope \<Rightarrow> world \<Rightarrow> world \<times> receipt" where
  "replay_at_boundary J bindings e w =
     (case apply_envelope J (None :: unit staging_hooks option)
             (None :: (unit, unit) observer_hooks option) (Some bindings) e (w, (), ()) of
        ((w', _), Inr r) \<Rightarrow> (w', r)
      | ((w', _), Inl _) \<Rightarrow> (w', empty_receipt))"

end
