(* ===== verification/Retry.thy ===== *)
theory Retry
  imports Transactions
begin

text \<open>
  The admission window of \<open>include/omniweft/retry.hpp\<close> and \<open>src/retry.cpp\<close>: requests carry
  sequence numbers, each number is applied once, and for two seconds a repeated request gets
  the receipt of the first one.  A clock reading is an integer number of nanoseconds.  The
  callback changes a state of its caller and returns a receipt or throws; the borrowed receipt
  pointer of the result is the receipt it points to.  Failed allocations are not modelled.
\<close>

section \<open>The window\<close>

definition window_size :: nat where
  "window_size = 4"

definition payload_limit :: nat where
  "payload_limit = 16384"

definition receipt_field_limit :: nat where
  "receipt_field_limit = 8192"

definition receipt_lifetime :: int where
  "receipt_lifetime = 2000 * 1000000"

record retry_result =
  result_receipt :: "receipt option"
  result_code :: string
  replayed :: bool

record retry_entry =
  entry_sequence :: u64
  entry_payload :: string
  entry_receipt :: "receipt option"
  entry_deadline :: int

definition empty_entry :: retry_entry where
  "empty_entry = \<lparr>entry_sequence = 0, entry_payload = [], entry_receipt = None, entry_deadline = 0\<rparr>"

record window =
  window_entries :: "retry_entry list"
  next_sequence :: u64
  exhausted :: bool

definition fresh_window :: window where
  "fresh_window =
     \<lparr>window_entries = replicate window_size empty_entry, next_sequence = 1, exhausted = False\<rparr>"

definition window_reset :: "window \<Rightarrow> window" where
  "window_reset w =
     w\<lparr>window_entries := map (\<lambda>_. empty_entry) (window_entries w), next_sequence := 1, exhausted := False\<rparr>"

definition binding_bounded :: "created_binding \<Rightarrow> bool" where
  "binding_bounded b \<longleftrightarrow>
     length (binding_temporary_id b) \<le> 64 \<and> length (binding_world_id b) \<le> 64 \<and>
     length (binding_uuid b) = 36"

definition binding_bytes :: "created_binding \<Rightarrow> nat" where
  "binding_bytes b =
     length (binding_temporary_id b) + length (binding_world_id b) + length (binding_uuid b)"

definition error_bounded :: "terror \<Rightarrow> bool" where
  "error_bounded e \<longleftrightarrow>
     length (terr_code e) \<le> 64 \<and> length (terr_path e) \<le> 256 \<and> length (terr_message e) \<le> 512"

definition error_bytes :: "terror \<Rightarrow> nat" where
  "error_bytes e = length (terr_code e) + length (terr_path e) + length (terr_message e)"

definition receipt_bounded :: "receipt \<Rightarrow> bool" where
  "receipt_bounded r \<longleftrightarrow>
     length (receipt_transaction_id r) \<le> 36 \<and> length (receipt_status r) \<le> 16 \<and>
     receipt_durability r = ''volatile'' \<and> length (receipt_created r) \<le> 4 \<and>
     length (receipt_errors r) \<le> 4 \<and>
     list_all binding_bounded (receipt_created r) \<and> list_all error_bounded (receipt_errors r) \<and>
     length (receipt_transaction_id r) + length (receipt_status r) + length (receipt_durability r) +
       sum_list (map binding_bytes (receipt_created r)) + sum_list (map error_bytes (receipt_errors r))
       \<le> receipt_field_limit"

section \<open>Executing a request\<close>

definition refused :: "string \<Rightarrow> retry_result" where
  "refused code = \<lparr>result_receipt = None, result_code = code, replayed = False\<rparr>"

definition expire :: "int \<Rightarrow> retry_entry \<Rightarrow> retry_entry" where
  "expire now e = (if entry_sequence e \<noteq> 0 \<and> now \<ge> entry_deadline e then empty_entry else e)"

definition known_result :: "string \<Rightarrow> retry_entry \<Rightarrow> retry_result" where
  "known_result canonical e =
     (if entry_payload e \<noteq> canonical then refused ''IDEMPOTENCY_MISMATCH''
      else case entry_receipt e of
        None \<Rightarrow> refused ''REQUIRES_RESYNC''
      | Some r \<Rightarrow> \<lparr>result_receipt = Some r, result_code = [], replayed = True\<rparr>)"

definition find_entry :: "u64 \<Rightarrow> retry_entry list \<Rightarrow> retry_entry option" where
  "find_entry s es = find (\<lambda>e. entry_sequence e = s) es"

definition window_slot :: "u64 \<Rightarrow> nat" where
  "window_slot s = unat (s - 1) mod window_size"

definition reserve :: "int \<Rightarrow> u64 \<Rightarrow> string \<Rightarrow> window \<Rightarrow> window" where
  "reserve now s canonical w =
     (let e = \<lparr>entry_sequence = s, entry_payload = canonical, entry_receipt = None,
               entry_deadline = now + receipt_lifetime\<rparr>;
          w' = w\<lparr>window_entries := (window_entries w)[window_slot s := e]\<rparr>
      in if next_sequence w = u64_max then w'\<lparr>exhausted := True\<rparr>
         else w'\<lparr>next_sequence := next_sequence w + 1\<rparr>)"

definition retain :: "u64 \<Rightarrow> receipt \<Rightarrow> window \<Rightarrow> window" where
  "retain s r w =
     w\<lparr>window_entries := (window_entries w)
         [window_slot s := (window_entries w ! window_slot s)\<lparr>entry_receipt := Some r\<rparr>]\<rparr>"

text \<open>\<open>apply\<close> may be null; its exception is \<open>Inl\<close>.\<close>

definition execute ::
  "int \<Rightarrow> u64 \<Rightarrow> string \<Rightarrow> ('s, 'x, receipt) gx option \<Rightarrow> window \<times> 's \<Rightarrow> (window \<times> 's) \<times> retry_result" where
  "execute now s canonical callback st =
     (let w = (fst st)\<lparr>window_entries := map (expire now) (window_entries (fst st))\<rparr> in
      if s = 0 \<or> \<not> exhausted w \<and> s > next_sequence w then ((w, snd st), refused ''REQUIRES_RESYNC'')
      else if s < next_sequence w \<or> exhausted w then
        ((w, snd st),
         (case find_entry s (window_entries w) of
            Some e \<Rightarrow> known_result canonical e
          | None \<Rightarrow> refused ''REQUIRES_RESYNC''))
      else if canonical = [] \<or> length canonical > payload_limit then ((w, snd st), refused ''BUDGET_EXCEEDED'')
      else case callback of
        None \<Rightarrow> ((w, snd st), refused ''BUDGET_EXCEEDED'')
      | Some f \<Rightarrow>
          let w1 = reserve now s canonical w in
          (case f (snd st) of
             (s', Inl x) \<Rightarrow> ((w1, s'), refused ''REQUIRES_RESYNC'')
           | (s', Inr r) \<Rightarrow>
               if \<not> receipt_bounded r then ((w1, s'), refused ''REQUIRES_RESYNC'')
               else ((retain s r w1, s'), \<lparr>result_receipt = Some r, result_code = [], replayed = False\<rparr>)))"

text \<open>A request with its clock reading, and a sequence of requests.\<close>

type_synonym ('s, 'x) request = "int \<times> u64 \<times> string \<times> ('s, 'x, receipt) gx option"

fun execute_all :: "('s, 'x) request list \<Rightarrow> window \<times> 's \<Rightarrow> window \<times> 's" where
  "execute_all [] st = st"
| "execute_all ((now, s, canonical, callback) # rs) st =
     execute_all rs (fst (execute now s canonical callback st))"

section \<open>Invariant\<close>

definition entry_ok :: "window \<Rightarrow> nat \<Rightarrow> retry_entry \<Rightarrow> bool" where
  "entry_ok w k e \<longleftrightarrow>
     entry_sequence e \<noteq> 0 \<longrightarrow>
       window_slot (entry_sequence e) = k \<and> (entry_sequence e < next_sequence w \<or> exhausted w)"

definition window_ok :: "window \<Rightarrow> bool" where
  "window_ok w \<longleftrightarrow>
     length (window_entries w) = window_size \<and> next_sequence w \<noteq> 0 \<and>
     (exhausted w \<longrightarrow> next_sequence w = u64_max) \<and>
     (\<forall>k < window_size. entry_ok w k (window_entries w ! k))"

definition expired :: "int \<Rightarrow> window \<Rightarrow> window" where
  "expired now w = w\<lparr>window_entries := map (expire now) (window_entries w)\<rparr>"

lemma expired_fields [simp]:
  "next_sequence (expired now w) = next_sequence w" "exhausted (expired now w) = exhausted w"
  "length (window_entries (expired now w)) = length (window_entries w)"
  by (simp_all add: expired_def)

lemma empty_entry_sequence [simp]: "entry_sequence empty_entry = 0"
  by (simp add: empty_entry_def)

lemma window_slot_less [simp]: "window_slot s < window_size"
  by (simp add: window_slot_def window_size_def)

lemma fresh_window_ok: "window_ok fresh_window"
  by (simp add: window_ok_def fresh_window_def entry_ok_def)

lemma window_reset_fresh: "length (window_entries w) = window_size \<Longrightarrow> window_reset w = fresh_window"
  by (simp add: window_reset_def fresh_window_def map_replicate_const)

lemma expired_ok: "window_ok w \<Longrightarrow> window_ok (expired now w)"
  by (auto simp: window_ok_def expired_def entry_ok_def expire_def)

lemma next_succ:
  fixes n :: u64
  assumes "n \<noteq> 0" "n \<noteq> u64_max"
  shows "n + 1 \<noteq> 0" "n < n + 1" "q < n \<Longrightarrow> q < n + 1"
proof -
  show "n < n + 1" using u64_succ_less [OF assms(2)] .
  then show "n + 1 \<noteq> 0" and "q < n \<Longrightarrow> q < n + 1" by auto
qed

lemma reserve_ok:
  assumes w: "window_ok w" and "\<not> exhausted w"
  shows "window_ok (reserve now (next_sequence w) p w)"
proof (cases "next_sequence w = u64_max")
  case True
  then show ?thesis using assms by (auto simp: window_ok_def reserve_def entry_ok_def nth_list_update)
next
  case False
  then show ?thesis
    using assms next_succ [of "next_sequence w"]
    by (auto simp: window_ok_def reserve_def entry_ok_def nth_list_update Let_def)
qed

lemma retain_ok: "window_ok w \<Longrightarrow> window_ok (retain s r w)"
  by (auto simp: window_ok_def retain_def entry_ok_def nth_list_update)

text \<open>The ways a request can end.\<close>

lemma execute_cases:
  assumes run: "execute now s p callback (w, x) = ((w', x'), res)"
  obtains (refused) code where "w' = expired now w" "x' = x" "res = refused code"
  | (known) e where "w' = expired now w" "x' = x" "s < next_sequence w \<or> exhausted w" "s \<noteq> 0"
      "find_entry s (window_entries (expired now w)) = Some e" "res = known_result p e"
  | (failed) f y where "s = next_sequence w" "\<not> exhausted w" "callback = Some f"
      "f x = (x', y)" "w' = reserve now s p (expired now w)" "res = refused ''REQUIRES_RESYNC''"
  | (applied) f r where "s = next_sequence w" "\<not> exhausted w" "callback = Some f" "f x = (x', Inr r)"
      "receipt_bounded r" "w' = retain s r (reserve now s p (expired now w))"
      "res = \<lparr>result_receipt = Some r, result_code = [], replayed = False\<rparr>"
proof -
  have e: "w\<lparr>window_entries := map (expire now) (window_entries w)\<rparr> = expired now w"
    by (simp add: expired_def)
  note run' = run [unfolded execute_def fst_conv snd_conv e Let_def]
  consider (none) "s = 0 \<or> \<not> exhausted w \<and> next_sequence w < s"
    | (old) "s \<noteq> 0" "s < next_sequence w \<or> exhausted w" "\<not> (\<not> exhausted w \<and> next_sequence w < s)"
    | (new) "s \<noteq> 0" "s = next_sequence w" "\<not> exhausted w"
    using less_linear [of s "next_sequence w"] by (cases "s = 0"; cases "exhausted w") auto
  then show ?thesis
  proof cases
    case none
    then show ?thesis using run' by (intro refused) auto
  next
    case old
    then show ?thesis
      using run' known refused by (cases "find_entry s (window_entries (expired now w))") auto
  next
    case new
    show ?thesis
    proof (cases "p = [] \<or> length p > payload_limit \<or> callback = None")
      case True
      then show ?thesis using run' new by (intro refused) (auto split: option.splits)
    next
      case False
      then obtain f where f: "callback = Some f" by blast
      obtain x1 y where y: "f x = (x1, y)" by (cases "f x") auto
      show ?thesis
      proof (cases y)
        case (Inl z)
        then show ?thesis using run' new f y False by (intro failed [of f y]) auto
      next
        case (Inr r)
        then show ?thesis
          using run' new f y False by (cases "receipt_bounded r") (auto intro: failed applied)
      qed
    qed
  qed
qed

lemma execute_ok:
  assumes "execute now s p callback (w, x) = ((w', x'), res)" "window_ok w"
  shows "window_ok w'"
  using assms(1)
  by (cases rule: execute_cases)
    (use expired_ok [OF assms(2), of now] reserve_ok [of "expired now w" now p] retain_ok in auto)

lemma execute_all_ok:
  "window_ok w \<Longrightarrow> execute_all rs (w, x) = (w', x') \<Longrightarrow> window_ok w'"
proof (induction rs arbitrary: w x)
  case (Cons r rs)
  obtain now s p f where r: "r = (now, s, p, f)" by (cases r) auto
  obtain w1 x1 res where e: "execute now s p f (w, x) = ((w1, x1), res)"
    by (cases "execute now s p f (w, x)") (cases "fst (execute now s p f (w, x))", auto)
  from execute_ok [OF e Cons.prems(1)] Cons.IH [of w1 x1] Cons.prems(2) e r show ?case by simp
qed simp

section \<open>Each number is applied once, in order\<close>

text \<open>A request that writes its sequence number to a log when its callback is called.\<close>

definition logged :: "('s, 'x) request \<Rightarrow> ('s \<times> u64 list, 'x) request" where
  "logged r =
     (case r of (now, s, canonical, callback) \<Rightarrow>
        (now, s, canonical, map_option (\<lambda>f (x, log). let (x', y) = f x in ((x', log @ [s]), y)) callback))"

text \<open>The numbers consumed so far: those below \<open>next_sequence\<close>, and the last one when exhausted.\<close>

definition consumed :: "window \<Rightarrow> nat" where
  "consumed w = (if exhausted w then 2 ^ 64 - 1 else unat (next_sequence w) - 1)"

lemma reserve_consumed:
  assumes "window_ok w" "\<not> exhausted w"
  shows "consumed (reserve now s p w) = Suc (consumed w)" "next_sequence w = of_nat (Suc (consumed w))"
proof -
  have n: "next_sequence w \<noteq> 0" using assms(1) by (simp add: window_ok_def)
  then have pos: "0 < unat (next_sequence w)" by (simp add: unat_gt_0)
  then show "next_sequence w = of_nat (Suc (consumed w))"
    using assms(2) by (simp add: consumed_def)
  show "consumed (reserve now s p w) = Suc (consumed w)"
  proof (cases "next_sequence w = u64_max")
    case True
    then have "unat (next_sequence w) = 2 ^ 64 - 1"
      by (simp add: unsigned_minus_1_eq_mask mask_eq_exp_minus_1)
    then show ?thesis using assms(2) True pos by (simp add: consumed_def reserve_def)
  next
    case False
    then show ?thesis
      using assms(2) u64_less_max_no_wrap [OF False] pos by (simp add: consumed_def reserve_def Let_def)
  qed
qed

lemma consumed_simps [simp]:
  "consumed (expired now w) = consumed w" "consumed (retain s r w) = consumed w"
  by (simp_all add: consumed_def retain_def)

definition numbers_upto :: "nat \<Rightarrow> u64 list" where
  "numbers_upto n = map of_nat [1 ..< Suc n]"

lemma numbers_upto_Suc: "numbers_upto (Suc n) = numbers_upto n @ [of_nat (Suc n)]"
  by (simp add: numbers_upto_def)

lemma execute_logged:
  assumes ok: "window_ok w" and log: "log = numbers_upto (consumed w)"
    and run: "execute now s p (map_option (\<lambda>f (x, log). let (x', y) = f x in ((x', log @ [s]), y)) callback)
      (w, (x, log)) = ((w', (x', log')), res)"
  shows "log' = numbers_upto (consumed w')"
  using run
proof (cases rule: execute_cases)
  case (failed f y)
  then have "log' = log @ [s]" by (auto simp: Let_def split: prod.splits)
  then show ?thesis
    using failed log reserve_consumed [of "expired now w"] expired_ok [OF ok, of now]
    by (simp add: numbers_upto_Suc)
next
  case (applied f r)
  then have "log' = log @ [s]" by (auto simp: Let_def split: prod.splits)
  then show ?thesis
    using applied log reserve_consumed [of "expired now w"] expired_ok [OF ok, of now]
    by (simp add: numbers_upto_Suc)
qed (use log in simp_all)

lemma execute_all_logged:
  assumes "window_ok w" "log = numbers_upto (consumed w)"
    and "execute_all (map logged rs) (w, (x, log)) = (w', (x', log'))"
  shows "log' = numbers_upto (consumed w')"
  using assms
proof (induction rs arbitrary: w x log)
  case (Cons r rs)
  obtain now s p f where r: "r = (now, s, p, f)" by (cases r) auto
  let ?f = "map_option (\<lambda>f (x, log). let (x', y) = f x in ((x', log @ [s]), y)) f"
  obtain w1 x1 l1 res where e: "execute now s p ?f (w, (x, log)) = ((w1, (x1, l1)), res)"
    by (metis prod.exhaust)
  have "window_ok w1" "l1 = numbers_upto (consumed w1)"
    using execute_ok [OF e Cons.prems(1)] execute_logged [OF Cons.prems(1,2) e] by simp_all
  then show ?case using Cons.IH [of w1 l1 x1] Cons.prems(3) e r by (simp add: logged_def)
qed simp

text \<open>C11: Whatever requests arrive, in whatever order and however often they are repeated, the
  callbacks that run are those of the sequence numbers 1, 2, 3, ... in this order, each exactly
  once, up to the number of keys the window has consumed; a failing or oversized callback
  consumes its number all the same, and after the last 64-bit number nothing runs any more.\<close>

theorem each_number_applied_once:
  assumes "execute_all (map logged rs) (fresh_window, (x, [])) = (w', (x', log))"
  shows "log = map of_nat [1 ..< Suc (consumed w')] \<and> distinct log \<and>
    (exhausted w' \<or> length log < unat (next_sequence w'))"
proof -
  have "log = numbers_upto (consumed w')"
    using execute_all_logged [OF fresh_window_ok _ assms]
    by (simp add: numbers_upto_def consumed_def fresh_window_def)
  moreover have bound: "consumed w' < 2 ^ 64"
    using unat_u64_less [of "next_sequence w'"] by (simp add: consumed_def less_imp_diff_less)
  moreover have "inj_on (of_nat :: nat \<Rightarrow> u64) {1 ..< Suc (consumed w')}"
  proof (rule inj_onI)
    fix a b :: nat
    assume "a \<in> {1 ..< Suc (consumed w')}" "b \<in> {1 ..< Suc (consumed w')}" "of_nat a = (of_nat b :: u64)"
    then have "a < 2 ^ 64" "b < 2 ^ 64" "unat (of_nat a :: u64) = unat (of_nat b :: u64)"
      using bound by auto
    then show "a = b" by (simp add: unat_of_nat)
  qed
  moreover have pos: "0 < unat (next_sequence w')"
    using execute_all_ok [OF fresh_window_ok assms] by (simp add: window_ok_def unat_gt_0)
  ultimately have "distinct log" and log: "log = numbers_upto (consumed w')"
    by (simp_all only: numbers_upto_def distinct_map set_upt distinct_upt simp_thms)
  moreover have "exhausted w' \<or> length log < unat (next_sequence w')"
    using pos log by (simp add: numbers_upto_def consumed_def del: upt_Suc)
  ultimately show ?thesis by (simp add: numbers_upto_def del: upt_Suc)
qed

definition counting :: "receipt \<Rightarrow> (nat, unit, receipt) gx option" where
  "counting r = Some (\<lambda>n. (n + 1, Inr r))"

definition failing :: "(nat, unit, receipt) gx option" where
  "failing = Some (\<lambda>n. (n + 1, Inl ()))"

definition sample_requests :: "(nat, unit) request list" where
  "sample_requests =
     [(0, 1, ''a'', counting empty_receipt), (5, 1, ''a'', counting empty_receipt),
      (6, 3, ''c'', counting empty_receipt), (7, 2, ''b'', failing)]"

definition sample_window :: window where
  "sample_window = fst (execute_all (map logged sample_requests) (fresh_window, (0, [])))"

lemma sample_requests_run:
  "execute_all (map logged sample_requests) (fresh_window, (0, [])) = (sample_window, (2, [1, 2]))"
  unfolding sample_window_def by code_simp

theorem each_number_applied_once_witness:
  "[1, 2 :: u64] = map of_nat [1 ..< Suc (consumed sample_window)] \<and> distinct [1, 2 :: u64] \<and>
    (exhausted sample_window \<or> length [1, 2 :: u64] < unat (next_sequence sample_window))"
  by (rule each_number_applied_once [OF sample_requests_run])

section \<open>A repeated request gets the first receipt\<close>

definition holds :: "window \<Rightarrow> u64 \<Rightarrow> retry_entry \<Rightarrow> bool" where
  "holds w s e \<longleftrightarrow> window_entries w ! window_slot s = e \<and> entry_sequence e = s"

lemma find_entry_holds:
  assumes ok: "window_ok w" and e: "holds w s e" and "s \<noteq> 0"
  shows "find_entry s (window_entries w) = Some e"
proof -
  let ?es = "window_entries w"
  have len: "length ?es = window_size" using ok by (simp add: window_ok_def)
  then have "e \<in> set ?es" "entry_sequence e = s"
    using e nth_mem [of "window_slot s" ?es] by (auto simp: holds_def)
  then obtain e' where f: "find (\<lambda>e. entry_sequence e = s) ?es = Some e'"
    by (cases "find (\<lambda>e. entry_sequence e = s) ?es") (auto simp: find_None_iff)
  then obtain k where k: "k < length ?es" "?es ! k = e'" "entry_sequence e' = s"
    by (auto simp: find_Some_iff)
  then have "window_slot s = k"
    using ok len \<open>s \<noteq> 0\<close> by (auto simp: window_ok_def entry_ok_def)
  then show ?thesis using e k f by (simp add: holds_def find_entry_def)
qed

lemma expired_holds:
  "window_ok w \<Longrightarrow> holds w s e \<Longrightarrow> now < entry_deadline e \<Longrightarrow> holds (expired now w) s e"
  by (simp add: holds_def expired_def expire_def window_ok_def)

text \<open>A later number within the window does not share its slot.\<close>

lemma mod_window_shift:
  assumes "0 < d" "d < (4 :: nat)"
  shows "(a + d) mod 4 \<noteq> a mod 4"
proof
  assume "(a + d) mod 4 = a mod 4"
  then have "d mod 4 = 0" using mod_add_right_eq by presburger
  then show False using assms by simp
qed

lemma unat_pred: "(q :: u64) \<noteq> 0 \<Longrightarrow> unat (q - 1) = unat q - 1"
  by (simp add: unat_minus_one)

lemma window_slot_differs:
  assumes "s < q" "unat q \<le> unat s + 3" "s \<noteq> 0"
  shows "window_slot q \<noteq> window_slot s"
proof -
  have s: "0 < unat s" using assms(3) by (simp add: unat_gt_0)
  have lt: "unat s < unat q" using assms(1) by (simp add: word_less_nat_alt)
  then have "q \<noteq> 0" by auto
  note u = unat_pred [OF assms(3)] unat_pred [OF this]
  have eq: "unat s - 1 + (unat q - unat s) = unat q - 1" using lt s by linarith
  have "0 < unat q - unat s" "unat q - unat s < 4" using lt assms(2) by linarith+
  then have "(unat q - 1) mod 4 \<noteq> (unat s - 1) mod 4"
    using mod_window_shift [of "unat q - unat s" "unat s - 1", unfolded eq] by blast
  then show ?thesis by (simp add: window_slot_def window_size_def u)
qed

lemma execute_consumed:
  assumes "execute t q p g (w, x) = ((w', x'), res)" "window_ok w"
  shows "consumed w \<le> consumed w'"
  using assms(1)
  by (cases rule: execute_cases) (use reserve_consumed expired_ok [OF assms(2)] in simp_all)

lemma execute_all_consumed:
  "execute_all rs (w, x) = (w', x') \<Longrightarrow> window_ok w \<Longrightarrow> consumed w \<le> consumed w'"
proof (induction rs arbitrary: w x)
  case (Cons r rs)
  obtain now s p f where r: "r = (now, s, p, f)" by (cases r) auto
  obtain w1 x1 res where e: "execute now s p f (w, x) = ((w1, x1), res)"
    by (metis prod.exhaust)
  show ?case
    using Cons.IH [of w1 x1] Cons.prems e r execute_ok [OF e] execute_consumed [OF e] by simp
qed simp

definition keeps :: "u64 \<Rightarrow> retry_entry \<Rightarrow> window \<Rightarrow> bool" where
  "keeps s e w \<longleftrightarrow> window_ok w \<and> holds w s e \<and> s \<noteq> 0 \<and> unat s \<le> consumed w"

lemma reserve_holds:
  assumes w: "window_ok w" "\<not> exhausted w" and e: "holds w s e" "s \<noteq> 0" "unat s \<le> consumed w"
    and room: "consumed (reserve t (next_sequence w) p w) \<le> unat s + 3"
  shows "holds (reserve t (next_sequence w) p w) s e"
    and "holds (retain (next_sequence w) r (reserve t (next_sequence w) p w)) s e"
proof -
  note c = reserve_consumed [OF w]
  have "unat (next_sequence w) = Suc (consumed w)"
    using w by (simp add: consumed_def window_ok_def unat_gt_0)
  then have "window_slot (next_sequence w) \<noteq> window_slot s"
    using e c(1) room by (intro window_slot_differs) (simp_all add: word_less_nat_alt)
  then show "holds (reserve t (next_sequence w) p w) s e"
    and "holds (retain (next_sequence w) r (reserve t (next_sequence w) p w)) s e"
    using e w(1) by (auto simp: holds_def reserve_def retain_def Let_def window_ok_def)
qed

lemma execute_keeps:
  assumes run: "execute t q p g (w, x) = ((w', x'), res)" and k: "keeps s e w"
    and t: "t < entry_deadline e" and room: "consumed w' \<le> unat s + 3"
  shows "keeps s e w'"
proof -
  have w: "window_ok w" and s: "s \<noteq> 0" "unat s \<le> consumed w" using k by (simp_all add: keeps_def)
  have h: "holds (expired t w) s e" using k t expired_holds by (simp add: keeps_def)
  have "holds w' s e"
    using run
  proof (cases rule: execute_cases)
    case (failed f y)
    then show ?thesis
      using reserve_holds(1) [OF expired_ok [OF w, of t] _ h, of t p] s room by simp
  next
    case (applied f r)
    then show ?thesis
      using reserve_holds(2) [OF expired_ok [OF w, of t] _ h, of t p r] s room by simp
  qed (use h in simp_all)
  then show ?thesis
    using execute_ok [OF run w] execute_consumed [OF run w] s by (simp add: keeps_def)
qed

lemma execute_all_keeps:
  assumes "execute_all rs (w, x) = (w', x')" "keeps s e w"
    and "\<forall>(t, _) \<in> set rs. t < entry_deadline e" "consumed w' \<le> unat s + 3"
  shows "keeps s e w'"
  using assms
proof (induction rs arbitrary: w x)
  case (Cons r rs)
  obtain t q p g where r: "r = (t, q, p, g)" by (cases r) auto
  obtain w1 x1 res where e: "execute t q p g (w, x) = ((w1, x1), res)"
    by (metis prod.exhaust)
  have rest: "execute_all rs (w1, x1) = (w', x')" using Cons.prems(1) e r by simp
  have ok: "window_ok w1" using execute_ok [OF e] Cons.prems(2) by (simp add: keeps_def)
  have "consumed w1 \<le> unat s + 3"
    using execute_all_consumed [OF rest ok] Cons.prems(4) by simp
  then have "keeps s e w1" using execute_keeps [OF e Cons.prems(2)] Cons.prems(3) r by simp
  then show ?case using Cons.IH [OF rest] Cons.prems(3,4) by simp
qed simp

lemma keeps_known:
  assumes k: "keeps s e w" and t: "t < entry_deadline e"
  shows "execute t s p g (w, x) = ((expired t w, x), known_result p e)"
proof -
  have w: "window_ok w" and s: "s \<noteq> 0" "unat s \<le> consumed w" using k by (simp_all add: keeps_def)
  have "holds (expired t w) s e" using k t expired_holds by (simp add: keeps_def)
  note f = find_entry_holds [OF expired_ok [OF w] this s(1)]
  have "0 < unat (next_sequence w)" using w by (simp add: window_ok_def unat_gt_0)
  then have "s < next_sequence w \<or> exhausted w"
    using s by (auto simp: consumed_def word_less_nat_alt split: if_splits)
  then show ?thesis
    using f s(1) by (auto simp: execute_def Let_def expired_def)
qed

lemma applied_keeps:
  assumes run: "execute now s p g (w, x) = ((w1, x1), \<lparr>result_receipt = Some r, result_code = [], replayed = False\<rparr>)"
    and ok: "window_ok w"
  shows "keeps s \<lparr>entry_sequence = s, entry_payload = p, entry_receipt = Some r,
    entry_deadline = now + receipt_lifetime\<rparr> w1"
  using run
proof (cases rule: execute_cases)
  case (applied f r')
  have w: "window_ok (expired now w)" using expired_ok [OF ok] .
  have n: "s \<noteq> 0" using applied ok by (simp add: window_ok_def)
  have "unat s \<le> consumed w1"
    using applied reserve_consumed(1) [OF w] n by (simp add: consumed_def [of w])
  then show ?thesis
    using applied execute_ok [OF run ok] w n
    by (simp add: keeps_def holds_def retain_def reserve_def Let_def window_ok_def)
qed (auto simp: refused_def known_result_def split: if_splits option.splits)

text \<open>C12: A request that was applied can be repeated: as long as fewer than four numbers have
  been consumed since and two seconds have not passed, the same number with the same payload
  returns the receipt of the first execution marked as replayed, and with another payload
  \<open>IDEMPOTENCY_MISMATCH\<close>; in either case nothing is applied.\<close>

theorem repeated_request_replays:
  assumes "window_ok w"
    and "execute now s p (Some f) (w, x) =
      ((w1, x1), \<lparr>result_receipt = Some r, result_code = [], replayed = False\<rparr>)"
    and "execute_all rs (w1, x1) = (w2, x2)" "\<forall>(t, _) \<in> set rs. t < now + receipt_lifetime"
    and "consumed w2 \<le> unat s + 3" "t < now + receipt_lifetime"
  shows "execute t s p' g (w2, x2) =
    ((expired t w2, x2),
     if p' = p then \<lparr>result_receipt = Some r, result_code = [], replayed = True\<rparr>
     else refused ''IDEMPOTENCY_MISMATCH'')"
proof -
  let ?e = "\<lparr>entry_sequence = s, entry_payload = p, entry_receipt = Some r,
    entry_deadline = now + receipt_lifetime\<rparr>"
  have "keeps s ?e w2"
    using execute_all_keeps [OF assms(3) applied_keeps [OF assms(2,1)]] assms(4,5) by simp
  from keeps_known [OF this, of t p' g x2] assms(6) show ?thesis
    by (cases "p' = p") (auto simp: known_result_def)
qed

definition first_run :: "window \<times> nat" where
  "first_run = fst (execute 0 1 ''a'' (counting empty_receipt) (fresh_window, 0))"

definition second_run :: "window \<times> nat" where
  "second_run = execute_all [(5, 2, ''b'', failing), (6, 3, ''c'', counting empty_receipt)] first_run"

lemma first_run_step:
  "execute 0 1 ''a'' (Some (\<lambda>n. (n + 1, Inr empty_receipt :: unit + receipt))) (fresh_window, 0) =
     ((fst first_run, snd first_run), \<lparr>result_receipt = Some empty_receipt, result_code = [], replayed = False\<rparr>)"
  by code_simp

lemma second_run_step:
  "execute_all [(5, 2, ''b'', failing), (6, 3, ''c'', counting empty_receipt)] (fst first_run, snd first_run) =
     (fst second_run, snd second_run)"
  by (simp add: second_run_def)

lemma second_run_consumed: "consumed (fst second_run) = 3"
  by code_simp

theorem repeated_request_replays_witness:
  "execute 7 1 ''a'' (counting empty_receipt) (fst second_run, snd second_run) =
    ((expired 7 (fst second_run), snd second_run),
     if ''a'' = ''a'' then \<lparr>result_receipt = Some empty_receipt, result_code = [], replayed = True\<rparr>
     else refused ''IDEMPOTENCY_MISMATCH'')"
  by (rule repeated_request_replays [OF fresh_window_ok first_run_step second_run_step])
    (simp_all add: receipt_lifetime_def second_run_consumed)

end
