(* ===== verification/Subtree_Laws.thy ===== *)
theory Subtree_Laws
  imports Hierarchy
begin

text \<open>
  The breadth-first update \<open>subtree\<close> of \<open>src/transactions.cpp\<close> on a forest of slots: it visits
  exactly the descendants of the root, once each, gives each of them the new revision, makes
  every cached transform below the root the composition of the parent's transform and the
  local one, and changes nothing else.  On a forest its cycle error cannot occur.
\<close>

section \<open>Links and what an update keeps\<close>

definition link :: "slot list \<Rightarrow> (nat \<times> nat) set" where
  "link ss = {(c, p). c < length ss \<and> p < length ss \<and> child_of (ss ! c) (ss ! p)}"

definition forest :: "slot list \<Rightarrow> bool" where
  "forest ss \<longleftrightarrow> acyclic (link ss) \<and> single_valued (link ss)"

definition descendants :: "slot list \<Rightarrow> nat \<Rightarrow> nat set" where
  "descendants ss root = {i. (i, root) \<in> (link ss)\<^sup>*}"

text \<open>All of a slot except the cached transform and the revision of its entity.\<close>

definition entity_frame :: "entity \<Rightarrow> entity" where
  "entity_frame e = e\<lparr>transform_of := default_transform, authoring_revision := 0\<rparr>"

definition slot_frame :: "slot \<Rightarrow> slot" where
  "slot_frame s = s\<lparr>entity_of := map_option entity_frame (entity_of s)\<rparr>"

named_theorems frame_simps \<open>what equal frames determine\<close>

lemma slot_frame_fields [frame_simps]:
  assumes "slot_frame s = slot_frame s'"
  shows "entity_uuid s = entity_uuid s'" "generation s = generation s'" "retired s = retired s'"
    "entity_of s = None \<longleftrightarrow> entity_of s' = None"
  using assms by (cases s; cases s'; auto simp: slot_frame_def)+

lemma entity_frame_fields [frame_simps]:
  assumes "entity_frame e = entity_frame e'"
  shows "prefab e = prefab e'" "parent e = parent e'" "local_transform e = local_transform e'"
    "tags e = tags e'"
  using assms by (cases e; cases e'; auto simp: entity_frame_def)+

lemma slot_frame_Some:
  assumes "slot_frame s = slot_frame s'" "entity_of s = Some e"
  obtains e' where "entity_of s' = Some e'" "entity_frame e = entity_frame e'"
  using assms by (cases s; cases s'; cases "entity_of s'"; auto simp: slot_frame_def)

lemma child_of_frame:
  assumes "slot_frame c = slot_frame c'" "slot_frame p = slot_frame p'"
  shows "child_of c p \<longleftrightarrow> child_of c' p'"
proof (cases "entity_of c")
  case None
  with slot_frame_fields(4) [OF assms(1)] have "entity_of c' = None" by blast
  with None show ?thesis by (simp add: child_of_def)
next
  case (Some e)
  with assms(1) obtain e' where "entity_of c' = Some e'" "entity_frame e = entity_frame e'"
    by (rule slot_frame_Some)
  with Some show ?thesis
    using slot_frame_fields [OF assms(2)] entity_frame_fields(2) [of e e']
    by (simp add: child_of_def split: option.splits)
qed

lemma link_frame: "map slot_frame ss = map slot_frame ss' \<Longrightarrow> link ss = link ss'"
  unfolding link_def
  by (metis (no_types, lifting) child_of_frame length_map nth_map)

lemma length_map_entity [simp]: "length (map_entity f i ss) = length ss"
  by (simp add: map_entity_def)

lemma map_entity_other [simp]: "j \<noteq> i \<Longrightarrow> map_entity f i ss ! j = ss ! j"
  by (simp add: map_entity_def)

lemma map_entity_same:
  "i < length ss \<Longrightarrow> map_entity f i ss ! i = (ss ! i)\<lparr>entity_of := map_option f (entity_of (ss ! i))\<rparr>"
  by (simp add: map_entity_def)

lemma entity_frame_transform [simp]: "entity_frame (e\<lparr>transform_of := t\<rparr>) = entity_frame e"
  and entity_frame_revision [simp]: "entity_frame (e\<lparr>authoring_revision := r\<rparr>) = entity_frame e"
  by (simp_all add: entity_frame_def)

lemma entity_frame_transform_update [simp]: "entity_frame (transform_of_update f e) = entity_frame e"
  by (simp add: entity_frame_def)

lemma map_entity_frame:
  assumes "\<And>e. entity_frame (f e) = entity_frame e"
  shows "map slot_frame (map_entity f i ss) = map slot_frame ss"
proof (rule nth_equalityI)
  fix j
  assume "j < length (map slot_frame (map_entity f i ss))"
  then show "map slot_frame (map_entity f i ss) ! j = map slot_frame ss ! j"
    by (cases "j = i") (auto simp: map_entity_same slot_frame_def assms option.map_comp comp_def)
qed simp

lemma child_of_map_entity:
  assumes "i < length ss"
  shows "child_of (map_entity (transform_of_update f) c ss ! i) p \<longleftrightarrow> child_of (ss ! i) p"
proof -
  have "slot_frame (map_entity (transform_of_update f) c ss ! i) = slot_frame (ss ! i)"
    using map_entity_frame [of "transform_of_update f" c ss] assms
    by (metis entity_frame_transform_update length_map length_map_entity nth_map)
  then show ?thesis by (rule child_of_frame) (rule refl)
qed

section \<open>The children of one slot\<close>

definition composed :: "slot list \<Rightarrow> nat \<Rightarrow> string \<Rightarrow> nat \<Rightarrow> nat \<Rightarrow> slot \<Rightarrow> bool" where
  "composed ss p path index c s \<longleftrightarrow>
     (\<exists>t. compose (transform_of (entity_at ss p)) (local_transform (entity_at ss c)) path index = Inr t \<and>
        s = (ss ! c)\<lparr>entity_of := map_option (transform_of_update (\<lambda>_. t)) (entity_of (ss ! c))\<rparr>)"

lemma composed_cong:
  "entity_of (ss ! p) = entity_of (ss' ! p) \<Longrightarrow> ss ! c = ss' ! c \<Longrightarrow>
     composed ss p path index c s \<longleftrightarrow> composed ss' p path index c s"
  by (simp add: composed_def entity_at_def)

lemma subtree_children_Inr:
  assumes "subtree_children path index p cs (ss, queue) = Inr (ss', queue')"
    and "distinct cs" "\<forall>c \<in> set cs. c < length ss" "\<not> child_of (ss ! p) (ss ! p)"
  shows "queue' = queue @ filter (\<lambda>c. child_of (ss ! c) (ss ! p)) cs \<and> length ss' = length ss \<and>
    (\<forall>i. i \<notin> set cs \<or> \<not> child_of (ss ! i) (ss ! p) \<longrightarrow> ss' ! i = ss ! i) \<and>
    (\<forall>c \<in> set cs. child_of (ss ! c) (ss ! p) \<longrightarrow> composed ss p path index c (ss' ! c))"
  using assms
proof (induction cs arbitrary: ss queue)
  case Nil
  then show ?case by simp
next
  case (Cons c cs)
  show ?case
  proof (cases "child_of (ss ! c) (ss ! p)")
    case False
    then have "subtree_children path index p cs (ss, queue) = Inr (ss', queue')"
      using Cons.prems(1) by (simp add: subtree_child_def)
    from Cons.IH [OF this] Cons.prems False show ?thesis by auto
  next
    case True
    then have cp: "c \<noteq> p" using Cons.prems(4) by auto
    obtain t where t: "compose (transform_of (entity_at ss p)) (local_transform (entity_at ss c)) path index = Inr t"
      and rest: "subtree_children path index p cs
        (map_entity (transform_of_update (\<lambda>_. t)) c ss, queue @ [c]) = Inr (ss', queue')"
      using Cons.prems(1) True by (auto simp: subtree_child_def res_simps split: if_splits)
    let ?ss = "map_entity (transform_of_update (\<lambda>_. t)) c ss"
    have same: "?ss ! p = ss ! p" using cp by simp
    have ch: "child_of (?ss ! i) (?ss ! p) \<longleftrightarrow> child_of (ss ! i) (ss ! p)" if "i < length ss" for i
      using that same by (simp add: child_of_map_entity)
    have self: "\<not> child_of (?ss ! p) (?ss ! p)" using Cons.prems(4) same by simp
    have IH: "queue' = (queue @ [c]) @ filter (\<lambda>c. child_of (?ss ! c) (?ss ! p)) cs"
      "length ss' = length ?ss"
      "\<And>i. i \<notin> set cs \<or> \<not> child_of (?ss ! i) (?ss ! p) \<Longrightarrow> ss' ! i = ?ss ! i"
      "\<And>d. d \<in> set cs \<Longrightarrow> child_of (?ss ! d) (?ss ! p) \<Longrightarrow> composed ?ss p path index d (ss' ! d)"
      using Cons.IH [OF rest _ _ self] Cons.prems(2, 3) by auto
    have flt: "filter (\<lambda>c. child_of (?ss ! c) (?ss ! p)) cs = filter (\<lambda>c. child_of (ss ! c) (ss ! p)) cs"
      using Cons.prems(3) ch by (intro filter_cong) auto
    have c: "composed ss p path index c (ss' ! c)"
      using IH(3) [of c] Cons.prems(2, 3) t by (auto simp: composed_def map_entity_same)
    have d: "composed ss p path index d (ss' ! d)" if "d \<in> set cs" "child_of (ss ! d) (ss ! p)" for d
    proof -
      have "composed ?ss p path index d (ss' ! d)"
        using IH(4) [OF that(1)] ch [of d] that Cons.prems(3) by auto
      moreover have "?ss ! d = ss ! d" using that(1) Cons.prems(2) by (intro map_entity_other) auto
      ultimately show ?thesis using same composed_cong [of ?ss p ss d] by simp
    qed
    have other: "ss' ! i = ss ! i" if "i \<notin> set (c # cs) \<or> \<not> child_of (ss ! i) (ss ! p)" for i
    proof -
      have "i \<noteq> c" using that True by auto
      moreover have "i \<notin> set cs \<or> \<not> child_of (?ss ! i) (?ss ! p)"
        using that ch [of i] Cons.prems(3) by auto
      ultimately show ?thesis using IH(3) [of i] by simp
    qed
    show ?thesis using IH(1, 2) flt c d other True by auto
  qed
qed

lemma subtree_children_Inl:
  assumes "subtree_children path index p cs (ss, queue) = Inl err" "distinct cs"
    and "\<forall>c \<in> set cs. c < length ss" "\<not> child_of (ss ! p) (ss ! p)"
    and "length queue + length (filter (\<lambda>c. child_of (ss ! c) (ss ! p)) cs) \<le> length ss"
  shows "\<exists>c \<in> set cs. child_of (ss ! c) (ss ! p) \<and>
    compose (transform_of (entity_at ss p)) (local_transform (entity_at ss c)) path index = Inl err"
  using assms
proof (induction cs arbitrary: ss queue)
  case Nil
  then show ?case by simp
next
  case (Cons c cs)
  show ?case
  proof (cases "child_of (ss ! c) (ss ! p)")
    case False
    then have "subtree_children path index p cs (ss, queue) = Inl err"
      using Cons.prems(1) by (simp add: subtree_child_def)
    from Cons.IH [OF this] Cons.prems False show ?thesis by auto
  next
    case True
    then have cp: "c \<noteq> p" using Cons.prems(4) by auto
    show ?thesis
    proof (cases "compose (transform_of (entity_at ss p)) (local_transform (entity_at ss c)) path index")
      case (Inl e)
      then show ?thesis
        using Cons.prems(1, 5) True by (auto simp: subtree_child_def)
    next
      case (Inr t)
      let ?ss = "map_entity (transform_of_update (\<lambda>_. t)) c ss"
      have same: "?ss ! p = ss ! p" using cp by simp
      have ch: "child_of (?ss ! i) (?ss ! p) \<longleftrightarrow> child_of (ss ! i) (ss ! p)" if "i < length ss" for i
        using that same by (simp add: child_of_map_entity)
      have flt: "filter (\<lambda>c. child_of (?ss ! c) (?ss ! p)) cs = filter (\<lambda>c. child_of (ss ! c) (ss ! p)) cs"
        using Cons.prems(3) ch by (intro filter_cong) auto
      have "subtree_children path index p cs (?ss, queue @ [c]) = Inl err"
        using Cons.prems(1, 5) True Inr by (auto simp: subtree_child_def split: if_splits)
      from Cons.IH [OF this] obtain d where d: "d \<in> set cs" "child_of (?ss ! d) (?ss ! p)"
        "compose (transform_of (entity_at ?ss p)) (local_transform (entity_at ?ss d)) path index = Inl err"
        using Cons.prems True same flt by auto
      moreover have "?ss ! d = ss ! d" using d(1) Cons.prems(2) by (intro map_entity_other) auto
      ultimately show ?thesis using ch [of d] Cons.prems(3) same by (auto simp: entity_at_def)
    qed
  qed
qed

section \<open>The queue\<close>

text \<open>
  The state of the loop at position \<open>at\<close>, started from \<open>ss0\<close>: the queue is a duplicate-free
  breadth-first prefix of the descendants; everything before \<open>at\<close> has the new revision and all
  its children in the queue; every queued slot but the root has its transform composed from its
  parent's, which stands before \<open>at\<close>; and the rest is untouched.
\<close>

definition recomposed :: "slot list \<Rightarrow> nat \<Rightarrow> nat \<Rightarrow> string \<Rightarrow> nat \<Rightarrow> bool" where
  "recomposed ss p c path index \<longleftrightarrow>
     compose (transform_of (entity_at ss p)) (local_transform (entity_at ss c)) path index =
     Inr (transform_of (entity_at ss c))"

definition bfs_inv ::
  "slot list \<Rightarrow> nat \<Rightarrow> u64 \<Rightarrow> string \<Rightarrow> nat \<Rightarrow> nat \<Rightarrow> slot list \<Rightarrow> nat list \<Rightarrow> bool" where
  "bfs_inv ss0 root revision path index at ss queue \<longleftrightarrow>
     map slot_frame ss = map slot_frame ss0 \<and>
     at \<le> length queue \<and> queue \<noteq> [] \<and> queue ! 0 = root \<and> distinct queue \<and>
     (\<forall>q \<in> set queue. q < length ss0 \<and> entity_of (ss0 ! q) \<noteq> None) \<and>
     (\<forall>k < length queue. 0 < k \<longrightarrow>
        (\<exists>j < at. j < k \<and> (queue ! k, queue ! j) \<in> link ss0 \<and> recomposed ss (queue ! j) (queue ! k) path index)) \<and>
     (\<forall>j < at. \<forall>c. (c, queue ! j) \<in> link ss0 \<longrightarrow> c \<in> set queue) \<and>
     (\<forall>j < at. authoring_revision (entity_at ss (queue ! j)) = revision) \<and>
     (\<forall>i. i \<notin> set queue \<longrightarrow> ss ! i = ss0 ! i) \<and>
     transform_of (entity_at ss root) = transform_of (entity_at ss0 root)"

lemma frame_entity_at:
  assumes "map slot_frame ss = map slot_frame ss0" "i < length ss0" "entity_of (ss0 ! i) \<noteq> None"
  shows "entity_of (ss ! i) = Some (entity_at ss i)"
proof -
  have "i < length ss" using assms(1, 2) by (metis length_map)
  then have "slot_frame (ss ! i) = slot_frame (ss0 ! i)"
    using assms(1, 2) by (metis nth_map)
  from slot_frame_fields(4) [OF this] assms(3) show ?thesis by (auto simp: entity_at_def)
qed

lemma bfs_queue_descendants:
  assumes inv: "bfs_inv ss0 root revision path index at ss queue" and "k < length queue"
  shows "(queue ! k, root) \<in> (link ss0)\<^sup>*"
  using assms(2)
proof (induction k rule: less_induct)
  case (less k)
  show ?case
  proof (cases "k = 0")
    case True
    then show ?thesis using inv by (simp add: bfs_inv_def)
  next
    case False
    then obtain j where "j < k" "(queue ! k, queue ! j) \<in> link ss0"
      using inv less.prems unfolding bfs_inv_def by blast
    then show ?thesis
      using less.IH [of j] less.prems by (meson converse_rtrancl_into_rtrancl less_trans)
  qed
qed

lemma bfs_children_new:
  assumes inv: "bfs_inv ss0 root revision path index at ss queue" and at: "at < length queue"
    and forest: "forest ss0" and c: "(c, queue ! at) \<in> link ss0"
  shows "c \<notin> set queue"
proof
  assume "c \<in> set queue"
  then obtain k where k: "k < length queue" "queue ! k = c" by (auto simp: in_set_conv_nth)
  show False
  proof (cases "k = 0")
    case True
    then have "c = root" using inv k by (simp add: bfs_inv_def)
    then have "(root, root) \<in> (link ss0)\<^sup>+"
      using c bfs_queue_descendants [OF inv at] by (simp add: rtrancl_into_trancl2)
    then show False using forest by (auto simp: forest_def acyclic_def)
  next
    case False
    then obtain j where j: "j < at" "(c, queue ! j) \<in> link ss0"
      using inv k unfolding bfs_inv_def by blast
    then have "queue ! j = queue ! at"
      using forest c by (auto simp: forest_def single_valued_def)
    then show False
      using inv j at by (auto simp: bfs_inv_def nth_eq_iff_index_eq)
  qed
qed

lemma recomposed_cong:
  assumes "transform_of (entity_at ss p) = transform_of (entity_at ss' p)"
    and "transform_of (entity_at ss c) = transform_of (entity_at ss' c)"
    and "local_transform (entity_at ss c) = local_transform (entity_at ss' c)"
  shows "recomposed ss p c path index \<longleftrightarrow> recomposed ss' p c path index"
  using assms by (simp add: recomposed_def)

text \<open>Setting the revision of a queued slot keeps everything the loop looks at.\<close>

definition with_revision :: "u64 \<Rightarrow> nat \<Rightarrow> slot list \<Rightarrow> slot list" where
  "with_revision revision = map_entity (authoring_revision_update (\<lambda>_. revision))"

lemma with_revision_frame: "map slot_frame (with_revision revision p ss) = map slot_frame ss"
  unfolding with_revision_def by (rule map_entity_frame) simp

lemma with_revision_entity_at:
  assumes "p < length ss" "entity_of (ss ! p) \<noteq> None"
  shows "entity_at (with_revision revision p ss) i =
    (if i = p then (entity_at ss p)\<lparr>authoring_revision := revision\<rparr> else entity_at ss i)"
  using assms by (auto simp: with_revision_def entity_at_def map_entity_same)

lemma subtree_children_step:
  assumes inv: "bfs_inv ss0 root revision path index at ss queue" and at: "at < length queue"
    and forest: "forest ss0"
  defines "p \<equiv> queue ! at"
  defines "ss1 \<equiv> with_revision revision p ss"
  shows "filter (\<lambda>c. child_of (ss1 ! c) (ss1 ! p)) [0 ..< length ss1] =
      filter (\<lambda>c. (c, p) \<in> link ss0) [0 ..< length ss0]"
    and "\<not> child_of (ss1 ! p) (ss1 ! p)" and "length ss1 = length ss0" and "p < length ss0"
    and "c < length ss0 \<Longrightarrow> child_of (ss1 ! c) (ss1 ! p) \<longleftrightarrow> (c, p) \<in> link ss0"
proof -
  have fr: "map slot_frame ss1 = map slot_frame ss0"
    using inv by (simp add: ss1_def with_revision_frame bfs_inv_def)
  then have l: "link ss1 = link ss0" by (rule link_frame)
  show len: "length ss1 = length ss0" using fr by (metis length_map)
  show p: "p < length ss0" using inv at by (auto simp: bfs_inv_def p_def)
  show ch: "child_of (ss1 ! c) (ss1 ! p) \<longleftrightarrow> (c, p) \<in> link ss0" if "c < length ss0" for c
    using that p len l [symmetric] by (simp add: link_def)
  show "filter (\<lambda>c. child_of (ss1 ! c) (ss1 ! p)) [0 ..< length ss1] =
      filter (\<lambda>c. (c, p) \<in> link ss0) [0 ..< length ss0]"
    unfolding len by (rule filter_cong) (simp_all add: ch)
  show "\<not> child_of (ss1 ! p) (ss1 ! p)"
    using ch [OF p] forest by (auto simp: forest_def acyclic_def)
qed

lemma bfs_step:
  assumes inv: "bfs_inv ss0 root revision path index at ss queue" and at: "at < length queue"
    and forest: "forest ss0"
    and step: "subtree_children path index (queue ! at) [0 ..< length ss]
      (with_revision revision (queue ! at) ss, queue) = Inr (ss2, queue2)"
  shows "bfs_inv ss0 root revision path index (Suc at) ss2 queue2"
proof -
  define p where "p = queue ! at"
  define ss1 where "ss1 = with_revision revision p ss"
  note step_facts = subtree_children_step [OF inv at forest, folded p_def, folded ss1_def]
  note new = bfs_children_new [OF inv at forest, folded p_def]
  define C where "C = filter (\<lambda>c. (c, p) \<in> link ss0) [0 ..< length ss0]"
  have "length ss = length ss1" by (simp add: ss1_def with_revision_def)
  with step have run: "subtree_children path index p [0 ..< length ss1] (ss1, queue) = Inr (ss2, queue2)"
    by (simp add: p_def ss1_def)
  have sc: "queue2 = queue @ C" "length ss2 = length ss0"
    and same: "\<And>i. i \<notin> set C \<Longrightarrow> ss2 ! i = ss1 ! i"
    and comp: "\<And>c. c \<in> set C \<Longrightarrow> composed ss1 p path index c (ss2 ! c)"
    using subtree_children_Inr [OF run _ _ step_facts(2)] step_facts(1, 3, 5)
    by (auto simp: C_def)
  have C: "set C = {c. (c, p) \<in> link ss0}"
    by (auto simp: C_def link_def)
  have disj: "set C \<inter> set queue = {}" using new C by auto
  have p_in: "p \<in> set queue" and p_ok: "p < length ss0" "entity_of (ss0 ! p) \<noteq> None"
    using inv at by (auto simp: bfs_inv_def p_def)
  have frss: "map slot_frame ss = map slot_frame ss0" using inv by (simp add: bfs_inv_def)
  then have fr1: "map slot_frame ss1 = map slot_frame ss0"
    by (simp add: ss1_def with_revision_frame)
  have "entity_of (ss ! p) \<noteq> None" "p < length ss"
    using frame_entity_at [OF frss p_ok] p_ok frss by (auto dest: map_eq_imp_length_eq)
  then have e1: "entity_at ss1 i =
      (if i = p then (entity_at ss p)\<lparr>authoring_revision := revision\<rparr> else entity_at ss i)" for i
    unfolding ss1_def by (intro with_revision_entity_at)
  have e2: "entity_at ss2 q = entity_at ss1 q" if "q \<in> set queue" for q
  proof -
    have "q \<notin> set C" using disj that by blast
    then show ?thesis by (simp add: same entity_at_def)
  qed
  have c_ok: "c < length ss0 \<and> entity_of (ss0 ! c) \<noteq> None" if "c \<in> set C" for c
    using that C by (auto simp: link_def child_of_def split: option.splits)
  have e1c: "entity_of (ss1 ! c) = Some (entity_at ss1 c)" if "c \<in> set C" for c
    using frame_entity_at [OF fr1] c_ok [OF that] by blast
  have slot2: "slot_frame (ss2 ! c) = slot_frame (ss1 ! c)" "entity_at ss2 c = (entity_at ss1 c)\<lparr>transform_of := transform_of (entity_at ss2 c)\<rparr>"
    "recomposed ss2 p c path index" if c: "c \<in> set C" for c
  proof -
    obtain t where t: "compose (transform_of (entity_at ss1 p)) (local_transform (entity_at ss1 c)) path index = Inr t"
      and s: "ss2 ! c = (ss1 ! c)\<lparr>entity_of := map_option (transform_of_update (\<lambda>_. t)) (entity_of (ss1 ! c))\<rparr>"
      using comp [OF c] by (auto simp: composed_def)
    show "slot_frame (ss2 ! c) = slot_frame (ss1 ! c)"
      by (simp add: s slot_frame_def option.map_comp comp_def)
    have e: "entity_at ss2 c = (entity_at ss1 c)\<lparr>transform_of := t\<rparr>"
      using s e1c [OF c] unfolding entity_at_def by (cases "entity_of (ss1 ! c)") auto
    then show "entity_at ss2 c = (entity_at ss1 c)\<lparr>transform_of := transform_of (entity_at ss2 c)\<rparr>" by simp
    show "recomposed ss2 p c path index"
      using t e e2 [OF p_in] by (simp add: recomposed_def)
  qed
  have fr2: "map slot_frame ss2 = map slot_frame ss0"
  proof (rule nth_equalityI)
    fix i
    assume "i < length (map slot_frame ss2)"
    then have "i < length ss0" "i < length ss1" "i < length ss2" using sc(2) step_facts(3) by simp_all
    moreover have "slot_frame (ss2 ! i) = slot_frame (ss1 ! i)"
      using slot2(1) [of i] same [of i] by (cases "i \<in> set C") auto
    ultimately show "map slot_frame ss2 ! i = map slot_frame ss0 ! i"
      using fr1 by (metis nth_map)
  qed (simp add: sc(2))
  have keep: "recomposed ss2 a b path index \<longleftrightarrow> recomposed ss a b path index"
    if "a \<in> set queue" "b \<in> set queue" for a b
    using e2 that e1 by (intro recomposed_cong) auto
  have link_new: "\<exists>j < Suc at. j < k \<and> (queue2 ! k, queue2 ! j) \<in> link ss0 \<and>
      recomposed ss2 (queue2 ! j) (queue2 ! k) path index" if k: "k < length queue2" "0 < k" for k
  proof (cases "k < length queue")
    case True
    then obtain j where j: "j < at" "j < k" "(queue ! k, queue ! j) \<in> link ss0"
      "recomposed ss (queue ! j) (queue ! k) path index"
      using inv k(2) unfolding bfs_inv_def by blast
    then show ?thesis
      using True at keep sc(1) by (intro exI [of _ j]) (auto simp: nth_append)
  next
    case False
    then have "queue2 ! k \<in> set C"
      using k(1) sc(1) by (auto simp: nth_append)
    then have "(queue2 ! k, p) \<in> link ss0" "recomposed ss2 p (queue2 ! k) path index"
      using C slot2(3) by auto
    moreover have "queue2 ! at = p" using at sc(1) by (simp add: nth_append p_def)
    ultimately show ?thesis using False at by (intro exI [of _ at]) auto
  qed
  have distinct2: "distinct queue2"
    using inv disj by (auto simp: sc(1) bfs_inv_def C_def)
  have closed: "c \<in> set queue2" if "j < Suc at" "(c, queue2 ! j) \<in> link ss0" for j c
  proof (cases "j = at")
    case True
    then have "queue2 ! j = p" using at sc(1) by (simp add: nth_append p_def)
    then show ?thesis using that C sc(1) by auto
  next
    case False
    then have "j < at" "queue2 ! j = queue ! j" using that(1) at sc(1) by (auto simp: nth_append)
    then show ?thesis using that(2) inv sc(1) unfolding bfs_inv_def by auto
  qed
  have rev: "authoring_revision (entity_at ss2 (queue2 ! j)) = revision" if "j < Suc at" for j
  proof -
    have q: "queue2 ! j = queue ! j" "queue ! j \<in> set queue" using that at sc(1) by (auto simp: nth_append)
    have "authoring_revision (entity_at ss1 (queue ! j)) = revision"
      using that inv e1 [of "queue ! j"] by (auto simp: bfs_inv_def p_def less_Suc_eq)
    then show ?thesis using q e2 by simp
  qed
  have untouched: "ss2 ! i = ss0 ! i" if "i \<notin> set queue2" for i
  proof -
    have "i \<noteq> p" using that p_in sc(1) by auto
    then have "ss1 ! i = ss ! i" by (simp add: ss1_def with_revision_def)
    then show ?thesis using same [of i] that sc(1) inv by (auto simp: bfs_inv_def)
  qed
  have root: "root \<in> set queue" using inv by (auto simp: bfs_inv_def in_set_conv_nth intro: exI [of _ 0])
  have troot: "transform_of (entity_at ss2 root) = transform_of (entity_at ss0 root)"
    using e2 [OF root] e1 [of root] inv by (auto simp: bfs_inv_def)
  have bounds: "\<forall>q \<in> set queue2. q < length ss0 \<and> entity_of (ss0 ! q) \<noteq> None"
    using inv c_ok by (auto simp: sc(1) bfs_inv_def)
  show ?thesis
    unfolding bfs_inv_def
    using fr2 distinct2 bounds link_new closed rev untouched troot at inv
    by (auto simp: sc(1) bfs_inv_def nth_append)
qed

section \<open>The whole update\<close>

lemma bfs_start:
  assumes "root < length ss" "entity_of (ss ! root) \<noteq> None"
  shows "bfs_inv ss root revision path index 0 ss [root]"
  using assms by (simp add: bfs_inv_def)

lemma subtree_loop_unfold:
  assumes "at < length queue"
  shows "subtree_loop path index revision at ss queue =
    (case subtree_children path index (queue ! at) [0 ..< length ss]
            (with_revision revision (queue ! at) ss, queue) of
       Inl err \<Rightarrow> Inl err
     | Inr (ss2, queue2) \<Rightarrow> subtree_loop path index revision (Suc at) ss2 queue2)"
  using assms by (subst subtree_loop.simps) (simp add: Let_def with_revision_def)

lemma subtree_loop_bfs:
  assumes "subtree_loop path index revision at ss queue = Inr ss'" "forest ss0"
    and "bfs_inv ss0 root revision path index at ss queue"
  shows "\<exists>queue'. bfs_inv ss0 root revision path index (length queue') ss' queue'"
  using assms
proof (induction "max (length queue) (length ss) - at" arbitrary: at ss queue rule: less_induct)
  case less
  show ?case
  proof (cases "at < length queue")
    case False
    then show ?thesis
      using less.prems by (auto simp: subtree_loop.simps bfs_inv_def intro!: exI [of _ queue])
  next
    case True
    then obtain ss2 queue2 where
      step: "subtree_children path index (queue ! at) [0 ..< length ss]
        (with_revision revision (queue ! at) ss, queue) = Inr (ss2, queue2)"
      and rest: "subtree_loop path index revision (Suc at) ss2 queue2 = Inr ss'"
      using less.prems(1) subtree_loop_unfold [OF True] by (auto split: sum.splits)
    note inv2 = bfs_step [OF less.prems(3) True less.prems(2) step]
    have "max (length queue2) (length ss2) - Suc at < max (length queue) (length ss) - at"
      using subtree_children_lengths [OF step] True by (auto simp: with_revision_def)
    from less.hyps [OF this rest less.prems(2) inv2] show ?thesis .
  qed
qed

lemma bfs_complete:
  assumes inv: "bfs_inv ss0 root revision path index (length queue) ss queue"
  shows "set queue = descendants ss0 root"
proof
  show "set queue \<subseteq> descendants ss0 root"
    using bfs_queue_descendants [OF inv] by (auto simp: in_set_conv_nth descendants_def)
  show "descendants ss0 root \<subseteq> set queue"
  proof
    fix i
    assume "i \<in> descendants ss0 root"
    then have "(i, root) \<in> (link ss0)\<^sup>*" by (simp add: descendants_def)
    then show "i \<in> set queue"
    proof (induction rule: converse_rtrancl_induct)
      case base
      show ?case using inv by (auto simp: bfs_inv_def in_set_conv_nth intro: exI [of _ 0])
    next
      case (step y z)
      then show ?case using inv by (auto simp: bfs_inv_def in_set_conv_nth)
    qed
  qed
qed

theorem subtree_update:
  assumes run: "subtree ss root revision path index = Inr ss'" and forest: "forest ss"
    and root: "root < length ss" "entity_of (ss ! root) \<noteq> None"
  shows "map slot_frame ss' = map slot_frame ss"
    and "i \<notin> descendants ss root \<Longrightarrow> ss' ! i = ss ! i"
    and "i \<in> descendants ss root \<Longrightarrow> authoring_revision (entity_at ss' i) = revision"
    and "transform_of (entity_at ss' root) = transform_of (entity_at ss root)"
    and "(c, p) \<in> link ss \<Longrightarrow> p \<in> descendants ss root \<Longrightarrow> recomposed ss' p c path index"
proof -
  obtain queue where inv: "bfs_inv ss root revision path index (length queue) ss' queue"
    using subtree_loop_bfs [OF run [unfolded subtree_def] forest bfs_start [OF root]] by blast
  note q = bfs_complete [OF inv]
  show "map slot_frame ss' = map slot_frame ss" and "i \<notin> descendants ss root \<Longrightarrow> ss' ! i = ss ! i"
    and "transform_of (entity_at ss' root) = transform_of (entity_at ss root)"
    using inv q by (auto simp: bfs_inv_def)
  show "i \<in> descendants ss root \<Longrightarrow> authoring_revision (entity_at ss' i) = revision"
    using inv q [symmetric] by (auto simp: bfs_inv_def in_set_conv_nth)
  assume l: "(c, p) \<in> link ss" and p: "p \<in> descendants ss root"
  then have "c \<in> descendants ss root"
    by (auto simp: descendants_def intro: converse_rtrancl_into_rtrancl)
  then obtain k where k: "k < length queue" "queue ! k = c" using q by (metis in_set_conv_nth)
  show "recomposed ss' p c path index"
  proof (cases "k = 0")
    case True
    then have "c = root" using inv k by (simp add: bfs_inv_def)
    then have "(root, root) \<in> (link ss)\<^sup>+"
      using l p by (simp add: descendants_def rtrancl_into_trancl2)
    then show ?thesis using forest by (auto simp: forest_def acyclic_def)
  next
    case False
    then obtain j where "(c, queue ! j) \<in> link ss" "recomposed ss' (queue ! j) c path index"
      using inv k unfolding bfs_inv_def by blast
    then show ?thesis using l forest by (auto simp: forest_def single_valued_def)
  qed
qed

text \<open>On a forest, the only errors are those of a composition.\<close>

lemma bfs_room:
  assumes inv: "bfs_inv ss0 root revision path index at ss queue" and at: "at < length queue"
    and forest: "forest ss0"
  shows "length queue + length (filter (\<lambda>c. (c, queue ! at) \<in> link ss0) [0 ..< length ss0]) \<le> length ss0"
proof -
  let ?C = "filter (\<lambda>c. (c, queue ! at) \<in> link ss0) [0 ..< length ss0]"
  have "distinct (queue @ ?C)"
    using inv bfs_children_new [OF inv at forest] by (auto simp: bfs_inv_def)
  moreover have "set (queue @ ?C) \<subseteq> {..< length ss0}"
    using inv by (auto simp: bfs_inv_def)
  ultimately have "length (queue @ ?C) \<le> card {..< length ss0}"
    by (metis card_mono distinct_card finite_lessThan)
  then show ?thesis by simp
qed

lemma subtree_loop_error:
  assumes "subtree_loop path index revision at ss queue = Inl err" "forest ss0"
    and "bfs_inv ss0 root revision path index at ss queue"
  shows "\<exists>a b. compose a b path index = Inl err"
  using assms
proof (induction "max (length queue) (length ss) - at" arbitrary: at ss queue rule: less_induct)
  case less
  have True: "at < length queue"
    using less.prems(1) by (auto simp: subtree_loop.simps split: if_splits)
  let ?ss1 = "with_revision revision (queue ! at) ss"
  note facts = subtree_children_step [OF less.prems(3) True less.prems(2)]
  have len: "length ?ss1 = length ss" by (simp add: with_revision_def)
  show ?case
  proof (cases "subtree_children path index (queue ! at) [0 ..< length ss] (?ss1, queue)")
    case (Inl e)
    then have "e = err" using less.prems(1) subtree_loop_unfold [OF True] by simp
    moreover have "\<exists>c \<in> set [0 ..< length ss]. child_of (?ss1 ! c) (?ss1 ! (queue ! at)) \<and>
        compose (transform_of (entity_at ?ss1 (queue ! at))) (local_transform (entity_at ?ss1 c)) path index = Inl e"
      using Inl facts bfs_room [OF less.prems(3) True less.prems(2)] len
      by (intro subtree_children_Inl) simp_all
    ultimately show ?thesis by blast
  next
    case (Inr st)
    then obtain ss2 queue2 where
      step: "subtree_children path index (queue ! at) [0 ..< length ss] (?ss1, queue) = Inr (ss2, queue2)"
      and rest: "subtree_loop path index revision (Suc at) ss2 queue2 = Inl err"
      using less.prems(1) subtree_loop_unfold [OF True] by (cases st) auto
    note inv2 = bfs_step [OF less.prems(3) True less.prems(2) step]
    have "max (length queue2) (length ss2) - Suc at < max (length queue) (length ss) - at"
      using subtree_children_lengths [OF step] True by (auto simp: with_revision_def)
    from less.hyps [OF this rest less.prems(2) inv2] show ?thesis .
  qed
qed

lemma subtree_error:
  assumes "subtree ss root revision path index = Inl err" "forest ss"
    and "root < length ss" "entity_of (ss ! root) \<noteq> None"
  shows "\<exists>a b. compose a b path index = Inl err"
  using subtree_loop_error [OF assms(1) [unfolded subtree_def] assms(2) bfs_start [OF assms(3, 4)]] .

end
