(* ===== verification/World_Invariant.thy ===== *)
theory World_Invariant
  imports Subtree_Laws Transactions
begin

text \<open>
  Well-formed worlds: slot UUIDs from the seed, live parents with positive uniform scale, no
  cycle, canonical finite transforms, sorted unique tags and a format version that fits.  Every
  operation of \<open>src/transactions.cpp\<close> keeps a staged world well-formed, so every committed
  world is.
\<close>

section \<open>Well-formed snapshots\<close>

definition sound_transform :: "transform \<Rightarrow> bool" where
  "sound_transform t \<longleftrightarrow>
     list_all is_finite (transform_numbers t) \<and> list_all canonical_double (transform_numbers t) \<and>
     list_all (\<lambda>v. \<not> feq v 0) (vec3_list (scale t))"

definition wf_entity :: "u64 \<Rightarrow> entity \<Rightarrow> bool" where
  "wf_entity revision e \<longleftrightarrow>
     prefab e = unit_cube \<and> authoring_revision e \<le> revision \<and>
     sound_transform (transform_of e) \<and> sound_transform (local_transform e) \<and>
     (parent e = None \<longrightarrow> local_transform e = default_transform) \<and>
     sorted (tags e) \<and> distinct (tags e) \<and> length (tags e) \<le> 8 \<and> list_all (ascii_id 32) (tags e)"

definition wf_slot :: "u32 \<Rightarrow> u64 \<Rightarrow> nat \<Rightarrow> slot \<Rightarrow> bool" where
  "wf_slot seed0 revision i s \<longleftrightarrow>
     entity_uuid s = slot_uuid seed0 i \<and> 1 \<le> generation s \<and>
     (retired s \<longrightarrow> entity_of s = None \<and> generation s = u64_max) \<and>
     pred_option (wf_entity revision) (entity_of s)"

definition parent_index :: "slot list \<Rightarrow> nat \<Rightarrow> nat \<Rightarrow> bool" where
  "parent_index ss i j \<longleftrightarrow>
     (i, j) \<in> link ss \<and> entity_of (ss ! j) \<noteq> None \<and> uniform_positive (scale (transform_of (entity_at ss j)))"

definition parents_live :: "slot list \<Rightarrow> bool" where
  "parents_live ss \<longleftrightarrow>
     (\<forall>i < length ss. \<forall>e p. entity_of (ss ! i) = Some e \<longrightarrow> parent e = Some p \<longrightarrow> (\<exists>j. parent_index ss i j))"

definition wf_slots :: "u32 \<Rightarrow> nat \<Rightarrow> u64 \<Rightarrow> slot list \<Rightarrow> bool" where
  "wf_slots seed0 capacity revision ss \<longleftrightarrow>
     length ss \<le> capacity \<and> capacity \<le> 1024 \<and> (\<forall>i < length ss. wf_slot seed0 revision i (ss ! i)) \<and>
     parents_live ss \<and> acyclic (link ss)"

definition wf_snapshot :: "snapshot \<Rightarrow> bool" where
  "wf_snapshot sn \<longleftrightarrow>
     ascii_id 128 (snapshot_world_id sn) \<and> 0 < unat (max_slots sn) \<and>
     format_version sn = staged_version (slots sn) \<and>
     wf_slots (seed sn) (unat (max_slots sn)) (world_revision sn) (slots sn)"

section \<open>Slot UUIDs\<close>

lemma hex_digit_inject: "hex_digit v = hex_digit w \<Longrightarrow> take_bit 4 v = take_bit 4 w"
proof -
  define ds where "ds = ''0123456789abcdef''"
  have m: "and u 15 = take_bit 4 u" for u :: u64
    by (simp add: take_bit_eq_mask mask_eq_exp_minus_1)
  have b: "unat (take_bit 4 u) < 16" for u :: u64
    using take_bit_nat_less_exp [of 4 "unat u"] by (simp add: unsigned_take_bit_eq)
  have ds: "distinct ds" "length ds = 16" unfolding ds_def by (code_simp, simp)
  assume "hex_digit v = hex_digit w"
  then have "ds ! unat (take_bit 4 v) = ds ! unat (take_bit 4 w)" by (simp only: hex_digit_def ds_def [symmetric] m)
  then have "unat (take_bit 4 v) = unat (take_bit 4 w)"
    using ds b by (simp add: nth_eq_iff_index_eq)
  then show ?thesis by (simp add: word_unat_eq_iff)
qed

lemma length_hex [simp]: "length (hex v n) = n"
  by (induction n arbitrary: v) auto

lemma hex_inject: "hex v n = hex w n \<Longrightarrow> take_bit (4 * n) v = take_bit (4 * n) w"
proof (induction n arbitrary: v w)
  case 0
  then show ?case by simp
next
  case (Suc n)
  then have "hex_digit v = hex_digit w" and rest: "hex (drop_bit 4 v) n = hex (drop_bit 4 w) n"
    by simp_all
  then have low: "take_bit 4 v = take_bit 4 w" by (intro hex_digit_inject)
  have high: "take_bit (4 * n) (drop_bit 4 v) = take_bit (4 * n) (drop_bit 4 w)"
    by (rule Suc.IH [OF rest])
  show ?case
  proof (rule bit_eqI)
    fix k
    show "bit (take_bit (4 * Suc n) v) k \<longleftrightarrow> bit (take_bit (4 * Suc n) w) k"
    proof (cases "k < 4")
      case True
      then show ?thesis
        using arg_cong [OF low, of "\<lambda>x. bit x k"] by (simp add: bit_take_bit_iff)
    next
      case False
      then show ?thesis
        using arg_cong [OF high, of "\<lambda>x. bit x (k - 4)"]
        by (auto simp: bit_take_bit_iff bit_drop_bit_eq)
    qed
  qed
qed

lemma slot_uuid_inject:
  assumes "i < 1024" "j < 1024" "slot_uuid seed0 i = slot_uuid seed0 j"
  shows "i = j"
proof -
  have "hex (word_of_nat i + 1) 12 = hex (word_of_nat j + 1) 12"
    using assms(3) by (simp add: slot_uuid_def)
  then have "take_bit 48 (word_of_nat i + 1 :: u64) = take_bit 48 (word_of_nat j + 1)"
    using hex_inject [of "word_of_nat i + 1" 12 "word_of_nat j + 1"] by simp
  moreover have "take_bit 48 (word_of_nat k + 1 :: u64) = word_of_nat (Suc k)" if "k < 1024" for k
  proof -
    have "(word_of_nat k + 1 :: u64) = word_of_nat (Suc k)" by simp
    moreover have "unat (word_of_nat (Suc k) :: u64) = Suc k"
      using that take_bit_nat_eq_self [of "Suc k" 64] by (simp add: unsigned_of_nat del: of_nat_Suc)
    then have "take_bit 48 (word_of_nat (Suc k) :: u64) = word_of_nat (Suc k)"
      using that by (simp add: word_unat_eq_iff unsigned_take_bit_eq take_bit_nat_eq_self del: of_nat_Suc)
    ultimately show ?thesis by metis
  qed
  ultimately have "(word_of_nat (Suc i) :: u64) = word_of_nat (Suc j)" using assms(1, 2) by metis
  then have "unat (word_of_nat (Suc i) :: u64) = unat (word_of_nat (Suc j) :: u64)" by metis
  then have "Suc i = Suc j"
    using assms(1, 2) by (simp add: unsigned_of_nat take_bit_nat_eq_self del: of_nat_Suc)
  then show ?thesis by simp
qed

lemma wf_slots_uuid_inject:
  assumes "wf_slots seed0 capacity revision ss" "i < length ss" "j < length ss"
    and "entity_uuid (ss ! i) = entity_uuid (ss ! j)"
  shows "i = j"
proof (rule slot_uuid_inject [of _ _ seed0])
  show "i < 1024" "j < 1024" using assms(1-3) by (auto simp: wf_slots_def)
  show "slot_uuid seed0 i = slot_uuid seed0 j" using assms by (auto simp: wf_slots_def wf_slot_def)
qed

section \<open>Sound transforms\<close>

lemma positive_zero_finite [simp]: "is_finite v \<Longrightarrow> is_finite (positive_zero v)"
  by (simp add: positive_zero_def)

lemma positive_zero_feq [simp]: "feq (positive_zero v) w \<longleftrightarrow> feq v w" "feq w (positive_zero v) \<longleftrightarrow> feq w v"
  by (auto simp: positive_zero_def intro: feq_trans feq_sym)

lemma flt_zero_positive_zero [simp]: "flt 0 (positive_zero v) \<longleftrightarrow> flt 0 v"
  by (auto simp: positive_zero_def flt_def feq_def)

lemma transform_numbers_normalize:
  "transform_numbers (normalize_zero t) = map positive_zero (transform_numbers t)"
  "vec3_list (scale (normalize_zero t)) = map positive_zero (vec3_list (scale t))"
proof -
  have "vec3_list (map3 f v) = map f (vec3_list v)" "quat_list (map4 f q) = map f (quat_list q)" for f v q
    by (cases v; cases q; simp)+
  then show "transform_numbers (normalize_zero t) = map positive_zero (transform_numbers t)"
    "vec3_list (scale (normalize_zero t)) = map positive_zero (vec3_list (scale t))"
    by (simp_all add: transform_numbers_def normalize_zero_def)
qed

lemma normalize_zero_sound:
  assumes "list_all is_finite (transform_numbers t)" "\<not> list_ex (\<lambda>v. feq v 0) (vec3_list (scale t))"
  shows "sound_transform (normalize_zero t)"
  using assms
  by (auto simp: sound_transform_def transform_numbers_normalize list_all_iff list_ex_iff)

lemma checked_sound: "checked t path index = Inr t' \<Longrightarrow> sound_transform t'"
  by (auto simp: checked_def intro!: normalize_zero_sound split: if_splits)

lemma compose_sound:
  assumes "compose a b path index = Inr t"
  shows "sound_transform t \<and> uniform_positive (scale a)"
  using assms checked_sound by (auto simp: compose_def parent_scale_def res_simps Let_def)

lemma relative_sound:
  assumes "relative a b path index = Inr t"
  shows "sound_transform t \<and> uniform_positive (scale a)"
  using assms checked_sound by (auto simp: relative_def parent_scale_def res_simps Let_def)

lemma replacement_sound:
  assumes "replacement_transform v path index = Inr t" "finite_transform v"
  shows "sound_transform t"
  using assms
  by (auto simp: replacement_transform_def Let_def finite_transform_def transform_numbers_def
      intro!: normalize_zero_sound split: if_splits)

lemma default_transform_sound [simp]: "sound_transform default_transform"
  by code_simp

section \<open>Links of well-formed slots\<close>

definition uuids_ok :: "u32 \<Rightarrow> slot list \<Rightarrow> bool" where
  "uuids_ok seed0 ss \<longleftrightarrow> length ss \<le> 1024 \<and> (\<forall>i < length ss. entity_uuid (ss ! i) = slot_uuid seed0 i)"

lemma wf_slots_uuids: "wf_slots seed0 capacity revision ss \<Longrightarrow> uuids_ok seed0 ss"
  by (auto simp: wf_slots_def uuids_ok_def wf_slot_def)

lemma uuids_ok_inject:
  assumes "uuids_ok seed0 ss" "i < length ss" "j < length ss" "entity_uuid (ss ! i) = entity_uuid (ss ! j)"
  shows "i = j"
  using assms slot_uuid_inject [of i j seed0] by (auto simp: uuids_ok_def)

lemma link_single_valued:
  assumes "uuids_ok seed0 ss"
  shows "single_valued (link ss)"
proof (rule single_valuedI)
  fix c p q
  assume "(c, p) \<in> link ss" "(c, q) \<in> link ss"
  then have "p < length ss" "q < length ss" "entity_uuid (ss ! p) = entity_uuid (ss ! q)"
    by (auto simp: link_def child_of_def split: option.splits)
  then show "p = q" using uuids_ok_inject [OF assms] by blast
qed

text \<open>What \<open>subtree\<close> needs of the slots, and re-establishes.\<close>

definition staged_ok :: "u32 \<Rightarrow> nat \<Rightarrow> u64 \<Rightarrow> nat \<Rightarrow> slot list \<Rightarrow> bool" where
  "staged_ok seed0 capacity revision root ss \<longleftrightarrow>
     length ss \<le> capacity \<and> capacity \<le> 1024 \<and> (\<forall>i < length ss. wf_slot seed0 revision i (ss ! i)) \<and>
     acyclic (link ss) \<and> root < length ss \<and> entity_of (ss ! root) \<noteq> None \<and>
     (\<forall>i < length ss. \<forall>e p. entity_of (ss ! i) = Some e \<longrightarrow> parent e = Some p \<longrightarrow>
        (\<exists>j. (i, j) \<in> link ss \<and> entity_of (ss ! j) \<noteq> None \<and>
           (j \<notin> descendants ss root \<longrightarrow> uniform_positive (scale (transform_of (entity_at ss j))))))"

lemma wf_slot_update:
  assumes "wf_slot seed0 revision i s" "slot_frame s' = slot_frame s"
    and "\<And>e'. entity_of s' = Some e' \<Longrightarrow> authoring_revision e' \<le> revision \<and> sound_transform (transform_of e')"
  shows "wf_slot seed0 revision i s'"
proof -
  note f = slot_frame_fields [OF assms(2)]
  have "wf_entity revision e'" if e': "entity_of s' = Some e'" for e'
  proof -
    obtain e where e: "entity_of s = Some e" "entity_frame e' = entity_frame e"
      by (rule slot_frame_Some [OF assms(2) e'])
    show ?thesis
      using assms(1) assms(3) [OF e'] e entity_frame_fields [OF e(2)] by (simp add: wf_slot_def wf_entity_def)
  qed
  then show ?thesis
    using assms(1) f by (cases "entity_of s'") (auto simp: wf_slot_def)
qed

lemma descendants_step:
  assumes "i \<in> descendants ss root" "i \<noteq> root"
  obtains p where "(i, p) \<in> link ss" "p \<in> descendants ss root"
  using assms by (auto simp: descendants_def elim: converse_rtranclE)

lemma subtree_wf:
  assumes run: "subtree ss root revision path index = Inr ss'"
    and ok: "staged_ok seed0 capacity revision root ss"
  shows "wf_slots seed0 capacity revision ss'"
proof -
  have len: "length ss \<le> capacity" "capacity \<le> 1024" and slots: "\<And>i. i < length ss \<Longrightarrow> wf_slot seed0 revision i (ss ! i)"
    and root: "root < length ss" "entity_of (ss ! root) \<noteq> None"
    using ok by (auto simp: staged_ok_def)
  have "uuids_ok seed0 ss" using len slots by (auto simp: uuids_ok_def wf_slot_def)
  then have forest: "forest ss"
    using ok link_single_valued by (auto simp: forest_def staged_ok_def)
  note up = subtree_update [OF run forest root]
  have lens: "length ss' = length ss" using up(1) by (metis length_map)
  have links: "link ss' = link ss" by (rule link_frame [OF up(1)])
  have fr: "slot_frame (ss' ! i) = slot_frame (ss ! i)" if "i < length ss" for i
    using up(1) lens that by (metis nth_map)
  have slot': "wf_slot seed0 revision i (ss' ! i)" if i: "i < length ss" for i
  proof (cases "i \<in> descendants ss root")
    case False
    then show ?thesis using up(2) [OF False] slots [OF i] by simp
  next
    case True
    show ?thesis
    proof (rule wf_slot_update [OF slots [OF i] fr [OF i]])
      fix e'
      assume e': "entity_of (ss' ! i) = Some e'"
      then have at: "entity_at ss' i = e'" by (simp add: entity_at_def)
      have "sound_transform (transform_of e')"
      proof (cases "i = root")
        case True
        have "pred_option (wf_entity revision) (entity_of (ss ! root))"
          using slots [OF root(1)] by (simp add: wf_slot_def)
        then have "sound_transform (transform_of (entity_at ss root))"
          using root(2) by (auto simp: entity_at_def wf_entity_def)
        then show ?thesis using up(4) at True by simp
      next
        case False
        then obtain p where "(i, p) \<in> link ss" "p \<in> descendants ss root"
          using descendants_step True by blast
        then have "recomposed ss' p i path index" by (rule up(5))
        then show ?thesis using compose_sound at by (auto simp: recomposed_def)
      qed
      moreover have "authoring_revision e' = revision" using up(3) [OF True] at by simp
      ultimately show "authoring_revision e' \<le> revision \<and> sound_transform (transform_of e')" by simp
    qed
  qed
  have "\<exists>j. parent_index ss' i j"
    if i: "i < length ss" and e': "entity_of (ss' ! i) = Some e'" "parent e' = Some p" for i e' p
  proof -
    obtain e where e: "entity_of (ss ! i) = Some e" "entity_frame e' = entity_frame e"
      by (rule slot_frame_Some [OF fr [OF i] e'(1)])
    then have "parent e = Some p" using e'(2) entity_frame_fields(2) by metis
    with e(1) i ok obtain j where j: "(i, j) \<in> link ss" "entity_of (ss ! j) \<noteq> None"
      and up_j: "j \<notin> descendants ss root \<Longrightarrow> uniform_positive (scale (transform_of (entity_at ss j)))"
      unfolding staged_ok_def by blast
    have jl: "j < length ss" using j(1) by (simp add: link_def)
    have "uniform_positive (scale (transform_of (entity_at ss' j)))"
    proof (cases "j \<in> descendants ss root")
      case True
      then have "recomposed ss' j i path index" using up(5) j(1) by blast
      then show ?thesis using compose_sound by (auto simp: recomposed_def)
    next
      case False
      then show ?thesis using up_j up(2) [OF False] by (simp add: entity_at_def)
    qed
    moreover have "entity_of (ss' ! j) \<noteq> None"
      using slot_frame_fields(4) [OF fr [OF jl]] j(2) by simp
    ultimately show ?thesis using j(1) links by (auto simp: parent_index_def)
  qed
  then show ?thesis
    using len slot' lens links ok by (auto simp: wf_slots_def parents_live_def staged_ok_def)
qed

section \<open>Slot updates\<close>

lemma child_of_alt:
  "child_of c p \<longleftrightarrow> (\<exists>e q. entity_of c = Some e \<and> parent e = Some q \<and>
     parent_uuid q = entity_uuid p \<and> parent_generation q = generation p)"
  by (auto simp: child_of_def split: option.splits)

lemma link_cong:
  assumes "length ss' = length ss"
    and "\<And>i. i < length ss \<Longrightarrow> entity_uuid (ss' ! i) = entity_uuid (ss ! i) \<and>
      generation (ss' ! i) = generation (ss ! i) \<and>
      map_option parent (entity_of (ss' ! i)) = map_option parent (entity_of (ss ! i))"
  shows "link ss' = link ss"
proof -
  have "child_of (ss' ! c) (ss' ! p) \<longleftrightarrow> child_of (ss ! c) (ss ! p)" if "c < length ss" "p < length ss" for c p
    using assms(2) [OF that(1)] assms(2) [OF that(2)]
    by (cases "entity_of (ss ! c)"; cases "entity_of (ss' ! c)") (auto simp: child_of_def split: option.splits)
  then show ?thesis using assms(1) by (auto simp: link_def)
qed

lemma link_map_entity:
  assumes "\<And>e. parent (f e) = parent e"
  shows "link (map_entity f i ss) = link ss"
proof (rule link_cong)
  fix j
  assume "j < length ss"
  then show "entity_uuid (map_entity f i ss ! j) = entity_uuid (ss ! j) \<and>
      generation (map_entity f i ss ! j) = generation (ss ! j) \<and>
      map_option parent (entity_of (map_entity f i ss ! j)) = map_option parent (entity_of (ss ! j))"
    by (cases "j = i") (auto simp: map_entity_same option.map_comp comp_def assms)
qed simp

lemma wf_has_parent:
  assumes "wf_slots seed0 capacity revision ss" "c < length ss" "entity_of (ss ! c) = Some e" "parent e = Some p"
  obtains j where "parent_index ss c j"
  using assms unfolding wf_slots_def parents_live_def by blast

lemma wf_link_live:
  assumes wf: "wf_slots seed0 capacity revision ss" and l: "(c, j) \<in> link ss"
  shows "parent_index ss c j"
proof -
  have "c < length ss" using l by (simp add: link_def)
  moreover obtain e p where "entity_of (ss ! c) = Some e" "parent e = Some p"
    using l by (auto simp: link_def child_of_alt)
  ultimately obtain k where k: "parent_index ss c k"
    using wf_has_parent [OF wf] by blast
  then have "k = j"
    using l link_single_valued [OF wf_slots_uuids [OF wf]]
    by (auto simp: parent_index_def single_valued_def)
  with k show ?thesis by simp
qed

lemma wf_slots_entity:
  assumes "wf_slots seed0 capacity revision ss" "i < length ss" "entity_of (ss ! i) \<noteq> None"
  shows "wf_entity revision (entity_at ss i)" "\<not> retired (ss ! i)"
  using assms by (auto simp: wf_slots_def wf_slot_def entity_at_def)

lemma wf_slots_mono:
  assumes "wf_slots seed0 capacity revision ss" "revision \<le> revision'"
  shows "wf_slots seed0 capacity revision' ss"
proof -
  have "wf_slot seed0 revision' i s" if "wf_slot seed0 revision i s" for i s
    using that assms(2) by (cases "entity_of s") (auto simp: wf_slot_def wf_entity_def)
  then show ?thesis using assms(1) by (auto simp: wf_slots_def)
qed

subsection \<open>Tags\<close>

lemma wf_slots_tags:
  assumes wf: "wf_slots seed0 capacity revision ss"
    and ts: "distinct ts" "length ts \<le> 8" "list_all (ascii_id 32) ts"
  shows "wf_slots seed0 capacity revision
    (map_entity (\<lambda>e. e\<lparr>tags := sort ts, authoring_revision := revision\<rparr>) i ss)"
proof -
  let ?ss = "map_entity (\<lambda>e. e\<lparr>tags := sort ts, authoring_revision := revision\<rparr>) i ss"
  have l: "link ?ss = link ss" by (rule link_map_entity) simp
  have e: "entity_of (?ss ! j) = None \<longleftrightarrow> entity_of (ss ! j) = None"
    "map_option parent (entity_of (?ss ! j)) = map_option parent (entity_of (ss ! j))"
    "map_option transform_of (entity_of (?ss ! j)) = map_option transform_of (entity_of (ss ! j))"
    if "j < length ss" for j
    using that by (cases "j = i"; cases "entity_of (ss ! j)"; simp add: map_entity_same)+
  have "wf_slot seed0 revision j (?ss ! j)" if j: "j < length ss" for j
  proof (cases "j = i")
    case True
    have "wf_slot seed0 revision i (ss ! i)" using wf j True by (auto simp: wf_slots_def)
    then show ?thesis
      using True j ts by (cases "entity_of (ss ! i)")
        (auto simp: map_entity_same wf_slot_def wf_entity_def list_all_iff)
  next
    case False
    then show ?thesis using wf j by (simp add: wf_slots_def)
  qed
  moreover have "parent_index ?ss c j" if "parent_index ss c j" for c j
  proof -
    have j: "j < length ss" using that by (auto simp: parent_index_def link_def)
    have "transform_of (entity_at ?ss j) = transform_of (entity_at ss j)"
      using e(1, 3) [OF j] that
      by (cases "entity_of (ss ! j)"; cases "entity_of (?ss ! j)") (auto simp: entity_at_def parent_index_def)
    then show ?thesis using that e(1) [OF j] l by (simp add: parent_index_def)
  qed
  moreover have parent_old: "\<exists>j. parent_index ss c j"
    if "c < length ss" "entity_of (?ss ! c) = Some e'" "parent e' = Some p" for c e' p
  proof -
    from e(2) [OF that(1)] that obtain d where "entity_of (ss ! c) = Some d" "parent d = Some p"
      by (cases "entity_of (ss ! c)") auto
    then show ?thesis using wf_has_parent [OF wf that(1)] by blast
  qed
  ultimately show ?thesis
    using wf l unfolding wf_slots_def parents_live_def by (metis length_map_entity)
qed

subsection \<open>Allocation\<close>

lemma wf_slots_append:
  assumes wf: "wf_slots seed0 capacity revision ss" and room: "length ss < capacity"
  shows "wf_slots seed0 capacity revision (ss @ [new_slot (slot_uuid seed0 (length ss))])"
proof -
  let ?s = "new_slot (slot_uuid seed0 (length ss))"
  let ?ss = "ss @ [?s]"
  have s: "wf_slot seed0 revision (length ss) ?s" by (simp add: wf_slot_def new_slot_def)
  have none: "\<not> child_of (ss ! c) ?s" if c: "c < length ss" for c
  proof
    assume ch: "child_of (ss ! c) ?s"
    then obtain e p where ep: "entity_of (ss ! c) = Some e" "parent e = Some p"
      "parent_uuid p = slot_uuid seed0 (length ss)"
      by (auto simp: child_of_alt new_slot_def)
    obtain j where "parent_index ss c j" by (rule wf_has_parent [OF wf c ep(1, 2)])
    then have j: "j < length ss" "entity_uuid (ss ! j) = slot_uuid seed0 (length ss)"
      using ep by (auto simp: parent_index_def link_def child_of_alt)
    then have "slot_uuid seed0 j = slot_uuid seed0 (length ss)"
      using wf by (auto simp: wf_slots_def wf_slot_def)
    then show False using slot_uuid_inject [of j "length ss"] j(1) room wf by (auto simp: wf_slots_def)
  qed
  have l: "link ?ss = link ss"
    using none by (auto simp: link_def nth_append less_Suc_eq child_of_alt new_slot_def)
  have "parent_index ?ss c j \<longleftrightarrow> parent_index ss c j" for c j
    using l by (auto simp: parent_index_def link_def nth_append entity_at_def)
  then show ?thesis
    using wf room s l
    by (auto simp: wf_slots_def parents_live_def nth_append less_Suc_eq new_slot_def)
qed

lemma new_entity_wf: "wf_entity revision (new_entity unit_cube revision)"
  by (simp add: wf_entity_def new_entity_def)

lemma wf_slots_fill:
  assumes wf: "wf_slots seed0 capacity revision ss" and i: "i < length ss"
    and free: "entity_of (ss ! i) = None" "\<not> retired (ss ! i)"
  shows "wf_slots seed0 capacity revision
    (ss[i := (ss ! i)\<lparr>entity_of := Some (new_entity unit_cube revision)\<rparr>])"
proof -
  let ?ss = "ss[i := (ss ! i)\<lparr>entity_of := Some (new_entity unit_cube revision)\<rparr>]"
  have "link ?ss = link ss"
    using free(1) i by (auto simp: link_def nth_list_update child_of_alt new_entity_def)
  moreover have "(c, i) \<notin> link ss" for c
    using wf_link_live [OF wf, of c i] free(1) by (auto simp: parent_index_def)
  ultimately have "parent_index ?ss c j \<longleftrightarrow> parent_index ss c j" for c j
    using i by (cases "j = i") (auto simp: parent_index_def entity_at_def)
  moreover have "wf_slot seed0 revision j (?ss ! j)" if "j < length ss" for j
    using wf that free new_entity_wf [of revision]
    by (cases "j = i") (auto simp: wf_slots_def wf_slot_def)
  moreover have "\<exists>j. parent_index ss c j"
    if "c < length ss" "entity_of (?ss ! c) = Some e" "parent e = Some p" for c e p
  proof -
    have "c \<noteq> i" using that i by (auto simp: new_entity_def)
    then have "entity_of (ss ! c) = Some e" using that by simp
    from wf_has_parent [OF wf that(1) this that(3)] show ?thesis by blast
  qed
  ultimately show ?thesis
    using wf \<open>link ?ss = link ss\<close> unfolding wf_slots_def parents_live_def by (metis length_list_update)
qed

subsection \<open>Deletion\<close>

lemma tombstone_wf:
  assumes "wf_slot seed0 revision i s"
  shows "wf_slot seed0 revision i (tombstone s)"
proof (cases "generation s = u64_max")
  case True
  then show ?thesis using assms by (auto simp: tombstone_def wf_slot_def)
next
  case False
  then have "generation s \<le> generation s + 1" by (rule less_imp_le [OF u64_succ_less])
  then show ?thesis using assms False by (auto simp: tombstone_def wf_slot_def)
qed

lemma wf_slots_delete:
  assumes wf: "wf_slots seed0 capacity revision ss" and i: "i < length ss"
    and leaf: "\<not> has_children ss (ss ! i)"
  shows "wf_slots seed0 capacity revision (ss[i := tombstone (ss ! i)])"
proof -
  let ?ss = "ss[i := tombstone (ss ! i)]"
  have nochild: "(c, i) \<notin> link ss" for c
    using leaf i by (auto simp: has_children_def list_ex_iff link_def)
  have dead: "entity_of (tombstone s) = None" "entity_uuid (tombstone s) = entity_uuid s" for s
    by (simp_all add: tombstone_def)
  have keep: "(c, j) \<in> link ?ss" if "(c, j) \<in> link ss" "c \<noteq> i" for c j
    using that nochild by (cases "j = i") (auto simp: link_def)
  have below: "(c, j) \<in> link ss" if l: "(c, j) \<in> link ?ss" for c j
  proof -
    have "c \<noteq> i" using l dead i by (auto simp: link_def child_of_alt)
    then have c: "c \<noteq> i" "c < length ss" "j < length ss" and ch: "child_of (ss ! c) (?ss ! j)"
      using l by (auto simp: link_def)
    then obtain e p where ep: "entity_of (ss ! c) = Some e" "parent e = Some p"
      "parent_uuid p = entity_uuid (ss ! j)"
      using dead(2) c(3) by (cases "j = i") (auto simp: child_of_alt)
    obtain k where k: "parent_index ss c k" by (rule wf_has_parent [OF wf c(2) ep(1, 2)])
    then have "k < length ss" "entity_uuid (ss ! k) = entity_uuid (ss ! j)"
      using ep by (auto simp: parent_index_def link_def child_of_alt)
    then have "k = j" using wf_slots_uuid_inject [OF wf] c by blast
    then show ?thesis using k by (simp add: parent_index_def)
  qed
  have "acyclic (link ?ss)"
    using wf below by (auto simp: wf_slots_def intro: acyclic_subset)
  moreover have "\<exists>j. parent_index ?ss c j"
    if "c < length ss" "entity_of (?ss ! c) = Some e" "parent e = Some p" for c e p
  proof -
    have c: "c \<noteq> i" using that dead i by auto
    then have "entity_of (ss ! c) = Some e" using that by simp
    from wf_has_parent [OF wf that(1) this that(3)] obtain j where j: "parent_index ss c j" .
    have "j \<noteq> i" using j nochild by (auto simp: parent_index_def)
    with j have "parent_index ?ss c j"
      using keep c by (auto simp: parent_index_def entity_at_def)
    then show ?thesis by blast
  qed
  moreover have "wf_slot seed0 revision j (?ss ! j)" if "j < length ss" for j
    using wf that tombstone_wf by (cases "j = i") (auto simp: wf_slots_def)
  ultimately show ?thesis
    using wf by (auto simp: wf_slots_def parents_live_def)
qed

subsection \<open>Transforms\<close>

lemma parent_of_link:
  assumes "parent_of ss (ss ! i) = Inr (Some j)" "i < length ss"
  shows "(i, j) \<in> link ss"
  using assms
  by (auto simp: parent_of_def link_def dest: find_index_SomeD split: option.splits if_splits)

lemma parent_of_none:
  assumes "parent_of ss (ss ! i) = Inr None"
  shows "(i, j) \<notin> link ss" "entity_of (ss ! i) = Some e \<Longrightarrow> parent e = None"
  using assms by (auto simp: parent_of_def link_def child_of_alt split: option.splits if_splits)

lemma staged_ok_transform:
  assumes wf: "wf_slots seed0 capacity revision ss" and i: "i < length ss" "entity_of (ss ! i) \<noteq> None"
    and sound: "sound_transform loc" "sound_transform replacement"
    and loc: "parent (entity_at ss i) = None \<Longrightarrow> loc = default_transform"
  shows "staged_ok seed0 capacity revision i
    (map_entity (\<lambda>e. e\<lparr>local_transform := loc, transform_of := replacement\<rparr>) i ss)"
proof -
  let ?ss = "map_entity (\<lambda>e. e\<lparr>local_transform := loc, transform_of := replacement\<rparr>) i ss"
  have l: "link ?ss = link ss" by (rule link_map_entity) simp
  have other: "?ss ! j = ss ! j" if "j \<noteq> i" for j using that by simp
  obtain e where e: "entity_of (ss ! i) = Some e" using i(2) by blast
  have at: "entity_of (?ss ! i) = Some (e\<lparr>local_transform := loc, transform_of := replacement\<rparr>)"
    using e i(1) by (simp add: map_entity_same)
  have "wf_slot seed0 revision i (?ss ! i)"
  proof -
    have "wf_slot seed0 revision i (ss ! i)" using wf i(1) by (auto simp: wf_slots_def)
    then show ?thesis
      using e i(1) sound loc by (auto simp: map_entity_same wf_slot_def wf_entity_def entity_at_def)
  qed
  then have slots: "wf_slot seed0 revision j (?ss ! j)" if "j < length ss" for j
    using wf that other by (cases "j = i") (auto simp: wf_slots_def)
  have "\<exists>j. (c, j) \<in> link ?ss \<and> entity_of (?ss ! j) \<noteq> None \<and>
      (j \<notin> descendants ?ss i \<longrightarrow> uniform_positive (scale (transform_of (entity_at ?ss j))))"
    if c: "c < length ss" "entity_of (?ss ! c) = Some e'" "parent e' = Some p" for c e' p
  proof -
    obtain d where "entity_of (ss ! c) = Some d" "parent d = Some p"
      using c at e other [of c] by (cases "c = i") auto
    then obtain j where j: "parent_index ss c j" by (rule wf_has_parent [OF wf c(1)])
    have "i \<in> descendants ?ss i" by (simp add: descendants_def)
    then have "j \<notin> descendants ?ss i \<Longrightarrow> ?ss ! j = ss ! j" using other by metis
    moreover have "entity_of (?ss ! j) \<noteq> None"
      using j at other [of j] by (cases "j = i") (auto simp: parent_index_def)
    ultimately show ?thesis using j l by (auto simp: parent_index_def entity_at_def)
  qed
  then show ?thesis
    using wf l slots i at by (auto simp: staged_ok_def wf_slots_def)
qed

subsection \<open>Reparenting\<close>

lemma check_ancestors_no_cycle:
  assumes "check_ancestors ss i path index count (Some a) = Inr u" "uuids_ok seed0 ss" "a < length ss"
  shows "(a, i) \<notin> (link ss)\<^sup>*"
  using assms(1, 3)
proof (induction count arbitrary: a)
  case 0
  then show ?case by simp
next
  case (Suc count)
  then have ne: "a \<noteq> i" by (auto split: if_splits)
  with Suc.prems obtain b where b: "parent_of ss (ss ! a) = Inr b"
    and rest: "check_ancestors ss i path index count b = Inr u"
    by (auto simp: res_simps)
  show ?case
  proof
    assume "(a, i) \<in> (link ss)\<^sup>*"
    with ne obtain x where x: "(a, x) \<in> link ss" "(x, i) \<in> (link ss)\<^sup>*"
      by (auto elim: converse_rtranclE)
    then obtain y where y: "b = Some y"
      using parent_of_none(1) [of ss a x] b by (cases b) auto
    then have "(a, y) \<in> link ss" using parent_of_link b Suc.prems(2) by simp
    then have "y = x" "y < length ss"
      using link_single_valued [OF assms(2)] x(1) by (auto simp: single_valued_def link_def)
    then show False using Suc.IH [of y] rest y x(2) by simp
  qed
qed

text \<open>What attaching or detaching makes of the entity.\<close>

definition reparented :: "u64 \<Rightarrow> slot list \<Rightarrow> nat option \<Rightarrow> entity \<Rightarrow> bool" where
  "reparented revision ss new_parent e \<longleftrightarrow>
     wf_entity revision e \<and>
     parent e = map_option (\<lambda>p. \<lparr>parent_uuid = entity_uuid (ss ! p), parent_generation = generation (ss ! p)\<rparr>) new_parent \<and>
     (\<forall>p. new_parent = Some p \<longrightarrow> uniform_positive (scale (transform_of (entity_at ss p))))"

lemma attach_reparented:
  assumes "attach ss i p mode path index = Inr e'" "wf_entity revision (entity_at ss i)"
  shows "reparented revision ss (Some p) e'"
  using assms
  by (auto simp: attach_def Let_def res_simps parent_scale_def reparented_def wf_entity_def
      dest!: relative_sound compose_sound split: if_splits)

lemma detach_reparented:
  "wf_entity revision (entity_at ss i) \<Longrightarrow> reparented revision ss None (detach ss i mode)"
  by (simp add: detach_def Let_def reparented_def wf_entity_def)

lemma staged_ok_reparent:
  assumes wf: "wf_slots seed0 capacity revision ss" and i: "i < length ss" "entity_of (ss ! i) \<noteq> None"
    and re: "reparented revision ss new_parent e'"
    and new: "\<And>p. new_parent = Some p \<Longrightarrow>
      p < length ss \<and> entity_of (ss ! p) \<noteq> None \<and> (p, i) \<notin> (link ss)\<^sup>*"
  shows "staged_ok seed0 capacity revision i (map_entity (\<lambda>_. e') i ss)"
proof -
  let ?ss = "map_entity (\<lambda>_. e') i ss"
  have other: "?ss ! j = ss ! j" if "j \<noteq> i" for j using that by simp
  obtain e where e: "entity_of (ss ! i) = Some e" using i(2) by blast
  have at: "?ss ! i = (ss ! i)\<lparr>entity_of := Some e'\<rparr>" using e i(1) by (simp add: map_entity_same)
  have ids: "entity_uuid (?ss ! j) = entity_uuid (ss ! j)" "generation (?ss ! j) = generation (ss ! j)" for j
    using at by (cases "j = i"; simp)+
  have wfe: "wf_entity revision e'" using re by (simp add: reparented_def)
  have "wf_slot seed0 revision i (ss ! i)" using wf i(1) by (auto simp: wf_slots_def)
  then have slots: "wf_slot seed0 revision j (?ss ! j)" if "j < length ss" for j
    using wf that other at e wfe by (cases "j = i") (auto simp: wf_slots_def wf_slot_def)
  have to_parent: "(i, j) \<in> link ?ss \<longleftrightarrow> new_parent = Some j" for j
  proof (cases new_parent)
    case None
    then show ?thesis using re at by (auto simp: link_def child_of_alt reparented_def)
  next
    case (Some p)
    then have "(i, j) \<in> link ?ss \<longleftrightarrow> j < length ss \<and>
        entity_uuid (ss ! p) = entity_uuid (ss ! j) \<and> generation (ss ! p) = generation (ss ! j)"
      using re at i ids by (auto simp: link_def child_of_alt reparented_def)
    then show ?thesis
      using Some new [OF Some] uuids_ok_inject [OF wf_slots_uuids [OF wf]] by auto
  qed
  have rest: "(c, j) \<in> link ?ss \<longleftrightarrow> (c, j) \<in> link ss" if "c \<noteq> i" for c j
    using that ids by (simp add: link_def child_of_alt)
  have "acyclic (link ?ss)"
  proof (cases new_parent)
    case None
    have "link ?ss \<subseteq> link ss"
    proof (rule subrelI)
      fix a b
      assume "(a, b) \<in> link ?ss"
      then show "(a, b) \<in> link ss" using to_parent [of b] rest [of a b] None by (cases "a = i") auto
    qed
    then show ?thesis using wf by (auto simp: wf_slots_def intro: acyclic_subset)
  next
    case (Some p)
    have "link ?ss \<subseteq> insert (i, p) (link ss)"
    proof (rule subrelI)
      fix a b
      assume "(a, b) \<in> link ?ss"
      then show "(a, b) \<in> insert (i, p) (link ss)"
        using to_parent [of b] rest [of a b] Some by (cases "a = i") auto
    qed
    moreover have "acyclic (insert (i, p) (link ss))"
      using wf new [OF Some] by (simp add: wf_slots_def acyclic_insert)
    ultimately show ?thesis by (rule acyclic_subset [rotated])
  qed
  moreover have "\<exists>j. (c, j) \<in> link ?ss \<and> entity_of (?ss ! j) \<noteq> None \<and>
      (j \<notin> descendants ?ss i \<longrightarrow> uniform_positive (scale (transform_of (entity_at ?ss j))))"
    if c: "c < length ss" "entity_of (?ss ! c) = Some d" "parent d = Some q" for c d q
  proof -
    have self: "i \<in> descendants ?ss i" by (simp add: descendants_def)
    have some: "entity_of (?ss ! j) \<noteq> None" if "entity_of (ss ! j) \<noteq> None" for j
      using that at by (cases "j = i") auto
    show ?thesis
    proof (cases "c = i")
      case True
      then obtain p where p: "new_parent = Some p"
        using c at re by (cases new_parent) (auto simp: reparented_def)
      then have "p \<noteq> i" using new [OF p] by auto
      then have "uniform_positive (scale (transform_of (entity_at ?ss p)))"
        using re p by (simp add: reparented_def entity_at_def)
      then show ?thesis using True p to_parent some new [OF p] by blast
    next
      case False
      then have "entity_of (ss ! c) = Some d" using c by simp
      from wf_has_parent [OF wf c(1) this c(3)] obtain j where j: "parent_index ss c j" .
      have "j \<notin> descendants ?ss i \<Longrightarrow> ?ss ! j = ss ! j" using self other by metis
      then show ?thesis
        using j rest [OF False] some by (auto simp: parent_index_def entity_at_def)
    qed
  qed
  ultimately show ?thesis
    using wf slots i at by (auto simp: staged_ok_def wf_slots_def)
qed

section \<open>Every operation keeps a staged world well-formed\<close>

definition wf_staging :: "u64 \<Rightarrow> staging \<Rightarrow> bool" where
  "wf_staging revision st \<longleftrightarrow>
     wf_slots (seed (staged st)) (unat (max_slots (staged st))) revision (slots (staged st))"

definition same_header :: "snapshot \<Rightarrow> snapshot \<Rightarrow> bool" where
  "same_header a b \<longleftrightarrow>
     snapshot_world_id a = snapshot_world_id b \<and> seed a = seed b \<and> max_slots a = max_slots b \<and>
     world_revision a = world_revision b \<and> format_version a = format_version b"

lemma same_header_refl [simp]: "same_header a a"
  and same_header_slots [simp]: "same_header (a\<lparr>slots := ss\<rparr>) a"
  by (simp_all add: same_header_def)

lemma same_header_trans: "same_header a b \<Longrightarrow> same_header b c \<Longrightarrow> same_header a c"
  by (simp add: same_header_def)

lemma staged_set_slots [simp]: "staged (set_slots ss st) = (staged st)\<lparr>slots := ss\<rparr>"
  "staged_created (set_slots ss st) = staged_created st" "staged_names (set_slots ss st) = staged_names st"
  by (simp_all add: set_slots_def)

lemma resolve_identity_Inr:
  assumes "resolve_identity sn temporary identity path index = Inr i"
  shows "i < length (slots sn) \<and> entity_of (slots sn ! i) \<noteq> None \<and> \<not> retired (slots sn ! i) \<and>
    identity = (snapshot_world_id sn, entity_uuid (slots sn ! i), generation (slots sn ! i))"
  using assms
  by (auto simp: resolve_identity_def Let_def dest: find_index_SomeD split: prod.splits option.splits if_splits)

lemma resolve_Inr:
  assumes "resolve sn t names path index = Inr i"
  shows "i < length (slots sn) \<and> entity_of (slots sn ! i) \<noteq> None \<and> \<not> retired (slots sn ! i)"
  using assms by (cases t) (auto dest: resolve_identity_Inr split: option.splits)

lemma gbind_Inr_cases:
  assumes "gbind m f s = (s'', Inr b)"
  obtains s' a where "m s = (s', Inr a)" "f a s' = (s'', Inr b)"
  using assms by (auto simp: gbind_eq_Inr)

lemma use_binding_same:
  assumes "use_binding bindings n name w index s = Inr s'"
  shows "s' = s"
  using assms by (auto simp: use_binding_def binding_matches_def split: option.splits if_splits)

lemma allocate_slot_wf:
  assumes "allocate_slot guard path index sn g = (g', Inr (i, ss))"
    and "wf_slots (seed sn) (unat (max_slots sn)) revision (slots sn)"
  shows "wf_slots (seed sn) (unat (max_slots sn)) revision ss \<and> i < length ss \<and>
    entity_of (ss ! i) = None \<and> \<not> retired (ss ! i)"
proof (cases "find_index (\<lambda>s. entity_of s = None \<and> \<not> retired s) (slots sn)")
  case None
  then show ?thesis
    using assms wf_slots_append [OF assms(2)]
    by (auto simp: allocate_slot_def gbind_eq_Inr nth_append new_slot_def split: if_splits)
next
  case (Some j)
  then show ?thesis
    using assms find_index_SomeD [OF Some] by (auto simp: allocate_slot_def gbind_eq_Inr)
qed

lemma apply_create_wf:
  assumes run: "apply_create guard bindings revision index name pf st g = (g', Inr st')"
    and wf: "wf_staging revision st"
  shows "wf_staging revision st' \<and> same_header (staged st') (staged st)"
proof -
  obtain g1 i ss s where pf: "pf = unit_cube"
    and al: "allocate_slot guard (operation_path index) index (staged st) g = (g1, Inr (i, ss))"
    and s: "use_binding bindings (length (staged_created st)) name (snapshot_world_id (staged st)) index (ss ! i) = Inr s"
    and st': "staged st' = (staged st)\<lparr>slots := ss[i := s\<lparr>entity_of := Some (new_entity pf revision)\<rparr>]\<rparr>"
    using run by (auto simp: apply_create_def Let_def gbind_eq_Inr split: if_splits)
  note a = allocate_slot_wf [OF al wf [unfolded wf_staging_def]]
  have "wf_slots (seed (staged st)) (unat (max_slots (staged st))) revision
      (ss[i := (ss ! i)\<lparr>entity_of := Some (new_entity unit_cube revision)\<rparr>])"
    using a by (intro wf_slots_fill) auto
  then show ?thesis
    using st' use_binding_same [OF s] pf by (simp add: wf_staging_def)
qed

text \<open>
  Setting a transform and reparenting both end in a subtree update, on slots that differ from
  the old ones in one entity.
\<close>

definition entity_then_subtree :: "u64 \<Rightarrow> nat \<Rightarrow> staging \<Rightarrow> staging \<Rightarrow> bool" where
  "entity_then_subtree revision index st st' \<longleftrightarrow>
     (\<exists>f i ss'. i < length (slots (staged st)) \<and> \<not> retired (slots (staged st) ! i) \<and>
        staged_ok (seed (staged st)) (unat (max_slots (staged st))) revision i (map_entity f i (slots (staged st))) \<and>
        subtree (map_entity f i (slots (staged st))) i revision (operation_path index) index = Inr ss' \<and>
        st' = set_slots ss' st)"

lemma entity_then_subtree_wf:
  assumes "entity_then_subtree revision index st st'"
  shows "wf_staging revision st' \<and> same_header (staged st') (staged st)"
  using assms subtree_wf by (fastforce simp: entity_then_subtree_def wf_staging_def)

lemma apply_transform_update:
  assumes run: "apply_transform guard revision index t value st g = (g', Inr st')"
    and wf: "wf_staging revision st" and fin: "finite_transform value"
  shows "entity_then_subtree revision index st st'"
proof -
  define ss where "ss = slots (staged st)"
  obtain replacement i p loc ss' where
    rep: "replacement_transform value (operation_path index) index = Inr replacement"
    and res: "resolve (staged st) t (staged_names st) (operation_path index @ ''/target'') index = Inr i"
    and p: "parent_of ss (ss ! i) = Inr p"
    and loc: "(case p of Some j \<Rightarrow> relative (transform_of (entity_at ss j)) replacement (operation_path index) index
       | None \<Rightarrow> Inr (local_transform (entity_at ss i))) = Inr loc"
    and sub: "subtree (map_entity (\<lambda>e. e\<lparr>local_transform := loc, transform_of := replacement\<rparr>) i ss)
       i revision (operation_path index) index = Inr ss'"
    and st': "st' = set_slots ss' st"
    using run unfolding apply_transform_def Let_def gbind_eq_Inr ss_def glift_apply prod.inject rbind_eq_Inr
    by blast
  have i: "i < length ss" "entity_of (ss ! i) \<noteq> None" using resolve_Inr [OF res] by (auto simp: ss_def)
  have wfs: "wf_slots (seed (staged st)) (unat (max_slots (staged st))) revision ss"
    using wf by (simp add: wf_staging_def ss_def)
  note e = wf_slots_entity [OF wfs i]
  have "sound_transform loc \<and> (parent (entity_at ss i) = None \<longrightarrow> loc = default_transform)"
  proof (cases p)
    case None
    then have "parent (entity_at ss i) = None" "loc = local_transform (entity_at ss i)"
      using parent_of_none(2) [of ss i] p i(2) loc by (auto simp: entity_at_def)
    then show ?thesis using e(1) by (simp add: wf_entity_def)
  next
    case (Some j)
    then have "parent (entity_at ss i) \<noteq> None"
      using p i(2) by (auto simp: parent_of_def entity_at_def split: if_splits)
    then show ?thesis using relative_sound loc Some by auto
  qed
  then have "staged_ok (seed (staged st)) (unat (max_slots (staged st))) revision i
      (map_entity (\<lambda>e. e\<lparr>local_transform := loc, transform_of := replacement\<rparr>) i ss)"
    using replacement_sound [OF rep fin] by (intro staged_ok_transform [OF wfs i]) auto
  then show ?thesis
    using sub st' i wf_slots_entity(2) [OF wfs i] unfolding entity_then_subtree_def ss_def by blast
qed

lemma apply_reparent_update:
  assumes run: "apply_reparent revision index t p mode st = Inr st'" and wf: "wf_staging revision st"
  shows "entity_then_subtree revision index st st'"
proof -
  define ss where "ss = slots (staged st)"
  obtain i new_parent e' ss' u where
    res: "resolve (staged st) t (staged_names st) (operation_path index @ ''/target'') index = Inr i"
    and np: "(case p of
               Some q \<Rightarrow> rbind (resolve (staged st) q (staged_names st) (operation_path index @ ''/parent'') index) (\<lambda>j. Inr (Some j))
             | None \<Rightarrow> Inr None) = Inr new_parent"
    and ca: "check_ancestors ss i (operation_path index) index (length ss) new_parent = Inr u"
    and e': "(case new_parent of Some p \<Rightarrow> attach ss i p mode (operation_path index) index
       | None \<Rightarrow> Inr (detach ss i mode)) = Inr e'"
    and sub: "subtree (map_entity (\<lambda>_. e') i ss) i revision (operation_path index) index = Inr ss'"
    and st': "st' = set_slots ss' st"
    using run unfolding apply_reparent_def reparent_def Let_def ss_def rbind_eq_Inr sum.inject by blast
  have i: "i < length ss" "entity_of (ss ! i) \<noteq> None" using resolve_Inr [OF res] by (auto simp: ss_def)
  have wfs: "wf_slots (seed (staged st)) (unat (max_slots (staged st))) revision ss"
    using wf by (simp add: wf_staging_def ss_def)
  note e = wf_slots_entity [OF wfs i]
  have re: "reparented revision ss new_parent e'"
    using e' attach_reparented e(1) detach_reparented by (cases new_parent) auto
  have "staged_ok (seed (staged st)) (unat (max_slots (staged st))) revision i (map_entity (\<lambda>_. e') i ss)"
  proof (rule staged_ok_reparent [OF wfs i re])
    fix j
    assume j: "new_parent = Some j"
    then obtain q where "resolve (staged st) q (staged_names st) (operation_path index @ ''/parent'') index = Inr j"
      using np by (auto simp: res_simps split: option.splits)
    then have "j < length ss \<and> entity_of (ss ! j) \<noteq> None" using resolve_Inr by (auto simp: ss_def)
    then show "j < length ss \<and> entity_of (ss ! j) \<noteq> None \<and> (j, i) \<notin> (link ss)\<^sup>*"
      using check_ancestors_no_cycle [OF ca [unfolded j] wf_slots_uuids [OF wfs]] by blast
  qed
  then show ?thesis
    using sub st' i wf_slots_entity(2) [OF wfs i] unfolding entity_then_subtree_def ss_def by blast
qed

lemmas apply_transform_wf = entity_then_subtree_wf [OF apply_transform_update]
  and apply_reparent_wf = entity_then_subtree_wf [OF apply_reparent_update]

lemma apply_tags_wf:
  assumes "apply_tags revision index t ts st = Inr st'" "wf_staging revision st"
    and "distinct ts" "length ts \<le> 8" "list_all (ascii_id 32) ts"
  shows "wf_staging revision st' \<and> same_header (staged st') (staged st)"
  using assms wf_slots_tags
  by (auto simp: apply_tags_def Let_def res_simps wf_staging_def)

lemma apply_delete_wf:
  assumes "apply_delete guard index t st g = (g', Inr st')" "wf_staging revision st"
  shows "wf_staging revision st' \<and> same_header (staged st') (staged st)"
  using assms
  by (auto simp: apply_delete_def Let_def gbind_eq_Inr wf_staging_def
      dest!: resolve_Inr intro!: wf_slots_delete split: if_splits)

theorem apply_operation_wf:
  assumes "apply_operation guard bindings revision index op st g = (g', Inr st')"
    and "operation_ok op" "wf_staging revision st"
  shows "wf_staging revision st' \<and> same_header (staged st') (staged st)"
  using assms apply_create_wf apply_transform_wf apply_tags_wf apply_reparent_wf apply_delete_wf
  by (cases op) fastforce+

lemma apply_operations_wf:
  assumes "apply_operations guard bindings revision index ops st g = (g', Inr st')"
    and "list_all operation_ok ops" "wf_staging revision st"
  shows "wf_staging revision st' \<and> same_header (staged st') (staged st)"
  using assms
proof (induction ops arbitrary: index st g)
  case Nil
  then show ?case by simp
next
  case (Cons op ops)
  then obtain g1 st1 where 1: "apply_operation guard bindings revision index op st g = (g1, Inr st1)"
    and 2: "apply_operations guard bindings revision (Suc index) ops st1 g1 = (g', Inr st')"
    by (auto simp: gbind_eq_Inr)
  have h: "wf_staging revision st1 \<and> same_header (staged st1) (staged st)"
    using apply_operation_wf [OF 1] Cons.prems by simp
  with Cons.IH [OF 2] Cons.prems show ?case by (auto intro: same_header_trans)
qed

end
