(* ===== verification/Transaction_Laws.thy ===== *)
theory Transaction_Laws
  imports World_Invariant
begin

text \<open>
  What a call of the coordinator (\<open>src/transactions.cpp\<close>) guarantees: it commits or leaves the
  world alone, a commit keeps the world well-formed and its identities monotone, hierarchy
  updates are exact, and a replay with the recorded bindings repeats the commit.
\<close>

section \<open>The outcome of one call\<close>

lemma serialize_errors: "serialize J e = Inl errors \<Longrightarrow> errors \<noteq> []"
  by (auto simp: serialize_def rbind_eq_Inl parse_def split: sum.splits option.splits if_splits)

lemma admission_Inr:
  assumes "admission w J e = Inr u"
  shows "envelope_ok e \<and> world_id e = snapshot_world_id (state w) \<and>
    expected_world_revision e = world_revision (state w) \<and> world_revision (state w) \<noteq> u64_max"
  using assms serialize_ok by (auto simp: admission_def split: sum.splits if_splits)

lemma admission_Inl: "admission w J e = Inl errors \<Longrightarrow> errors \<noteq> []"
  using serialize_errors by (auto simp: admission_def split: sum.splits if_splits)

definition committed_snapshot :: "snapshot \<Rightarrow> staging \<Rightarrow> snapshot" where
  "committed_snapshot sn st = (staged st)\<lparr>world_revision := world_revision sn + 1\<rparr>"

definition rejected_receipt :: "world \<Rightarrow> receipt \<Rightarrow> bool" where
  "rejected_receipt w r \<longleftrightarrow>
     receipt_status r = ''rejected'' \<and> receipt_created r = [] \<and> receipt_errors r \<noteq> [] \<and>
     receipt_revision r = world_revision (state w)"

text \<open>A call either leaves the world, or commits what it staged.\<close>

lemma apply_envelope_cases:
  assumes "apply_envelope J guard observer bindings e (w, g, obs) = ((w', g', obs'), res)"
  obtains (kept) "w' = w" "\<And>r. res = Inr r \<Longrightarrow> rejected_receipt w r"
  | (committed) g1 g2 st where "admission w J e = Inr ()"
      "stage guard bindings (state w) (operations e) g1 = (g2, Inr st)"
      "w' = w\<lparr>state := committed_snapshot (state w) st\<rparr>"
      "res = Inr (commit_receipt (initial_receipt guard w e) (world_revision (state w) + 1) (staged_created st))"
proof -
  note rej = rejected_receipt_def rejection_def initial_receipt_def empty_receipt_def
  show ?thesis
  proof (cases "hook guard (\<lambda>h. guard_begin h w (state w) e) g")
    case (Pair g1 r1)
    note begun = this
    show ?thesis
    proof (cases r1)
      case (Inl err)
      then show ?thesis using assms begun by (intro kept) (auto simp: apply_envelope_def Let_def rej)
    next
      case (Inr u)
      show ?thesis
      proof (cases "admission w J e")
        case (Inl errors)
        then show ?thesis
          using assms begun Inr admission_Inl [OF Inl]
          by (intro kept) (auto simp: apply_envelope_def Let_def rej)
      next
        case admitted: (Inr v)
        obtain g2 r2 where staged: "stage guard bindings (state w) (operations e) g1 = (g2, r2)"
          by (cases "stage guard bindings (state w) (operations e) g1") auto
        show ?thesis
        proof (cases r2)
          case (Inl err)
          then show ?thesis
            using assms begun Inr admitted staged
            by (intro kept) (auto simp: apply_envelope_def Let_def rej)
        next
          case fin: (Inr st)
          show ?thesis
          proof (cases "w' = w \<and> (\<forall>r. res = Inr r \<longrightarrow> rejected_receipt w r)")
            case True
            then show ?thesis by (intro kept) auto
          next
            case False
            then show ?thesis
              using assms begun Inr admitted staged fin
              by (intro committed [of g1 g2 st])
                (auto simp: apply_envelope_def Let_def rej committed_snapshot_def publish_commit_def
                  split: prod.splits sum.splits prepare_failure.splits)
          qed
        qed
      qed
    qed
  qed
qed

section \<open>Well-formedness of a commit\<close>

lemma stage_Inr:
  assumes "stage guard bindings sn ops g = (g', Inr st)"
  obtains g1 st0 where
    "apply_operations guard bindings (world_revision sn + 1) 0 ops
       \<lparr>staged = sn, staged_names = [], staged_created = []\<rparr> g = (g1, Inr st0)"
    "st = st0\<lparr>staged := (staged st0)\<lparr>format_version := staged_version (slots (staged st0))\<rparr>\<rparr>"
    "\<And>bs. bindings = Some bs \<Longrightarrow> length (staged_created st0) = length bs"
  using assms by (auto simp: stage_def Let_def gbind_eq_Inr split: if_splits option.splits)

lemma stage_wf:
  assumes run: "stage guard bindings sn ops g = (g', Inr st)" and ok: "list_all operation_ok ops"
    and wf: "wf_snapshot sn" and room: "world_revision sn \<noteq> u64_max"
  shows "wf_snapshot (committed_snapshot sn st)"
proof -
  obtain g1 st0 where
    ops: "apply_operations guard bindings (world_revision sn + 1) 0 ops
       \<lparr>staged = sn, staged_names = [], staged_created = []\<rparr> g = (g1, Inr st0)"
    and st: "st = st0\<lparr>staged := (staged st0)\<lparr>format_version := staged_version (slots (staged st0))\<rparr>\<rparr>"
    using stage_Inr [OF run] by metis
  have "world_revision sn \<le> world_revision sn + 1"
    by (rule less_imp_le [OF u64_succ_less [OF room]])
  then have "wf_staging (world_revision sn + 1) \<lparr>staged = sn, staged_names = [], staged_created = []\<rparr>"
    using wf wf_slots_mono by (auto simp: wf_staging_def wf_snapshot_def)
  from apply_operations_wf [OF ops ok this] wf show ?thesis
    by (auto simp: st wf_snapshot_def committed_snapshot_def wf_staging_def same_header_def)
qed

lemma admitted_operations: "admission w J e = Inr u \<Longrightarrow> list_all operation_ok (operations e)"
  using admission_Inr by (auto simp: envelope_ok_def)

lemma apply_envelope_wf:
  assumes run: "apply_envelope J guard observer bindings e (w, g, obs) = ((w', g', obs'), res)"
    and wf: "wf_snapshot (state w)"
  shows "wf_snapshot (state w')"
  using run
proof (cases rule: apply_envelope_cases)
  case kept
  then show ?thesis using wf by simp
next
  case (committed g1 g2 st)
  then show ?thesis
    using stage_wf [OF committed(2) admitted_operations [OF committed(1)] wf] admission_Inr [OF committed(1)]
    by simp
qed

lemma make_world_wf: "make_world address w seed0 cap = Inr world0 \<Longrightarrow> wf_snapshot (state world0)"
  by (auto simp: make_world_def wf_snapshot_def valid_id_def staged_version_def wf_slots_def
      parents_live_def link_def word_le_nat_alt not_less word_greater_zero_iff unat_gt_0 acyclic_def
      split: if_splits)

text \<open>
  The worlds that calls of the coordinator lead to, with any JSON library, any hooks from two
  given sets and any hook state at each call.
\<close>

inductive reachable ::
  "'g staging_hooks option set \<Rightarrow> ('o, 'x) observer_hooks option set \<Rightarrow> world \<Rightarrow> world \<Rightarrow> bool"
  for guards observers w where
  start: "reachable guards observers w w"
| call: "reachable guards observers w w1 \<Longrightarrow> guard \<in> guards \<Longrightarrow> observer \<in> observers \<Longrightarrow>
    apply_envelope J guard observer bindings e (w1, g, obs) = ((w2, g', obs'), res) \<Longrightarrow>
    reachable guards observers w w2"

lemma reachable_wf:
  "reachable guards observers w w' \<Longrightarrow> wf_snapshot (state w) \<Longrightarrow> wf_snapshot (state w')"
  by (induction rule: reachable.induct) (auto dest: apply_envelope_wf)

section \<open>Identities never go back\<close>

text \<open>
  From one state of a slot to a later one: the UUID stays, the generation does not fall, a
  retired slot never changes again, and an entity leaves its slot only together with its
  generation or the slot.
\<close>

definition slot_le :: "slot \<Rightarrow> slot \<Rightarrow> bool" where
  "slot_le s s' \<longleftrightarrow>
     entity_uuid s' = entity_uuid s \<and> generation s \<le> generation s' \<and> (retired s \<longrightarrow> s' = s) \<and>
     (generation s' = generation s \<longrightarrow> \<not> retired s' \<longrightarrow> entity_of s \<noteq> None \<longrightarrow> entity_of s' \<noteq> None)"

definition slots_le :: "slot list \<Rightarrow> slot list \<Rightarrow> bool" where
  "slots_le ss ss' \<longleftrightarrow> length ss \<le> length ss' \<and> (\<forall>i < length ss. slot_le (ss ! i) (ss' ! i))"

lemma slot_le_refl [simp]: "slot_le s s"
  by (simp add: slot_le_def)

lemma slot_le_trans: "slot_le a b \<Longrightarrow> slot_le b c \<Longrightarrow> slot_le a c"
  by (auto simp: slot_le_def)

lemma slots_le_refl [simp]: "slots_le ss ss"
  by (simp add: slots_le_def)

lemma slots_le_trans: "slots_le a b \<Longrightarrow> slots_le b c \<Longrightarrow> slots_le a c"
  unfolding slots_le_def by (metis less_le_trans order_trans slot_le_trans)

lemma slots_le_update: "i < length ss \<Longrightarrow> slot_le (ss ! i) s \<Longrightarrow> slots_le ss (ss[i := s])"
  by (auto simp: slots_le_def nth_list_update)

lemma slots_le_map_entity: "i < length ss \<Longrightarrow> \<not> retired (ss ! i) \<Longrightarrow> slots_le ss (map_entity f i ss)"
  unfolding map_entity_def by (rule slots_le_update) (auto simp: slot_le_def)

lemma slots_le_append: "slots_le ss (ss @ extra)"
  by (simp add: slots_le_def nth_append)

lemma tombstone_le:
  assumes "\<not> retired s"
  shows "slot_le s (tombstone s)"
proof (cases "generation s = u64_max")
  case True
  then show ?thesis using assms by (simp add: slot_le_def tombstone_def)
next
  case False
  then show ?thesis
    using assms u64_succ_less [OF False] by (auto simp: slot_le_def tombstone_def)
qed

text \<open>A subtree update touches no retired slot, since those hold no entity.\<close>

lemma slots_le_subtree:
  assumes run: "subtree ss root revision path index = Inr ss'"
    and ok: "staged_ok seed0 capacity revision root ss"
  shows "slots_le ss ss'"
proof -
  have root: "root < length ss" "entity_of (ss ! root) \<noteq> None" and ac: "acyclic (link ss)"
    and slots: "\<And>i. i < length ss \<Longrightarrow> wf_slot seed0 revision i (ss ! i)" and len: "length ss \<le> 1024"
    using ok by (auto simp: staged_ok_def)
  have "uuids_ok seed0 ss" using len slots by (auto simp: uuids_ok_def wf_slot_def)
  then have forest: "forest ss" using ac link_single_valued by (auto simp: forest_def)
  note up = subtree_update [OF run forest root]
  have lens: "length ss' = length ss" using up(1) by (metis length_map)
  show ?thesis
    unfolding slots_le_def
  proof (intro conjI allI impI)
    show "length ss \<le> length ss'" using lens by simp
    fix i
    assume i: "i < length ss"
    have fr: "slot_frame (ss' ! i) = slot_frame (ss ! i)" using up(1) lens i by (metis nth_map)
    note f = slot_frame_fields [OF fr]
    show "slot_le (ss ! i) (ss' ! i)"
    proof (cases "retired (ss ! i)")
      case True
      then have none: "entity_of (ss ! i) = None" using slots [OF i] by (simp add: wf_slot_def)
      have "i \<notin> descendants ss root"
      proof
        assume "i \<in> descendants ss root"
        then consider "i = root" | p where "(i, p) \<in> link ss"
          using descendants_step by blast
        then show False
          using none root(2) by cases (auto simp: link_def child_of_alt)
      qed
      then show ?thesis using up(2) by simp
    next
      case False
      then show ?thesis using f by (auto simp: slot_le_def)
    qed
  qed
qed

lemma entity_then_subtree_le:
  assumes "entity_then_subtree revision index st st'"
  shows "slots_le (slots (staged st)) (slots (staged st'))"
proof -
  obtain f i ss' where i: "i < length (slots (staged st))" "\<not> retired (slots (staged st) ! i)"
    and ok: "staged_ok (seed (staged st)) (unat (max_slots (staged st))) revision i (map_entity f i (slots (staged st)))"
    and sub: "subtree (map_entity f i (slots (staged st))) i revision (operation_path index) index = Inr ss'"
    and st': "st' = set_slots ss' st"
    using assms unfolding entity_then_subtree_def by blast
  from slots_le_trans [OF slots_le_map_entity [OF i] slots_le_subtree [OF sub ok]] st' show ?thesis by simp
qed

lemma apply_operation_le:
  assumes run: "apply_operation guard bindings revision index op st g = (g', Inr st')"
    and ok: "operation_ok op" and wf: "wf_staging revision st"
  shows "slots_le (slots (staged st)) (slots (staged st'))"
proof -
  let ?ss = "slots (staged st)"
  have wfs: "wf_slots (seed (staged st)) (unat (max_slots (staged st))) revision ?ss"
    using wf by (simp add: wf_staging_def)
  show ?thesis
  proof (cases op)
    case (EntityCreate name pf)
    then obtain g1 i ss s where al: "allocate_slot guard (operation_path index) index (staged st) g = (g1, Inr (i, ss))"
      and s: "use_binding bindings (length (staged_created st)) name (snapshot_world_id (staged st)) index (ss ! i) = Inr s"
      and st': "staged st' = (staged st)\<lparr>slots := ss[i := s\<lparr>entity_of := Some (new_entity pf revision)\<rparr>]\<rparr>"
      using run by (auto simp: apply_create_def Let_def gbind_eq_Inr split: if_splits)
    note a = allocate_slot_wf [OF al wfs]
    have "slots_le ?ss ss"
      using al slots_le_append
      by (auto simp: allocate_slot_def gbind_eq_Inr split: option.splits if_splits)
    moreover have "slots_le ss (ss[i := s\<lparr>entity_of := Some (new_entity pf revision)\<rparr>])"
      using a use_binding_same [OF s] by (intro slots_le_update) (auto simp: slot_le_def)
    ultimately show ?thesis using st' by (auto intro: slots_le_trans)
  next
    case (TransformSet t v)
    then show ?thesis
      using run ok wf by (auto intro!: entity_then_subtree_le apply_transform_update)
  next
    case (EntityDelete t policy)
    then obtain i where "resolve (staged st) t (staged_names st) (operation_path index @ ''/target'') index = Inr i"
      and "staged st' = (staged st)\<lparr>slots := ?ss[i := tombstone (?ss ! i)]\<rparr>"
      using run by (auto simp: apply_delete_def Let_def gbind_eq_Inr split: if_splits)
    then show ?thesis using resolve_Inr by (fastforce intro: slots_le_update tombstone_le)
  next
    case (EntityReparent t p mode)
    then show ?thesis using run wf by (auto intro!: entity_then_subtree_le apply_reparent_update)
  next
    case (EntityTagsSet t ts)
    then show ?thesis
      using run resolve_Inr by (auto simp: apply_tags_def Let_def res_simps intro!: slots_le_map_entity)
  qed
qed

lemma apply_operations_le:
  assumes "apply_operations guard bindings revision index ops st g = (g', Inr st')"
    and "list_all operation_ok ops" "wf_staging revision st"
  shows "slots_le (slots (staged st)) (slots (staged st'))"
  using assms
proof (induction ops arbitrary: index st g)
  case Nil
  then show ?case by simp
next
  case (Cons op ops)
  then obtain g1 st1 where 1: "apply_operation guard bindings revision index op st g = (g1, Inr st1)"
    and 2: "apply_operations guard bindings revision (Suc index) ops st1 g1 = (g', Inr st')"
    by (auto simp: gbind_eq_Inr)
  have "slots_le (slots (staged st)) (slots (staged st1))" and "wf_staging revision st1"
    using apply_operation_le [OF 1] apply_operation_wf [OF 1] Cons.prems by simp_all
  with Cons.IH [OF 2] Cons.prems show ?case by (auto intro: slots_le_trans)
qed

definition world_le :: "world \<Rightarrow> world \<Rightarrow> bool" where
  "world_le w w' \<longleftrightarrow>
     world_address w' = world_address w \<and> snapshot_world_id (state w') = snapshot_world_id (state w) \<and>
     seed (state w') = seed (state w) \<and> max_slots (state w') = max_slots (state w) \<and>
     world_revision (state w) \<le> world_revision (state w') \<and> slots_le (slots (state w)) (slots (state w'))"

lemma world_le_refl [simp]: "world_le w w"
  by (simp add: world_le_def)

lemma world_le_trans: "world_le a b \<Longrightarrow> world_le b c \<Longrightarrow> world_le a c"
  by (auto simp: world_le_def intro: slots_le_trans)

lemma apply_envelope_le:
  assumes run: "apply_envelope J guard observer bindings e (w, g, obs) = ((w', g', obs'), res)"
    and wf: "wf_snapshot (state w)"
  shows "world_le w w'"
  using run
proof (cases rule: apply_envelope_cases)
  case kept
  then show ?thesis by simp
next
  case (committed g1 g2 st)
  let ?r = "world_revision (state w)"
  let ?st = "\<lparr>staged = state w, staged_names = [], staged_created = []\<rparr>"
  have room: "?r \<noteq> u64_max" using admission_Inr [OF committed(1)] by simp
  then have up: "?r < ?r + 1" by (rule u64_succ_less)
  obtain g3 st0 where ops: "apply_operations guard bindings (?r + 1) 0 (operations e) ?st g1 = (g3, Inr st0)"
    and st: "st = st0\<lparr>staged := (staged st0)\<lparr>format_version := staged_version (slots (staged st0))\<rparr>\<rparr>"
    using stage_Inr [OF committed(2)] by metis
  have wfs: "wf_staging (?r + 1) ?st"
    using wf wf_slots_mono less_imp_le [OF up] by (auto simp: wf_staging_def wf_snapshot_def)
  note ok = admitted_operations [OF committed(1)]
  have "slots_le (slots (state w)) (slots (staged st0))" "same_header (staged st0) (state w)"
    using apply_operations_le [OF ops ok wfs] apply_operations_wf [OF ops ok wfs] by simp_all
  then show ?thesis
    using committed(3) st less_imp_le [OF up]
    by (auto simp: world_le_def committed_snapshot_def same_header_def)
qed

lemma reachable_le:
  assumes "reachable guards observers w w'" "wf_snapshot (state w)"
  shows "world_le w w'"
  using assms
proof (induction rule: reachable.induct)
  case start
  then show ?case by simp
next
  case (call w1 guard observer bindings e g obs w2 g' obs' res)
  have "wf_snapshot (state w1)" using reachable_wf [OF call.hyps(1) call.prems] .
  from world_le_trans [OF call.IH [OF call.prems] apply_envelope_le [OF call.hyps(4) this]] show ?case .
qed

section \<open>Stale handles\<close>

definition stale :: "snapshot \<Rightarrow> string \<Rightarrow> u64 \<Rightarrow> bool" where
  "stale sn u g \<longleftrightarrow>
     (\<exists>i < length (slots sn). entity_uuid (slots sn ! i) = u \<and>
        (g < generation (slots sn ! i) \<or> retired (slots sn ! i)))"

lemma stale_le:
  assumes "stale sn u g" "slots_le (slots sn) (slots sn')"
  shows "stale sn' u g"
proof -
  obtain i where i: "i < length (slots sn)" "entity_uuid (slots sn ! i) = u"
    "g < generation (slots sn ! i) \<or> retired (slots sn ! i)"
    using assms(1) by (auto simp: stale_def)
  then have le: "slot_le (slots sn ! i) (slots sn' ! i)" "i < length (slots sn')"
    using assms(2) by (auto simp: slots_le_def)
  then show ?thesis
    using i unfolding stale_def slot_le_def by (intro exI [of _ i]) (auto intro: less_le_trans)
qed

lemma stale_resolve:
  assumes wf: "wf_snapshot sn" and st: "stale sn u g"
  shows "resolve sn (EntityTarget (snapshot_world_id sn) u g) names path index =
    Inl (terr ''STALE_HANDLE'' (path @ ''/generation'')
      ''Entity handle is deleted, retired or has a stale generation.'' index)"
proof -
  have wfs: "wf_slots (seed sn) (unat (max_slots sn)) (world_revision sn) (slots sn)"
    using wf by (simp add: wf_snapshot_def)
  obtain i where i: "i < length (slots sn)" "entity_uuid (slots sn ! i) = u"
    "g < generation (slots sn ! i) \<or> retired (slots sn ! i)"
    using st by (auto simp: stale_def)
  have "find_index (\<lambda>s. entity_uuid s = u) (slots sn) = Some i"
    unfolding find_index_Some
  proof (intro conjI allI impI)
    fix j
    assume "j < i"
    then show "entity_uuid (slots sn ! j) \<noteq> u"
      using wf_slots_uuid_inject [OF wfs, of j i] i by auto
  qed (use i in auto)
  then show ?thesis using i(3) by (auto simp: resolve_identity_def Let_def)
qed

section \<open>Cycles\<close>

definition ancestors :: "slot list \<Rightarrow> nat \<Rightarrow> nat set" where
  "ancestors ss a = {x. (a, x) \<in> (link ss)\<^sup>*}"

lemma ancestors_bound:
  assumes "a < length ss"
  shows "ancestors ss a \<subseteq> {..< length ss}"
proof
  fix x
  assume "x \<in> ancestors ss a"
  then have "(a, x) \<in> (link ss)\<^sup>*" by (simp add: ancestors_def)
  then show "x \<in> {..< length ss}"
    using assms by (induction rule: rtrancl_induct) (auto simp: link_def)
qed

lemma ancestors_less:
  assumes "(a, b) \<in> link ss" "acyclic (link ss)"
  shows "card (ancestors ss b) < card (ancestors ss a)"
proof (rule psubset_card_mono)
  show "finite (ancestors ss a)"
    using ancestors_bound [of a ss] assms(1) by (auto simp: link_def intro: finite_subset)
  have "a \<notin> ancestors ss b"
    using assms by (auto simp: ancestors_def acyclic_def dest: rtrancl_into_trancl2)
  moreover have "ancestors ss b \<subseteq> ancestors ss a" "a \<in> ancestors ss a"
    using assms(1) by (auto simp: ancestors_def intro: converse_rtrancl_into_rtrancl)
  ultimately show "ancestors ss b \<subset> ancestors ss a" by blast
qed

lemma parent_of_wf:
  assumes wf: "wf_slots seed0 capacity revision ss" and a: "a < length ss" "entity_of (ss ! a) \<noteq> None"
  shows "(\<exists>b. parent_of ss (ss ! a) = Inr (Some b) \<and> (a, b) \<in> link ss \<and> entity_of (ss ! b) \<noteq> None) \<or>
    parent_of ss (ss ! a) = Inr None"
proof (cases "parent (entity_at ss a)")
  case None
  then show ?thesis using a(2) by (auto simp: parent_of_def entity_at_def)
next
  case (Some p)
  then obtain e where e: "entity_of (ss ! a) = Some e" "parent e = Some p"
    using a(2) by (auto simp: entity_at_def)
  from wf_has_parent [OF wf a(1) e] obtain j where j: "parent_index ss a j" .
  then have "j < length ss" "entity_of (ss ! j) \<noteq> None" "child_of (ss ! a) (ss ! j)" "\<not> retired (ss ! j)"
    using wf_slots_entity(2) [OF wf, of j] by (auto simp: parent_index_def link_def)
  then have "find_index (\<lambda>p. entity_of p \<noteq> None \<and> \<not> retired p \<and> child_of (ss ! a) p) ss \<noteq> None"
    by (auto simp: find_index_None)
  then obtain b where b: "find_index (\<lambda>p. entity_of p \<noteq> None \<and> \<not> retired p \<and> child_of (ss ! a) p) ss = Some b"
    by blast
  then have "parent_of ss (ss ! a) = Inr (Some b)" using e by (simp add: parent_of_def)
  moreover have "(a, b) \<in> link ss" "entity_of (ss ! b) \<noteq> None"
    using find_index_SomeD [OF b] a(1) by (auto simp: link_def)
  ultimately show ?thesis by blast
qed

lemma check_ancestors_complete:
  assumes wf: "wf_slots seed0 capacity revision ss" and "a < length ss" "entity_of (ss ! a) \<noteq> None"
    and "i \<notin> ancestors ss a" "card (ancestors ss a) \<le> count"
  shows "check_ancestors ss i path index count (Some a) = Inr ()"
  using assms(2-5)
proof (induction count arbitrary: a)
  case 0
  have "finite (ancestors ss a)" using ancestors_bound [OF 0(1)] by (auto intro: finite_subset)
  moreover have "a \<in> ancestors ss a" by (simp add: ancestors_def)
  ultimately show ?case using 0(4) by auto
next
  case (Suc count)
  have "a \<noteq> i" using Suc.prems(3) by (auto simp: ancestors_def)
  moreover consider b where "parent_of ss (ss ! a) = Inr (Some b)" "(a, b) \<in> link ss" "entity_of (ss ! b) \<noteq> None"
    | "parent_of ss (ss ! a) = Inr None"
    using parent_of_wf [OF wf Suc.prems(1, 2)] by blast
  then show ?case
  proof cases
    case (1 b)
    have "i \<notin> ancestors ss b"
      using Suc.prems(3) 1(2) by (auto simp: ancestors_def intro: converse_rtrancl_into_rtrancl)
    moreover have "card (ancestors ss b) \<le> count"
      using ancestors_less [OF 1(2)] wf Suc.prems(4) by (auto simp: wf_slots_def)
    moreover have "b < length ss" using 1(2) by (simp add: link_def)
    ultimately show ?thesis using Suc.IH 1 \<open>a \<noteq> i\<close> by simp
  next
    case 2
    then show ?thesis using \<open>a \<noteq> i\<close> by simp
  qed
qed

lemma check_ancestors_iff:
  assumes wf: "wf_slots seed0 capacity revision ss" and a: "a < length ss" "entity_of (ss ! a) \<noteq> None"
  shows "check_ancestors ss i path index (length ss) (Some a) = Inr () \<longleftrightarrow> a \<notin> descendants ss i"
proof
  assume "check_ancestors ss i path index (length ss) (Some a) = Inr ()"
  from check_ancestors_no_cycle [OF this wf_slots_uuids [OF wf] a(1)]
  show "a \<notin> descendants ss i" by (simp add: descendants_def)
next
  assume "a \<notin> descendants ss i"
  then have "i \<notin> ancestors ss a" by (simp add: descendants_def ancestors_def)
  moreover have "card (ancestors ss a) \<le> length ss"
    using card_mono [OF _ ancestors_bound [OF a(1)]] by simp
  ultimately show "check_ancestors ss i path index (length ss) (Some a) = Inr ()"
    by (rule check_ancestors_complete [OF wf a])
qed

definition cycle_error :: "string \<Rightarrow> nat \<Rightarrow> terror" where
  "cycle_error path index =
     terr ''INVALID_SCHEMA'' (path @ ''/parent'') ''Reparenting must not create a cycle.'' index"

lemma check_ancestors_cases:
  assumes "wf_slots seed0 capacity revision ss" and "a < length ss" "entity_of (ss ! a) \<noteq> None"
  shows "check_ancestors ss i path index count (Some a) \<in> {Inr (), Inl (cycle_error path index)}"
  using assms(2,3)
proof (induction count arbitrary: a)
  case (Suc count)
  from parent_of_wf [OF assms(1) Suc.prems] show ?case
  proof (elim disjE exE conjE)
    fix b
    assume "parent_of ss (ss ! a) = Inr (Some b)" "(a, b) \<in> link ss" "entity_of (ss ! b) \<noteq> None"
    then show ?thesis using Suc.IH [of b] by (simp add: cycle_error_def link_def)
  qed (simp add: cycle_error_def)
qed (simp add: cycle_error_def)

lemma attach_error:
  assumes "attach ss i p mode path index = Inl err"
  shows "err \<noteq> cycle_error path index"
  using assms
  by (auto simp: attach_def Let_def res_simps parent_scale_def relative_def compose_def checked_def
      cycle_error_def terr_def split: if_splits)

section \<open>Handles of deleted entities\<close>

lemma resolve_entity_target:
  assumes "resolve sn (EntityTarget w u g) names path index = Inr i"
  shows "w = snapshot_world_id sn \<and> entity_uuid (slots sn ! i) = u \<and> generation (slots sn ! i) = g \<and>
    i < length (slots sn) \<and> entity_of (slots sn ! i) \<noteq> None \<and> \<not> retired (slots sn ! i)"
  using assms find_index_SomeD [of "\<lambda>s. entity_uuid s = u" "slots sn"]
  by (auto simp: resolve_identity_def Let_def split: if_splits option.splits)

lemma lost_handle_stale:
  assumes le: "world_le w w'" and wf: "wf_snapshot (state w')"
    and live: "resolve (state w) (EntityTarget wid u g) names path index = Inr i"
    and lost: "resolve (state w') (EntityTarget wid u g) names path index = Inl err"
  shows "stale (state w') u g"
proof -
  let ?ss = "slots (state w')"
  note l = resolve_entity_target [OF live]
  have slot: "slot_le (slots (state w) ! i) (?ss ! i)" "i < length ?ss"
    using le l by (auto simp: world_le_def slots_le_def)
  then have u: "entity_uuid (?ss ! i) = u" "g \<le> generation (?ss ! i)"
    using l by (auto simp: slot_le_def)
  have wfs: "wf_slots (seed (state w')) (unat (max_slots (state w'))) (world_revision (state w')) ?ss"
    using wf by (simp add: wf_snapshot_def)
  have found: "find_index (\<lambda>s. entity_uuid s = u) ?ss = Some i"
    unfolding find_index_Some
  proof (intro conjI allI impI)
    fix j
    assume "j < i"
    then show "entity_uuid (?ss ! j) \<noteq> u"
      using wf_slots_uuid_inject [OF wfs, of j i] slot(2) u(1) by auto
  qed (use slot(2) u(1) in auto)
  have w: "wid = snapshot_world_id (state w')" using l le by (simp add: world_le_def)
  have "retired (?ss ! i) \<or> entity_of (?ss ! i) = None \<or> generation (?ss ! i) \<noteq> g"
    using lost found w by (auto simp: resolve_identity_def Let_def split: if_splits)
  then have "g < generation (?ss ! i) \<or> retired (?ss ! i)"
    using slot(1) u(2) l by (auto simp: slot_le_def)
  then show ?thesis using slot(2) u(1) by (auto simp: stale_def)
qed

section \<open>Replay\<close>

text \<open>
  An operation that succeeds under any hooks succeeds in a replay whose bindings begin with
  the bindings it records, with the same staging; and a replay that succeeds consumed exactly
  the bindings it records.
\<close>

definition begins_with :: "'a list \<Rightarrow> 'a list \<Rightarrow> bool" where
  "begins_with bs xs \<longleftrightarrow> length xs \<le> length bs \<and> (\<forall>i < length xs. bs ! i = xs ! i)"

lemma begins_with_mono: "begins_with bs (xs @ ys) \<Longrightarrow> begins_with bs xs"
  by (auto simp: begins_with_def nth_append split: if_splits)

lemma begins_with_snoc:
  "begins_with bs (xs @ [x]) \<longleftrightarrow> begins_with bs xs \<and> length xs < length bs \<and> bs ! length xs = x"
  by (auto simp: begins_with_def nth_append less_Suc_eq split: if_splits)

lemma begins_with_all: "begins_with bs xs \<Longrightarrow> length bs = length xs \<Longrightarrow> bs = xs"
  by (simp add: begins_with_def list_eq_iff_nth_eq)

lemma hook_None [simp]: "hook None call = gret ()"
  by (simp add: hook_def)

lemma allocate_slot_hookless:
  "allocate_slot guard path index sn g = (g', Inr x) \<Longrightarrow> allocate_slot None path index sn h = (h, Inr x)"
  by (auto simp: allocate_slot_def gbind_eq_Inr split: option.splits if_splits)

lemma hook_unused:
  assumes "gbind (glift a) (\<lambda>x. gbind (glift (b x)) (\<lambda>y. gbind (hook guard (c x y)) (\<lambda>_. glift (d x y)))) g = (g', Inr r)"
  shows "gbind (glift a) (\<lambda>x. gbind (glift (b x)) (\<lambda>y. gbind (hook None (c' x y)) (\<lambda>_. glift (d x y)))) h = (h, Inr r)"
  using assms by (auto simp: gbind_eq_Inr)

lemma apply_create_replay:
  assumes run: "apply_create guard bindings revision index name pf st g = (g', Inr st')"
  shows "\<exists>b. staged_created st' = staged_created st @ [b] \<and>
    (\<forall>bs. bindings = Some bs \<longrightarrow> length (staged_created st) < length bs \<and> bs ! length (staged_created st) = b) \<and>
    (\<forall>bs (h :: 'h). begins_with bs (staged_created st @ [b]) \<longrightarrow>
       apply_create None (Some bs) revision index name pf st h = (h, Inr st'))"
proof -
  let ?n = "length (staged_created st)" and ?sn = "staged st"
  obtain g1 i ss s where guards: "name \<notin> fst ` set (staged_names st)" "pf = unit_cube"
    and al: "allocate_slot guard (operation_path index) index ?sn g = (g1, Inr (i, ss))"
    and s: "use_binding bindings ?n name (snapshot_world_id ?sn) index (ss ! i) = Inr s"
    and st': "st' = \<lparr>staged = ?sn\<lparr>slots := ss[i := s\<lparr>entity_of := Some (new_entity pf revision)\<rparr>]\<rparr>,
              staged_names = (name, (snapshot_world_id ?sn, entity_uuid s, generation s)) # staged_names st,
              staged_created = staged_created st @
                [\<lparr>binding_temporary_id = name, binding_world_id = snapshot_world_id ?sn,
                  binding_uuid = entity_uuid s, binding_generation = generation s\<rparr>]\<rparr>"
    using run by (auto simp: apply_create_def Let_def gbind_eq_Inr split: if_splits)
  have same: "s = ss ! i" by (rule use_binding_same [OF s])
  let ?b = "\<lparr>binding_temporary_id = name, binding_world_id = snapshot_world_id ?sn,
    binding_uuid = entity_uuid s, binding_generation = generation s\<rparr>"
  have "?n < length bs \<and> bs ! ?n = ?b" if "bindings = Some bs" for bs
    using s that same by (auto simp: use_binding_def binding_matches_def split: if_splits)
  moreover have "apply_create None (Some bs) revision index name pf st h = (h, Inr st')"
    if "begins_with bs (staged_created st @ [?b])" for bs and h :: 'h
  proof -
    have "use_binding (Some bs) ?n name (snapshot_world_id ?sn) index (ss ! i) = Inr s"
      using that same by (auto simp: use_binding_def binding_matches_def begins_with_snoc)
    then show ?thesis
      using guards st' allocate_slot_hookless [OF al, of h]
      by (auto simp: apply_create_def Let_def gbind_eq_Inr)
  qed
  ultimately show ?thesis using st' by auto
qed

lemma apply_operation_replay:
  assumes run: "apply_operation guard bindings revision index op st g = (g', Inr st')"
  shows "\<exists>new. staged_created st' = staged_created st @ new \<and>
    (\<forall>bs. bindings = Some bs \<longrightarrow> begins_with bs (staged_created st) \<longrightarrow> begins_with bs (staged_created st')) \<and>
    (\<forall>bs (h :: 'h). begins_with bs (staged_created st') \<longrightarrow>
       apply_operation None (Some bs) revision index op st h = (h, Inr st'))"
proof (cases op)
  case (EntityCreate name pf)
  then obtain b where "staged_created st' = staged_created st @ [b]"
    "\<forall>bs. bindings = Some bs \<longrightarrow> length (staged_created st) < length bs \<and> bs ! length (staged_created st) = b"
    "\<forall>bs (h :: 'h). begins_with bs (staged_created st @ [b]) \<longrightarrow>
       apply_create None (Some bs) revision index name pf st h = (h, Inr st')"
    using apply_create_replay [of guard bindings revision index name pf st g g' st'] run by auto
  then show ?thesis using EntityCreate by (auto simp: begins_with_snoc)
next
  case (TransformSet t v)
  then have "staged_created st' = staged_created st"
    using run by (auto simp: apply_transform_def Let_def gbind_eq_Inr res_simps)
  moreover have "apply_transform None revision index t v st h = (h, Inr st')" for h :: 'h
    using run [unfolded TransformSet apply_operation.simps apply_transform_def Let_def]
    unfolding apply_transform_def Let_def by (rule hook_unused)
  ultimately show ?thesis using TransformSet by auto
next
  case (EntityDelete t policy)
  then have "staged_created st' = staged_created st"
    and "apply_delete None index t st h = (h, Inr st')" for h :: 'h
    using run by (auto simp: apply_delete_def Let_def gbind_eq_Inr split: if_splits)
  then show ?thesis using EntityDelete by auto
next
  case (EntityReparent t p mode)
  then have "staged_created st' = staged_created st"
    using run by (auto simp: apply_reparent_def Let_def res_simps)
  then show ?thesis using EntityReparent run by auto
next
  case (EntityTagsSet t ts)
  then have "staged_created st' = staged_created st"
    using run by (auto simp: apply_tags_def Let_def res_simps)
  then show ?thesis using EntityTagsSet run by auto
qed

lemma apply_operations_replay:
  assumes "apply_operations guard bindings revision index ops st g = (g', Inr st')"
  shows "\<exists>new. staged_created st' = staged_created st @ new \<and>
    (\<forall>bs. bindings = Some bs \<longrightarrow> begins_with bs (staged_created st) \<longrightarrow> begins_with bs (staged_created st')) \<and>
    (\<forall>bs (h :: 'h). begins_with bs (staged_created st') \<longrightarrow>
       apply_operations None (Some bs) revision index ops st h = (h, Inr st'))"
  using assms
proof (induction ops arbitrary: index st g)
  case Nil
  then show ?case by simp
next
  case (Cons op ops)
  then obtain g1 st1 where 1: "apply_operation guard bindings revision index op st g = (g1, Inr st1)"
    and 2: "apply_operations guard bindings revision (Suc index) ops st1 g1 = (g', Inr st')"
    by (auto simp: gbind_eq_Inr)
  from apply_operation_replay [OF 1] obtain new1 where n1: "staged_created st1 = staged_created st @ new1"
    and c1: "\<And>bs. bindings = Some bs \<Longrightarrow> begins_with bs (staged_created st) \<Longrightarrow> begins_with bs (staged_created st1)"
    and r1: "\<And>bs (h :: 'h). begins_with bs (staged_created st1) \<Longrightarrow>
      apply_operation None (Some bs) revision index op st h = (h, Inr st1)"
    by blast
  from Cons.IH [OF 2] obtain new2 where n2: "staged_created st' = staged_created st1 @ new2"
    and c2: "\<And>bs. bindings = Some bs \<Longrightarrow> begins_with bs (staged_created st1) \<Longrightarrow> begins_with bs (staged_created st')"
    and r2: "\<And>bs (h :: 'h). begins_with bs (staged_created st') \<Longrightarrow>
      apply_operations None (Some bs) revision (Suc index) ops st1 h = (h, Inr st')"
    by blast
  have "apply_operations None (Some bs) revision index (op # ops) st h = (h, Inr st')"
    if "begins_with bs (staged_created st')" for bs and h :: 'h
  proof -
    have "begins_with bs (staged_created st1)" using that n2 begins_with_mono by metis
    from r1 [OF this] r2 [OF that] show ?thesis by (simp add: gbind_eq_Inr)
  qed
  then show ?case using n1 n2 c1 c2 by auto
qed

lemma apply_operations_hookless:
  assumes "apply_operations guard bindings revision index ops st g = (g', Inr st')"
    and "begins_with bs (staged_created st')"
  shows "apply_operations None (Some bs) revision index ops st (h :: 'k) = (h, Inr st')"
proof -
  from apply_operations_replay [OF assms(1)]
  have "\<forall>bs (h :: 'k). begins_with bs (staged_created st') \<longrightarrow>
      apply_operations None (Some bs) revision index ops st h = (h, Inr st')"
    by (elim exE conjE)
  then show ?thesis using assms(2) by simp
qed

lemma stage_consumed:
  assumes run: "stage guard (Some bs) sn ops g = (g', Inr st)"
  shows "bs = staged_created st"
proof -
  let ?st = "\<lparr>staged = sn, staged_names = [], staged_created = []\<rparr>"
  obtain g1 st0 where ops: "apply_operations guard (Some bs) (world_revision sn + 1) 0 ops ?st g = (g1, Inr st0)"
    and st: "staged_created st = staged_created st0" and len: "length (staged_created st0) = length bs"
    by (rule stage_Inr [OF run]) auto
  have "begins_with bs (staged_created ?st)" by (simp add: begins_with_def)
  then have "begins_with bs (staged_created st0)"
    using apply_operations_replay [OF ops] by blast
  then show ?thesis using begins_with_all len st by metis
qed

lemma stage_replay:
  assumes run: "stage guard bindings sn ops g = (g', Inr st)"
  shows "stage (None :: 'h staging_hooks option) (Some bs) sn ops h = (h, Inr st) \<longleftrightarrow>
    bs = staged_created st" (is "?replayed \<longleftrightarrow> _")
proof -
  let ?st = "\<lparr>staged = sn, staged_names = [], staged_created = []\<rparr>"
  obtain g1 st0 where ops: "apply_operations guard bindings (world_revision sn + 1) 0 ops ?st g = (g1, Inr st0)"
    and st: "st = st0\<lparr>staged := (staged st0)\<lparr>format_version := staged_version (slots (staged st0))\<rparr>\<rparr>"
    using stage_Inr [OF run] by metis
  have "begins_with (staged_created st0) (staged_created st0)" by (simp add: begins_with_def)
  then have "apply_operations (None :: 'h staging_hooks option) (Some (staged_created st0))
      (world_revision sn + 1) 0 ops ?st h = (h, Inr st0)"
    by (rule apply_operations_hookless [OF ops])
  then have "stage (None :: 'h staging_hooks option) (Some (staged_created st)) sn ops h = (h, Inr st)"
    using st by (auto simp: stage_def Let_def gbind_eq_Inr)
  moreover have "bs = staged_created st" if ?replayed
    using stage_consumed [OF that] .
  ultimately show "?replayed \<longleftrightarrow> bs = staged_created st" by blast
qed

lemma commit_transaction_id:
  assumes "admission w J e = Inr u"
  shows "initial_receipt guard w e = initial_receipt guard' w e"
proof -
  have "length (transaction_id e) = 36"
    using admission_Inr [OF assms] by (auto simp: envelope_ok_def dest: canonical_uuid_length)
  then show ?thesis by (simp add: initial_receipt_def)
qed

lemma replay_at_boundary_commit:
  assumes adm: "admission w J e = Inr u"
    and st: "stage guard None (state w) (operations e) g = (g', Inr st)"
  shows "replay_at_boundary J bs e w =
      (w\<lparr>state := committed_snapshot (state w) st\<rparr>,
       commit_receipt (initial_receipt guard w e) (world_revision (state w) + 1) (staged_created st)) \<longleftrightarrow>
    bs = staged_created st"
proof
  assume "bs = staged_created st"
  then have "stage (None :: unit staging_hooks option) (Some bs) (state w) (operations e) () = ((), Inr st)"
    by (rule iffD2 [OF stage_replay [OF st]])
  then show "replay_at_boundary J bs e w =
      (w\<lparr>state := committed_snapshot (state w) st\<rparr>,
       commit_receipt (initial_receipt guard w e) (world_revision (state w) + 1) (staged_created st))"
    using adm commit_transaction_id [OF adm, of guard "None :: unit staging_hooks option"]
    by (simp add: replay_at_boundary_def apply_envelope_def Let_def publish_commit_def committed_snapshot_def)
next
  assume run: "replay_at_boundary J bs e w =
      (w\<lparr>state := committed_snapshot (state w) st\<rparr>,
       commit_receipt (initial_receipt guard w e) (world_revision (state w) + 1) (staged_created st))"
  obtain h r2 where stage: "stage (None :: unit staging_hooks option) (Some bs) (state w) (operations e) () = (h, r2)"
    by (cases "stage (None :: unit staging_hooks option) (Some bs) (state w) (operations e) ()") auto
  show "bs = staged_created st"
  proof (cases r2)
    case (Inl err)
    then show ?thesis
      using run adm stage
      by (simp add: replay_at_boundary_def apply_envelope_def Let_def commit_receipt_def rejection_def
          initial_receipt_def empty_receipt_def)
  next
    case (Inr st2)
    have "staged_created st2 = staged_created st"
      using run adm stage Inr
      by (simp add: replay_at_boundary_def apply_envelope_def Let_def commit_receipt_def publish_commit_def
          initial_receipt_def empty_receipt_def)
    moreover have "bs = staged_created st2" by (rule stage_consumed [OF stage [unfolded Inr]])
    ultimately show ?thesis by simp
  qed
qed

end
