(* ===== verification/History.thy ===== *)
theory History
  imports Transaction_Laws
begin

text \<open>
  The undo history of \<open>include/omniweft/history.hpp\<close> and \<open>src/history.cpp\<close>: an envelope of
  transform and tag edits is applied through the coordinator while its inverse is kept, and an
  undo or redo request applies a kept list of operations under a new envelope.  The history and
  the world it refers to are one state; no commit observer is involved, so a call of the
  coordinator ends with a receipt.
\<close>

section \<open>State\<close>

definition history_capacity :: nat where
  "history_capacity = 8"

definition operation_limit :: nat where
  "operation_limit = 4"

definition envelope_limit :: nat where
  "envelope_limit = 16384"

datatype history_action = Undo | Redo | RewindSimulation

record history_state =
  hist_count :: nat
  cursor :: nat
  expected_revision :: u64

record history_entry =
  forward :: "operation list"
  inverse_ops :: "operation list"

record history =
  hist_entries :: "history_entry list"
  hist_state :: history_state

definition blank_entry :: history_entry where
  "blank_entry = \<lparr>forward = [], inverse_ops = []\<rparr>"

definition new_history :: "world \<Rightarrow> history" where
  "new_history w =
     \<lparr>hist_entries = replicate history_capacity blank_entry,
      hist_state = \<lparr>hist_count = 0, cursor = 0, expected_revision = world_revision (state w)\<rparr>\<rparr>"

definition clear_history :: "world \<Rightarrow> history \<Rightarrow> history" where
  "clear_history w h =
     h\<lparr>hist_entries := map (\<lambda>_. blank_entry) (hist_entries h),
       hist_state := \<lparr>hist_count = 0, cursor = 0, expected_revision = world_revision (state w)\<rparr>\<rparr>"

section \<open>Bounds and lookup\<close>

definition history_rejected :: "envelope \<Rightarrow> u64 \<Rightarrow> string \<Rightarrow> string \<Rightarrow> receipt" where
  "history_rejected e revision code path =
     empty_receipt\<lparr>receipt_revision := revision,
       receipt_transaction_id := (if length (transaction_id e) \<le> 36 then transaction_id e else []),
       receipt_errors := [terr_batch code path ''Authoring history request rejected.'']\<rparr>"

fun target_bounded :: "target \<Rightarrow> bool" where
  "target_bounded (EntityTarget w u g) \<longleftrightarrow> length w \<le> 128 \<and> length u \<le> 36"
| "target_bounded (TemporaryTarget name) \<longleftrightarrow> length name \<le> 64"

fun operation_bounded :: "operation \<Rightarrow> bool" where
  "operation_bounded (EntityCreate name pf) \<longleftrightarrow> length name \<le> 64 \<and> length pf \<le> 128"
| "operation_bounded (TransformSet t v) \<longleftrightarrow> target_bounded t"
| "operation_bounded (EntityTagsSet t ts) \<longleftrightarrow>
     target_bounded t \<and> length ts \<le> 8 \<and> list_all (\<lambda>tag. length tag \<le> 32) ts"
| "operation_bounded (EntityReparent t p mode) \<longleftrightarrow>
     target_bounded t \<and> length mode \<le> 32 \<and> pred_option target_bounded p"
| "operation_bounded (EntityDelete t policy) \<longleftrightarrow> target_bounded t \<and> length policy \<le> 32"

definition envelope_bounded :: "envelope \<Rightarrow> bool" where
  "envelope_bounded e \<longleftrightarrow>
     length (protocol_version e) \<le> 16 \<and> length (world_id e) \<le> 128 \<and> length (transaction_id e) \<le> 36 \<and>
     length (epoch (idempotency e)) \<le> 128 \<and> length (apply_mode (apply_at e)) \<le> 32 \<and>
     length (operations e) \<le> operation_limit \<and> list_all operation_bounded (operations e)"

definition live_as :: "string \<Rightarrow> u64 \<Rightarrow> slot \<Rightarrow> bool" where
  "live_as u g s \<longleftrightarrow> entity_uuid s = u \<and> generation s = g \<and> entity_of s \<noteq> None \<and> \<not> retired s"

fun history_resolve :: "snapshot \<Rightarrow> target \<Rightarrow> nat option" where
  "history_resolve sn (EntityTarget w u g) =
     (if w \<noteq> snapshot_world_id sn then None else find_index (live_as u g) (slots sn))"
| "history_resolve sn (TemporaryTarget name) = None"

text \<open>The slot passed to \<open>isolated\<close> always holds an entity.\<close>

definition isolated :: "snapshot \<Rightarrow> slot \<Rightarrow> bool" where
  "isolated sn s \<longleftrightarrow>
     pred_option (\<lambda>e. parent e = None) (entity_of s) \<and> \<not> list_ex (\<lambda>c. child_of c s) (slots sn)"

section \<open>Applying an edit\<close>

fun inverse_operation :: "snapshot \<Rightarrow> operation \<Rightarrow> (string \<times> string) + operation" where
  "inverse_operation sn (TransformSet t v) =
     (case history_resolve sn t of
        None \<Rightarrow> Inl (''STALE_HANDLE'', ''/operations/target'')
      | Some i \<Rightarrow>
          if \<not> isolated sn (slots sn ! i) then Inl (''UNSUPPORTED_OPERATION'', ''/operations'')
          else Inr (TransformSet t (transform_of (entity_at (slots sn) i))))"
| "inverse_operation sn (EntityTagsSet t ts) =
     (case history_resolve sn t of
        None \<Rightarrow> Inl (''STALE_HANDLE'', ''/operations/target'')
      | Some i \<Rightarrow> Inr (EntityTagsSet t (tags (entity_at (slots sn) i))))"
| "inverse_operation sn _ = Inl (''UNSUPPORTED_OPERATION'', ''/operations'')"

definition fits_limit :: "json_lib \<Rightarrow> envelope \<Rightarrow> bool" where
  "fits_limit J e = (case serialize J e of Inl _ \<Rightarrow> False | Inr txt \<Rightarrow> length txt \<le> envelope_limit)"

definition serialized_check :: "json_lib \<Rightarrow> envelope \<Rightarrow> (string \<times> string) + unit" where
  "serialized_check J e =
     (case serialize J e of
        Inl _ \<Rightarrow> Inl (''INVALID_SCHEMA'', ''/history/envelope'')
      | Inr txt \<Rightarrow> require (length txt \<le> envelope_limit) (''BUDGET_EXCEEDED'', ''/history/budget''))"

definition prepare_edit ::
  "json_lib \<Rightarrow> envelope \<Rightarrow> snapshot \<Rightarrow> history_state \<Rightarrow> (string \<times> string) + history_entry" where
  "prepare_edit J e sn st =
     rbind (require (envelope_bounded e) (''BUDGET_EXCEEDED'', ''/history/budget'')) (\<lambda>_.
     rbind (require (expected_world_revision e = world_revision sn \<and> expected_revision st = world_revision sn)
       (''REVISION_CONFLICT'', ''/expected_world_revision'')) (\<lambda>_.
     rbind (require (operations e \<noteq> []) (''INVALID_SCHEMA'', ''/operations'')) (\<lambda>_.
     rbind (require (length (operations e) \<le> unat (budget_max_operations (budget e)))
       (''BUDGET_EXCEEDED'', ''/budget/max_operations'')) (\<lambda>_.
     rbind (serialized_check J e) (\<lambda>_.
     rbind (require (cursor st \<noteq> history_capacity) (''BUDGET_EXCEEDED'', ''/history'')) (\<lambda>_.
     rbind (rmap_list (inverse_operation sn) (operations e)) (\<lambda>inverses.
     let inv_envelope = e\<lparr>operations := rev inverses\<rparr> in
     rbind (require (envelope_bounded inv_envelope) (''BUDGET_EXCEEDED'', ''/history/budget'')) (\<lambda>_.
     rbind (require (fits_limit J inv_envelope) (''BUDGET_EXCEEDED'', ''/history/budget'')) (\<lambda>_.
     Inr \<lparr>forward = operations e, inverse_ops = rev inverses\<rparr>)))))))))"

definition record_edit :: "history_entry \<Rightarrow> u64 \<Rightarrow> history \<Rightarrow> history" where
  "record_edit entry revision h =
     (let st = hist_state h; c = cursor st + 1;
          es = (hist_entries h)[cursor st := entry]
      in \<lparr>hist_entries = map (\<lambda>(i, e). if c \<le> i \<and> i < hist_count st then blank_entry else e) (enumerate 0 es),
          hist_state = \<lparr>hist_count = c, cursor = c, expected_revision = revision\<rparr>\<rparr>)"

text \<open>A call of the coordinator without an observer.\<close>

definition coordinate ::
  "json_lib \<Rightarrow> 'g staging_hooks option \<Rightarrow> envelope \<Rightarrow> world \<times> 'g \<Rightarrow> (world \<times> 'g) \<times> receipt" where
  "coordinate J guard e wg =
     (case apply_at_boundary J guard (None :: (unit, unit) observer_hooks option) e (fst wg, snd wg, ()) of
        ((w, g, _), Inr r) \<Rightarrow> ((w, g), r)
      | ((w, g, _), Inl _) \<Rightarrow> ((w, g), empty_receipt))"

definition history_apply ::
  "json_lib \<Rightarrow> 'g staging_hooks option \<Rightarrow> envelope \<Rightarrow> (world \<times> 'g) \<times> history \<Rightarrow>
     ((world \<times> 'g) \<times> history) \<times> receipt" where
  "history_apply J guard e st =
     (let (wg, h) = st; before = state (fst wg) in
      case prepare_edit J e before (hist_state h) of
        Inl (code, path) \<Rightarrow> ((wg, h), history_rejected e (world_revision before) code path)
      | Inr entry \<Rightarrow>
          (let (wg', r) = coordinate J guard e wg in
           ((wg', if receipt_status r = ''committed'' then record_edit entry (receipt_revision r) h else h), r)))"

section \<open>Undo and redo\<close>

definition prepare_navigation ::
  "json_lib \<Rightarrow> history_action \<Rightarrow> envelope \<Rightarrow> snapshot \<Rightarrow> history \<Rightarrow> (string \<times> string) + envelope" where
  "prepare_navigation J action request live h =
     (let st = hist_state h in
      rbind (require (envelope_bounded request) (''BUDGET_EXCEEDED'', ''/history/budget'')) (\<lambda>_.
      rbind (require (operations request = []) (''INVALID_SCHEMA'', ''/operations'')) (\<lambda>_.
      rbind (require (action = Undo \<or> action = Redo) (''UNSUPPORTED_OPERATION'', ''/history/action'')) (\<lambda>_.
      rbind (require (expected_world_revision request = world_revision live \<and>
          expected_revision st = world_revision live)
        (''REVISION_CONFLICT'', ''/expected_world_revision'')) (\<lambda>_.
      rbind (require (\<not> (action = Undo \<and> cursor st = 0 \<or> action = Redo \<and> cursor st = hist_count st))
        (''NOT_FOUND'', ''/history'')) (\<lambda>_.
      let entry = hist_entries h ! (if action = Undo then cursor st - 1 else cursor st);
          ops = (if action = Undo then inverse_ops entry else forward entry) in
      rbind (require (length ops \<le> unat (budget_max_operations (budget request)))
        (''BUDGET_EXCEEDED'', ''/budget/max_operations'')) (\<lambda>_.
      let e = request\<lparr>operations := ops\<rparr> in
      rbind (serialized_check J e) (\<lambda>_. Inr e))))))))"

definition move_cursor :: "history_action \<Rightarrow> u64 \<Rightarrow> history \<Rightarrow> history" where
  "move_cursor action revision h =
     h\<lparr>hist_state := (hist_state h)\<lparr>
         cursor := (if action = Undo then cursor (hist_state h) - 1 else cursor (hist_state h) + 1),
         expected_revision := revision\<rparr>\<rparr>"

definition history_navigate ::
  "json_lib \<Rightarrow> 'g staging_hooks option \<Rightarrow> history_action \<Rightarrow> envelope \<Rightarrow> (world \<times> 'g) \<times> history \<Rightarrow>
     ((world \<times> 'g) \<times> history) \<times> receipt" where
  "history_navigate J guard action request st =
     (let (wg, h) = st; live = state (fst wg) in
      case prepare_navigation J action request live h of
        Inl (code, path) \<Rightarrow> ((wg, h), history_rejected request (world_revision live) code path)
      | Inr e \<Rightarrow>
          (let (wg', r) = coordinate J guard e wg in
           ((wg', if receipt_status r = ''committed'' then move_cursor action (receipt_revision r) h else h), r)))"

end
