(* ===== verification/History_Laws.thy ===== *)
theory History_Laws
  imports History
begin

text \<open>
  What the undo history guarantees.  The authored content of a world is its slots without the
  revision stamps; an operation the history accepts is an edit that puts one transform or one
  tag list into that content, and the kept inverse operations put back what was there.  A
  history in use is related to a timeline, the list of contents its cursor can move over.
\<close>

section \<open>Authored content\<close>

definition slot_authored :: "slot \<Rightarrow> slot" where
  "slot_authored s = s\<lparr>entity_of := map_option (authoring_revision_update (\<lambda>_. 0)) (entity_of s)\<rparr>"

definition authored :: "slot list \<Rightarrow> slot list" where
  "authored = map slot_authored"

definition blank_content :: "entity \<Rightarrow> entity" where
  "blank_content e = e\<lparr>authoring_revision := 0, transform_of := default_transform, tags := []\<rparr>"

definition slot_shape :: "slot \<Rightarrow> slot" where
  "slot_shape s = s\<lparr>entity_of := map_option blank_content (entity_of s)\<rparr>"

definition shapes :: "slot list \<Rightarrow> slot list" where
  "shapes = map slot_shape"

datatype edit = PutTransform nat transform | PutTags nat "string list"

fun edit_slots :: "edit \<Rightarrow> slot list \<Rightarrow> slot list" where
  "edit_slots (PutTransform i t) ss = map_entity (transform_of_update (\<lambda>_. t)) i ss"
| "edit_slots (PutTags i ts) ss = map_entity (tags_update (\<lambda>_. ts)) i ss"

definition edits :: "edit list \<Rightarrow> slot list \<Rightarrow> slot list" where
  "edits es ss = fold edit_slots es ss"

lemma edits_simps [simp]: "edits [] ss = ss" "edits (e # es) ss = edits es (edit_slots e ss)"
  by (simp_all add: edits_def)

lemma authored_lengths [simp]:
  "length (authored ss) = length ss" "length (shapes ss) = length ss"
  "length (edit_slots e ss) = length ss" "length (edits es ss) = length ss"
proof -
  show l: "length (edit_slots e ss) = length ss" for e ss by (cases e) (simp_all add: map_entity_def)
  show "length (edits es ss) = length ss" by (induction es arbitrary: ss) (simp_all add: l)
qed (simp_all add: authored_def shapes_def)

lemma authored_nth: "i < length ss \<Longrightarrow> authored ss ! i = slot_authored (ss ! i)"
  by (simp add: authored_def)

lemma entity_of_authored [simp]:
  "entity_of (slot_authored s) = map_option (authoring_revision_update (\<lambda>_. 0)) (entity_of s)"
  "entity_of (slot_shape s) = map_option blank_content (entity_of s)"
  by (simp_all add: slot_authored_def slot_shape_def)

lemma authored_idem [simp]: "authored (authored ss) = authored ss"
  by (simp add: authored_def slot_authored_def option.map_comp comp_def)

definition on_entity :: "(entity \<Rightarrow> entity) \<Rightarrow> slot \<Rightarrow> slot" where
  "on_entity f s = s\<lparr>entity_of := map_option f (entity_of s)\<rparr>"

lemma authored_on_entity: "authored = map (on_entity (authoring_revision_update (\<lambda>_. 0)))"
  and shapes_on_entity: "shapes = map (on_entity blank_content)"
  by (simp_all add: authored_def shapes_def slot_authored_def slot_shape_def on_entity_def [abs_def] fun_eq_iff)

lemma on_entity_on_entity: "(\<And>e. g (f e) = h e) \<Longrightarrow> on_entity g (on_entity f s) = on_entity h s"
  by (simp add: on_entity_def option.map_comp comp_def)

lemma shapes_authored [simp]: "shapes (authored ss) = shapes ss"
proof -
  have "on_entity blank_content (on_entity (authoring_revision_update (\<lambda>_. 0)) s) = on_entity blank_content s" for s
    by (rule on_entity_on_entity) (simp add: blank_content_def)
  then show ?thesis by (simp add: authored_on_entity shapes_on_entity)
qed

lemma map_entity_alt: "map_entity f i ss = (if i < length ss then ss[i := on_entity f (ss ! i)] else ss)"
  by (simp add: map_entity_def on_entity_def list_update_beyond)

lemma on_entity_map_entity:
  assumes "\<And>e. g (f e) = f' (g e)"
  shows "map (on_entity g) (map_entity f i ss) = map_entity f' i (map (on_entity g) ss)"
proof -
  have "on_entity g (on_entity f s) = on_entity f' (on_entity g s)" for s
    using assms by (simp add: on_entity_def option.map_comp comp_def)
  then show ?thesis by (simp add: map_entity_alt map_update)
qed

lemma entity_updates:
  "authoring_revision_update (\<lambda>_. 0) (transform_of_update (\<lambda>_. t) e) =
     transform_of_update (\<lambda>_. t) (authoring_revision_update (\<lambda>_. 0) e)"
  "authoring_revision_update (\<lambda>_. 0) (tags_update (\<lambda>_. ts) e) =
     tags_update (\<lambda>_. ts) (authoring_revision_update (\<lambda>_. 0) e)"
  "authoring_revision_update (\<lambda>_. 0) (authoring_revision_update (\<lambda>_. r) (transform_of_update (\<lambda>_. t) e)) =
     transform_of_update (\<lambda>_. t) (authoring_revision_update (\<lambda>_. 0) e)"
  "authoring_revision_update (\<lambda>_. 0) (authoring_revision_update (\<lambda>_. r) (tags_update (\<lambda>_. ts) e)) =
     tags_update (\<lambda>_. ts) (authoring_revision_update (\<lambda>_. 0) e)"
  by (cases e; simp)+

lemma authored_edit_slots [simp]: "authored (edit_slots e ss) = edit_slots e (authored ss)"
  by (cases e) (simp_all add: authored_on_entity on_entity_map_entity entity_updates)

lemma authored_edit:
  "authored (map_entity (\<lambda>e. authoring_revision_update (\<lambda>_. r) (transform_of_update (\<lambda>_. t) e)) i ss) =
    edit_slots (PutTransform i t) (authored ss)"
  "authored (map_entity (\<lambda>e. authoring_revision_update (\<lambda>_. r) (tags_update (\<lambda>_. ts) e)) i ss) =
    edit_slots (PutTags i ts) (authored ss)"
  by (simp_all add: authored_on_entity on_entity_map_entity entity_updates)

lemma map_entity_shapes:
  assumes "\<And>e. blank_content (f e) = blank_content e"
  shows "shapes (map_entity f i ss) = shapes ss"
proof -
  have "map_entity (\<lambda>e. e) i xs = xs" for xs
    by (auto simp: map_entity_alt on_entity_def option.map_ident)
  then show ?thesis
    using on_entity_map_entity [of blank_content f "\<lambda>e. e" i ss] assms by (simp add: shapes_on_entity)
qed

lemma shapes_edit [simp]: "shapes (edit_slots e ss) = shapes ss"
  by (cases e) (simp_all add: map_entity_shapes blank_content_def)

lemma shapes_edits [simp]: "shapes (edits es ss) = shapes ss"
  by (induction es arbitrary: ss) simp_all

lemma authored_edits [simp]: "authored (edits es ss) = edits es (authored ss)"
  by (induction es arbitrary: ss) simp_all

section \<open>What an edit writes\<close>

text \<open>A spot is a slot and a flag that tells its transform from its tags.\<close>

fun spot :: "edit \<Rightarrow> nat \<times> bool" where
  "spot (PutTransform i t) = (i, True)"
| "spot (PutTags i ts) = (i, False)"

fun written :: "edit \<Rightarrow> transform + string list" where
  "written (PutTransform i t) = Inl t"
| "written (PutTags i ts) = Inr ts"

fun content :: "slot list \<Rightarrow> nat \<times> bool \<Rightarrow> transform + string list" where
  "content ss (i, True) = Inl (transform_of (entity_at ss i))"
| "content ss (i, False) = Inr (tags (entity_at ss i))"

definition live_slot :: "slot list \<Rightarrow> nat \<Rightarrow> bool" where
  "live_slot ss i \<longleftrightarrow> i < length ss \<and> entity_of (ss ! i) \<noteq> None"

lemma shapes_nth: "shapes ss = shapes ss' \<Longrightarrow> i < length ss \<Longrightarrow> slot_shape (ss ! i) = slot_shape (ss' ! i)"
  unfolding shapes_def by (metis length_map nth_map)

lemma shapes_length: "shapes ss = shapes ss' \<Longrightarrow> length ss = length ss'"
  unfolding shapes_def by (metis length_map)

lemma slot_shape_fields:
  assumes "slot_shape s = slot_shape s'"
  shows "entity_uuid s = entity_uuid s'" "generation s = generation s'" "retired s = retired s'"
    "map_option blank_content (entity_of s) = map_option blank_content (entity_of s')"
  using assms by (cases s; cases s'; simp add: slot_shape_def)+

lemma live_slot_shapes: "shapes ss = shapes ss' \<Longrightarrow> live_slot ss i = live_slot ss' i"
  using shapes_length [of ss ss'] slot_shape_fields(4) [OF shapes_nth [of ss ss' i]]
  by (cases "i < length ss"; cases "entity_of (ss ! i)"; cases "entity_of (ss' ! i)") (auto simp: live_slot_def)

lemma content_edit:
  assumes "live_slot ss (fst (spot e))"
  shows "content (edit_slots e ss) sp = (if sp = spot e then written e else content ss sp)"
proof -
  obtain i b where sp: "sp = (i, b)" by (cases sp)
  show ?thesis
    using assms
    by (cases e; cases b) (auto simp: sp live_slot_def map_entity_def entity_at_def nth_list_update)
qed

lemma content_edits:
  "list_all (\<lambda>e. live_slot ss (fst (spot e))) es \<Longrightarrow> sp \<notin> spot ` set es \<Longrightarrow> content (edits es ss) sp = content ss sp"
proof (induction es arbitrary: ss)
  case (Cons e es)
  then have "list_all (\<lambda>e'. live_slot (edit_slots e ss) (fst (spot e'))) es"
    using live_slot_shapes [OF shapes_edit, of e ss] by (auto simp: list_all_iff)
  then show ?case using Cons by (simp add: content_edit)
qed simp

lemma same_content:
  assumes sh: "shapes ss = shapes ss'" and au: "authored ss = ss" "authored ss' = ss'"
    and c: "\<And>i b. live_slot ss i \<Longrightarrow> content ss (i, b) = content ss' (i, b)"
  shows "ss = ss'"
proof (rule nth_equalityI)
  show "length ss = length ss'" using shapes_length [OF sh] .
  fix i
  assume i: "i < length ss"
  have a: "slot_authored (ss ! i) = ss ! i" "slot_authored (ss' ! i) = ss' ! i"
    using au i shapes_length [OF sh] by (metis authored_nth)+
  note f = slot_shape_fields [OF shapes_nth [OF sh i]]
  show "ss ! i = ss' ! i"
  proof (cases "entity_of (ss ! i)")
    case None
    then show ?thesis using f by (cases "ss ! i"; cases "ss' ! i") simp
  next
    case (Some e)
    then obtain e' where e': "entity_of (ss' ! i) = Some e'" and b: "blank_content e = blank_content e'"
      using f(4) by (cases "entity_of (ss' ! i)") auto
    have "transform_of e = transform_of e'" "tags e = tags e'"
      using c [of i True] c [of i False] i Some e' by (simp_all add: live_slot_def entity_at_def)
    moreover have "e\<lparr>authoring_revision := 0\<rparr> = e" "e'\<lparr>authoring_revision := 0\<rparr> = e'"
      using arg_cong [OF a(1), of entity_of] arg_cong [OF a(2), of entity_of] Some e' by simp_all
    ultimately have "e = e'" using b by (cases e; cases e') (simp add: blank_content_def)
    then show ?thesis using f Some e' by (cases "ss ! i"; cases "ss' ! i") simp
  qed
qed

text \<open>Edits that write what a content holds restore it from any content that differs at most there.\<close>

lemma edits_restore:
  assumes "shapes x = shapes a" "authored x = x" "authored a = a"
    and "list_all (\<lambda>e. live_slot a (fst (spot e)) \<and> written e = content a (spot e)) es"
    and "\<And>sp. sp \<notin> spot ` set es \<Longrightarrow> content x sp = content a sp"
  shows "edits es x = a"
  using assms
proof (induction es arbitrary: x)
  case Nil
  then show ?case by (auto intro!: same_content)
next
  case (Cons e es)
  have live: "live_slot x (fst (spot e))" using Cons.prems(4) by (simp add: live_slot_shapes [OF Cons.prems(1)])
  have "content (edit_slots e x) sp = content a sp" if "sp \<notin> spot ` set es" for sp
    using that Cons.prems(4,5) content_edit [OF live, of sp] by (cases "sp = spot e") auto
  then have "edits es (edit_slots e x) = a"
    using Cons.prems(1-4) by (intro Cons.IH) simp_all
  then show ?case by simp
qed

section \<open>What depends on the shape only\<close>

lemma blank_content_fields:
  "blank_content e = blank_content e' \<Longrightarrow> parent e = parent e' \<and> local_transform e = local_transform e' \<and> prefab e = prefab e'"
  by (cases e; cases e') (simp add: blank_content_def)

lemma shape_entity:
  assumes "slot_shape s = slot_shape s'" "entity_of s = Some e"
  obtains e' where "entity_of s' = Some e'" "parent e' = parent e"
proof -
  obtain e' where e': "entity_of s' = Some e'" "blank_content e = blank_content e'"
    using slot_shape_fields(4) [OF assms(1)] assms(2) by (cases "entity_of s'") auto
  from e'(1) blank_content_fields [OF e'(2)] show ?thesis by (intro that) simp_all
qed

lemma shape_None: "slot_shape s = slot_shape s' \<Longrightarrow> entity_of s = None \<longleftrightarrow> entity_of s' = None"
  using slot_shape_fields(4) [of s s'] by (cases "entity_of s"; cases "entity_of s'") simp_all

lemma child_of_shape:
  assumes "slot_shape c = slot_shape c'" "slot_shape p = slot_shape p'"
  shows "child_of c p = child_of c' p'"
proof (cases "entity_of c")
  case None
  then have "entity_of c' = None" using shape_None [OF assms(1)] by simp
  then show ?thesis using None by (simp add: child_of_def)
next
  case (Some e)
  then obtain e' where "entity_of c' = Some e'" "parent e' = parent e"
    using shape_entity [OF assms(1)] by blast
  then show ?thesis
    unfolding child_of_def slot_shape_fields(1,2) [OF assms(2)] using Some by simp
qed

lemma find_index_cong:
  assumes "length xs = length ys" "\<And>i. i < length xs \<Longrightarrow> P (xs ! i) = Q (ys ! i)"
  shows "find_index P xs = find_index Q ys"
  using assms
proof (induction xs ys rule: list_induct2)
  case (Cons x xs y ys)
  have "P x = Q y" using Cons.prems [of 0] by simp
  moreover have "find_index P xs = find_index Q ys"
    using Cons.prems [of "Suc _"] by (intro Cons.IH) simp
  ultimately show ?case by simp
qed simp

lemma live_as_shape: "slot_shape s = slot_shape s' \<Longrightarrow> live_as u g s = live_as u g s'"
  using slot_shape_fields [of s s'] by (cases "entity_of s"; cases "entity_of s'") (auto simp: live_as_def)

definition slot_index :: "slot list \<Rightarrow> string \<Rightarrow> u64 \<Rightarrow> nat option" where
  "slot_index ss u g = find_index (live_as u g) ss"

definition unlinked :: "slot list \<Rightarrow> nat \<Rightarrow> bool" where
  "unlinked ss i \<longleftrightarrow>
     pred_option (\<lambda>e. parent e = None) (entity_of (ss ! i)) \<and> (\<forall>c < length ss. \<not> child_of (ss ! c) (ss ! i))"

lemma slot_index_shapes: "shapes ss = shapes ss' \<Longrightarrow> slot_index ss u g = slot_index ss' u g"
  unfolding slot_index_def
  by (rule find_index_cong) (erule shapes_length, rule live_as_shape, erule shapes_nth)

lemma unlinked_shapes:
  assumes "shapes ss = shapes ss'" "i < length ss"
  shows "unlinked ss i = unlinked ss' i"
proof -
  note i = shapes_nth [OF assms]
  have "child_of (ss ! c) (ss ! i) = child_of (ss' ! c) (ss' ! i)" if "c < length ss" for c
    using child_of_shape [OF shapes_nth [OF assms(1) that] i] .
  moreover have "pred_option (\<lambda>e. parent e = None) (entity_of (ss ! i)) =
      pred_option (\<lambda>e. parent e = None) (entity_of (ss' ! i))"
  proof (cases "entity_of (ss ! i)")
    case None
    then show ?thesis using shape_None [OF i] by simp
  next
    case (Some e)
    from shape_entity [OF i this] obtain e' where "entity_of (ss' ! i) = Some e'" "parent e' = parent e" .
    then show ?thesis using Some by simp
  qed
  ultimately show ?thesis by (simp add: unlinked_def shapes_length [OF assms(1)])
qed

lemma slot_index_live:
  assumes "slot_index ss u g = Some i"
  shows "live_slot ss i" "i < length ss" "entity_of (ss ! i) \<noteq> None"
  using find_index_SomeD [OF assms [unfolded slot_index_def]] by (auto simp: live_as_def live_slot_def)

section \<open>Editing operations\<close>

text \<open>The operations the history accepts on given slots, and the edit each of them makes.\<close>

fun editable :: "slot list \<Rightarrow> operation \<Rightarrow> bool" where
  "editable ss (TransformSet (EntityTarget w u g) v) \<longleftrightarrow> (\<exists>i. slot_index ss u g = Some i \<and> unlinked ss i)"
| "editable ss (EntityTagsSet (EntityTarget w u g) ts) \<longleftrightarrow> (\<exists>i. slot_index ss u g = Some i)"
| "editable ss _ \<longleftrightarrow> False"

fun edit_of :: "slot list \<Rightarrow> operation \<Rightarrow> edit" where
  "edit_of ss (TransformSet (EntityTarget w u g) v) = PutTransform (the (slot_index ss u g)) (normalize_zero v)"
| "edit_of ss (EntityTagsSet (EntityTarget w u g) ts) = PutTags (the (slot_index ss u g)) (sort ts)"
| "edit_of ss op = PutTags 0 []"

lemma editable_cases:
  assumes "editable ss op"
  obtains (transform) w u g v i where "op = TransformSet (EntityTarget w u g) v" "slot_index ss u g = Some i" "unlinked ss i"
  | (tags) w u g ts i where "op = EntityTagsSet (EntityTarget w u g) ts" "slot_index ss u g = Some i"
  using assms by (cases "(ss, op)" rule: editable.cases) auto

lemma editable_shapes:
  assumes "shapes ss = shapes ss'"
  shows "editable ss op = editable ss' op"
  by (cases "(ss, op)" rule: editable.cases)
    (auto simp: slot_index_shapes [OF assms] unlinked_shapes [OF assms] slot_index_live(2) shapes_length [OF assms])

lemma edit_of_shapes: "shapes ss = shapes ss' \<Longrightarrow> edit_of ss op = edit_of ss' op"
  by (cases "(ss, op)" rule: edit_of.cases) (simp_all add: slot_index_shapes [of ss ss'])

lemma editable_live: "editable ss op \<Longrightarrow> live_slot ss (fst (spot (edit_of ss op)))"
  by (auto elim!: editable_cases dest: slot_index_live(1))

text \<open>The coordinator and the history look a handle up differently, with the same result.\<close>

lemma resolve_slot_index:
  assumes "resolve sn (EntityTarget w u g) names path index = Inr i" "slot_index (slots sn) u g = Some j"
  shows "i = j"
proof -
  have i: "find_index (\<lambda>s. entity_uuid s = u) (slots sn) = Some i" "live_as u g (slots sn ! i)"
    using assms(1) find_index_SomeD
    by (fastforce simp: resolve_identity_def Let_def live_as_def split: if_splits option.splits)+
  then have "\<not> i < j" "\<not> j < i"
    using assms(2) by (auto simp: slot_index_def find_index_Some live_as_def)
  then show ?thesis by simp
qed

lemma subtree_children_none:
  "(\<And>c. c \<in> set cs \<Longrightarrow> \<not> child_of (ss ! c) (ss ! p)) \<Longrightarrow>
     subtree_children path index p cs (ss, queue) = Inr (ss, queue)"
  by (induction cs) (auto simp: subtree_child_def)

lemma subtree_leaf:
  assumes root: "root < length ss" and leaf: "\<And>c. c < length ss \<Longrightarrow> \<not> child_of (ss ! c) (ss ! root)"
  shows "subtree ss root revision path index = Inr (map_entity (authoring_revision_update (\<lambda>_. revision)) root ss)"
proof -
  let ?ss = "map_entity (authoring_revision_update (\<lambda>_. revision)) root ss"
  have sh: "shapes ?ss = shapes ss" by (rule map_entity_shapes) (simp add: blank_content_def)
  have "\<not> child_of (?ss ! c) (?ss ! root)" if "c < length ?ss" for c
  proof -
    have "child_of (?ss ! c) (?ss ! root) = child_of (ss ! c) (ss ! root)"
      using that root shapes_length [OF sh] by (intro child_of_shape shapes_nth [OF sh]) simp_all
    then show ?thesis using leaf that shapes_length [OF sh] by simp
  qed
  then have "subtree_children path index root [0 ..< length ?ss] (?ss, [root]) = Inr (?ss, [root])"
    by (intro subtree_children_none) simp
  then show ?thesis
    by (simp add: subtree_def subtree_loop.simps [of path index revision 0]
        subtree_loop.simps [of path index revision "Suc 0"] Let_def)
qed

lemma map_entity_cong:
  assumes "i < length ss" "\<And>e. entity_of (ss ! i) = Some e \<Longrightarrow> f e = f' e"
  shows "map_entity f i ss = map_entity f' i ss"
  using assms by (cases "entity_of (ss ! i)") (simp_all add: map_entity_def)

lemma map_entity_twice: "map_entity f i (map_entity g i ss) = map_entity (\<lambda>e. f (g e)) i ss"
  by (simp add: map_entity_alt on_entity_def option.map_comp comp_def)

lemma unlinked_has_children: "i < length ss \<Longrightarrow> unlinked ss i \<Longrightarrow> \<not> has_children ss (ss ! i)"
  by (auto simp: unlinked_def has_children_def list_ex_iff in_set_conv_nth)

lemma apply_transform_edit:
  assumes run: "apply_transform guard revision index (EntityTarget w u g) v st x = (x', Inr st')"
    and i: "slot_index (slots (staged st)) u g = Some i" "unlinked (slots (staged st)) i"
  shows "\<exists>ss'. st' = set_slots ss' st \<and>
    authored ss' = edit_slots (PutTransform i (normalize_zero v)) (authored (slots (staged st)))"
proof -
  define ss where "ss = slots (staged st)"
  obtain replacement j p loc ss' where
    repl: "replacement_transform v (operation_path index) index = Inr replacement"
    and res: "resolve (staged st) (EntityTarget w u g) (staged_names st) (operation_path index @ ''/target'') index = Inr j"
    and p: "parent_of ss (ss ! j) = Inr p"
    and loc: "(case p of Some k \<Rightarrow> relative (transform_of (entity_at ss k)) replacement (operation_path index) index
           | None \<Rightarrow> Inr (local_transform (entity_at ss j))) = Inr loc"
    and sub: "subtree (map_entity (\<lambda>e. e\<lparr>local_transform := loc, transform_of := replacement\<rparr>) j ss)
        j revision (operation_path index) index = Inr ss'"
    and st': "st' = set_slots ss' st"
    using run unfolding ss_def apply_transform_def Let_def gbind_eq_Inr glift_apply prod.inject sum.inject rbind_eq_Inr
    by blast
  have "j = i" by (rule resolve_slot_index [OF res i(1)])
  note live = slot_index_live [OF i(1), folded ss_def]
  obtain e where e: "entity_of (ss ! i) = Some e" "parent e = None"
    using live(3) i(2) by (auto simp: unlinked_def ss_def)
  then have "loc = local_transform e"
    using p loc \<open>j = i\<close> by (auto simp: parent_of_def entity_at_def)
  then have same: "map_entity (\<lambda>e. e\<lparr>local_transform := loc, transform_of := replacement\<rparr>) j ss =
      map_entity (transform_of_update (\<lambda>_. replacement)) i ss"
    unfolding \<open>j = i\<close> using e(1) by (intro map_entity_cong [OF live(2)]) simp
  let ?ss = "map_entity (transform_of_update (\<lambda>_. replacement)) i ss"
  have sh: "shapes ?ss = shapes ss" by (rule map_entity_shapes) (simp add: blank_content_def)
  have "unlinked ?ss i"
    using unlinked_shapes [OF sh] i(2) live(2) shapes_length [OF sh] by (simp add: ss_def)
  then have "ss' = map_entity (authoring_revision_update (\<lambda>_. revision)) i ?ss"
    using sub [unfolded \<open>j = i\<close>, unfolded same [unfolded \<open>j = i\<close>]] subtree_leaf [of i ?ss] live(2)
    by (simp add: unlinked_def)
  moreover have "replacement = normalize_zero v"
    using repl by (simp add: replacement_transform_def Let_def split: if_splits)
  ultimately show ?thesis
    using st' by (auto simp: map_entity_twice authored_edit ss_def)
qed

lemma apply_tags_edit:
  assumes run: "apply_tags revision index (EntityTarget w u g) ts st = Inr st'"
    and i: "slot_index (slots (staged st)) u g = Some i"
  shows "\<exists>ss'. st' = set_slots ss' st \<and> authored ss' = edit_slots (PutTags i (sort ts)) (authored (slots (staged st)))"
proof -
  obtain j where res: "resolve (staged st) (EntityTarget w u g) (staged_names st) (operation_path index @ ''/target'') index = Inr j"
    and st': "st' = set_slots (map_entity (\<lambda>e. e\<lparr>tags := sort ts, authoring_revision := revision\<rparr>) j (slots (staged st))) st"
    using run by (auto simp: apply_tags_def Let_def res_simps)
  show ?thesis
    using st' resolve_slot_index [OF res i] authored_edit(2) by auto
qed

lemma apply_operation_edit:
  assumes run: "apply_operation guard bindings revision index op st x = (x', Inr st')"
    and ok: "editable (slots (staged st)) op"
  shows "\<exists>ss'. st' = set_slots ss' st \<and>
    authored ss' = edit_slots (edit_of (slots (staged st)) op) (authored (slots (staged st)))"
  using ok
proof (cases rule: editable_cases)
  case (transform w u g v i)
  then show ?thesis using apply_transform_edit run by fastforce
next
  case (tags w u g ts i)
  then show ?thesis using apply_tags_edit run by fastforce
qed

lemma set_slots_twice [simp]: "set_slots a (set_slots b st) = set_slots a st" "slots (staged (set_slots a st)) = a"
  by (simp_all add: set_slots_def)

lemma apply_operations_edit:
  assumes "apply_operations guard bindings revision index ops st x = (x', Inr st')"
    and "list_all (editable (slots (staged st))) ops"
  shows "\<exists>ss'. st' = set_slots ss' st \<and>
    authored ss' = edits (map (edit_of (slots (staged st))) ops) (authored (slots (staged st)))"
  using assms
proof (induction ops arbitrary: index st x)
  case Nil
  then have "st' = set_slots (slots (staged st)) st" by (simp add: set_slots_def)
  then show ?case by auto
next
  case (Cons op ops)
  then obtain x1 st1 where 1: "apply_operation guard bindings revision index op st x = (x1, Inr st1)"
    and 2: "apply_operations guard bindings revision (Suc index) ops st1 x1 = (x', Inr st')"
    by (auto simp: gbind_eq_Inr)
  obtain ss1 where ss1: "st1 = set_slots ss1 st"
    "authored ss1 = edit_slots (edit_of (slots (staged st)) op) (authored (slots (staged st)))"
    using apply_operation_edit [OF 1] Cons.prems(2) by auto
  have sh: "shapes ss1 = shapes (slots (staged st))"
    using shapes_authored [of ss1] by (simp add: ss1(2))
  have "list_all (editable (slots (staged st1))) ops"
    using Cons.prems(2) editable_shapes [OF sh] by (simp add: ss1(1) list_all_iff)
  from Cons.IH [OF 2 this] obtain ss' where "st' = set_slots ss' st1"
    "authored ss' = edits (map (edit_of (slots (staged st1))) ops) (authored (slots (staged st1)))" by blast
  moreover have "edit_of (slots (staged st1)) = edit_of (slots (staged st))"
    by (rule ext) (simp add: ss1(1) edit_of_shapes [OF sh])
  ultimately show ?case using ss1 by auto
qed

lemma coordinate_edit:
  assumes run: "coordinate J guard e (w, g) = ((w', g'), r)" and ok: "receipt_status r = ''committed''"
    and editable: "list_all (editable (slots (state w))) (operations e)"
  shows "authored (slots (state w')) = edits (map (edit_of (slots (state w))) (operations e)) (authored (slots (state w))) \<and>
    receipt_revision r = world_revision (state w') \<and> snapshot_world_id (state w') = snapshot_world_id (state w)"
proof -
  obtain obs' res where call: "apply_envelope J guard (None :: (unit, unit) observer_hooks option) None e (w, g, ()) = ((w', g', obs'), res)"
    and res: "res = Inr r \<or> (\<exists>x. res = Inl x) \<and> r = empty_receipt"
    using run by (auto simp: coordinate_def apply_at_boundary_def split: prod.splits sum.splits)
  from call show ?thesis
  proof (cases rule: apply_envelope_cases)
    case kept
    then show ?thesis using res ok by (auto simp: rejected_receipt_def empty_receipt_def)
  next
    case (committed g1 g2 st)
    obtain g3 st0 where ops: "apply_operations guard None (world_revision (state w) + 1) 0 (operations e)
         \<lparr>staged = state w, staged_names = [], staged_created = []\<rparr> g1 = (g3, Inr st0)"
      and st: "st = st0\<lparr>staged := (staged st0)\<lparr>format_version := staged_version (slots (staged st0))\<rparr>\<rparr>"
      using stage_Inr [OF committed(2)] by metis
    from apply_operations_edit [OF ops] editable obtain ss' where
      "st0 = set_slots ss' \<lparr>staged = state w, staged_names = [], staged_created = []\<rparr>"
      "authored ss' = edits (map (edit_of (slots (state w))) (operations e)) (authored (slots (state w)))"
      by auto
    then show ?thesis
      using committed(3,4) res st by (auto simp: committed_snapshot_def set_slots_def commit_receipt_def)
  qed
qed

lemma coordinate_kept:
  assumes run: "coordinate J guard e (w, g) = ((w', g'), r)" and bad: "receipt_status r \<noteq> ''committed''"
  shows "w' = w"
proof -
  obtain obs' res where call: "apply_envelope J guard (None :: (unit, unit) observer_hooks option) None e (w, g, ()) = ((w', g', obs'), res)"
    and res: "res = Inr r \<or> (\<exists>x. res = Inl x) \<and> r = empty_receipt"
    using run by (auto simp: coordinate_def apply_at_boundary_def split: prod.splits sum.splits)
  from call show ?thesis
  proof (cases rule: apply_envelope_cases)
    case (committed g1 g2 st)
    then show ?thesis using res bad by (auto simp: commit_receipt_def)
  qed
qed

section \<open>Inverse operations\<close>

lemma sound_transform_normal: "sound_transform t \<Longrightarrow> normalize_zero t = t"
  by (cases "position_m t"; cases "rotation_xyzw t"; cases "scale t"; cases t)
    (auto simp: sound_transform_def transform_numbers_def normalize_zero_def positive_zero_canonical)

lemma history_resolve_index:
  assumes "history_resolve sn t = Some i"
  obtains w u g where "t = EntityTarget w u g" "slot_index (slots sn) u g = Some i"
  using assms by (cases t) (auto simp: slot_index_def split: if_splits)

lemma entity_at_authored:
  "live_slot ss i \<Longrightarrow> entity_at (authored ss) i = authoring_revision_update (\<lambda>_. 0) (entity_at ss i)"
  by (auto simp: live_slot_def entity_at_def authored_nth)

definition undoes :: "slot list \<Rightarrow> operation \<Rightarrow> operation \<Rightarrow> bool" where
  "undoes ss op un \<longleftrightarrow>
     editable ss op \<and> editable ss un \<and> spot (edit_of ss un) = spot (edit_of ss op) \<and>
     written (edit_of ss un) = content (authored ss) (spot (edit_of ss un))"

lemma inverse_undoes:
  assumes inv: "inverse_operation sn op = Inr un" and wf: "wf_snapshot sn"
  shows "undoes (slots sn) op un"
proof -
  have wfs: "wf_slots (seed sn) (unat (max_slots sn)) (world_revision sn) (slots sn)"
    using wf by (simp add: wf_snapshot_def)
  have entity: "sound_transform (transform_of (entity_at (slots sn) i)) \<and> sorted (tags (entity_at (slots sn) i))"
    if "slot_index (slots sn) u g = Some i" for u g i
    using wf_slots_entity(1) [OF wfs slot_index_live(2) [OF that] slot_index_live(3) [OF that]] by (simp add: wf_entity_def)
  show ?thesis
  proof (cases op)
    case (TransformSet t v)
    then obtain i where i: "history_resolve sn t = Some i" "isolated sn (slots sn ! i)"
      and inv': "un = TransformSet t (transform_of (entity_at (slots sn) i))"
      using inv by (auto split: option.splits if_splits)
    obtain w u g where t: "t = EntityTarget w u g" "slot_index (slots sn) u g = Some i"
      using history_resolve_index [OF i(1)] .
    have "unlinked (slots sn) i"
      using i(2) by (auto simp: isolated_def unlinked_def list_ex_iff)
    then show ?thesis
      using TransformSet inv' t entity_at_authored [OF slot_index_live(1) [OF t(2)]] entity [OF t(2)]
      by (simp add: undoes_def sound_transform_normal)
  next
    case (EntityTagsSet t ts)
    then obtain i where i: "history_resolve sn t = Some i"
      and inv': "un = EntityTagsSet t (tags (entity_at (slots sn) i))"
      using inv by (auto split: option.splits if_splits)
    obtain w u g where t: "t = EntityTarget w u g" "slot_index (slots sn) u g = Some i"
      using history_resolve_index [OF i] .
    then show ?thesis
      using EntityTagsSet inv' entity_at_authored [OF slot_index_live(1) [OF t(2)]] entity [OF t(2)]
      by (simp add: undoes_def sorted_sort_id)
  qed (use inv in simp_all)
qed

definition moves :: "history_entry \<Rightarrow> slot list \<Rightarrow> slot list \<Rightarrow> bool" where
  "moves entry a b \<longleftrightarrow>
     list_all (editable a) (forward entry) \<and> list_all (editable a) (inverse_ops entry) \<and>
     edits (map (edit_of a) (forward entry)) a = b \<and> edits (map (edit_of a) (inverse_ops entry)) b = a"

lemma moves_shapes: "moves entry a b \<Longrightarrow> shapes b = shapes a"
  by (auto simp: moves_def)

lemma undoes_moves:
  assumes "list_all2 (undoes ss) ops invs"
  shows "moves \<lparr>forward = ops, inverse_ops = rev invs\<rparr> (authored ss)
    (edits (map (edit_of ss) ops) (authored ss))"
proof -
  let ?a = "authored ss" and ?es = "map (edit_of ss) ops" and ?is = "map (edit_of ss) (rev invs)"
  have sh: "shapes ?a = shapes ss" by simp
  have eq: "edit_of ?a = edit_of ss" "editable ?a = editable ss"
    by (rule ext, rule edit_of_shapes [OF sh], rule ext, rule editable_shapes [OF sh])
  have ops: "list_all (editable ss) ops" and invs: "list_all (editable ss) (rev invs)"
    using assms by (induction rule: list_all2_induct) (simp_all add: undoes_def)
  have spots: "spot ` set ?es = spot ` set ?is"
    using assms by (induction rule: list_all2_induct) (simp_all add: undoes_def)
  have "list_all (\<lambda>un. written (edit_of ss un) = content ?a (spot (edit_of ss un))) (rev invs)"
    using assms by (induction rule: list_all2_induct) (simp_all add: undoes_def)
  moreover have live: "live_slot ?a (fst (spot (edit_of ss op)))" if "editable ss op" for op
    using editable_live [OF that] live_slot_shapes [OF sh] by simp
  ultimately have restore: "list_all (\<lambda>e. live_slot ?a (fst (spot e)) \<and> written e = content ?a (spot e)) ?is"
    using invs by (simp add: list_all_iff)
  have "list_all (\<lambda>e. live_slot ?a (fst (spot e))) ?es"
    using ops live by (simp add: list_all_iff)
  then have "edits ?is (edits ?es ?a) = ?a"
    using restore content_edits spots by (intro edits_restore) auto
  then show ?thesis using ops invs by (simp add: moves_def eq)
qed

section \<open>Timelines\<close>

text \<open>
  A timeline lists the contents that undo and redo can reach, oldest first; the cursor points
  to the present one.  An edit from outside the history makes the recorded revision stale.
\<close>

definition tracks :: "slot list list \<Rightarrow> world \<Rightarrow> history \<Rightarrow> bool" where
  "tracks timeline w h \<longleftrightarrow>
     wf_snapshot (state w) \<and> length (hist_entries h) = history_capacity \<and>
     cursor (hist_state h) \<le> hist_count (hist_state h) \<and> hist_count (hist_state h) \<le> history_capacity \<and>
     length timeline = Suc (hist_count (hist_state h)) \<and>
     (\<forall>k < hist_count (hist_state h). moves (hist_entries h ! k) (timeline ! k) (timeline ! Suc k)) \<and>
     expected_revision (hist_state h) \<le> world_revision (state w) \<and>
     (expected_revision (hist_state h) = world_revision (state w) \<longrightarrow>
        authored (slots (state w)) = timeline ! cursor (hist_state h))"

lemma tracks_new: "wf_snapshot (state w) \<Longrightarrow> tracks [authored (slots (state w))] w (new_history w)"
  by (simp add: tracks_def new_history_def)

lemma tracks_clear: "tracks timeline w h \<Longrightarrow> tracks [authored (slots (state w))] w (clear_history w h)"
  by (simp add: tracks_def clear_history_def)

lemma coordinate_wf:
  assumes "coordinate J guard e (w, g) = ((w', g'), r)" "wf_snapshot (state w)"
  shows "wf_snapshot (state w')"
proof -
  obtain obs' res where "apply_envelope J guard (None :: (unit, unit) observer_hooks option) None e (w, g, ()) = ((w', g', obs'), res)"
    using assms(1) by (auto simp: coordinate_def apply_at_boundary_def split: prod.splits sum.splits)
  from apply_envelope_wf [OF this assms(2)] show ?thesis .
qed

lemma prepare_edit_Inr:
  assumes run: "prepare_edit J e sn st = Inr entry" and wf: "wf_snapshot sn"
  shows "forward entry = operations e \<and> expected_revision st = world_revision sn \<and> cursor st \<noteq> history_capacity \<and>
    moves entry (authored (slots sn)) (edits (map (edit_of (slots sn)) (operations e)) (authored (slots sn))) \<and>
    list_all (editable (slots sn)) (operations e)"
proof -
  obtain inverses where inverses: "rmap_list (inverse_operation sn) (operations e) = Inr inverses"
    and entry: "entry = \<lparr>forward = operations e, inverse_ops = rev inverses\<rparr>"
    and st: "expected_revision st = world_revision sn" "cursor st \<noteq> history_capacity"
    using run by (auto simp: prepare_edit_def res_simps Let_def)
  have u: "list_all2 (undoes (slots sn)) (operations e) inverses"
    using inverses by (auto simp: rmap_list_Inr_conv elim!: list_all2_mono intro: inverse_undoes [OF _ wf])
  have "list_all (editable (slots sn)) (operations e)"
    using u by (induction rule: list_all2_induct) (simp_all add: undoes_def)
  then show ?thesis using undoes_moves [OF u] entry st by simp
qed

lemma record_edit_simps:
  assumes "cursor (hist_state h) \<le> hist_count (hist_state h)" "hist_count (hist_state h) \<le> length (hist_entries h)"
    and "cursor (hist_state h) < length (hist_entries h)"
  shows "hist_state (record_edit entry revision h) =
      \<lparr>hist_count = Suc (cursor (hist_state h)), cursor = Suc (cursor (hist_state h)), expected_revision = revision\<rparr>"
    and "length (hist_entries (record_edit entry revision h)) = length (hist_entries h)"
    and "k \<le> cursor (hist_state h) \<Longrightarrow> hist_entries (record_edit entry revision h) ! k =
      (if k = cursor (hist_state h) then entry else hist_entries h ! k)"
  using assms by (simp_all add: record_edit_def Let_def nth_enumerate_eq)

lemma tracks_apply:
  assumes tr: "tracks timeline w h"
    and run: "history_apply J guard e ((w, g), h) = (((w', g'), h'), r)"
    and ok: "receipt_status r = ''committed''"
  shows "tracks (take (Suc (cursor (hist_state h))) timeline @ [authored (slots (state w'))]) w' h' \<and>
    cursor (hist_state h') = Suc (cursor (hist_state h))"
proof -
  let ?c = "cursor (hist_state h)"
  have wf: "wf_snapshot (state w)" using tr by (simp add: tracks_def)
  obtain entry where entry: "prepare_edit J e (state w) (hist_state h) = Inr entry"
    and call: "coordinate J guard e (w, g) = ((w', g'), r)"
    and h': "h' = record_edit entry (receipt_revision r) h"
    using run ok
    by (auto simp: history_apply_def Let_def history_rejected_def empty_receipt_def split: sum.splits prod.splits)
  note p = prepare_edit_Inr [OF entry wf]
  note c = coordinate_edit [OF call ok conjunct2 [OF conjunct2 [OF conjunct2 [OF conjunct2 [OF p]]]]]
  have now: "authored (slots (state w)) = timeline ! ?c" using tr p by (simp add: tracks_def)
  have bounds: "?c \<le> hist_count (hist_state h)" "hist_count (hist_state h) \<le> length (hist_entries h)"
    "?c < length (hist_entries h)"
    using tr p by (auto simp: tracks_def)
  note rec = record_edit_simps [OF bounds, where entry = entry and revision = "receipt_revision r", folded h']
  have len: "length (take (Suc ?c) timeline) = Suc ?c" using tr bounds by (simp add: tracks_def)
  define new where "new = take (Suc ?c) timeline @ [authored (slots (state w'))]"
  have new: "length new = Suc (Suc ?c)" "new ! Suc ?c = authored (slots (state w'))"
    "\<And>k. k \<le> ?c \<Longrightarrow> new ! k = timeline ! k"
    using len by (simp_all add: new_def nth_append)
  have "moves (hist_entries h' ! k) (new ! k) (new ! Suc k)" if k: "k < Suc ?c" for k
  proof (cases "k = ?c")
    case True
    then show ?thesis using new(2) new(3) [of k] rec(3) [of k] p c now by simp
  next
    case False
    then show ?thesis using k new(3) rec(3) [of k] tr bounds by (simp add: tracks_def)
  qed
  moreover have "receipt_revision r = world_revision (state w')" using c by simp
  ultimately have "tracks new w' h'"
    using coordinate_wf [OF call wf] rec(1,2) new(1,2) bounds tr by (auto simp: tracks_def)
  then show ?thesis using rec(1) by (simp add: new_def)
qed

lemma history_apply_kept:
  assumes "history_apply J guard e ((w, g), h) = (((w', g'), h'), r)" "receipt_status r \<noteq> ''committed''"
  shows "w' = w \<and> h' = h"
  using assms coordinate_kept
  by (fastforce simp: history_apply_def Let_def split: sum.splits prod.splits)

lemma tracks_navigate:
  assumes tr: "tracks timeline w h"
    and run: "history_navigate J guard action request ((w, g), h) = (((w', g'), h'), r)"
    and ok: "receipt_status r = ''committed''"
  shows "tracks timeline w' h' \<and> authored (slots (state w')) = timeline ! cursor (hist_state h') \<and>
    (action = Undo \<and> Suc (cursor (hist_state h')) = cursor (hist_state h) \<or>
     action = Redo \<and> cursor (hist_state h') = Suc (cursor (hist_state h)) \<and>
       cursor (hist_state h') \<le> hist_count (hist_state h))"
proof -
  let ?c = "cursor (hist_state h)" and ?n = "hist_count (hist_state h)"
  have wf: "wf_snapshot (state w)" using tr by (simp add: tracks_def)
  obtain e where prep: "prepare_navigation J action request (state w) h = Inr e"
    and call: "coordinate J guard e (w, g) = ((w', g'), r)"
    and h': "h' = move_cursor action (receipt_revision r) h"
    using run ok
    by (auto simp: history_navigate_def Let_def history_rejected_def empty_receipt_def split: sum.splits prod.splits)
  let ?entry = "hist_entries h ! (if action = Undo then ?c - 1 else ?c)"
  have act: "action = Undo \<and> 0 < ?c \<or> action = Redo \<and> ?c < ?n"
    and rev: "expected_revision (hist_state h) = world_revision (state w)"
    and ops: "operations e = (if action = Undo then inverse_ops ?entry else forward ?entry)"
    using prep tr by (auto simp: prepare_navigation_def res_simps Let_def tracks_def)
  have now: "authored (slots (state w)) = timeline ! ?c" using tr rev by (simp add: tracks_def)
  have sh: "shapes (timeline ! ?c) = shapes (slots (state w))" by (simp flip: now)
  have eq: "edit_of (slots (state w)) = edit_of (timeline ! ?c)" "editable (slots (state w)) = editable (timeline ! ?c)"
    by (rule ext, rule edit_of_shapes, rule sh [symmetric], rule ext, rule editable_shapes, rule sh [symmetric])
  from act have "list_all (editable (timeline ! ?c)) (operations e) \<and>
      edits (map (edit_of (timeline ! ?c)) (operations e)) (timeline ! ?c) = timeline ! cursor (hist_state h')"
  proof (elim disjE conjE)
    assume a: "action = Undo" "0 < ?c"
    then have "?c - 1 < ?n" "Suc (?c - 1) = ?c" using tr by (auto simp: tracks_def)
    then have m: "moves ?entry (timeline ! (?c - 1)) (timeline ! ?c)" using tr a by (auto simp: tracks_def)
    note s = moves_shapes [OF m]
    have "edit_of (timeline ! ?c) = edit_of (timeline ! (?c - 1))" "editable (timeline ! ?c) = editable (timeline ! (?c - 1))"
      by (rule ext, rule edit_of_shapes, rule s, rule ext, rule editable_shapes, rule s)
    then show ?thesis using m a ops h' by (simp add: moves_def move_cursor_def)
  next
    assume a: "action = Redo" "?c < ?n"
    then have "moves ?entry (timeline ! ?c) (timeline ! Suc ?c)" using tr by (auto simp: tracks_def)
    then show ?thesis using a ops h' by (simp add: moves_def move_cursor_def)
  qed
  then have goal: "authored (slots (state w')) = timeline ! cursor (hist_state h')"
    and r: "receipt_revision r = world_revision (state w')"
    using coordinate_edit [OF call ok] by (simp_all add: eq now)
  then show ?thesis
    using tr h' act coordinate_wf [OF call wf] by (auto simp: tracks_def move_cursor_def)
qed

lemma history_navigate_kept:
  assumes "history_navigate J guard action request ((w, g), h) = (((w', g'), h'), r)"
    and "receipt_status r \<noteq> ''committed''"
  shows "w' = w \<and> h' = h"
  using assms coordinate_kept
  by (fastforce simp: history_navigate_def Let_def split: sum.splits prod.splits)

end
