(* ===== verification/Float_Code.thy ===== *)
theory Float_Code
  imports Ieee754
begin

text \<open>
  Code equations for the arithmetic of \<open>Ieee754\<close>: an operand is decoded once and every
  intermediate result is an argument of the next function, so that evaluation by rewriting
  computes it once.
\<close>

datatype fl = NotANumber | Infinite bool | Finite bool int int

definition fl_build :: "bool \<Rightarrow> int \<Rightarrow> int \<Rightarrow> fl" where
  "fl_build s b frac =
     (if b = 2047 then (if frac = 0 then Infinite s else NotANumber)
      else if b = 0 then Finite s frac (- 1074) else Finite s (frac + 4503599627370496) (b - 1075))"

definition fl_fields :: "int \<Rightarrow> int \<Rightarrow> fl" where
  "fl_fields hi frac = (if 2048 \<le> hi then fl_build True (hi - 2048) frac else fl_build False hi frac)"

definition fl_bits :: "int \<Rightarrow> fl" where
  "fl_bits u = fl_fields (u div 4503599627370496) (u mod 4503599627370496)"

definition fl_of :: "f64 \<Rightarrow> fl" where
  "fl_of x = fl_bits (uint x)"

lemma fl_of_eq:
  "fl_of x =
     (if is_nan x then NotANumber else if is_inf x then Infinite (f_sign x)
      else Finite (f_sign x) (f_mant x) (f_exp x))"
proof -
  have u: "0 \<le> uint x" "uint x < 2 ^ 64" using uint_lt2p [of x] by simp_all
  then have hi: "0 \<le> uint x div 2 ^ 52" "uint x div 2 ^ 52 < 4096"
    by (simp_all add: pos_imp_zdiv_nonneg_iff)
  have s: "f_sign x \<longleftrightarrow> 2048 \<le> uint x div 2 ^ 52" by (auto simp: f_sign_def)
  have b: "f_biased x = (if f_sign x then uint x div 2 ^ 52 - 2048 else uint x div 2 ^ 52)"
    using int_mod_half [of "uint x div 2 ^ 52" 2048] hi by (simp add: f_biased_def s)
  show ?thesis
    using s b
    by (auto simp: fl_of_def fl_bits_def fl_fields_def fl_build_def is_nan_def is_inf_def f_frac_def
        f_mant_def f_exp_def)
qed

lemma fl_mant_nonneg: "0 \<le> f_mant x"
  by (simp add: f_mant_def f_frac_def)

lemma fl_zero: "is_zero x \<longleftrightarrow> is_finite x \<and> f_mant x = 0"
proof -
  have "f_mag x = f_biased x * 2 ^ 52 + f_frac x"
  proof -
    have "uint x mod (2 ^ 52 * 2048) = 2 ^ 52 * (uint x div 2 ^ 52 mod 2048) + uint x mod 2 ^ 52"
      by (rule zmod_zmult2_eq) simp
    then show ?thesis by (simp add: f_mag_def f_biased_def f_frac_def)
  qed
  moreover have "0 \<le> f_biased x" "0 \<le> f_frac x" by (simp_all add: f_biased_def f_frac_def)
  ultimately show ?thesis
    by (auto simp: is_zero_def is_finite_def f_mant_def)
qed

section \<open>Rounding\<close>

primrec num_len :: "num \<Rightarrow> int" where
  "num_len num.One = 1"
| "num_len (num.Bit0 n) = 1 + num_len n"
| "num_len (num.Bit1 n) = 1 + num_len n"

lemma bitlen_numeral: "bitlen (numeral n) = num_len n"
proof (induction n)
  case One
  show ?case by (simp add: bitlen.simps [of 1] bitlen.simps [of 0])
next
  case (Bit0 n)
  then show ?case by (subst bitlen.simps) simp
next
  case (Bit1 n)
  then show ?case by (subst bitlen.simps) simp
qed

lemma bitlen_code [code]:
  "bitlen 0 = 0" "bitlen (Int.Pos n) = num_len n" "bitlen (Int.Neg n) = 0"
  by (simp_all add: bitlen_numeral bitlen.simps [of 0] bitlen.simps [of "- numeral n"])

fun pow2 :: "nat \<Rightarrow> int" where
  "pow2 n = (if n = 0 then 1 else 2 * pow2 (n - 1))"

declare pow2.simps [simp del]

lemma pow2_eq: "pow2 n = 2 ^ n"
  by (induction n) (simp_all add: pow2.simps [of 0] pow2.simps [of "Suc _"])

definition rne_parts :: "int \<Rightarrow> int \<Rightarrow> int \<Rightarrow> int" where
  "rne_parts h r half = (if half < r \<or> r = half \<and> odd h then h + 1 else h)"

definition rne_div :: "int \<Rightarrow> int \<Rightarrow> int" where
  "rne_div m p = rne_parts (m div p) (m mod p) (p div 2)"

definition round_join :: "int \<Rightarrow> int \<Rightarrow> int" where
  "round_join q m = min ((q + 1074) * 4503599627370496 + m) 9218868437227405312"

definition round_at :: "int \<Rightarrow> int \<Rightarrow> int \<Rightarrow> int" where
  "round_at q m e =
     round_join q (if q \<le> e then m * pow2 (nat (e - q)) else rne_div m (pow2 (nat (q - e))))"

definition round_bits :: "int \<Rightarrow> int \<Rightarrow> int" where
  "round_bits m e = (if m \<le> 0 then 0 else round_at (max (e + bitlen m - 53) (- 1074)) m e)"

lemma rne_div_eq: "0 < d \<Longrightarrow> rne_div m (2 ^ nat d) = rne m d"
proof -
  assume "0 < d"
  then have "nat d = Suc (nat (d - 1))" by simp
  then have "(2 :: int) ^ nat d div 2 = 2 ^ nat (d - 1)" by simp
  then show ?thesis by (simp add: rne_div_def rne_parts_def rne_def pow2_eq Let_def)
qed

lemma round64_code [code]: "round64 s m e = f_pack s (round_bits m e)"
proof -
  have "round_mag 53 (- 1074) 11 m e = round_bits m e"
    by (auto simp: round_mag_def round_bits_def round_at_def round_join_def rne_div_eq pow2_eq Let_def)
  then show ?thesis by (simp add: round64_def)
qed

text \<open>Rounding does not depend on how the exact value is scaled.\<close>

lemma bitlen_double: "0 < m \<Longrightarrow> bitlen (m * 2) = bitlen m + 1"
  by (subst bitlen.simps) simp

lemma bitlen_shift: "0 < m \<Longrightarrow> bitlen (m * 2 ^ j) = bitlen m + int j"
proof (induction j)
  case (Suc j)
  then show ?case using bitlen_double [of "m * 2 ^ j"] by (simp add: mult.left_commute mult.commute [of _ 2])
qed simp

lemma rne_shift:
  assumes "0 < d"
  shows "rne (m * 2 ^ j) (d + int j) = rne m d"
proof -
  have n: "nat (d + int j) = nat d + j" "nat (d + int j - 1) = nat (d - 1) + j"
    using assms by auto
  have q: "m * 2 ^ j div 2 ^ (nat d + j) = m div 2 ^ nat d"
    by (simp add: power_add)
  have r: "m * 2 ^ j mod 2 ^ (nat d + j) = m mod 2 ^ nat d * 2 ^ j"
    by (simp add: power_add mult_mod_left)
  show ?thesis by (simp add: rne_def n q r power_add Let_def)
qed

lemma rne_exact:
  assumes "j \<le> i" "0 < j"
  shows "rne (m * 2 ^ i) (int j) = m * 2 ^ (i - j)"
proof -
  have "(2 :: int) ^ i = 2 ^ (i - j) * 2 ^ j"
    using assms by (simp add: power_add [symmetric])
  then have eq: "m * 2 ^ i = m * 2 ^ (i - j) * 2 ^ j" by simp
  have "m * 2 ^ i div 2 ^ j = m * 2 ^ (i - j)" "m * 2 ^ i mod 2 ^ j = 0"
    unfolding eq by simp_all
  moreover have "(2 :: int) ^ nat (int j - 1) \<noteq> 0" "\<not> (2 :: int) ^ nat (int j - 1) < 0" by simp_all
  ultimately show ?thesis by (simp add: rne_def Let_def)
qed

lemma round_mag_shift:
  assumes m: "0 < m"
  shows "round_mag p emin w (m * 2 ^ j) (e - int j) = round_mag p emin w m e"
proof -
  define q where "q = max (e + bitlen m - int p) emin"
  have q': "max (e - int j + bitlen (m * 2 ^ j) - int p) emin = q"
    using m by (simp add: bitlen_shift q_def)
  have part: "(if q \<le> e - int j then m * 2 ^ j * 2 ^ nat (e - int j - q) else rne (m * 2 ^ j) (q - (e - int j))) =
      (if q \<le> e then m * 2 ^ nat (e - q) else rne m (q - e))"
  proof -
    consider "q \<le> e - int j" | "e - int j < q" "q \<le> e" | "e < q" by linarith
    then show ?thesis
    proof cases
      case 1
      then have "nat (e - q) = j + nat (e - int j - q)" by simp
      then show ?thesis using 1 by (simp add: power_add)
    next
      case 2
      then have "rne (m * 2 ^ j) (int (nat (q - (e - int j)))) = m * 2 ^ (j - nat (q - (e - int j)))"
        by (intro rne_exact) auto
      moreover have "j - nat (q - (e - int j)) = nat (e - q)" using 2 by simp
      ultimately show ?thesis using 2 by simp
    next
      case 3
      then show ?thesis using rne_shift [of "q - e" m j] by (simp add: algebra_simps)
    qed
  qed
  have "0 < m * 2 ^ j" using m by simp
  then have "\<not> m * 2 ^ j \<le> 0" by linarith
  then show ?thesis using m part by (simp add: round_mag_def Let_def q' q_def [symmetric])
qed

lemma round64_shift:
  "0 \<le> m \<Longrightarrow> e \<le> k \<Longrightarrow> round64 s (m * 2 ^ nat (k - e)) e = round64 s m k"
  using round_mag_shift [of m 53 "- 1074" 11 "nat (k - e)" k]
  by (cases "m = 0") (simp_all add: round64_def round_mag_def)

section \<open>Operations\<close>

fun mul_fl :: "fl \<Rightarrow> fl \<Rightarrow> f64" where
  "mul_fl (Finite s m e) (Finite t n k) = round64 (s \<noteq> t) (m * n) (e + k)"
| "mul_fl (Infinite s) (Infinite t) = f_infinity (s \<noteq> t)"
| "mul_fl (Infinite s) (Finite t n k) = (if n = 0 then f_nan else f_infinity (s \<noteq> t))"
| "mul_fl (Finite s m e) (Infinite t) = (if m = 0 then f_nan else f_infinity (s \<noteq> t))"
| "mul_fl NotANumber y = f_nan"
| "mul_fl x NotANumber = f_nan"

lemma fl_classes:
  "is_inf x \<Longrightarrow> \<not> is_nan x" "is_inf x \<Longrightarrow> \<not> is_zero x" "is_nan x \<Longrightarrow> \<not> is_zero x"
  "\<not> is_nan x \<Longrightarrow> \<not> is_inf x \<Longrightarrow> is_zero x \<longleftrightarrow> f_mant x = 0"
  using fl_zero [of x] by (auto simp: is_nan_def is_inf_def is_finite_def)

lemma fmul_code [code]: "fmul a b = mul_fl (fl_of a) (fl_of b)"
  by (auto simp: fl_of_eq fmul_def fl_classes)

definition signed_mant :: "bool \<Rightarrow> int \<Rightarrow> int" where
  "signed_mant s m = (if s then - m else m)"

definition add_sum :: "bool \<Rightarrow> int \<Rightarrow> int \<Rightarrow> f64" where
  "add_sum negative_zero s e = (if s = 0 then f_signed_zero negative_zero else round64 (s < 0) \<bar>s\<bar> e)"

definition add_at :: "bool \<Rightarrow> int \<Rightarrow> int \<Rightarrow> bool \<Rightarrow> int \<Rightarrow> int \<Rightarrow> f64" where
  "add_at s m e t n k =
     (if m = 0 then (if n = 0 then f_signed_zero (s \<and> t) else round64 t n k)
      else if n = 0 then round64 s m e
      else if e \<le> k then add_sum (s \<and> t) (signed_mant s m + signed_mant t n * pow2 (nat (k - e))) e
      else add_sum (s \<and> t) (signed_mant s m * pow2 (nat (e - k)) + signed_mant t n) k)"

definition add_fl :: "f64 \<Rightarrow> fl \<Rightarrow> f64 \<Rightarrow> fl \<Rightarrow> f64" where
  "add_fl a x b y =
     (case x of
        NotANumber \<Rightarrow> f_nan
      | Infinite s \<Rightarrow>
          (case y of NotANumber \<Rightarrow> f_nan | Infinite t \<Rightarrow> if s \<noteq> t then f_nan else a | Finite t n k \<Rightarrow> a)
      | Finite s m e \<Rightarrow>
          (case y of NotANumber \<Rightarrow> f_nan | Infinite t \<Rightarrow> b | Finite t n k \<Rightarrow> add_at s m e t n k))"

lemma signed_mant_0: "signed_mant s 0 = 0"
  by (simp add: signed_mant_def)

lemma add_sum_one: "0 < n \<Longrightarrow> add_sum z (signed_mant t n * 2 ^ j) e = round64 t (n * 2 ^ j) e"
proof -
  assume n: "0 < n"
  then have "0 < n * 2 ^ j" by simp
  then have "\<not> n * 2 ^ j < 0" by linarith
  with n show ?thesis by (simp add: add_sum_def signed_mant_def)
qed

lemma add_at_eq:
  assumes m: "0 \<le> m" "0 \<le> n"
  shows "add_at s m e t n k =
    add_sum (s \<and> t)
      (signed_mant s m * 2 ^ nat (e - min e k) + signed_mant t n * 2 ^ nat (k - min e k)) (min e k)"
proof -
  consider "m = 0" "n = 0" | "m = 0" "0 < n" | "0 < m" "n = 0" | "0 < m" "0 < n"
    using m by linarith
  then show ?thesis
  proof cases
    case 1
    then show ?thesis by (simp add: add_at_def add_sum_def signed_mant_def)
  next
    case 2
    then show ?thesis
      using round64_shift [of n "min e k" k t] by (simp add: add_at_def signed_mant_0 add_sum_one)
  next
    case 3
    then show ?thesis
      using round64_shift [of m "min e k" e s] by (simp add: add_at_def signed_mant_0 add_sum_one)
  next
    case 4
    then show ?thesis by (simp add: add_at_def pow2_eq)
  qed
qed

lemma f_scaled_eq: "f_scaled x e = signed_mant (f_sign x) (f_mant x) * 2 ^ nat (f_exp x - e)"
  by (simp add: f_scaled_def signed_mant_def)

lemma fadd_code [code]: "fadd a b = add_fl a (fl_of a) b (fl_of b)"
  by (auto simp: fl_of_eq fadd_def fl_classes add_fl_def add_at_eq fl_mant_nonneg add_sum_def
      f_scaled_eq Let_def)

definition div_parts :: "bool \<Rightarrow> int \<Rightarrow> int \<Rightarrow> int \<Rightarrow> f64" where
  "div_parts s q r e = round64 s (2 * q + (if r = 0 then 0 else 1)) e"

definition div_at :: "bool \<Rightarrow> int \<Rightarrow> int \<Rightarrow> int \<Rightarrow> f64" where
  "div_at s n d e = div_parts s (n div d) (n mod d) e"

fun div_fl :: "fl \<Rightarrow> fl \<Rightarrow> f64" where
  "div_fl (Finite s m e) (Finite t n k) =
     (if n = 0 then (if m = 0 then f_nan else f_infinity (s \<noteq> t))
      else div_at (s \<noteq> t) (m * 324518553658426726783156020576256) n (e - k - 109))"
| "div_fl (Infinite s) (Infinite t) = f_nan"
| "div_fl (Infinite s) (Finite t n k) = f_infinity (s \<noteq> t)"
| "div_fl (Finite s m e) (Infinite t) = f_signed_zero (s \<noteq> t)"
| "div_fl NotANumber y = f_nan"
| "div_fl x NotANumber = f_nan"

lemma fdiv_code [code]: "fdiv a b = div_fl (fl_of a) (fl_of b)"
  by (auto simp: fl_of_eq fdiv_def fl_classes div_at_def div_parts_def Let_def)

definition sqrt_parts :: "int \<Rightarrow> int \<Rightarrow> int \<Rightarrow> f64" where
  "sqrt_parts n s e = round64 False (2 * s + (if s * s = n then 0 else 1)) e"

definition sqrt_at :: "int \<Rightarrow> int \<Rightarrow> f64" where
  "sqrt_at n e = sqrt_parts n (isqrt n) e"

fun sqrt_fl :: "f64 \<Rightarrow> fl \<Rightarrow> f64" where
  "sqrt_fl x (Finite s m e) =
     (if m = 0 then x else if s then f_nan
      else if even e then sqrt_at (m * 1298074214633706907132624082305024) ((e - 110) div 2 - 1)
      else sqrt_at (m * 2596148429267413814265248164610048) ((e - 111) div 2 - 1))"
| "sqrt_fl x (Infinite s) = (if s then f_nan else x)"
| "sqrt_fl x NotANumber = f_nan"

lemma fsqrt_code [code]: "fsqrt x = sqrt_fl x (fl_of x)"
  by (auto simp: fl_of_eq fsqrt_def fl_classes sqrt_at_def sqrt_parts_def Let_def)

definition isqrt_step :: "int \<Rightarrow> int \<Rightarrow> int" where
  "isqrt_step n r = (if (r + 1) * (r + 1) \<le> n then r + 1 else r)"

lemma isqrt_code [code]:
  "isqrt n = (if n \<le> 0 then 0 else isqrt_step n (2 * isqrt (n div 4)))"
  by (subst isqrt.simps) (simp add: isqrt_step_def Let_def)

section \<open>Sample values\<close>

text \<open>The results on small values that the examples of the other theories evaluate to.\<close>

named_theorems float_samples

lemma float_mul_samples [float_samples]:
  "fmul 0 0 = 0" "fmul 0 f_one = 0" "fmul f_one 0 = 0" "fmul f_one f_one = f_one"
  "fmul f_two 0 = 0" "fmul 0 f_two = 0" "fmul f_one f_two = f_two" "fmul f_two f_one = f_two"
  by code_simp+

lemma float_add_samples [float_samples]:
  "fadd 0 0 = 0" "fadd 0 f_one = f_one" "fadd f_one 0 = f_one" "fadd f_zero 0 = 0"
  "fsub 0 0 = 0" "fsub f_one 0 = f_one" "fsub f_one f_one = 0"
  by code_simp+

lemma float_div_samples [float_samples]:
  "fdiv 0 f_one = 0" "fdiv f_one f_one = f_one" "fsqrt f_one = f_one"
  by code_simp+

lemma float_class_samples [float_samples]:
  "is_finite f_one" "is_finite f_two" "is_finite 0" "\<not> feq f_one 0" "\<not> feq f_two 0" "feq f_one f_one"
  "feq f_two f_two" "flt 0 f_one" "flt 0 f_two" "\<not> flt f_1em12 0" "fabs 0 = 0"
  by code_simp+

end
