(* ===== verification/Transaction_Claims.thy ===== *)
theory Transaction_Claims
  imports Transaction_Laws Float_Code
begin

text \<open>
  The properties of the transactional core, with a world on which each can be seen: an empty
  world and the commit of a sample envelope that creates two cubes, places and tags one
  and puts the other under it.
\<close>

section \<open>Sample worlds\<close>

definition empty_world :: world where
  "empty_world =
     \<lparr>world_address = 1, state = \<lparr>format_version = 1, snapshot_world_id = ''w'', seed = 7,
        max_slots = 16, world_revision = 0, slots = []\<rparr>\<rparr>"

definition sample_lib :: json_lib where
  "sample_lib = one_value_lib (printed_json sample_envelope)"

definition uuid_a :: string where
  "uuid_a = ''00000007-0000-4000-8000-000000000001''"

definition uuid_b :: string where
  "uuid_b = ''00000007-0000-4000-8000-000000000002''"

definition placed :: transform where
  "placed = \<lparr>position_m = (f_one, 0, 0), rotation_xyzw = (0, 0, 0, f_one), scale = (f_two, f_two, f_two)\<rparr>"

definition cube :: "transform \<Rightarrow> parent_identity option \<Rightarrow> string list \<Rightarrow> entity" where
  "cube t p ts =
     \<lparr>prefab = unit_cube, authoring_revision = 1, transform_of = t, parent = p,
      local_transform = default_transform, tags = ts\<rparr>"

definition live :: "string \<Rightarrow> entity \<Rightarrow> slot" where
  "live u e = \<lparr>entity_uuid = u, generation = 1, retired = False, entity_of = Some e\<rparr>"

definition under_a :: "parent_identity option" where
  "under_a = Some \<lparr>parent_uuid = uuid_a, parent_generation = 1\<rparr>"

definition sample_slots :: "slot list" where
  "sample_slots =
     [live uuid_a (cube placed None [''door'', ''lamp'']), live uuid_b (cube placed under_a [])]"

definition sample_snapshot :: snapshot where
  "sample_snapshot =
     \<lparr>format_version = 3, snapshot_world_id = ''w'', seed = 7, max_slots = 16, world_revision = 1,
      slots = sample_slots\<rparr>"

definition sample_bindings :: "created_binding list" where
  "sample_bindings =
     [\<lparr>binding_temporary_id = ''a'', binding_world_id = ''w'', binding_uuid = uuid_a, binding_generation = 1\<rparr>,
      \<lparr>binding_temporary_id = ''b'', binding_world_id = ''w'', binding_uuid = uuid_b, binding_generation = 1\<rparr>]"

definition sample_staging :: staging where
  "sample_staging =
     \<lparr>staged = sample_snapshot\<lparr>world_revision := 0\<rparr>,
      staged_names = [(''b'', (''w'', uuid_b, 1)), (''a'', (''w'', uuid_a, 1))],
      staged_created = sample_bindings\<rparr>"

definition sample_world :: world where
  "sample_world = empty_world\<lparr>state := sample_snapshot\<rparr>"

definition sample_receipt :: receipt where
  "sample_receipt =
     commit_receipt (initial_receipt (None :: unit staging_hooks option) empty_world sample_envelope)
       1 sample_bindings"

lemma sample_uuids:
  "slot_uuid 7 0 = uuid_a" "slot_uuid 7 (Suc 0) = uuid_b" "uuid_a \<noteq> uuid_b" "uuid_b \<noteq> uuid_a"
  by code_simp+

lemma sample_not_nan: "\<not> is_nan f_two" "\<not> is_nan f_one"
  by code_simp+

lemma sample_replacement:
  "replacement_transform placed path index = Inr placed"
  by (simp add: replacement_transform_def squared_norm_def placed_def normalize_zero_def positive_zero_def
      float_samples sample_not_nan Let_def)

lemma sample_uniform: "uniform_positive (scale placed)"
  by (simp add: placed_def float_samples sample_not_nan)

lemma sample_unit: "unit_quat (0, 0, 0, f_one) = (0, 0, 0, f_one)"
  by (simp add: unit_quat_def squared_norm_def float_samples Let_def)

lemma sample_compose: "compose placed default_transform path index = Inr placed"
  by (simp add: compose_def parent_scale_def require_def placed_def default_transform_def sample_unit
      checked_def transform_numbers_def normalize_zero_def positive_zero_def float_samples
      sample_not_nan Let_def)

text \<open>The staged slots after each operation of the sample envelope.\<close>

definition names_ab :: "(string \<times> identity) list" where
  "names_ab = [(''b'', (''w'', uuid_b, 1)), (''a'', (''w'', uuid_a, 1))]"

definition stage_ab :: "slot list \<Rightarrow> staging" where
  "stage_ab ss =
     \<lparr>staged = (state empty_world)\<lparr>slots := ss\<rparr>, staged_names = names_ab, staged_created = sample_bindings\<rparr>"

lemmas sample_simps = live_def cube_def stage_ab_def names_ab_def empty_world_def sample_uuids
  gbind_def gret_def Let_def

lemma sample_create_a:
  "apply_create (None :: unit staging_hooks option) None 1 0 ''a'' unit_cube
     \<lparr>staged = state empty_world, staged_names = [], staged_created = []\<rparr> () =
   ((), Inr \<lparr>staged = (state empty_world)\<lparr>slots := [live uuid_a (cube default_transform None [])]\<rparr>,
       staged_names = [(''a'', (''w'', uuid_a, 1))], staged_created = take 1 sample_bindings\<rparr>)"
  by (simp add: apply_create_def allocate_slot_def use_binding_def new_slot_def new_entity_def
      sample_bindings_def sample_simps)

lemma sample_create_b:
  "apply_create (None :: unit staging_hooks option) None 1 1 ''b'' unit_cube
     \<lparr>staged = (state empty_world)\<lparr>slots := [live uuid_a (cube default_transform None [])]\<rparr>,
       staged_names = [(''a'', (''w'', uuid_a, 1))], staged_created = take 1 sample_bindings\<rparr> () =
   ((), Inr (stage_ab [live uuid_a (cube default_transform None []), live uuid_b (cube default_transform None [])]))"
  by (simp add: apply_create_def allocate_slot_def use_binding_def new_slot_def new_entity_def
      sample_bindings_def sample_simps)

lemma sample_transform_a:
  "apply_transform (None :: unit staging_hooks option) 1 2 (TemporaryTarget ''a'') placed
     (stage_ab [live uuid_a (cube default_transform None []), live uuid_b (cube default_transform None [])]) () =
   ((), Inr (stage_ab [live uuid_a (cube placed None []), live uuid_b (cube default_transform None [])]))"
  by (simp add: apply_transform_def sample_replacement resolve_identity_def has_children_def child_of_def
      parent_of_def entity_at_def map_entity_def subtree_def subtree_loop.simps subtree_child_def
      upt_rec set_slots_def res_simps sample_simps)

lemma sample_reparent_b:
  "apply_reparent 1 3 (TemporaryTarget ''b'') (Some (TemporaryTarget ''a'')) ''preserve_local''
     (stage_ab [live uuid_a (cube placed None []), live uuid_b (cube default_transform None [])]) =
   Inr (stage_ab [live uuid_a (cube placed None []), live uuid_b (cube placed under_a [])])"
  by (simp add: apply_reparent_def resolve_identity_def child_of_def reparent_def attach_def parent_scale_def
      parent_of_def entity_at_def map_entity_def subtree_def subtree_loop.simps subtree_child_def
      sample_compose sample_uniform require_def under_a_def upt_rec set_slots_def res_simps sample_simps)

lemma sample_tags_a:
  "apply_tags 1 4 (EntityTarget ''w'' uuid_a 1) [''lamp'', ''door'']
     (stage_ab [live uuid_a (cube placed None []), live uuid_b (cube placed under_a [])]) =
   Inr (stage_ab sample_slots)"
  by (simp add: apply_tags_def resolve_identity_def sample_slots_def map_entity_def set_slots_def
      res_simps sample_simps)

lemma sample_stage:
  "stage (None :: unit staging_hooks option) None (state empty_world) (operations sample_envelope) () =
     ((), Inr sample_staging)"
proof -
  have r: "world_revision (state empty_world) + 1 = 1" by (simp add: empty_world_def)
  have ops: "operations sample_envelope =
     [EntityCreate ''a'' unit_cube, EntityCreate ''b'' unit_cube, TransformSet (TemporaryTarget ''a'') placed,
      EntityReparent (TemporaryTarget ''b'') (Some (TemporaryTarget ''a'')) ''preserve_local'',
      EntityTagsSet (EntityTarget ''w'' uuid_a 1) [''lamp'', ''door'']]"
    by (simp add: sample_envelope_def sample_operations_def unit_cube_def placed_def uuid_a_def)
  have nums: "Suc 0 = 1" "Suc 1 = 2" "Suc 2 = 3" "Suc 3 = 4" by simp_all
  have "apply_operations (None :: unit staging_hooks option) None 1 0 (operations sample_envelope)
      \<lparr>staged = state empty_world, staged_names = [], staged_created = []\<rparr> () =
    ((), Inr (stage_ab sample_slots))"
    by (simp del: One_nat_def add: ops nums gbind_def gret_def glift_def sample_create_a sample_create_b
        sample_transform_a sample_reparent_b sample_tags_a)
  then show ?thesis
    by (simp add: stage_def r gbind_def gret_def Let_def sample_staging_def sample_snapshot_def stage_ab_def
        empty_world_def staged_version_def sample_slots_def live_def cube_def names_ab_def)
qed

lemma sample_serialize: "serialize sample_lib sample_envelope = Inr ''{}''"
  using serialize_Inr_iff [OF sample_validated one_value_reads_back one_value_dump] one_value_fits
  unfolding sample_lib_def by blast

lemma sample_admission: "admission empty_world sample_lib sample_envelope = Inr ()"
  by (simp add: admission_def sample_serialize) (simp add: empty_world_def sample_envelope_def)

type_synonym bare_observer = "(unit, unit) observer_hooks"

lemma sample_commit:
  "apply_at_boundary sample_lib (None :: unit staging_hooks option) (None :: bare_observer option)
     sample_envelope (empty_world, (), ()) = ((sample_world, (), ()), Inr sample_receipt)"
  by (simp add: apply_at_boundary_def apply_envelope_def Let_def sample_admission sample_stage
      publish_commit_def sample_world_def sample_receipt_def)
    (simp add: empty_world_def sample_staging_def sample_snapshot_def)

section \<open>Deleting the second cube\<close>

definition delete_envelope :: envelope where
  "delete_envelope =
     sample_envelope\<lparr>expected_world_revision := 1,
       operations := [EntityDelete (EntityTarget ''w'' uuid_b 1) ''reject_if_children'']\<rparr>"

definition delete_lib :: json_lib where
  "delete_lib = one_value_lib (printed_json delete_envelope)"

definition deleted_world :: world where
  "deleted_world =
     empty_world\<lparr>state := sample_snapshot\<lparr>world_revision := 2,
       slots := [live uuid_a (cube placed None [''door'', ''lamp'']),
         \<lparr>entity_uuid = uuid_b, generation = 2, retired = False, entity_of = None\<rparr>]\<rparr>\<rparr>"

definition delete_receipt :: receipt where
  "delete_receipt =
     commit_receipt (initial_receipt (None :: unit staging_hooks option) sample_world delete_envelope) 2 []"

lemma delete_validated: "validated_json delete_envelope = Inr (printed_json delete_envelope)"
  by code_simp

lemma delete_serialize: "serialize delete_lib delete_envelope = Inr ''{}''"
  using serialize_Inr_iff [OF delete_validated one_value_reads_back one_value_dump] one_value_fits
  unfolding delete_lib_def by blast

lemma delete_admission: "admission sample_world delete_lib delete_envelope = Inr ()"
  by (simp add: admission_def delete_serialize)
    (simp add: sample_world_def empty_world_def delete_envelope_def sample_envelope_def sample_snapshot_def)

lemma delete_stage:
  "stage (None :: unit staging_hooks option) None (state sample_world) (operations delete_envelope) () =
     ((), Inr \<lparr>staged = (state deleted_world)\<lparr>world_revision := 1\<rparr>, staged_names = [], staged_created = []\<rparr>)"
  by (simp add: stage_def sample_world_def delete_envelope_def apply_delete_def resolve_identity_def
      sample_snapshot_def sample_slots_def has_children_def child_of_def under_a_def tombstone_def
      staged_version_def deleted_world_def set_slots_def glift_def sample_simps)

lemma delete_commit:
  "apply_at_boundary delete_lib (None :: unit staging_hooks option) (None :: bare_observer option)
     delete_envelope (sample_world, (), ()) = ((deleted_world, (), ()), Inr delete_receipt)"
  by (simp add: apply_at_boundary_def apply_envelope_def Let_def delete_admission delete_stage
      publish_commit_def delete_receipt_def)
    (simp add: sample_world_def empty_world_def sample_snapshot_def deleted_world_def)

lemma empty_world_made: "make_world 1 ''w'' 7 16 = Inr empty_world"
  by code_simp

abbreviation reached :: "world \<Rightarrow> world \<Rightarrow> bool" where
  "reached \<equiv> reachable {None :: unit staging_hooks option} {None :: bare_observer option}"

lemma sample_reached: "reached empty_world sample_world"
  using sample_commit unfolding apply_at_boundary_def
  by (rule reachable.call [OF reachable.start, rotated 2]) simp_all

lemma delete_reached: "reached sample_world deleted_world"
  using delete_commit unfolding apply_at_boundary_def
  by (rule reachable.call [OF reachable.start, rotated 2]) simp_all

lemma sample_world_wf: "wf_snapshot (state sample_world)"
  by (rule reachable_wf [OF sample_reached make_world_wf [OF empty_world_made]])

lemma sample_handle:
  "resolve (state sample_world) (EntityTarget ''w'' uuid_b 1) [] path index = Inr 1"
  by (simp add: resolve_identity_def sample_world_def sample_snapshot_def sample_slots_def sample_simps)

lemma deleted_handle:
  "resolve (state deleted_world) (EntityTarget ''w'' uuid_b 1) [] path index =
    Inl (terr ''STALE_HANDLE'' (path @ ''/generation'')
      ''Entity handle is deleted, retired or has a stale generation.'' index)"
  by (simp add: resolve_identity_def deleted_world_def sample_snapshot_def sample_simps)

section \<open>Commit or keep\<close>

definition commit_report :: "world \<Rightarrow> world \<Rightarrow> envelope \<Rightarrow> receipt \<Rightarrow> bool" where
  "commit_report w w' e r \<longleftrightarrow>
     envelope_ok e \<and> world_id e = snapshot_world_id (state w) \<and>
     expected_world_revision e = world_revision (state w) \<and>
     world_revision (state w') = world_revision (state w) + 1 \<and>
     world_revision (state w) < world_revision (state w') \<and>
     receipt_status r = ''committed'' \<and> receipt_errors r = [] \<and>
     receipt_transaction_id r = transaction_id e \<and> receipt_revision r = world_revision (state w')"

lemma committed_report:
  assumes "admission w J e = Inr ()"
  shows "commit_report w (w\<lparr>state := committed_snapshot (state w) st\<rparr>) e
    (commit_receipt (initial_receipt guard w e) (world_revision (state w) + 1) (staged_created st))"
proof -
  note a = admission_Inr [OF assms]
  have "length (transaction_id e) = 36"
    using a by (auto simp: envelope_ok_def dest: canonical_uuid_length)
  then show ?thesis
    using a u64_succ_less by (simp add: commit_report_def committed_snapshot_def commit_receipt_def
        initial_receipt_def empty_receipt_def)
qed

text \<open>C1: A call either leaves the world untouched, and any receipt it returns is a rejection
  with at least one error, no bindings and the current revision; or it commits: the envelope
  satisfies the schema and names this world and its revision, the revision rises by one without
  wrapping, and the receipt reports the new revision and no error.  This holds whatever the
  guard and the observer do, exceptions included.\<close>

theorem call_commits_or_keeps:
  assumes "apply_at_boundary J guard observer e (w, g, obs) = ((w', g', obs'), res)"
  shows "w' = w \<and> (\<forall>r. res = Inr r \<longrightarrow> rejected_receipt w r) \<or> (\<exists>r. res = Inr r \<and> commit_report w w' e r)"
  using assms [unfolded apply_at_boundary_def]
proof (cases rule: apply_envelope_cases)
  case kept
  then show ?thesis by simp
next
  case (committed g1 g2 st)
  then show ?thesis using committed_report [of w J e st guard] by simp
qed

theorem call_commits_or_keeps_witness:
  "sample_world = empty_world \<and> (\<forall>r. Inr sample_receipt = (Inr r :: unit + receipt) \<longrightarrow> rejected_receipt empty_world r) \<or>
    (\<exists>r. Inr sample_receipt = (Inr r :: unit + receipt) \<and> commit_report empty_world sample_world sample_envelope r)"
  by (rule call_commits_or_keeps [OF sample_commit])

section \<open>Reachable worlds\<close>

text \<open>C2: In every world that any sequence of calls leads to from a newly constructed one, with
  any guards, observers and JSON libraries: slot UUIDs are those of their positions, live
  entities are within capacity and carry finite canonical transforms of nonzero scale and sorted
  distinct tags, every parent reference names a live entity with positive uniform scale, the
  hierarchy has no cycle, and the format version is the least that can express the content.\<close>

theorem reachable_world_well_formed:
  assumes "make_world address w seed0 cap = Inr world0" "reachable guards observers world0 world1"
  shows "wf_snapshot (state world1)"
  using reachable_wf [OF assms(2) make_world_wf [OF assms(1)]] .

theorem reachable_world_well_formed_witness: "wf_snapshot (state sample_world)"
  by (rule reachable_world_well_formed [OF empty_world_made sample_reached])

text \<open>C3: A handle that resolved once and later does not, never resolves again: from then on
  every call answers \<open>STALE_HANDLE\<close>, even when the slot holds a new entity or is retired.\<close>

theorem lost_handle_never_returns:
  assumes wf: "wf_snapshot (state w)"
    and r1: "reachable guards observers w w1" and r2: "reachable guards observers w1 w2"
    and live: "resolve (state w) (EntityTarget wid u g) names path index = Inr i"
    and lost: "resolve (state w1) (EntityTarget wid u g) names path index = Inl err"
  shows "resolve (state w2) (EntityTarget wid u g) names' path' index' =
    Inl (terr ''STALE_HANDLE'' (path' @ ''/generation'')
      ''Entity handle is deleted, retired or has a stale generation.'' index')"
proof -
  note wf1 = reachable_wf [OF r1 wf]
  have le: "world_le w w1" "world_le w1 w2"
    using reachable_le [OF r1 wf] reachable_le [OF r2 wf1] by simp_all
  have "stale (state w1) u g" by (rule lost_handle_stale [OF le(1) wf1 live lost])
  then have "stale (state w2) u g" by (rule stale_le) (use le(2) in \<open>simp add: world_le_def\<close>)
  moreover have "wid = snapshot_world_id (state w2)"
    using resolve_entity_target [OF live] le by (simp add: world_le_def)
  ultimately show ?thesis using stale_resolve [OF reachable_wf [OF r2 wf1]] by simp
qed

theorem lost_handle_never_returns_witness:
  "resolve (state deleted_world) (EntityTarget ''w'' uuid_b 1) [] ''/p'' 3 =
    Inl (terr ''STALE_HANDLE'' (''/p'' @ ''/generation'')
      ''Entity handle is deleted, retired or has a stale generation.'' 3)"
  by (rule lost_handle_never_returns [OF sample_world_wf delete_reached reachable.start sample_handle deleted_handle])

section \<open>The hierarchy\<close>

lemma wf_slots_forest: "wf_slots seed0 capacity revision ss \<Longrightarrow> forest ss"
  using link_single_valued [OF wf_slots_uuids] by (auto simp: wf_slots_def forest_def)

definition subtree_updated :: "slot list \<Rightarrow> slot list \<Rightarrow> nat \<Rightarrow> u64 \<Rightarrow> string \<Rightarrow> nat \<Rightarrow> bool" where
  "subtree_updated ss ss' root revision path index \<longleftrightarrow>
     map slot_frame ss' = map slot_frame ss \<and>
     (\<forall>i. i \<notin> descendants ss root \<longrightarrow> ss' ! i = ss ! i) \<and>
     (\<forall>i \<in> descendants ss root. authoring_revision (entity_at ss' i) = revision) \<and>
     transform_of (entity_at ss' root) = transform_of (entity_at ss root) \<and>
     (\<forall>c p. (c, p) \<in> link ss \<longrightarrow> p \<in> descendants ss root \<longrightarrow> recomposed ss' p c path index)"

text \<open>C5: The breadth-first update of a subtree is exact.  On well-formed slots it either fails
  with the error of composing two transforms, never with the one for a cyclic hierarchy, or it
  changes nothing but cached transforms and revisions, none of them outside the subtree: each
  member gets the new revision, the root keeps its transform, and every other member's
  transform is the composition of its parent's and its own local transform.\<close>

theorem subtree_exact:
  assumes wf: "wf_slots seed0 capacity revision0 ss"
    and root: "root < length ss" "entity_of (ss ! root) \<noteq> None"
  shows "case subtree ss root revision path index of
      Inl err \<Rightarrow> \<exists>a b. compose a b path index = Inl err
    | Inr ss' \<Rightarrow> subtree_updated ss ss' root revision path index"
proof (cases "subtree ss root revision path index")
  case (Inl err)
  then show ?thesis using subtree_error [OF Inl wf_slots_forest [OF wf] root] by simp
next
  case (Inr ss')
  note u = subtree_update [OF Inr wf_slots_forest [OF wf] root]
  show ?thesis
    using u(1,4) by (auto simp: Inr subtree_updated_def intro: u(2,3,5))
qed

lemma sample_slots_wf: "wf_slots 7 16 1 sample_slots"
  using sample_world_wf
  by (simp add: wf_snapshot_def sample_world_def sample_snapshot_def empty_world_def)

lemma sample_slots_live: "0 < length sample_slots" "entity_of (sample_slots ! 0) \<noteq> None"
  by (simp_all add: sample_slots_def live_def)

theorem subtree_exact_witness:
  "case subtree sample_slots 0 2 ''/operations/0'' 0 of
      Inl err \<Rightarrow> \<exists>a b. compose a b ''/operations/0'' 0 = Inl err
    | Inr ss' \<Rightarrow> subtree_updated sample_slots ss' 0 2 ''/operations/0'' 0"
  by (rule subtree_exact [OF sample_slots_wf sample_slots_live])

text \<open>C6: On well-formed slots an entity can be put under a live parent unless that parent is
  the entity itself or one of its descendants, and exactly then the call reports a cycle.\<close>

theorem reparent_reports_cycle_iff:
  assumes wf: "wf_slots seed0 capacity revision ss"
    and p: "p < length ss" "entity_of (ss ! p) \<noteq> None"
  shows "reparent ss i (Some p) mode path index = Inl (cycle_error path index) \<longleftrightarrow> p \<in> descendants ss i"
proof -
  note iff = check_ancestors_iff [OF wf p, of i path index]
  from check_ancestors_cases [OF wf p, of i path index "length ss"]
  consider "check_ancestors ss i path index (length ss) (Some p) = Inr ()"
    | "check_ancestors ss i path index (length ss) (Some p) = Inl (cycle_error path index)"
    by auto
  then show ?thesis
  proof cases
    case 1
    then show ?thesis using iff by (auto simp: reparent_def res_simps dest: attach_error)
  next
    case 2
    then show ?thesis using iff by (simp add: reparent_def)
  qed
qed

theorem reparent_reports_cycle_iff_witness:
  "reparent sample_slots 0 (Some 1) ''preserve_world'' ''/operations/0'' 0 =
     Inl (cycle_error ''/operations/0'' 0) \<longleftrightarrow> 1 \<in> descendants sample_slots 0"
  by (rule reparent_reports_cycle_iff [OF sample_slots_wf]) (simp_all add: sample_slots_def live_def)

section \<open>Replay\<close>

text \<open>C4: After a call that committed, a replay of its envelope on the world before it gives the
  same world and the same receipt if it is handed the bindings of that receipt, and with any
  other bindings it does not.\<close>

theorem replay_repeats_commit:
  assumes run: "apply_at_boundary J guard observer e (w, g, obs) = ((w', g', obs'), Inr r)"
    and ok: "receipt_status r = ''committed''"
  shows "replay_at_boundary J bs e w = (w', r) \<longleftrightarrow> bs = receipt_created r"
  using run [unfolded apply_at_boundary_def]
proof (cases rule: apply_envelope_cases)
  case kept
  then show ?thesis using ok by (simp add: rejected_receipt_def)
next
  case (committed g1 g2 st)
  then have "receipt_created r = staged_created st" by (simp add: commit_receipt_def)
  then show ?thesis
    using replay_at_boundary_commit [OF committed(1,2), of bs] committed(3,4) by simp
qed

theorem replay_repeats_commit_witness:
  "replay_at_boundary sample_lib sample_bindings sample_envelope empty_world = (sample_world, sample_receipt) \<longleftrightarrow>
     sample_bindings = receipt_created sample_receipt"
  by (rule replay_repeats_commit [OF sample_commit])
    (simp add: sample_receipt_def commit_receipt_def)

section \<open>Operation indices in errors\<close>

lemma digit_chars: "n < 10 \<Longrightarrow> is_digit_char (digit n) \<and> of_char (digit n) - 48 = n"
  by (auto simp: is_digit_char_def char_between_def digit_def less_eq_char_def of_char_of)

lemma to_string_digits: "list_all is_digit_char (to_string n)"
proof (induction n rule: to_string.induct)
  case (1 n)
  then show ?case by (cases "n < 10") (auto simp: to_string.simps [of n] digit_chars)
qed

lemma decimal_value_snoc:
  "decimal_value (cs @ [c]) n = 10 * decimal_value cs n + (of_char c - 48)"
  by (induction cs arbitrary: n) simp_all

lemma decimal_value_to_string: "decimal_value (to_string n) 0 = n"
proof (induction n rule: to_string.induct)
  case (1 n)
  then show ?case
    by (cases "n < 10") (simp_all add: to_string.simps [of n] decimal_value_snoc digit_chars)
qed

text \<open>C34: The index of an operation survives in the path of a schema error: from the path of any
  error at or below an operation, \<open>schema_error\<close> recovers that operation's index.\<close>

theorem schema_error_recovers_index:
  assumes "n < 2 ^ 64" "rest = [] \<or> hd rest = CHR ''/''"
  shows "operation_index (schema_error (verr code (operation_path n @ rest) message)) = Some n"
proof -
  have d: "\<forall>c \<in> set (to_string n). is_digit_char c"
    using to_string_digits by (simp add: list_all_iff)
  have "takeWhile is_digit_char rest = []" "dropWhile is_digit_char rest = rest"
    using assms(2) by (cases rest; auto simp: is_digit_char_def char_between_def less_eq_char_def)+
  then have "takeWhile is_digit_char (to_string n @ rest) = to_string n"
    "dropWhile is_digit_char (to_string n @ rest) = rest"
    using d by (simp_all add: takeWhile_append2 dropWhile_append2)
  moreover have "operation_path n @ rest = operations_prefix @ to_string n @ rest"
    by (simp add: operation_path_def operations_prefix_def)
  ultimately show ?thesis
    using assms by (simp add: schema_error_def verr_def Let_def decimal_value_to_string del: dropWhile_eq_Nil_conv)
qed

theorem schema_error_recovers_index_witness:
  "operation_index (schema_error (verr ''LIMIT'' (operation_path 42 @ ''/tags'') ''m'')) = Some 42"
  by (rule schema_error_recovers_index) simp_all

end
