(* ===== verification/History_Claims.thy ===== *)
theory History_Claims
  imports History_Laws Transaction_Claims
begin

text \<open>
  The properties of the undo history, with a session on which each can be seen: an edit that
  moves and tags one cube, its undo and its redo.
\<close>

section \<open>Sessions\<close>

text \<open>
  What can happen to a world and its history: edits and navigation through the history, calls
  of the coordinator by others, and clearing.  The timeline is a ghost that no code keeps.
\<close>

inductive session :: "'g staging_hooks option set \<Rightarrow> slot list list \<Rightarrow> world \<Rightarrow> history \<Rightarrow> bool"
  for guards where
  opened: "wf_snapshot (state w) \<Longrightarrow> session guards [authored (slots (state w))] w (new_history w)"
| edited: "session guards timeline w h \<Longrightarrow> guard \<in> guards \<Longrightarrow>
    history_apply J guard e ((w, g), h) = (((w', g'), h'), r) \<Longrightarrow>
    session guards (if receipt_status r = ''committed''
      then take (Suc (cursor (hist_state h))) timeline @ [authored (slots (state w'))] else timeline) w' h'"
| navigated: "session guards timeline w h \<Longrightarrow> guard \<in> guards \<Longrightarrow>
    history_navigate J guard action request ((w, g), h) = (((w', g'), h'), r) \<Longrightarrow>
    session guards timeline w' h'"
| outside: "session guards timeline w h \<Longrightarrow> guard \<in> guards \<Longrightarrow>
    apply_envelope J guard (observer :: (unit, unit) observer_hooks option) bindings e (w, g, obs) =
      ((w', g', obs'), res) \<Longrightarrow> session guards timeline w' h"
| cleared: "session guards timeline w h \<Longrightarrow>
    session guards [authored (slots (state w))] w (clear_history w h)"

lemma tracks_outside:
  assumes tr: "tracks timeline w h"
    and run: "apply_envelope J guard observer bindings e (w, g, obs) = ((w', g', obs'), res)"
  shows "tracks timeline w' h"
  using run
proof (cases rule: apply_envelope_cases)
  case kept
  then show ?thesis using tr by simp
next
  case (committed g1 g2 st)
  have wf: "wf_snapshot (state w)" using tr by (simp add: tracks_def)
  have "world_revision (state w) \<noteq> u64_max" using admission_Inr [OF committed(1)] by simp
  then have "world_revision (state w) < world_revision (state w')"
    using committed(3) u64_succ_less by (simp add: committed_snapshot_def)
  then show ?thesis
    using tr apply_envelope_wf [OF run wf] by (auto simp: tracks_def)
qed

section \<open>A sample session\<close>

text \<open>The world with one cube of a given transform and tags, and its staging.\<close>

definition a_slots :: "u64 \<Rightarrow> transform \<Rightarrow> string list \<Rightarrow> slot list" where
  "a_slots r t ts =
     [live uuid_a ((cube t None ts)\<lparr>authoring_revision := r\<rparr>),
      \<lparr>entity_uuid = uuid_b, generation = 2, retired = False, entity_of = None\<rparr>]"

definition a_world :: "u64 \<Rightarrow> u64 \<Rightarrow> transform \<Rightarrow> string list \<Rightarrow> world" where
  "a_world r q t ts = empty_world\<lparr>state := sample_snapshot\<lparr>world_revision := r, slots := a_slots q t ts\<rparr>\<rparr>"

definition a_staging :: "u64 \<Rightarrow> u64 \<Rightarrow> transform \<Rightarrow> string list \<Rightarrow> staging" where
  "a_staging r q t ts = \<lparr>staged = state (a_world r q t ts), staged_names = [], staged_created = []\<rparr>"

definition handle_a :: target where
  "handle_a = EntityTarget ''w'' uuid_a 1"

definition request_of :: "u64 \<Rightarrow> operation list \<Rightarrow> envelope" where
  "request_of r ops = sample_envelope\<lparr>expected_world_revision := r, operations := ops\<rparr>"

definition edit_ops :: "operation list" where
  "edit_ops = [TransformSet handle_a default_transform, EntityTagsSet handle_a [''x'']]"

definition undo_ops :: "operation list" where
  "undo_ops = [EntityTagsSet handle_a [''door'', ''lamp''], TransformSet handle_a placed]"

lemmas a_simps = a_slots_def a_world_def a_staging_def handle_a_def sample_snapshot_def

lemma default_replacement: "replacement_transform default_transform path index = Inr default_transform"
  by (simp add: replacement_transform_def squared_norm_def default_transform_def normalize_zero_def
      positive_zero_def float_samples sample_not_nan Let_def)

lemma a_transform:
  assumes "\<And>path index. replacement_transform t path index = Inr t"
  shows "apply_transform (None :: unit staging_hooks option) q index handle_a t (a_staging r q0 t0 ts) () =
    ((), Inr (a_staging r q t ts))"
  by (simp add: apply_transform_def assms resolve_identity_def has_children_def child_of_def parent_of_def
      entity_at_def map_entity_def subtree_def subtree_loop.simps subtree_child_def upt_rec set_slots_def
      res_simps a_simps sample_simps)

lemma a_tags:
  "sorted ts \<Longrightarrow> apply_tags q index handle_a ts (a_staging r q0 t ts0) = Inr (a_staging r q t ts)"
  by (simp add: apply_tags_def resolve_identity_def map_entity_def set_slots_def res_simps
      sorted_sort_id a_simps sample_simps)

lemma a_stage:
  assumes "apply_operations (None :: unit staging_hooks option) None (r + 1) 0 ops (a_staging r q0 t0 ts0) () =
      ((), Inr (a_staging r (r + 1) t ts))" and "ts \<noteq> []"
  shows "stage (None :: unit staging_hooks option) None (state (a_world r q0 t0 ts0)) ops () =
    ((), Inr (a_staging r (r + 1) t ts))"
  using assms by (simp add: stage_def staged_version_def gbind_def gret_def a_simps sample_simps)

lemma a_serialize:
  assumes "validated_json e = Inr v"
  shows "serialize sample_lib e = Inr ''{}''"
proof -
  have "json_dump sample_lib v = Some ''{}''" by (simp add: sample_lib_def one_value_lib_def)
  moreover have "\<exists>u. parse sample_lib ''{}'' = Inr u"
    using sample_serialize sample_validated
    by (auto simp: serialize_def rbind_eq_Inr sample_lib_def one_value_lib_def)
  ultimately show ?thesis using assms by (auto simp: serialize_def)
qed

lemma request_ok:
  assumes "list_all operation_ok ops" "ops \<noteq> []" "length ops \<le> 8"
  shows "\<exists>v. validated_json (request_of r ops) = Inr v"
proof -
  have "envelope_ok sample_envelope" using validated_json_iff sample_validated by blast
  then have "envelope_ok (request_of r ops)"
    using assms by (simp add: envelope_ok_def request_of_def sample_envelope_def)
  then show ?thesis using validated_json_iff by blast
qed

lemma sample_ops_ok: "list_all operation_ok edit_ops" "list_all operation_ok undo_ops"
  by code_simp+

lemma sample_ops_serialize:
  "serialize sample_lib (request_of r edit_ops) = Inr ''{}''" "serialize sample_lib (request_of r undo_ops) = Inr ''{}''"
proof -
  have "length edit_ops \<le> 8" "edit_ops \<noteq> []" "length undo_ops \<le> 8" "undo_ops \<noteq> []"
    by (simp_all add: edit_ops_def undo_ops_def)
  then show "serialize sample_lib (request_of r edit_ops) = Inr ''{}''"
    "serialize sample_lib (request_of r undo_ops) = Inr ''{}''"
    using request_ok sample_ops_ok a_serialize by metis+
qed

definition a_receipt :: "u64 \<Rightarrow> receipt" where
  "a_receipt r = empty_receipt\<lparr>receipt_status := ''committed'',
     receipt_transaction_id := transaction_id sample_envelope, receipt_revision := r\<rparr>"

lemma a_coordinate:
  assumes run: "apply_operations (None :: unit staging_hooks option) None (r + 1) 0 ops (a_staging r q0 t0 ts0) () =
      ((), Inr (a_staging r (r + 1) t ts))" and ts: "ts \<noteq> []"
    and ser: "serialize sample_lib (request_of r ops) = Inr ''{}''" and r: "r \<noteq> u64_max"
  shows "coordinate sample_lib (None :: unit staging_hooks option) (request_of r ops) (a_world r q0 t0 ts0, ()) =
    ((a_world (r + 1) (r + 1) t ts, ()), a_receipt (r + 1))"
proof -
  have adm: "admission (a_world r q0 t0 ts0) sample_lib (request_of r ops) = Inr ()"
    using ser r by (simp add: admission_def)
      (simp add: request_of_def sample_envelope_def a_world_def empty_world_def sample_snapshot_def)
  have ops: "operations (request_of r ops) = ops" by (simp add: request_of_def)
  show ?thesis
    by (simp add: coordinate_def apply_at_boundary_def apply_envelope_def Let_def adm ops a_stage [OF run ts]
        publish_commit_def)
      (simp add: a_staging_def a_world_def sample_snapshot_def empty_world_def initial_receipt_def
        commit_receipt_def a_receipt_def empty_receipt_def request_of_def)
qed

lemma edit_run:
  "apply_operations (None :: unit staging_hooks option) None q 0 edit_ops (a_staging r q0 t0 ts0) () =
    ((), Inr (a_staging r q default_transform [''x'']))"
  by (simp add: edit_ops_def gbind_def gret_def a_transform a_tags default_replacement)

lemma undo_run:
  "apply_operations (None :: unit staging_hooks option) None q 0 undo_ops (a_staging r q0 t0 ts0) () =
    ((), Inr (a_staging r q placed [''door'', ''lamp'']))"
  by (simp add: undo_ops_def gbind_def gret_def a_transform a_tags sample_replacement)

lemma sample_inverses:
  "rmap_list (inverse_operation (state (a_world r q placed [''door'', ''lamp'']))) edit_ops = Inr (rev undo_ops)"
  by (simp add: edit_ops_def undo_ops_def handle_a_def a_world_def live_as_def isolated_def entity_at_def
      child_of_def a_slots_def sample_snapshot_def sample_simps)

definition tagged :: "string list" where
  "tagged = [''door'', ''lamp'']"

definition sample_entry :: history_entry where
  "sample_entry = \<lparr>forward = edit_ops, inverse_ops = undo_ops\<rparr>"

definition a_history :: "nat \<Rightarrow> u64 \<Rightarrow> history" where
  "a_history c r =
     \<lparr>hist_entries = sample_entry # replicate 7 blank_entry,
      hist_state = \<lparr>hist_count = 1, cursor = c, expected_revision = r\<rparr>\<rparr>"

lemma request_bounded: "envelope_bounded (request_of r edit_ops)" "envelope_bounded (request_of r undo_ops)"
    "envelope_bounded (request_of r [])"
  unfolding envelope_bounded_def request_of_def sample_envelope_def edit_ops_def undo_ops_def handle_a_def uuid_a_def
  by (simp_all add: operation_limit_def)

lemma request_fields:
  "operations (request_of r ops) = ops" "request_of r ops\<lparr>operations := ops'\<rparr> = request_of r ops'"
  "expected_world_revision (request_of r ops) = r" "unat (budget_max_operations (budget (request_of r ops))) = 8"
  by (simp_all add: request_of_def sample_envelope_def)

lemma a_revision: "world_revision (state (a_world r q t ts)) = r"
  by (simp add: a_world_def)

lemma sample_edit:
  "history_apply sample_lib (None :: unit staging_hooks option) (request_of 2 edit_ops)
     ((a_world 2 1 placed tagged, ()), new_history (a_world 2 1 placed tagged)) =
   (((a_world 3 3 default_transform [''x''], ()), a_history 1 3), a_receipt 3)"
proof -
  have "prepare_edit sample_lib (request_of 2 edit_ops) (state (a_world 2 1 placed tagged))
      (hist_state (new_history (a_world 2 1 placed tagged))) = Inr sample_entry"
  proof -
    have "edit_ops \<noteq> []" "length edit_ops \<le> 8" by (simp_all add: edit_ops_def)
    then show ?thesis
      by (simp add: prepare_edit_def request_bounded request_fields a_revision serialized_check_def sample_ops_serialize
          fits_limit_def new_history_def sample_inverses tagged_def sample_entry_def envelope_limit_def
          history_capacity_def)
  qed
  moreover have "record_edit sample_entry 3 (new_history (a_world 2 1 placed tagged)) = a_history 1 3"
    by (simp add: record_edit_def new_history_def a_history_def history_capacity_def Let_def
        eval_nat_numeral)
  moreover have "coordinate sample_lib (None :: unit staging_hooks option) (request_of 2 edit_ops) (a_world 2 1 placed tagged, ()) =
      ((a_world 3 3 default_transform [''x''], ()), a_receipt 3)"
    using a_coordinate [OF edit_run _ sample_ops_serialize(1), of 2 1 placed tagged] by simp
  ultimately show ?thesis
    by (simp add: history_apply_def Let_def a_receipt_def)
qed

lemma sample_undo:
  "history_navigate sample_lib (None :: unit staging_hooks option) Undo (request_of 3 [])
     ((a_world 3 3 default_transform [''x''], ()), a_history 1 3) =
   (((a_world 4 4 placed tagged, ()), a_history 0 4), a_receipt 4)"
proof -
  have "length undo_ops \<le> 8" by (simp add: undo_ops_def)
  then have "prepare_navigation sample_lib Undo (request_of 3 []) (state (a_world 3 3 default_transform [''x''])) (a_history 1 3) =
      Inr (request_of 3 undo_ops)"
    by (simp add: prepare_navigation_def request_bounded request_fields a_revision a_history_def sample_entry_def
        serialized_check_def sample_ops_serialize envelope_limit_def)
  moreover have "coordinate sample_lib (None :: unit staging_hooks option) (request_of 3 undo_ops)
      (a_world 3 3 default_transform [''x''], ()) = ((a_world 4 4 placed tagged, ()), a_receipt 4)"
    using a_coordinate [OF undo_run _ sample_ops_serialize(2), of 3 3 default_transform "[''x'']"]
    by (simp add: tagged_def)
  ultimately show ?thesis
    by (simp add: history_navigate_def a_receipt_def move_cursor_def a_history_def)
qed

lemma sample_redo:
  "history_navigate sample_lib (None :: unit staging_hooks option) Redo (request_of 4 [])
     ((a_world 4 4 placed tagged, ()), a_history 0 4) =
   (((a_world 5 5 default_transform [''x''], ()), a_history 1 5), a_receipt 5)"
proof -
  have "length edit_ops \<le> 8" by (simp add: edit_ops_def)
  then have "prepare_navigation sample_lib Redo (request_of 4 []) (state (a_world 4 4 placed tagged)) (a_history 0 4) =
      Inr (request_of 4 edit_ops)"
    by (simp add: prepare_navigation_def request_bounded request_fields a_revision a_history_def sample_entry_def
        serialized_check_def sample_ops_serialize envelope_limit_def)
  moreover have "coordinate sample_lib (None :: unit staging_hooks option) (request_of 4 edit_ops)
      (a_world 4 4 placed tagged, ()) = ((a_world 5 5 default_transform [''x''], ()), a_receipt 5)"
    using a_coordinate [OF edit_run _ sample_ops_serialize(1), of 4 4 placed tagged] by simp
  ultimately show ?thesis
    by (simp add: history_navigate_def a_receipt_def move_cursor_def a_history_def)
qed

lemma start_world: "a_world 2 1 placed tagged = deleted_world"
  by (simp add: a_world_def deleted_world_def a_slots_def tagged_def cube_def live_def)

lemma start_wf: "wf_snapshot (state (a_world 2 1 placed tagged))"
  unfolding start_world
  by (rule reachable_wf [OF delete_reached sample_world_wf])

definition no_guards :: "unit staging_hooks option set" where
  "no_guards = {None}"

definition content_a :: "slot list" where
  "content_a = authored (slots (state (a_world 2 1 placed tagged)))"

definition content_b :: "slot list" where
  "content_b = authored (slots (state (a_world 3 3 default_transform [''x''])))"

lemma session_start: "session no_guards [content_a] (a_world 2 1 placed tagged) (new_history (a_world 2 1 placed tagged))"
  unfolding content_a_def by (rule session.opened [OF start_wf])

lemma session_edit: "session no_guards [content_a, content_b] (a_world 3 3 default_transform [''x'']) (a_history 1 3)"
  using session.edited [OF session_start _ sample_edit]
  by (simp add: no_guards_def new_history_def content_b_def a_receipt_def)

section \<open>Undo and redo are exact\<close>

text \<open>C14: Throughout every session of edits, undos, redos, clearing and edits by others, the kept
  operations of a history are exact: the cursor lies within the entries, every entry's forward
  operations lead from one content of the timeline to the next and its inverse operations
  back, and unless somebody else has edited the world since, the world shows the content
  under the cursor.\<close>

theorem session_tracks_timeline:
  assumes "session guards timeline w h"
  shows "tracks timeline w h"
  using assms
proof (induction rule: session.induct)
  case (edited timeline w h guard J e g w' g' h' r)
  then show ?case
    using tracks_apply [OF edited.IH edited.hyps(3)] history_apply_kept [OF edited.hyps(3)]
    by (cases "receipt_status r = ''committed''") auto
next
  case (navigated timeline w h guard J action request g w' g' h' r)
  then show ?case
    using tracks_navigate [OF navigated.IH navigated.hyps(3)] history_navigate_kept [OF navigated.hyps(3)]
    by (cases "receipt_status r = ''committed''") auto
qed (auto intro: tracks_new tracks_clear tracks_outside)

theorem session_tracks_timeline_witness:
  "tracks [content_a, content_b] (a_world 3 3 default_transform [''x'']) (a_history 1 3)"
  by (rule session_tracks_timeline [OF session_edit])

text \<open>C15: An edit through the history that commits appends the new content to the timeline behind
  the cursor, dropping what could have been redone; one that does not commit changes neither
  the world nor the history.\<close>

theorem edit_extends_timeline:
  assumes "tracks timeline w h"
    and "history_apply J guard e ((w, g), h) = (((w', g'), h'), r)"
  shows "if receipt_status r = ''committed''
    then tracks (take (Suc (cursor (hist_state h))) timeline @ [authored (slots (state w'))]) w' h' \<and>
      cursor (hist_state h') = Suc (cursor (hist_state h))
    else w' = w \<and> h' = h"
  using tracks_apply [OF assms] history_apply_kept [OF assms(2)] by simp

theorem edit_extends_timeline_witness:
  "if receipt_status (a_receipt 3) = ''committed''
    then tracks (take (Suc (cursor (hist_state (new_history (a_world 2 1 placed tagged))))) [content_a] @
        [authored (slots (state (a_world 3 3 default_transform [''x''])))])
      (a_world 3 3 default_transform [''x'']) (a_history 1 3) \<and>
      cursor (hist_state (a_history 1 3)) = Suc (cursor (hist_state (new_history (a_world 2 1 placed tagged))))
    else a_world 3 3 default_transform [''x''] = a_world 2 1 placed tagged \<and>
      a_history 1 3 = new_history (a_world 2 1 placed tagged)"
  by (rule edit_extends_timeline [OF tracks_new [OF start_wf, folded content_a_def] sample_edit])

text \<open>C16: Navigation moves the cursor over the timeline and nothing else: after an undo or redo that
  commits, the world shows the neighbouring content, the timeline is the same and the cursor
  has moved by one within the entries; one that does not commit changes neither the world nor
  the history.\<close>

theorem navigation_moves_cursor:
  assumes "tracks timeline w h"
    and "history_navigate J guard action request ((w, g), h) = (((w', g'), h'), r)"
  shows "if receipt_status r = ''committed''
    then tracks timeline w' h' \<and> authored (slots (state w')) = timeline ! cursor (hist_state h') \<and>
      (action = Undo \<and> Suc (cursor (hist_state h')) = cursor (hist_state h) \<or>
       action = Redo \<and> cursor (hist_state h') = Suc (cursor (hist_state h)) \<and>
         cursor (hist_state h') \<le> hist_count (hist_state h))
    else w' = w \<and> h' = h"
  using tracks_navigate [OF assms] history_navigate_kept [OF assms(2)] by simp

lemma sample_tracked: "tracks [content_a, content_b] (a_world 3 3 default_transform [''x'']) (a_history 1 3)"
  using tracks_apply [OF tracks_new [OF start_wf, folded content_a_def] sample_edit]
  by (simp add: new_history_def content_b_def a_receipt_def)

theorem navigation_moves_cursor_witness:
  "if receipt_status (a_receipt 4) = ''committed''
    then tracks [content_a, content_b] (a_world 4 4 placed tagged) (a_history 0 4) \<and>
      authored (slots (state (a_world 4 4 placed tagged))) = [content_a, content_b] ! cursor (hist_state (a_history 0 4)) \<and>
      (Undo = Undo \<and> Suc (cursor (hist_state (a_history 0 4))) = cursor (hist_state (a_history 1 3)) \<or>
       Undo = Redo \<and> cursor (hist_state (a_history 0 4)) = Suc (cursor (hist_state (a_history 1 3))) \<and>
         cursor (hist_state (a_history 0 4)) \<le> hist_count (hist_state (a_history 1 3)))
    else a_world 4 4 placed tagged = a_world 3 3 default_transform [''x''] \<and> a_history 0 4 = a_history 1 3"
  by (rule navigation_moves_cursor [OF sample_tracked sample_undo])

text \<open>C13: Undo takes back a whole edit, however often its operations touch the same entity, and redo
  brings it again: after an edit, an undo and a redo that commit, the world shows, up to
  revision stamps, the content from before the edit and then the content after it.\<close>

theorem undo_redo_restore:
  assumes tr: "tracks timeline w h"
    and edit: "history_apply J guard e ((w, g), h) = (((w1, g1), h1), r1)" "receipt_status r1 = ''committed''"
    and undo: "history_navigate J1 guard1 Undo q1 ((w1, g2), h1) = (((w2, g3), h2), r2)" "receipt_status r2 = ''committed''"
    and redo: "history_navigate J2 guard2 Redo q2 ((w2, g4), h2) = (((w3, g5), h3), r3)" "receipt_status r3 = ''committed''"
  shows "authored (slots (state w2)) = authored (slots (state w)) \<and>
    authored (slots (state w3)) = authored (slots (state w1))"
proof -
  let ?c = "cursor (hist_state h)"
  let ?t = "take (Suc ?c) timeline @ [authored (slots (state w1))]"
  have t1: "tracks ?t w1 h1" "cursor (hist_state h1) = Suc ?c"
    using tracks_apply [OF tr edit] by simp_all
  note u = tracks_navigate [OF t1(1) undo]
  then have c2: "cursor (hist_state h2) = ?c" using t1(2) by simp
  note v = tracks_navigate [OF conjunct1 [OF u] redo]
  then have c3: "cursor (hist_state h3) = Suc ?c" using c2 by simp
  have len: "length timeline = Suc (hist_count (hist_state h))" "?c \<le> hist_count (hist_state h)"
    using tr by (simp_all add: tracks_def)
  have "expected_revision (hist_state h) = world_revision (state w)"
    using edit prepare_edit_Inr tr
    by (fastforce simp: history_apply_def Let_def history_rejected_def empty_receipt_def tracks_def
        split: sum.splits prod.splits)
  then have "authored (slots (state w)) = timeline ! ?c" using tr by (simp add: tracks_def)
  then show ?thesis using u v c2 c3 len by (simp add: nth_append)
qed

theorem undo_redo_restore_witness:
  "authored (slots (state (a_world 4 4 placed tagged))) = authored (slots (state (a_world 2 1 placed tagged))) \<and>
   authored (slots (state (a_world 5 5 default_transform [''x'']))) =
     authored (slots (state (a_world 3 3 default_transform [''x''])))"
  by (rule undo_redo_restore [OF tracks_new [OF start_wf] sample_edit _ sample_undo _ sample_redo])
    (simp_all add: a_receipt_def)

end
