(* ===== verification/Policy.thy ===== *)
theory Policy
  imports Transaction_Laws
begin

text \<open>
  The admission policy of \<open>include/omniweft/policy.hpp\<close> and \<open>src/policy.cpp\<close>: a ledger that
  charges two principals for requests and for the slots they sponsor, the lease of an admitted
  request, and the staging guard that keeps a principal's edits within its region and budget.
  The guard's hooks work on a state that holds the ledger, the lease and the guard; the mutex
  is not modelled, since a guard holds it from its admission to its end.  \<open>size_t\<close> counters are
  naturals, with the wrap-around of their subtractions written out.
\<close>

section \<open>Grants\<close>

definition principal_count :: nat where
  "principal_count = 2"

definition slot_count :: nat where
  "slot_count = 8"

definition body_limit :: nat where
  "body_limit = 16384"

definition policy_operation_limit :: nat where
  "policy_operation_limit = 4"

definition skeleton_charge :: nat where
  "skeleton_charge = 128"

definition cube_charge :: nat where
  "cube_charge = 256"

text \<open>The \<open>double\<close> of a small integer literal.\<close>

definition f_int :: "int \<Rightarrow> f64" where
  "f_int n = (if n = 0 then f_zero else round64 (n < 0) \<bar>n\<bar> 0)"

record grant =
  grant_name :: string
  grant_lower :: vec3
  grant_upper :: vec3
  retained_limit :: nat
  working_limit :: nat
  observation_limit :: nat

definition grants :: "grant list" where
  "grants =
     [\<lparr>grant_name = ''west'', grant_lower = (f_int (- 8), f_int (- 4), f_int (- 4)),
       grant_upper = (f_int (- 1), f_int 4, f_int 4),
       retained_limit = 512, working_limit = 98304, observation_limit = 512\<rparr>,
      \<lparr>grant_name = ''east'', grant_lower = (f_int 1, f_int (- 4), f_int (- 4)),
       grant_upper = (f_int 8, f_int 4, f_int 4),
       retained_limit = 2048, working_limit = 262144, observation_limit = 4096\<rparr>]"

record denial =
  denied_code :: string
  denied_path :: string

definition denied :: "string \<Rightarrow> string \<Rightarrow> denial" where
  "denied code path = \<lparr>denied_code = code, denied_path = path\<rparr>"

definition grant_of :: "nat \<Rightarrow> denial + grant" where
  "grant_of p = (if p \<ge> principal_count then Inl (denied ''NOT_AUTHORIZED'' ''/principal'') else Inr (grants ! p))"

definition charge :: "nat \<Rightarrow> nat" where
  "charge n = 65536 + 1024 * slot_count + 8 * n"

definition working_charge :: "nat \<Rightarrow> denial + nat" where
  "working_charge n = (if n > body_limit then Inl (denied ''BUDGET_EXCEEDED'' ''/body'') else Inr (charge n))"

section \<open>Bytes of an envelope\<close>

fun target_strings :: "target \<Rightarrow> string list" where
  "target_strings (TemporaryTarget name) = [name]"
| "target_strings (EntityTarget w u g) = [w, u]"

fun operation_strings :: "operation \<Rightarrow> string list" where
  "operation_strings (EntityCreate name pf) = [name, pf]"
| "operation_strings (EntityDelete t policy) = target_strings t @ [policy]"
| "operation_strings (TransformSet t v) = target_strings t"
| "operation_strings (EntityReparent t p mode) = target_strings t"
| "operation_strings (EntityTagsSet t ts) = target_strings t"

definition add_field :: "nat \<Rightarrow> string \<Rightarrow> terror + nat" where
  "add_field n s =
     (if length s > body_limit \<or> n > body_limit - length s
      then Inl (terr_batch ''BUDGET_EXCEEDED'' ''/budget'' ''Typed input exceeds the policy body allowance.'')
      else Inr (n + length s))"

fun add_fields :: "nat \<Rightarrow> string list \<Rightarrow> terror + nat" where
  "add_fields n [] = Inr n"
| "add_fields n (s # ss) = rbind (add_field n s) (\<lambda>n'. add_fields n' ss)"

fun unadmitted :: "operation \<Rightarrow> bool" where
  "unadmitted (EntityReparent t p mode) = True"
| "unadmitted (EntityTagsSet t ts) = True"
| "unadmitted _ = False"

definition field_bytes :: "envelope \<Rightarrow> terror + nat" where
  "field_bytes e =
     (if length (operations e) > policy_operation_limit \<or>
         length (operations e) > unat (budget_max_operations (budget e))
      then Inl (terr_batch ''BUDGET_EXCEEDED'' ''/operations'' ''Operation allowance exceeded.'')
      else if list_ex unadmitted (operations e)
      then Inl (terr_batch ''UNSUPPORTED_OPERATION'' ''/operations''
             ''Native metadata or hierarchy is not admitted by this policy.'')
      else add_fields 0
        ([protocol_version e, world_id e, transaction_id e, epoch (idempotency e), apply_mode (apply_at e)] @
         concat (map operation_strings (operations e))))"

section \<open>Ledger and lease\<close>

record usage =
  retained :: "nat list"
  working :: "nat list"
  requests :: "nat list"
  global_requests :: nat
  usage_revision :: u64

record ledger =
  ledger_usage :: usage
  sponsors :: "int list"
  ledger_live :: "bool list"
  ledger_world :: "nat option"
  global_limit :: nat

record lease =
  lease_held :: bool
  lease_principal :: nat
  lease_bytes :: nat
  claimed :: bool

definition empty_usage :: usage where
  "empty_usage =
     \<lparr>retained = replicate principal_count 0, working = replicate principal_count 0,
      requests = replicate principal_count 0, global_requests = 0, usage_revision = 0\<rparr>"

definition new_ledger :: "nat \<Rightarrow> string + ledger" where
  "new_ledger limit =
     (if limit < 1 \<or> limit > 2 then Inl ''INVALID_POLICY_LIMIT''
      else Inr \<lparr>ledger_usage = empty_usage, sponsors = replicate slot_count (- 1),
                ledger_live = replicate slot_count False, ledger_world = None, global_limit = limit\<rparr>)"

definition new_lease :: "nat \<Rightarrow> nat \<Rightarrow> lease" where
  "new_lease p n = \<lparr>lease_held = True, lease_principal = p, lease_bytes = n, claimed = False\<rparr>"

text \<open>Moving a lease leaves an empty one behind.\<close>

definition move_lease :: "lease \<Rightarrow> lease \<times> lease" where
  "move_lease l = (l, l\<lparr>lease_held := False\<rparr>)"

definition size_minus :: "nat \<Rightarrow> nat \<Rightarrow> nat" where
  "size_minus a b = (2 ^ 64 + a - b) mod 2 ^ 64"

definition list_map :: "(nat \<Rightarrow> nat) \<Rightarrow> nat \<Rightarrow> nat list \<Rightarrow> nat list" where
  "list_map f i xs = xs[i := f (xs ! i)]"

definition refund :: "lease \<Rightarrow> ledger \<Rightarrow> ledger" where
  "refund l led =
     (if \<not> lease_held l then led
      else led\<lparr>ledger_usage := (ledger_usage led)
        \<lparr>working := list_map (\<lambda>v. size_minus v (charge (lease_bytes l))) (lease_principal l) (working (ledger_usage led)),
         requests := list_map (\<lambda>v. size_minus v 1) (lease_principal l) (requests (ledger_usage led)),
         global_requests := size_minus (global_requests (ledger_usage led)) 1\<rparr>\<rparr>)"

definition admit :: "nat \<Rightarrow> nat \<Rightarrow> ledger \<Rightarrow> ledger \<times> (denial + lease)" where
  "admit p n led =
     (let u = ledger_usage led in
      case rbind (grant_of p) (\<lambda>limits.
           rbind (working_charge n) (\<lambda>c.
           rbind (require (\<not> (requests u ! p \<ge> 1 \<or> global_requests u \<ge> global_limit led))
             (denied ''BUDGET_EXCEEDED'' ''/queue'')) (\<lambda>_.
           rbind (require (c \<le> size_minus (working_limit limits) (working u ! p))
             (denied ''BUDGET_EXCEEDED'' ''/memory/working'')) (\<lambda>_.
           Inr c)))) of
        Inl d \<Rightarrow> (led, Inl d)
      | Inr c \<Rightarrow>
          (led\<lparr>ledger_usage := u\<lparr>working := list_map (\<lambda>v. v + c) p (working u),
             requests := list_map (\<lambda>v. v + 1) p (requests u), global_requests := global_requests u + 1\<rparr>\<rparr>,
           Inr (new_lease p n)))"

section \<open>The guard\<close>

record guard =
  guard_sponsors :: "int list"
  guard_live :: "bool list"
  unplaced :: "bool list"
  guard_retained :: "nat list"
  begun :: bool
  finished :: bool

record policy_state =
  the_ledger :: ledger
  the_lease :: lease
  the_guard :: guard
  terminated :: bool

definition new_guard :: guard where
  "new_guard =
     \<lparr>guard_sponsors = replicate slot_count 0, guard_live = replicate slot_count False,
      unplaced = replicate slot_count False, guard_retained = replicate principal_count 0,
      begun = False, finished = False\<rparr>"

definition slot_agrees :: "ledger \<Rightarrow> snapshot \<Rightarrow> nat \<Rightarrow> bool" where
  "slot_agrees led sn i \<longleftrightarrow>
     (let present = i < length (slots sn) in
      (sponsors led ! i \<ge> 0) = present \<and>
      ledger_live led ! i = (present \<and> entity_of (slots sn ! i) \<noteq> None))"

definition flat_world :: "snapshot \<Rightarrow> bool" where
  "flat_world sn \<longleftrightarrow>
     format_version sn = 1 \<and>
     \<not> list_ex (\<lambda>s. case entity_of s of Some e \<Rightarrow> parent e \<noteq> None \<or> tags e \<noteq> [] | None \<Rightarrow> False) (slots sn)"

definition begin_checks :: "world \<Rightarrow> snapshot \<Rightarrow> envelope \<Rightarrow> ledger \<Rightarrow> lease \<Rightarrow> terror + unit" where
  "begin_checks w sn e led l =
     rbind (field_bytes e) (\<lambda>n.
     rbind (require (flat_world sn) (terr_batch ''UNSUPPORTED_OPERATION'' ''/policy''
       ''Tagged or hierarchical worlds require a compatible policy.'')) (\<lambda>_.
     rbind (require (n \<le> lease_bytes l) (terr_batch ''BUDGET_EXCEEDED'' ''/memory/working''
       ''Typed fields exceed the reserved body allowance.'')) (\<lambda>_.
     rbind (require (\<not> (ledger_world led \<noteq> None \<and> ledger_world led \<noteq> Some (world_address w) \<or>
         snapshot_world_id sn \<noteq> ''workshop'' \<or> seed sn \<noteq> 7 \<or> unat (max_slots sn) \<noteq> slot_count \<or>
         length (slots sn) > slot_count \<or> world_revision sn \<noteq> usage_revision (ledger_usage led)))
       (terr_batch ''REQUIRES_RESYNC'' ''/policy''
          ''World and policy ledger must share the fixture boundary.'')) (\<lambda>_.
     require (list_all (slot_agrees led sn) [0 ..< slot_count])
       (terr_batch ''REQUIRES_RESYNC'' ''/policy'' ''World and policy slot accounting differ.'')))))"

definition policy_begin :: "world \<Rightarrow> snapshot \<Rightarrow> envelope \<Rightarrow> (policy_state, terror, unit) gx" where
  "policy_begin w sn e ps =
     (if begun (the_guard ps) \<or> \<not> lease_held (the_lease ps) \<or> claimed (the_lease ps)
      then (ps, Inl (terr_batch ''NOT_AUTHORIZED'' ''/policy'' ''A live unused admission is required.''))
      else
        let ps' = ps\<lparr>the_guard := (the_guard ps)\<lparr>begun := True\<rparr>, the_lease := (the_lease ps)\<lparr>claimed := True\<rparr>\<rparr>;
            led = the_ledger ps
        in case begin_checks w sn e led (the_lease ps) of
             Inl err \<Rightarrow> (ps', Inl err)
           | Inr _ \<Rightarrow>
               (ps'\<lparr>the_ledger := led\<lparr>ledger_world := Some (world_address w)\<rparr>,
                    the_guard := (the_guard ps')\<lparr>guard_sponsors := sponsors led, guard_live := ledger_live led,
                      guard_retained := retained (ledger_usage led)\<rparr>\<rparr>, Inr ()))"

text \<open>What a principal retains for the slots it sponsors.\<close>

fun retained_by :: "nat \<Rightarrow> int list \<Rightarrow> bool list \<Rightarrow> nat" where
  "retained_by p (s # ss) (l # ls) =
     (if s = int p then skeleton_charge + (if l then cube_charge else 0) else 0) + retained_by p ss ls"
| "retained_by p _ _ = 0"

definition account :: "nat \<Rightarrow> guard \<Rightarrow> guard \<times> (terror + unit)" where
  "account index g =
     (let g' = g\<lparr>guard_retained := map (\<lambda>p. retained_by p (guard_sponsors g) (guard_live g)) [0 ..< principal_count]\<rparr>
      in (g', require (list_all (\<lambda>p. guard_retained g' ! p \<le> retained_limit (grants ! p)) [0 ..< principal_count])
            (terr ''BUDGET_EXCEEDED'' ''/memory/retained''
               ''Staging prefix exceeds retained resource allowance.'' index)))"

fun rotation_rows :: "quat \<Rightarrow> vec3 \<times> vec3 \<times> vec3" where
  "rotation_rows (x, y, z, w) =
     (let dbl = fmul f_two; diag = fsub f_one in
      ((diag (dbl (fadd (fmul y y) (fmul z z))), dbl (fsub (fmul x y) (fmul z w)), dbl (fadd (fmul x z) (fmul y w))),
       (dbl (fadd (fmul x y) (fmul z w)), diag (dbl (fadd (fmul x x) (fmul z z))), dbl (fsub (fmul y z) (fmul x w))),
       (dbl (fsub (fmul x z) (fmul y w)), dbl (fadd (fmul y z) (fmul x w)), diag (dbl (fadd (fmul x x) (fmul y y))))))"

fun axis_radius :: "vec3 \<Rightarrow> vec3 \<Rightarrow> f64" where
  "axis_radius (r0, r1, r2) (s0, s1, s2) =
     fadd (fadd (fadd f_zero (fmul (fabs (fmul r0 s0)) f_half)) (fmul (fabs (fmul r1 s1)) f_half))
       (fmul (fabs (fmul r2 s2)) f_half)"

definition axis_inside :: "f64 \<Rightarrow> f64 \<Rightarrow> f64 \<Rightarrow> f64 \<Rightarrow> bool" where
  "axis_inside lo hi pos radius \<longleftrightarrow>
     (let lower = fsub pos radius; upper = fadd pos radius in
      is_finite lower \<and> is_finite upper \<and> \<not> flt lower lo \<and> \<not> flt hi upper)"

fun bounds_inside :: "vec3 \<Rightarrow> vec3 \<Rightarrow> vec3 \<Rightarrow> vec3 \<Rightarrow> vec3 \<times> vec3 \<times> vec3 \<Rightarrow> bool" where
  "bounds_inside (l0, l1, l2) (u0, u1, u2) (p0, p1, p2) sc (r0, r1, r2) \<longleftrightarrow>
     axis_inside l0 u0 p0 (axis_radius r0 sc) \<and> axis_inside l1 u1 p1 (axis_radius r1 sc) \<and>
     axis_inside l2 u2 p2 (axis_radius r2 sc)"

definition in_scope :: "nat \<Rightarrow> transform \<Rightarrow> bool" where
  "in_scope p t \<longleftrightarrow>
     bounds_inside (grant_lower (grants ! p)) (grant_upper (grants ! p)) (position_m t) (scale t)
       (rotation_rows (rotation_xyzw t))"

definition scope_check :: "nat \<Rightarrow> transform \<Rightarrow> nat \<Rightarrow> terror + unit" where
  "scope_check p t index =
     require (in_scope p t) (terr ''NOT_AUTHORIZED'' ''/scope''
       ''Complete cube bounds must fit the host-issued write region.'' index)"

definition with_guard :: "policy_state \<Rightarrow> guard \<times> (terror + unit) \<Rightarrow> policy_state \<times> (terror + unit)" where
  "with_guard ps gr = (ps\<lparr>the_guard := fst gr\<rparr>, snd gr)"

definition policy_create :: "nat \<Rightarrow> nat \<Rightarrow> (policy_state, terror, unit) gx" where
  "policy_create i index ps =
     (let g = the_guard ps in
      if i \<ge> slot_count then (ps, Inl (terr ''BUDGET_EXCEEDED'' ''/slots'' ''Slot allowance exceeded.'' index))
      else with_guard ps (account index
        (g\<lparr>guard_sponsors := (guard_sponsors g)[i := int (lease_principal (the_lease ps))],
           guard_live := (guard_live g)[i := True], unplaced := (unplaced g)[i := True]\<rparr>)))"

definition policy_transform ::
  "nat \<Rightarrow> transform \<Rightarrow> transform \<Rightarrow> nat \<Rightarrow> (policy_state, terror, unit) gx" where
  "policy_transform i before after index ps =
     (let g = the_guard ps; p = lease_principal (the_lease ps) in
      case rbind (if \<not> unplaced g ! i then scope_check p before index else Inr ()) (\<lambda>_. scope_check p after index) of
        Inl err \<Rightarrow> (ps, Inl err)
      | Inr _ \<Rightarrow> (ps\<lparr>the_guard := g\<lparr>unplaced := (unplaced g)[i := False]\<rparr>\<rparr>, Inr ()))"

definition policy_erase :: "nat \<Rightarrow> transform \<Rightarrow> nat \<Rightarrow> (policy_state, terror, unit) gx" where
  "policy_erase i before index ps =
     (let g = the_guard ps; p = lease_principal (the_lease ps) in
      case (if \<not> unplaced g ! i then scope_check p before index else Inr ()) of
        Inl err \<Rightarrow> (ps, Inl err)
      | Inr _ \<Rightarrow> with_guard ps (account index
          (g\<lparr>guard_live := (guard_live g)[i := False], unplaced := (unplaced g)[i := False]\<rparr>)))"

definition policy_finish :: "snapshot \<Rightarrow> (policy_state, terror, unit) gx" where
  "policy_finish sn ps =
     (if list_ex (\<lambda>v. v) (unplaced (the_guard ps))
      then (ps, Inl (terr_batch ''NOT_AUTHORIZED'' ''/scope''
             ''Every surviving created cube must be explicitly placed.''))
      else (ps\<lparr>the_guard := (the_guard ps)\<lparr>finished := True\<rparr>\<rparr>, Inr ()))"

text \<open>\<open>terminated\<close> records a call of \<open>std::terminate\<close>.\<close>

definition policy_commit :: "policy_state \<Rightarrow> policy_state" where
  "policy_commit ps =
     (let g = the_guard ps; led = the_ledger ps in
      if \<not> begun g \<or> \<not> finished g then ps\<lparr>terminated := True\<rparr>
      else ps\<lparr>the_ledger := led\<lparr>sponsors := guard_sponsors g, ledger_live := guard_live g,
        ledger_usage := (ledger_usage led)\<lparr>retained := guard_retained g,
          usage_revision := usage_revision (ledger_usage led) + 1\<rparr>\<rparr>\<rparr>)"

definition policy_hooks :: "policy_state staging_hooks" where
  "policy_hooks =
     \<lparr>guard_begin = policy_begin, guard_create = policy_create, guard_transform = policy_transform,
      guard_erase = policy_erase, guard_finish = policy_finish, guard_commit = policy_commit\<rparr>"

section \<open>A call under the policy\<close>

definition policy_receipt :: "envelope \<Rightarrow> ledger \<Rightarrow> terror \<Rightarrow> receipt" where
  "policy_receipt e led err =
     empty_receipt\<lparr>receipt_transaction_id := (if length (transaction_id e) \<le> 128 then transaction_id e else []),
       receipt_revision := usage_revision (ledger_usage led), receipt_errors := [err]\<rparr>"

definition policy_call ::
  "json_lib \<Rightarrow> envelope \<Rightarrow> policy_state \<Rightarrow> world \<Rightarrow> (world \<times> policy_state) \<times> receipt" where
  "policy_call J e ps w =
     (case apply_at_boundary J (Some policy_hooks) (None :: (unit, unit) observer_hooks option) e (w, ps, ()) of
        ((w', ps', _), Inr r) \<Rightarrow> ((w', ps'), r)
      | ((w', ps', _), Inl _) \<Rightarrow> ((w', ps'), empty_receipt))"

definition policy_apply ::
  "json_lib \<Rightarrow> envelope \<Rightarrow> nat \<Rightarrow> world \<times> ledger \<Rightarrow> (world \<times> ledger) \<times> receipt" where
  "policy_apply J e p st =
     (let (w, led) = st in
      case field_bytes e of
        Inl err \<Rightarrow> ((w, led), policy_receipt e led err)
      | Inr n \<Rightarrow>
          (case admit p n led of
             (led1, Inl d) \<Rightarrow>
               ((w, led1), policy_receipt e led1
                  (terr_batch (denied_code d) (denied_path d) ''Policy admission denied.''))
           | (led1, Inr l) \<Rightarrow>
               let ((w', ps), r) = policy_call J e
                     \<lparr>the_ledger = led1, the_lease = l, the_guard = new_guard, terminated = False\<rparr> w
               in ((w', refund (the_lease ps) (the_ledger ps)), r)))"

end
