(* ===== verification/Guard_Laws.thy ===== *)
theory Guard_Laws
  imports Transaction_Laws History_Laws
begin

text \<open>
  The contract between the coordinator and a staging guard.  A guard has a state predicate
  that none of its hooks breaks, and a relation between its state and the staged slots that
  every admitted operation keeps when the hook of that operation lets it pass.  From these
  laws the coordinator's whole staging loop keeps both, whatever the batch.
\<close>

section \<open>State predicates\<close>

locale hook_invariant =
  fixes H :: "'g staging_hooks" and Q :: "'g \<Rightarrow> bool"
  assumes create_keeps: "Q g \<Longrightarrow> Q (fst (guard_create H i index g))"
    and transform_keeps: "Q g \<Longrightarrow> Q (fst (guard_transform H i before after index g))"
    and erase_keeps: "Q g \<Longrightarrow> Q (fst (guard_erase H i before index g))"
    and finish_keeps: "Q g \<Longrightarrow> Q (fst (guard_finish H sn g))"
begin

definition keeps_state :: "('g, 'e, 'a) gx \<Rightarrow> bool" where
  "keeps_state m \<longleftrightarrow> (\<forall>g. Q g \<longrightarrow> Q (fst (m g)))"

lemma keeps_glift: "keeps_state (glift r)"
  and keeps_gret: "keeps_state (gret a)"
  by (simp_all add: keeps_state_def)

lemma keeps_bind: "keeps_state m \<Longrightarrow> (\<And>a. keeps_state (f a)) \<Longrightarrow> keeps_state (gbind m f)"
  unfolding keeps_state_def gbind_def
  by (auto split: prod.splits sum.splits)

lemma keeps_hooks:
  "keeps_state (guard_create H i index)" "keeps_state (guard_transform H i before after index)"
  "keeps_state (guard_erase H i before index)" "keeps_state (guard_finish H sn)"
  by (simp_all add: keeps_state_def create_keeps transform_keeps erase_keeps finish_keeps)

lemmas keeps_rules = keeps_glift keeps_gret keeps_bind keeps_hooks

lemma apply_operation_keeps: "keeps_state (apply_operation (Some H) bindings revision index op st)"
  by (cases op)
    (auto simp: apply_create_def apply_transform_def apply_delete_def allocate_slot_def hook_def Let_def
      intro!: keeps_rules split: option.splits prod.splits)

lemma apply_operations_keeps: "keeps_state (apply_operations (Some H) bindings revision index ops st)"
  by (induction ops arbitrary: index st) (auto intro: keeps_rules apply_operation_keeps)

lemma stage_keeps: "Q g \<Longrightarrow> Q (fst (stage (Some H) bindings sn ops g))"
proof -
  have "keeps_state (stage (Some H) bindings sn ops)"
    by (auto simp: stage_def hook_def Let_def intro!: keeps_rules apply_operations_keeps)
  then show "Q g \<Longrightarrow> ?thesis" by (simp add: keeps_state_def)
qed

end

section \<open>Relations to the staged slots\<close>

definition flat :: "slot list \<Rightarrow> bool" where
  "flat ss \<longleftrightarrow> (\<forall>i < length ss. pred_option (\<lambda>e. parent e = None) (entity_of (ss ! i)))"

text \<open>A creation fills one free slot, or one appended to the end, with a flat entity.\<close>

definition filled :: "slot list \<Rightarrow> nat \<Rightarrow> slot list \<Rightarrow> bool" where
  "filled ss i ss' \<longleftrightarrow>
     (i < length ss \<and> entity_of (ss ! i) = None \<and> length ss' = length ss \<or>
      i = length ss \<and> length ss' = Suc (length ss)) \<and>
     (\<forall>j < length ss. j \<noteq> i \<longrightarrow> ss' ! j = ss ! j) \<and>
     (\<exists>e. entity_of (ss' ! i) = Some e \<and> parent e = None \<and> tags e = [])"

fun flat_operation :: "operation \<Rightarrow> bool" where
  "flat_operation (EntityCreate name pf) = True"
| "flat_operation (TransformSet t v) = True"
| "flat_operation (EntityDelete t policy) = True"
| "flat_operation _ = False"

lemma flat_unlinked: "flat ss \<Longrightarrow> i < length ss \<Longrightarrow> unlinked ss i"
  by (auto simp: flat_def unlinked_def child_of_def pred_option_def split: option.splits)

lemma flat_no_children: "flat ss \<Longrightarrow> i < length ss \<Longrightarrow> \<not> has_children ss (ss ! i)"
  using flat_unlinked unlinked_has_children by blast

definition placed_at :: "transform \<Rightarrow> u64 \<Rightarrow> nat \<Rightarrow> slot list \<Rightarrow> slot list" where
  "placed_at t revision = map_entity (\<lambda>e. e\<lparr>transform_of := t, authoring_revision := revision\<rparr>)"

lemma flat_transform:
  assumes run: "apply_transform guard revision index t v st g = (g', Inr st')"
    and flat: "flat (slots (staged st))"
  obtains i x where "live_slot (slots (staged st)) i"
    "hook guard (\<lambda>h. guard_transform h i (transform_of (entity_at (slots (staged st)) i)) x index) g = (g', Inr ())"
    "slots (staged st') = placed_at x revision i (slots (staged st))"
proof -
  define ss where "ss = slots (staged st)"
  obtain x j p loc ss' where
    res: "resolve (staged st) t (staged_names st) (operation_path index @ ''/target'') index = Inr j"
    and h: "hook guard (\<lambda>h. guard_transform h j (transform_of (entity_at ss j)) x index) g = (g', Inr ())"
    and p: "parent_of ss (ss ! j) = Inr p"
    and loc: "(case p of Some k \<Rightarrow> relative (transform_of (entity_at ss k)) x (operation_path index) index
           | None \<Rightarrow> Inr (local_transform (entity_at ss j))) = Inr loc"
    and sub: "subtree (map_entity (\<lambda>e. e\<lparr>local_transform := loc, transform_of := x\<rparr>) j ss)
        j revision (operation_path index) index = Inr ss'"
    and st': "st' = set_slots ss' st"
    using run unfolding ss_def apply_transform_def Let_def gbind_eq_Inr glift_apply prod.inject sum.inject rbind_eq_Inr
    by auto
  have j: "j < length ss" "entity_of (ss ! j) \<noteq> None" using resolve_Inr [OF res] by (simp_all add: ss_def)
  then obtain e where e: "entity_of (ss ! j) = Some e" "parent e = None"
    using flat by (auto simp: flat_def ss_def)
  then have "loc = local_transform e" using p loc by (auto simp: parent_of_def entity_at_def)
  then have same: "map_entity (\<lambda>e. e\<lparr>local_transform := loc, transform_of := x\<rparr>) j ss =
      map_entity (transform_of_update (\<lambda>_. x)) j ss"
    using e(1) by (intro map_entity_cong [OF j(1)]) simp
  let ?ss = "map_entity (transform_of_update (\<lambda>_. x)) j ss"
  have sh: "shapes ?ss = shapes ss" by (rule map_entity_shapes) (simp add: blank_content_def)
  have "unlinked ?ss j"
    using unlinked_shapes [OF sh] flat_unlinked [OF flat] j(1) shapes_length [OF sh] by (simp add: ss_def)
  then have "ss' = map_entity (authoring_revision_update (\<lambda>_. revision)) j ?ss"
    using sub [unfolded same] subtree_leaf [of j ?ss] j(1) by (simp add: unlinked_def)
  then have "ss' = placed_at x revision j ss" by (simp add: map_entity_twice placed_at_def)
  then show ?thesis
    using that [of j x] j h st' by (simp add: live_slot_def ss_def)
qed

lemma flat_create:
  assumes run: "apply_create guard bindings revision index name pf st g = (g', Inr st')"
  obtains i where "hook guard (\<lambda>h. guard_create h i index) g = (g', Inr ())"
    "filled (slots (staged st)) i (slots (staged st'))"
proof -
  let ?ss = "slots (staged st)"
  obtain i ss s where al: "allocate_slot guard (operation_path index) index (staged st) g = (g', Inr (i, ss))"
    and st': "slots (staged st') = ss[i := s\<lparr>entity_of := Some (new_entity pf revision)\<rparr>]"
    using run by (auto simp: apply_create_def Let_def gbind_eq_Inr split: if_splits)
  have e: "parent (new_entity pf revision) = None" "tags (new_entity pf revision) = []"
    by (simp_all add: new_entity_def)
  show ?thesis
  proof (cases "find_index (\<lambda>s. entity_of s = None \<and> \<not> retired s) ?ss")
    case None
    then have "i = length ?ss" "ss = ?ss @ [new_slot (slot_uuid (seed (staged st)) (length ?ss))]"
      and "hook guard (\<lambda>h. guard_create h i index) g = (g', Inr ())"
      using al by (auto simp: allocate_slot_def gbind_eq_Inr split: if_splits)
    then show ?thesis using that [of i] e st' by (simp add: filled_def nth_append)
  next
    case (Some k)
    then have "i = k" "ss = ?ss" and "hook guard (\<lambda>h. guard_create h i index) g = (g', Inr ())"
      using al by (auto simp: allocate_slot_def gbind_eq_Inr)
    then show ?thesis using that [of i] e st' find_index_SomeD [OF Some] by (simp add: filled_def)
  qed
qed

locale staging_guard = hook_invariant H Q for H :: "'g staging_hooks" and Q +
  fixes R :: "slot list \<Rightarrow> 'g \<Rightarrow> slot list \<Rightarrow> bool"
  assumes related_flat: "R ss0 g ss \<Longrightarrow> flat ss"
    and create_related: "R ss0 g ss \<Longrightarrow> guard_create H i index g = (g', Inr ()) \<Longrightarrow> filled ss i ss' \<Longrightarrow> R ss0 g' ss'"
    and transform_related: "R ss0 g ss \<Longrightarrow> live_slot ss i \<Longrightarrow>
      guard_transform H i (transform_of (entity_at ss i)) t index g = (g', Inr ()) \<Longrightarrow>
      R ss0 g' (placed_at t revision i ss)"
    and erase_related: "R ss0 g ss \<Longrightarrow> live_slot ss i \<Longrightarrow>
      guard_erase H i (transform_of (entity_at ss i)) index g = (g', Inr ()) \<Longrightarrow> R ss0 g' (ss[i := tombstone (ss ! i)])"
begin

lemma operation_related:
  assumes run: "apply_operation (Some H) bindings revision index op st g = (g', Inr st')"
    and R: "R ss0 g (slots (staged st))" and op: "flat_operation op"
  shows "R ss0 g' (slots (staged st'))"
proof (cases op)
  case (EntityCreate name pf)
  then have "apply_create (Some H) bindings revision index name pf st g = (g', Inr st')" using run by simp
  then obtain i where "hook (Some H) (\<lambda>h. guard_create h i index) g = (g', Inr ())"
    "filled (slots (staged st)) i (slots (staged st'))"
    by (rule flat_create)
  then show ?thesis using create_related [OF R] by (simp add: hook_def)
next
  case (TransformSet t v)
  then have "apply_transform (Some H) revision index t v st g = (g', Inr st')" using run by simp
  then obtain i x where "live_slot (slots (staged st)) i"
    "hook (Some H) (\<lambda>h. guard_transform h i (transform_of (entity_at (slots (staged st)) i)) x index) g = (g', Inr ())"
    "slots (staged st') = placed_at x revision i (slots (staged st))"
    by (rule flat_transform [OF _ related_flat [OF R]])
  then show ?thesis using transform_related [OF R] by (simp add: hook_def)
next
  case (EntityDelete t policy)
  then obtain i where "resolve (staged st) t (staged_names st) (operation_path index @ ''/target'') index = Inr i"
    and "guard_erase H i (transform_of (entity_at (slots (staged st)) i)) index g = (g', Inr ())"
    and "slots (staged st') = (slots (staged st))[i := tombstone (slots (staged st) ! i)]"
    using run by (auto simp: apply_delete_def Let_def gbind_eq_Inr hook_def set_slots_def split: if_splits)
  then show ?thesis using erase_related [OF R] resolve_Inr by (auto simp: live_slot_def)
qed (use op in simp_all)

lemma operations_related:
  "apply_operations (Some H) bindings revision index ops st g = (g', Inr st') \<Longrightarrow>
     R ss0 g (slots (staged st)) \<Longrightarrow> list_all flat_operation ops \<Longrightarrow> R ss0 g' (slots (staged st'))"
proof (induction ops arbitrary: index st g)
  case (Cons op ops)
  then obtain g1 st1 where 1: "apply_operation (Some H) bindings revision index op st g = (g1, Inr st1)"
    and 2: "apply_operations (Some H) bindings revision (Suc index) ops st1 g1 = (g', Inr st')"
    by (auto simp: gbind_eq_Inr)
  show ?case using Cons.IH [OF 2] operation_related [OF 1 Cons.prems(2)] Cons.prems(3) by simp
qed simp

text \<open>The state in which \<open>finish\<close> accepted the batch is related to what is staged.\<close>

lemma stage_related:
  assumes "stage (Some H) bindings sn ops g = (g', Inr st)" "R ss0 g (slots sn)" "list_all flat_operation ops"
  obtains g1 sn' where "R ss0 g1 (slots (staged st))" "guard_finish H sn' g1 = (g', Inr ())"
proof -
  obtain g1 st0 where ops: "apply_operations (Some H) bindings (world_revision sn + 1) 0 ops
       \<lparr>staged = sn, staged_names = [], staged_created = []\<rparr> g = (g1, Inr st0)"
    and fin: "guard_finish H (staged st) g1 = (g', Inr ())"
    and st: "slots (staged st) = slots (staged st0)"
    using assms(1) by (auto simp: stage_def Let_def gbind_eq_Inr hook_def split: if_splits)
  have "R ss0 g1 (slots (staged st))"
    using operations_related [OF ops] assms(2,3) by (simp add: st)
  then show ?thesis using that fin by blast
qed

end

section \<open>One guarded call\<close>

lemma guarded_call_cases:
  assumes "apply_at_boundary J (Some H) (None :: ('o, 'x) observer_hooks option) e (w, g, obs) = ((w', g', obs'), res)"
  obtains (refused) r where "fst (guard_begin H w (state w) e g) = g'" "w' = w" "res = Inr r" "receipt_status r = ''rejected''"
  | (failed) g1 r where "guard_begin H w (state w) e g = (g1, Inr ())"
      "fst (stage (Some H) None (state w) (operations e) g1) = g'" "w' = w" "res = Inr r" "receipt_status r = ''rejected''"
  | (committed) g1 g2 st r where "guard_begin H w (state w) e g = (g1, Inr ())"
      "stage (Some H) None (state w) (operations e) g1 = (g2, Inr st)" "g' = guard_commit H g2"
      "admission w J e = Inr ()" "w' = w\<lparr>state := committed_snapshot (state w) st\<rparr>"
      "res = Inr r" "receipt_status r = ''committed''"
  using assms
  by (auto simp: apply_at_boundary_def apply_envelope_def hook_def Let_def rejection_def initial_receipt_def
      empty_receipt_def publish_commit_def committed_snapshot_def commit_receipt_def
      split: prod.splits sum.splits)

end
