(* ===== verification/Policy_Laws.thy ===== *)
theory Policy_Laws
  imports Policy Guard_Laws
begin

text \<open>
  What the admission policy guarantees: charges are refunded, the ledger stays in step with the
  world, nobody retains more than its grant, and a committed call changes only entities whose
  cubes lie in the principal's region before and after.
\<close>

section \<open>The ledger\<close>

definition totals :: "int list \<Rightarrow> bool list \<Rightarrow> nat list" where
  "totals ss ls = map (\<lambda>p. retained_by p ss ls) [0 ..< principal_count]"

definition within_grants :: "nat list \<Rightarrow> bool" where
  "within_grants rs \<longleftrightarrow> list_all (\<lambda>p. rs ! p \<le> retained_limit (grants ! p)) [0 ..< principal_count]"

text \<open>A ledger between calls, in step with the slots of a world.\<close>

definition books_ok :: "int list \<Rightarrow> bool list \<Rightarrow> nat list \<Rightarrow> bool" where
  "books_ok ss ls rs \<longleftrightarrow>
     length ss = slot_count \<and> length ls = slot_count \<and> rs = totals ss ls \<and> within_grants rs"

definition mirrors :: "int list \<Rightarrow> bool list \<Rightarrow> slot list \<Rightarrow> bool" where
  "mirrors ss ls xs \<longleftrightarrow>
     length xs \<le> slot_count \<and>
     (\<forall>i < slot_count. (0 \<le> ss ! i \<longleftrightarrow> i < length xs) \<and> (ls ! i \<longleftrightarrow> live_slot xs i))"

definition ledger_ok :: "ledger \<Rightarrow> world \<Rightarrow> bool" where
  "ledger_ok led w \<longleftrightarrow>
     books_ok (sponsors led) (ledger_live led) (retained (ledger_usage led)) \<and>
     mirrors (sponsors led) (ledger_live led) (slots (state w)) \<and>
     usage_revision (ledger_usage led) = world_revision (state w) \<and>
     (ledger_world led = None \<or> ledger_world led = Some (world_address w))"

definition idle :: "ledger \<Rightarrow> bool" where
  "idle led \<longleftrightarrow>
     working (ledger_usage led) = replicate principal_count 0 \<and>
     requests (ledger_usage led) = replicate principal_count 0 \<and>
     global_requests (ledger_usage led) = 0 \<and> 1 \<le> global_limit led"

lemma slot_agrees_mirrors:
  assumes "length (slots sn) \<le> slot_count" "list_all (slot_agrees led sn) [0 ..< slot_count]"
  shows "mirrors (sponsors led) (ledger_live led) (slots sn)"
  using assms by (auto simp: mirrors_def slot_agrees_def list_all_iff live_slot_def Let_def)

section \<open>The guard's relation\<close>

text \<open>
  A staged slot is as it was and not waiting for a place, or whoever changed it had the region
  of what was there before, and has that of what is there now unless it still waits.
\<close>

definition change_ok :: "nat \<Rightarrow> slot list \<Rightarrow> slot list \<Rightarrow> bool list \<Rightarrow> nat \<Rightarrow> bool" where
  "change_ok p ss0 ss us i \<longleftrightarrow>
     i < length ss0 \<and> ss ! i = ss0 ! i \<and> \<not> us ! i \<or>
     (live_slot ss0 i \<longrightarrow> in_scope p (transform_of (entity_at ss0 i))) \<and>
     (live_slot ss i \<longrightarrow> \<not> us ! i \<longrightarrow> in_scope p (transform_of (entity_at ss i)))"

definition policy_related :: "slot list \<Rightarrow> policy_state \<Rightarrow> slot list \<Rightarrow> bool" where
  "policy_related ss0 ps ss \<longleftrightarrow>
     begun (the_guard ps) \<and> lease_principal (the_lease ps) < principal_count \<and>
     books_ok (guard_sponsors (the_guard ps)) (guard_live (the_guard ps)) (guard_retained (the_guard ps)) \<and>
     mirrors (guard_sponsors (the_guard ps)) (guard_live (the_guard ps)) ss \<and>
     length (unplaced (the_guard ps)) = slot_count \<and> flat ss \<and> length ss0 \<le> length ss \<and>
     (\<forall>i < slot_count. unplaced (the_guard ps) ! i \<longrightarrow> live_slot ss i) \<and>
     (\<forall>i < length ss. change_ok (lease_principal (the_lease ps)) ss0 ss (unplaced (the_guard ps)) i)"

text \<open>What no hook but \<open>commit\<close> touches.\<close>

definition policy_frame :: "ledger \<Rightarrow> lease \<Rightarrow> policy_state \<Rightarrow> bool" where
  "policy_frame led l ps \<longleftrightarrow> the_ledger ps = led \<and> the_lease ps = l \<and> \<not> terminated ps"

lemma policy_hook_simps [simp]:
  "guard_begin policy_hooks = policy_begin" "guard_create policy_hooks = policy_create"
  "guard_transform policy_hooks = policy_transform" "guard_erase policy_hooks = policy_erase"
  "guard_finish policy_hooks = policy_finish" "guard_commit policy_hooks = policy_commit"
  by (simp_all add: policy_hooks_def)

lemma account_Inr:
  assumes "account index g = (g', Inr ())"
  shows "g' = g\<lparr>guard_retained := totals (guard_sponsors g) (guard_live g)\<rparr> \<and>
    within_grants (totals (guard_sponsors g) (guard_live g))"
  using assms by (auto simp: account_def Let_def totals_def within_grants_def)

lemma policy_create_related:
  assumes R: "policy_related ss0 ps ss" and run: "policy_create i index ps = (ps', Inr ())" and fill: "filled ss i ss'"
  shows "policy_related ss0 ps' ss'"
proof -
  let ?g = "the_guard ps" and ?p = "lease_principal (the_lease ps)"
  let ?g1 = "?g\<lparr>guard_sponsors := (guard_sponsors ?g)[i := int ?p], guard_live := (guard_live ?g)[i := True],
    unplaced := (unplaced ?g)[i := True]\<rparr>"
  have i: "i < slot_count" and acc: "account index ?g1 = (the_guard ps', Inr ())"
    and ps': "ps' = ps\<lparr>the_guard := the_guard ps'\<rparr>"
    using run by (auto simp: policy_create_def Let_def with_guard_def prod_eq_iff split: if_splits)
  note g' = account_Inr [OF acc]
  have len: "length ss \<le> length ss'" "length ss' \<le> slot_count" "i < length ss'"
    using fill i R by (auto simp: filled_def policy_related_def mirrors_def)
  have live: "live_slot ss' j = (j = i \<or> live_slot ss j)" for j
    using fill by (auto simp: filled_def live_slot_def)
  have idx: "j < length ss' \<longleftrightarrow> j = i \<or> j < length ss" for j
    using fill by (auto simp: filled_def)
  have fresh: "\<not> live_slot ss i" using fill by (auto simp: filled_def live_slot_def)
  have other: "ss' ! j = ss ! j" if "j \<noteq> i" "j < length ss" for j
    using fill that by (auto simp: filled_def)
  have "mirrors ((guard_sponsors ?g)[i := int ?p]) ((guard_live ?g)[i := True]) ss'"
    using R i len(2) live idx by (auto simp: policy_related_def mirrors_def books_ok_def nth_list_update)
  moreover have "flat ss'"
    unfolding flat_def
  proof (intro allI impI)
    fix j
    assume j: "j < length ss'"
    show "pred_option (\<lambda>e. parent e = None) (entity_of (ss' ! j))"
    proof (cases "j = i")
      case True
      then show ?thesis using fill by (auto simp: filled_def)
    next
      case False
      then show ?thesis using j idx other [OF False] R by (simp add: policy_related_def flat_def)
    qed
  qed
  moreover have "change_ok ?p ss0 ss' ((unplaced ?g)[i := True]) j" if j: "j < length ss'" for j
  proof (cases "j = i")
    case True
    have "live_slot ss0 i \<longrightarrow> in_scope ?p (transform_of (entity_at ss0 i))"
    proof (cases "i < length ss")
      case True
      then have "change_ok ?p ss0 ss (unplaced ?g) i" using R by (simp add: policy_related_def)
      then show ?thesis using fresh True by (auto simp: change_ok_def live_slot_def)
    next
      case False
      then have "\<not> live_slot ss0 i" using R by (simp add: policy_related_def live_slot_def)
      then show ?thesis by simp
    qed
    then show ?thesis using True i R by (simp add: change_ok_def policy_related_def)
  next
    case False
    then have "j < length ss" using j idx by simp
    then show ?thesis
      using R other [OF False] False live [of j]
      by (auto simp: policy_related_def change_ok_def entity_at_def)
  qed
  moreover have "\<forall>j < slot_count. (unplaced ?g)[i := True] ! j \<longrightarrow> live_slot ss' j"
    using R i live by (auto simp: nth_list_update policy_related_def)
  moreover have "the_lease ps' = the_lease ps" by (subst ps') simp
  ultimately show ?thesis
    using R i g' len(1) unfolding policy_related_def books_ok_def by simp
qed

lemma placed_at_simps:
  assumes "live_slot ss i"
  shows "length (placed_at t r i ss) = length ss" "j \<noteq> i \<Longrightarrow> placed_at t r i ss ! j = ss ! j"
    "live_slot (placed_at t r i ss) j = live_slot ss j" "transform_of (entity_at (placed_at t r i ss) i) = t"
    "flat (placed_at t r i ss) = flat ss"
proof -
  obtain e where i: "i < length ss" and e: "entity_of (ss ! i) = Some e" using assms by (auto simp: live_slot_def)
  let ?e = "e\<lparr>transform_of := t, authoring_revision := r\<rparr>"
  have eq: "placed_at t r i ss = ss[i := (ss ! i)\<lparr>entity_of := Some ?e\<rparr>]"
    using e by (simp add: placed_at_def map_entity_def)
  show "length (placed_at t r i ss) = length ss" "j \<noteq> i \<Longrightarrow> placed_at t r i ss ! j = ss ! j"
    "live_slot (placed_at t r i ss) j = live_slot ss j" "transform_of (entity_at (placed_at t r i ss) i) = t"
    using i e by (auto simp: eq live_slot_def entity_at_def nth_list_update)
  have "pred_option (\<lambda>e. parent e = None) (entity_of (placed_at t r i ss ! j)) =
      pred_option (\<lambda>e. parent e = None) (entity_of (ss ! j))" for j
    using i e by (cases "j = i") (simp_all add: eq)
  then show "flat (placed_at t r i ss) = flat ss" by (simp add: flat_def) (simp add: eq)
qed

lemma scope_check_Inr: "scope_check p t index = Inr u \<longleftrightarrow> in_scope p t"
  by (simp add: scope_check_def)

lemma change_ok_before:
  assumes R: "policy_related ss0 ps ss" and live: "live_slot ss i"
    and scope: "unplaced (the_guard ps) ! i \<or> in_scope (lease_principal (the_lease ps)) (transform_of (entity_at ss i))"
  shows "live_slot ss0 i \<longrightarrow> in_scope (lease_principal (the_lease ps)) (transform_of (entity_at ss0 i))"
proof -
  have "change_ok (lease_principal (the_lease ps)) ss0 ss (unplaced (the_guard ps)) i"
    using R live by (simp add: policy_related_def live_slot_def)
  then show ?thesis using scope live by (auto simp: change_ok_def entity_at_def)
qed

lemma policy_transform_related:
  assumes R: "policy_related ss0 ps ss" and live: "live_slot ss i"
    and run: "policy_transform i (transform_of (entity_at ss i)) t index ps = (ps', Inr ())"
  shows "policy_related ss0 ps' (placed_at t revision i ss)"
proof -
  let ?g = "the_guard ps" and ?p = "lease_principal (the_lease ps)" and ?ss = "placed_at t revision i ss"
  have scope: "unplaced ?g ! i \<or> in_scope ?p (transform_of (entity_at ss i))" "in_scope ?p t"
    and ps': "ps' = ps\<lparr>the_guard := ?g\<lparr>unplaced := (unplaced ?g)[i := False]\<rparr>\<rparr>"
    using run by (auto simp: policy_transform_def Let_def res_simps scope_check_Inr split: sum.splits if_splits)
  note p = placed_at_simps [OF live, where t = t and r = revision]
  have i: "i < slot_count" using live R by (auto simp: live_slot_def policy_related_def mirrors_def)
  have "change_ok ?p ss0 ?ss ((unplaced ?g)[i := False]) j" if j: "j < length ss" for j
  proof (cases "j = i")
    case True
    then show ?thesis
      using change_ok_before [OF R live scope(1)] scope(2) p(4) by (simp add: change_ok_def)
  next
    case False
    have "change_ok ?p ss0 ss (unplaced ?g) j" using R j by (simp add: policy_related_def)
    then show ?thesis using False p(2) [OF False] p(3) by (auto simp: change_ok_def entity_at_def)
  qed
  moreover have "mirrors (guard_sponsors ?g) (guard_live ?g) ?ss"
    using R p(1,3) by (simp add: policy_related_def mirrors_def)
  ultimately show ?thesis
    using R ps' p(1,3,5) i unfolding policy_related_def by (auto simp: nth_list_update)
qed

lemma tombstone_dead [simp]: "entity_of (tombstone s) = None"
  by (simp add: tombstone_def)

lemma policy_erase_related:
  assumes R: "policy_related ss0 ps ss" and live: "live_slot ss i"
    and run: "policy_erase i (transform_of (entity_at ss i)) index ps = (ps', Inr ())"
  shows "policy_related ss0 ps' (ss[i := tombstone (ss ! i)])"
proof -
  let ?g = "the_guard ps" and ?p = "lease_principal (the_lease ps)" and ?ss = "ss[i := tombstone (ss ! i)]"
  let ?g1 = "?g\<lparr>guard_live := (guard_live ?g)[i := False], unplaced := (unplaced ?g)[i := False]\<rparr>"
  have scope: "unplaced ?g ! i \<or> in_scope ?p (transform_of (entity_at ss i))"
    and acc: "account index ?g1 = (the_guard ps', Inr ())" and ps': "ps' = ps\<lparr>the_guard := the_guard ps'\<rparr>"
    using run
    by (auto simp: policy_erase_def Let_def with_guard_def scope_check_Inr prod_eq_iff split: sum.splits if_splits)
  note g' = account_Inr [OF acc]
  have i: "i < slot_count" "i < length ss" using live R by (auto simp: live_slot_def policy_related_def mirrors_def)
  have dead: "live_slot ?ss j = (j \<noteq> i \<and> live_slot ss j)" for j
    using i(2) by (auto simp: live_slot_def nth_list_update)
  have "change_ok ?p ss0 ?ss ((unplaced ?g)[i := False]) j" if j: "j < length ss" for j
  proof (cases "j = i")
    case True
    then show ?thesis
      using change_ok_before [OF R live scope] dead by (simp add: change_ok_def)
  next
    case False
    have "change_ok ?p ss0 ss (unplaced ?g) j" using R j by (simp add: policy_related_def)
    then show ?thesis using False dead [of j] by (auto simp: change_ok_def entity_at_def)
  qed
  moreover have "mirrors (guard_sponsors ?g) ((guard_live ?g)[i := False]) ?ss"
    using R i dead by (auto simp: policy_related_def mirrors_def books_ok_def nth_list_update)
  moreover have "flat ?ss"
    using R i by (auto simp: policy_related_def flat_def nth_list_update)
  moreover have "\<forall>j < slot_count. (unplaced ?g)[i := False] ! j \<longrightarrow> live_slot ?ss j"
    using R i dead by (auto simp: nth_list_update policy_related_def)
  moreover have "the_lease ps' = the_lease ps" by (subst ps') simp
  ultimately show ?thesis
    using R i g' unfolding policy_related_def books_ok_def by simp
qed

interpretation policy_frame: hook_invariant policy_hooks "policy_frame led l" for led l
  by unfold_locales
    (auto simp: policy_frame_def policy_create_def policy_transform_def policy_erase_def policy_finish_def
      with_guard_def Let_def split: sum.splits)

lemma policy_related_flat: "policy_related ss0 ps ss \<Longrightarrow> flat ss"
  by (simp add: policy_related_def)

interpretation policy_guard: staging_guard policy_hooks "policy_frame led l" policy_related for led l
  by unfold_locales
    (auto intro: policy_related_flat policy_create_related policy_transform_related policy_erase_related)

section \<open>A call\<close>

lemma admit_Inr:
  assumes "admit p n led = (led1, Inr l)"
  shows "p < principal_count \<and> n \<le> body_limit \<and> l = new_lease p n \<and> requests (ledger_usage led) ! p = 0 \<and>
    global_requests (ledger_usage led) < global_limit led \<and>
    charge n \<le> size_minus (working_limit (grants ! p)) (working (ledger_usage led) ! p) \<and>
    led1 = led\<lparr>ledger_usage := (ledger_usage led)
      \<lparr>working := list_map (\<lambda>v. v + charge n) p (working (ledger_usage led)),
       requests := list_map (\<lambda>v. v + 1) p (requests (ledger_usage led)),
       global_requests := global_requests (ledger_usage led) + 1\<rparr>\<rparr>"
  using assms
  by (auto simp: admit_def Let_def grant_of_def working_charge_def rbind_def require_def split: sum.splits if_splits)

lemma admit_Inl: "admit p n led = (led1, Inl d) \<Longrightarrow> led1 = led"
  by (auto simp: admit_def Let_def split: sum.splits)

lemma size_minus_exact: "b \<le> a \<Longrightarrow> a < 2 ^ 64 \<Longrightarrow> size_minus a b = a - b"
proof -
  assume b: "b \<le> a" and a: "a < 2 ^ 64"
  have "(2 ^ 64 + a - b) mod 2 ^ 64 = (2 ^ 64 + (a - b)) mod 2 ^ 64" using b by (simp only: add_diff_assoc)
  also have "\<dots> = (a - b) mod 2 ^ 64" by (rule mod_add_self1)
  also have "\<dots> = a - b" using a by (intro mod_less) linarith
  finally show ?thesis by (simp only: size_minus_def)
qed

lemma charge_small: "n \<le> body_limit \<Longrightarrow> charge n \<le> 204800"
  by (simp add: charge_def body_limit_def slot_count_def)

text \<open>From a ledger without open requests, a refund restores it.\<close>

lemma refund_admitted:
  assumes idle: "idle led" and adm: "admit p n led = (led1, Inr l)"
    and u: "working (ledger_usage led2) = working (ledger_usage led1)"
      "requests (ledger_usage led2) = requests (ledger_usage led1)"
      "global_requests (ledger_usage led2) = global_requests (ledger_usage led1)" "global_limit led2 = global_limit led"
    and l: "lease_held l2" "lease_principal l2 = lease_principal l" "lease_bytes l2 = lease_bytes l"
  shows "idle (refund l2 led2)" and "sponsors (refund l2 led2) = sponsors led2"
    "ledger_live (refund l2 led2) = ledger_live led2" "retained (ledger_usage (refund l2 led2)) = retained (ledger_usage led2)"
    "usage_revision (ledger_usage (refund l2 led2)) = usage_revision (ledger_usage led2)"
    "ledger_world (refund l2 led2) = ledger_world led2"
proof -
  note a = admit_Inr [OF adm]
  have c: "charge n < 2 ^ 64" using charge_small [of n] a by simp
  have one: "size_minus (Suc 0) (Suc 0) = 0" by (simp add: size_minus_def)
  have "p = 0 \<or> p = 1" using a by (auto simp: principal_count_def)
  then show "idle (refund l2 led2)"
    using idle a u l size_minus_exact [OF _ c] one
    by (auto simp: idle_def refund_def list_map_def new_lease_def principal_count_def numeral_2_eq_2)
qed (simp_all add: refund_def)

lemma begin_Inr:
  assumes "policy_begin w sn e ps = (ps', Inr ())"
  shows "begin_checks w sn e (the_ledger ps) (the_lease ps) = Inr () \<and>
    ps' = ps\<lparr>the_lease := (the_lease ps)\<lparr>claimed := True\<rparr>,
      the_ledger := (the_ledger ps)\<lparr>ledger_world := Some (world_address w)\<rparr>,
      the_guard := (the_guard ps)\<lparr>begun := True, guard_sponsors := sponsors (the_ledger ps),
        guard_live := ledger_live (the_ledger ps), guard_retained := retained (ledger_usage (the_ledger ps))\<rparr>\<rparr>"
  using assms by (auto simp: policy_begin_def Let_def split: if_splits sum.splits)

lemma begin_checks_Inr:
  assumes "begin_checks w sn e led l = Inr ()"
  shows "flat_world sn \<and> length (slots sn) \<le> slot_count \<and> world_revision sn = usage_revision (ledger_usage led) \<and>
    (ledger_world led = None \<or> ledger_world led = Some (world_address w)) \<and>
    list_all flat_operation (operations e) \<and> list_all (slot_agrees led sn) [0 ..< slot_count]"
proof -
  have "unadmitted op = (\<not> flat_operation op)" for op by (cases op) simp_all
  moreover have "\<not> list_ex unadmitted (operations e)"
    using assms by (auto simp: begin_checks_def field_bytes_def res_simps split: if_splits)
  ultimately have "list_all flat_operation (operations e)" by (auto simp: list_all_iff list_ex_iff)
  then show ?thesis using assms by (auto simp: begin_checks_def res_simps)
qed

lemma begin_state:
  assumes "fst (policy_begin w sn e ps) = ps'"
  shows "the_lease ps' = (the_lease ps)\<lparr>claimed := claimed (the_lease ps')\<rparr> \<and> terminated ps' = terminated ps \<and>
    (\<exists>x. the_ledger ps' = (the_ledger ps)\<lparr>ledger_world := x\<rparr> \<and> (x = ledger_world (the_ledger ps) \<or>
       (ledger_world (the_ledger ps) = None \<or> ledger_world (the_ledger ps) = Some (world_address w)) \<and> x = Some (world_address w)))"
proof (cases "policy_begin w sn e ps")
  case (Pair ps1 r)
  then show ?thesis
  proof (cases r)
    case (Inl err)
    then have "the_ledger ps' = (the_ledger ps)\<lparr>ledger_world := ledger_world (the_ledger ps)\<rparr>"
      and "the_lease ps' = (the_lease ps)\<lparr>claimed := claimed (the_lease ps')\<rparr>" "terminated ps' = terminated ps"
      using Pair assms by (auto simp: policy_begin_def Let_def split: if_splits sum.splits)
    then show ?thesis by blast
  next
    case (Inr u)
    then have "policy_begin w sn e ps = (ps', Inr ())" using Pair assms by simp
    from begin_Inr [OF this] begin_checks_Inr show ?thesis by fastforce
  qed
qed

lemma begin_related:
  assumes run: "policy_begin w (state w) e ps = (ps', Inr ())" and guard: "the_guard ps = new_guard"
    and p: "lease_principal (the_lease ps) < principal_count"
    and led: "ledger_ok (the_ledger ps) w"
  shows "policy_related (slots (state w)) ps' (slots (state w))"
proof -
  note b = begin_Inr [OF run]
  note c = begin_checks_Inr [OF conjunct1 [OF b]]
  have flat: "flat (slots (state w))"
    using c unfolding flat_world_def flat_def list_ex_iff
    by (auto simp: pred_option_def split: option.splits)
  have "change_ok p (slots (state w)) (slots (state w)) (unplaced (the_guard ps')) i" if "i < length (slots (state w))" for p i
    using b that c by (simp add: change_ok_def guard new_guard_def)
  then show ?thesis
    using b led p flat unfolding policy_related_def
    by (simp add: ledger_ok_def guard new_guard_def)
qed

definition scoped_change :: "nat \<Rightarrow> slot list \<Rightarrow> slot list \<Rightarrow> nat \<Rightarrow> bool" where
  "scoped_change p ss0 ss i \<longleftrightarrow>
     i < length ss0 \<and> ss ! i = ss0 ! i \<or>
     (live_slot ss0 i \<longrightarrow> in_scope p (transform_of (entity_at ss0 i))) \<and>
     (live_slot ss i \<longrightarrow> in_scope p (transform_of (entity_at ss i)))"

lemma finish_scoped:
  assumes R: "policy_related ss0 ps ss" and fin: "policy_finish sn ps = (ps', Inr ())"
  shows "\<forall>i < length ss. scoped_change (lease_principal (the_lease ps)) ss0 ss i"
    and "ps' = ps\<lparr>the_guard := (the_guard ps)\<lparr>finished := True\<rparr>\<rparr>"
proof -
  have no: "\<not> list_ex (\<lambda>v. v) (unplaced (the_guard ps))"
    and "ps' = ps\<lparr>the_guard := (the_guard ps)\<lparr>finished := True\<rparr>\<rparr>"
    using fin by (auto simp: policy_finish_def split: if_splits)
  then show "ps' = ps\<lparr>the_guard := (the_guard ps)\<lparr>finished := True\<rparr>\<rparr>" by simp
  have len: "length (unplaced (the_guard ps)) = slot_count" "length ss \<le> slot_count"
    using R by (simp_all add: policy_related_def mirrors_def)
  have "\<not> unplaced (the_guard ps) ! i" if "i < length ss" for i
  proof -
    have "i < length (unplaced (the_guard ps))" using that len by simp
    then have "unplaced (the_guard ps) ! i \<in> set (unplaced (the_guard ps))" by (rule nth_mem)
    then show ?thesis using no unfolding list_ex_iff by blast
  qed
  then show "\<forall>i < length ss. scoped_change (lease_principal (the_lease ps)) ss0 ss i"
    using R by (auto simp: policy_related_def change_ok_def scoped_change_def)
qed

lemma policy_call_committed:
  assumes beg: "policy_begin w (state w) e ps = (g1, Inr ())"
    and stage: "stage (Some policy_hooks) None (state w) (operations e) g1 = (g2, Inr st)"
    and guard: "the_guard ps = new_guard" "\<not> terminated ps"
    and p: "lease_principal (the_lease ps) < principal_count" and led: "ledger_ok (the_ledger ps) w"
  shows "\<not> terminated (policy_commit g2)" "the_lease (policy_commit g2) = (the_lease ps)\<lparr>claimed := True\<rparr>"
    "\<forall>i < length (slots (staged st)). scoped_change (lease_principal (the_lease ps)) (slots (state w)) (slots (staged st)) i"
    "ledger_ok (the_ledger (policy_commit g2)) (w\<lparr>state := committed_snapshot (state w) st\<rparr>)"
    "working (ledger_usage (the_ledger (policy_commit g2))) = working (ledger_usage (the_ledger ps))"
    "requests (ledger_usage (the_ledger (policy_commit g2))) = requests (ledger_usage (the_ledger ps))"
    "global_requests (ledger_usage (the_ledger (policy_commit g2))) = global_requests (ledger_usage (the_ledger ps))"
    "global_limit (the_ledger (policy_commit g2)) = global_limit (the_ledger ps)"
proof -
  note b = begin_Inr [OF beg]
  note c = begin_checks_Inr [OF conjunct1 [OF b]]
  let ?led = "(the_ledger ps)\<lparr>ledger_world := Some (world_address w)\<rparr>"
  let ?l = "(the_lease ps)\<lparr>claimed := True\<rparr>"
  obtain g3 sn' where R: "policy_related (slots (state w)) g3 (slots (staged st))"
    and fin: "policy_finish sn' g3 = (g2, Inr ())"
    using policy_guard.stage_related [OF stage begin_related [OF beg guard(1) p led]] c
    by (auto simp: policy_hook_simps)
  note f = finish_scoped [OF R fin]
  have frame: "policy_frame ?led ?l g2"
    using policy_frame.stage_keeps [of ?led ?l g1 None "state w" "operations e"] stage b guard(2)
    by (simp add: policy_frame_def)
  then have frame3: "the_ledger g3 = ?led" "the_lease g3 = ?l" using f(2) by (simp_all add: policy_frame_def)
  have commit: "policy_commit g2 = g2\<lparr>the_ledger := ?led\<lparr>sponsors := guard_sponsors (the_guard g3),
      ledger_live := guard_live (the_guard g3),
      ledger_usage := (ledger_usage (the_ledger ps))\<lparr>retained := guard_retained (the_guard g3),
        usage_revision := usage_revision (ledger_usage (the_ledger ps)) + 1\<rparr>\<rparr>\<rparr>"
    using R f(2) frame by (simp add: policy_commit_def Let_def policy_related_def policy_frame_def)
  show "\<not> terminated (policy_commit g2)" "the_lease (policy_commit g2) = ?l"
    using frame by (simp_all add: commit policy_frame_def)
  show "\<forall>i < length (slots (staged st)). scoped_change (lease_principal (the_lease ps)) (slots (state w)) (slots (staged st)) i"
    using f(1) frame3 by simp
  show "ledger_ok (the_ledger (policy_commit g2)) (w\<lparr>state := committed_snapshot (state w) st\<rparr>)"
    using R led by (simp add: commit ledger_ok_def policy_related_def committed_snapshot_def)
  show "working (ledger_usage (the_ledger (policy_commit g2))) = working (ledger_usage (the_ledger ps))"
    "requests (ledger_usage (the_ledger (policy_commit g2))) = requests (ledger_usage (the_ledger ps))"
    "global_requests (ledger_usage (the_ledger (policy_commit g2))) = global_requests (ledger_usage (the_ledger ps))"
    "global_limit (the_ledger (policy_commit g2)) = global_limit (the_ledger ps)"
    by (simp_all add: commit)
qed

text \<open>What a policy call can end in, with its state before the refund.\<close>

lemma policy_call_outcome:
  assumes run: "policy_call J e ps w = ((w', ps'), r)"
    and guard: "the_guard ps = new_guard" "\<not> terminated ps"
    and p: "lease_principal (the_lease ps) < principal_count" and led: "ledger_ok (the_ledger ps) w"
  shows "\<not> terminated ps' \<and> the_lease ps' = (the_lease ps)\<lparr>claimed := claimed (the_lease ps')\<rparr> \<and>
    ledger_ok (the_ledger ps') w' \<and>
    working (ledger_usage (the_ledger ps')) = working (ledger_usage (the_ledger ps)) \<and>
    requests (ledger_usage (the_ledger ps')) = requests (ledger_usage (the_ledger ps)) \<and>
    global_requests (ledger_usage (the_ledger ps')) = global_requests (ledger_usage (the_ledger ps)) \<and>
    global_limit (the_ledger ps') = global_limit (the_ledger ps) \<and>
    (if receipt_status r = ''committed''
     then \<forall>i < length (slots (state w')). scoped_change (lease_principal (the_lease ps)) (slots (state w)) (slots (state w')) i
     else w' = w)"
proof -
  obtain obs' res where call: "apply_at_boundary J (Some policy_hooks) (None :: (unit, unit) observer_hooks option) e (w, ps, ()) =
      ((w', ps', obs'), res)"
    and res: "res = Inr r \<or> (\<exists>x. res = Inl x \<and> r = empty_receipt)"
    using run by (auto simp: policy_call_def split: prod.splits sum.splits)
  have same: "ledger_ok ((the_ledger ps)\<lparr>ledger_world := x\<rparr>) w" if "x = ledger_world (the_ledger ps) \<or>
      (ledger_world (the_ledger ps) = None \<or> ledger_world (the_ledger ps) = Some (world_address w)) \<and> x = Some (world_address w)" for x
    using that led by (auto simp: ledger_ok_def)
  from call show ?thesis
  proof (cases rule: guarded_call_cases)
    case (refused r1)
    then have "fst (policy_begin w (state w) e ps) = ps'" by simp
    note b = begin_state [OF this]
    then obtain x where x: "the_ledger ps' = (the_ledger ps)\<lparr>ledger_world := x\<rparr>"
      "x = ledger_world (the_ledger ps) \<or>
       (ledger_world (the_ledger ps) = None \<or> ledger_world (the_ledger ps) = Some (world_address w)) \<and> x = Some (world_address w)"
      by blast
    have "receipt_status r \<noteq> ''committed''" using refused res by auto
    then show ?thesis using refused(2) x(1) same [OF x(2)] b guard by simp
  next
    case (failed g1 r1)
    then have "fst (policy_begin w (state w) e ps) = g1" by simp
    note b = begin_state [OF this]
    then obtain x where x: "the_ledger g1 = (the_ledger ps)\<lparr>ledger_world := x\<rparr>"
      "x = ledger_world (the_ledger ps) \<or>
       (ledger_world (the_ledger ps) = None \<or> ledger_world (the_ledger ps) = Some (world_address w)) \<and> x = Some (world_address w)"
      by blast
    have "policy_frame (the_ledger g1) (the_lease g1) ps'"
      using policy_frame.stage_keeps [of "the_ledger g1" "the_lease g1" g1 None "state w" "operations e"] failed(2) b guard(2)
      by (simp add: policy_frame_def)
    then have "the_ledger ps' = (the_ledger ps)\<lparr>ledger_world := x\<rparr>" "\<not> terminated ps'"
      and "the_lease ps' = (the_lease ps)\<lparr>claimed := claimed (the_lease ps')\<rparr>"
      using b x by (simp_all add: policy_frame_def)
    moreover have "receipt_status r \<noteq> ''committed''" using failed(4,5) res by auto
    ultimately show ?thesis using same [OF x(2)] failed(3) by simp
  next
    case (committed g1 g2 st r1)
    then have "policy_begin w (state w) e ps = (g1, Inr ())" "ps' = policy_commit g2" by simp_all
    note c = policy_call_committed [OF this(1) committed(2) guard p led] this(2)
    have r: "receipt_status r = ''committed''" using committed(6,7) res by auto
    have slots: "slots (state w') = slots (staged st)" using committed(5) by (simp add: committed_snapshot_def)
    show ?thesis
      unfolding c(9) slots using r c(1-8) committed(5) by simp
  qed
qed

lemma policy_apply_outcome:
  assumes run: "policy_apply J e p (w, led) = ((w', led'), r)" and led: "ledger_ok led w" and idle: "idle led"
  shows "ledger_ok led' w' \<and> idle led' \<and>
    (if receipt_status r = ''committed''
     then p < principal_count \<and> (\<forall>i < length (slots (state w')). scoped_change p (slots (state w)) (slots (state w')) i)
     else w' = w)"
proof (cases "field_bytes e")
  case (Inl err)
  then show ?thesis using run led idle by (auto simp: policy_apply_def policy_receipt_def empty_receipt_def)
next
  case (Inr n)
  obtain led1 res where adm: "admit p n led = (led1, res)" by (cases "admit p n led")
  show ?thesis
  proof (cases res)
    case (Inl d)
    then show ?thesis
      using run led idle Inr adm admit_Inl [of p n led led1 d]
      by (auto simp: policy_apply_def policy_receipt_def empty_receipt_def)
  next
    case l: (Inr l)
    note a = admit_Inr [OF adm [unfolded l]]
    let ?ps = "\<lparr>the_ledger = led1, the_lease = l, the_guard = new_guard, terminated = False\<rparr>"
    obtain ps' where call: "policy_call J e ?ps w = ((w', ps'), r)"
      and led': "led' = refund (the_lease ps') (the_ledger ps')"
      using run Inr adm l by (auto simp: policy_apply_def Let_def split: prod.splits)
    have led1: "ledger_ok led1 w" using led a by (auto simp: ledger_ok_def)
    have p: "lease_principal l = p" "p < principal_count" "lease_held l" using a by (simp_all add: new_lease_def)
    note o = policy_call_outcome [OF call, simplified, OF _ led1]
    have out: "the_lease ps' = l\<lparr>claimed := claimed (the_lease ps')\<rparr>" "ledger_ok (the_ledger ps') w'"
      "working (ledger_usage (the_ledger ps')) = working (ledger_usage led1)"
      "requests (ledger_usage (the_ledger ps')) = requests (ledger_usage led1)"
      "global_requests (ledger_usage (the_ledger ps')) = global_requests (ledger_usage led1)"
      "global_limit (the_ledger ps') = global_limit led1"
      using o p by auto
    have lease: "lease_held (the_lease ps')" "lease_principal (the_lease ps') = lease_principal l"
      "lease_bytes (the_lease ps') = lease_bytes l"
      using arg_cong [OF out(1), of lease_held] arg_cong [OF out(1), of lease_principal]
        arg_cong [OF out(1), of lease_bytes] p by simp_all
    have "global_limit (the_ledger ps') = global_limit led" using out(6) a by simp
    note r = refund_admitted [OF idle adm [unfolded l] out(3-5) this lease]
    have "ledger_ok led' w'" using out(2) r unfolding led' ledger_ok_def by simp
    then show ?thesis using o p r(1) led' by auto
  qed
qed

end
