(* ===== verification/Policy_Claims.thy ===== *)
theory Policy_Claims
  imports Policy_Laws Transaction_Claims
begin

text \<open>
  The properties of the admission policy: the accounts of admitted requests, the scope of
  committed changes and the agreement of ledger and world over any sequence of calls.
\<close>

section \<open>Admissions\<close>

text \<open>The ledgers that admissions and refunds lead to, with the leases still held.\<close>

inductive admissions :: "ledger \<Rightarrow> lease list \<Rightarrow> bool" where
  opened: "new_ledger limit = Inr led \<Longrightarrow> admissions led []"
| admitted: "admissions led ls \<Longrightarrow> admit p n led = (led', Inr l) \<Longrightarrow> admissions led' (l # ls)"
| refused: "admissions led ls \<Longrightarrow> admit p n led = (led', Inl d) \<Longrightarrow> admissions led' ls"
| released: "admissions led (xs @ l # ys) \<Longrightarrow> admissions (refund l led) (xs @ ys)"

definition held_by :: "nat \<Rightarrow> lease list \<Rightarrow> lease list" where
  "held_by p ls = filter (\<lambda>l. lease_principal l = p) ls"

definition held_charge :: "nat \<Rightarrow> lease list \<Rightarrow> nat" where
  "held_charge p ls = sum_list (map (\<lambda>l. charge (lease_bytes l)) (held_by p ls))"

definition accounts_ok :: "ledger \<Rightarrow> lease list \<Rightarrow> bool" where
  "accounts_ok led ls \<longleftrightarrow>
     length (working (ledger_usage led)) = principal_count \<and> length (requests (ledger_usage led)) = principal_count \<and>
     (\<forall>l \<in> set ls. lease_held l \<and> lease_principal l < principal_count \<and> lease_bytes l \<le> body_limit \<and>
        charge (lease_bytes l) \<le> working_limit (grants ! lease_principal l)) \<and>
     (\<forall>p < principal_count. working (ledger_usage led) ! p = held_charge p ls \<and>
        requests (ledger_usage led) ! p = length (held_by p ls) \<and> length (held_by p ls) \<le> 1) \<and>
     global_requests (ledger_usage led) = length ls \<and> length ls \<le> global_limit led \<and> global_limit led \<le> 2"

lemma size_minus_zero: "a < 2 ^ 64 \<Longrightarrow> size_minus a 0 = a"
  using size_minus_exact [of 0 a] by simp

lemma limits_small: "p < principal_count \<Longrightarrow> working_limit (grants ! p) < 2 ^ 64"
  unfolding principal_count_def by (drule less_2_cases) (auto simp: grants_def)

lemma accounts_admit:
  assumes ok: "accounts_ok led ls" and adm: "admit p n led = (led', Inr l)"
  shows "accounts_ok led' (l # ls)"
proof -
  note a = admit_Inr [OF adm]
  have p: "p < principal_count" and l: "l = new_lease p n" using a by simp_all
  have none: "held_by p ls = []" and w: "working (ledger_usage led) ! p = 0"
    using ok a p by (auto simp: accounts_ok_def held_charge_def)
  then have "charge n \<le> working_limit (grants ! p)"
    using a size_minus_zero [OF limits_small [OF p]] by simp
  moreover have "working (ledger_usage led') ! q = held_charge q (l # ls) \<and>
      requests (ledger_usage led') ! q = length (held_by q (l # ls)) \<and> length (held_by q (l # ls)) \<le> 1"
    if q: "q < principal_count" for q
  proof (cases "q = p")
    case True
    then show ?thesis
      using ok a p none w l by (simp add: accounts_ok_def held_by_def held_charge_def new_lease_def list_map_def)
  next
    case False
    then show ?thesis
      using ok a q l by (simp add: accounts_ok_def held_by_def held_charge_def new_lease_def list_map_def)
  qed
  ultimately show ?thesis
    using ok a p l by (simp add: accounts_ok_def new_lease_def list_map_def)
qed

lemma held_by_middle:
  "length (held_by p (xs @ l # ys)) = length (held_by p (xs @ ys)) + (if lease_principal l = p then 1 else 0)"
  "held_charge p (xs @ l # ys) = held_charge p (xs @ ys) + (if lease_principal l = p then charge (lease_bytes l) else 0)"
  by (simp_all add: held_by_def held_charge_def)

lemma accounts_release:
  assumes ok: "accounts_ok led (xs @ l # ys)"
  shows "accounts_ok (refund l led) (xs @ ys)"
proof -
  let ?p = "lease_principal l" and ?c = "charge (lease_bytes l)" and ?u = "ledger_usage led"
  have l: "lease_held l" "?p < principal_count" "lease_bytes l \<le> body_limit" using ok by (simp_all add: accounts_ok_def)
  have small: "?c < 2 ^ 64" using charge_small [OF l(3)] by simp
  have "length (held_by ?p (xs @ l # ys)) \<le> 1" using ok l(2) unfolding accounts_ok_def by blast
  then have "length (held_by ?p (xs @ ys)) = 0" using held_by_middle(1) [of ?p xs l ys] by simp
  then have none: "held_by ?p (xs @ ys) = []" "held_charge ?p (xs @ ys) = 0"
    by (simp_all add: held_charge_def)
  have now: "working ?u ! ?p = ?c" "requests ?u ! ?p = 1" "global_requests ?u = Suc (length (xs @ ys))"
    using ok l(2) held_by_middle [of ?p xs l ys] none by (simp_all add: accounts_ok_def)
  have minus: "size_minus ?c ?c = 0" "size_minus 1 1 = 0" "size_minus (Suc (length (xs @ ys))) 1 = length (xs @ ys)"
    using size_minus_exact [of ?c ?c] size_minus_exact [of 1 1] size_minus_exact [of 1 "Suc (length (xs @ ys))"]
      small ok by (simp_all add: accounts_ok_def)
  have "working (ledger_usage (refund l led)) ! q = held_charge q (xs @ ys) \<and>
      requests (ledger_usage (refund l led)) ! q = length (held_by q (xs @ ys)) \<and> length (held_by q (xs @ ys)) \<le> 1"
    if q: "q < principal_count" for q
  proof (cases "q = ?p")
    case True
    then show ?thesis
      using ok l none now minus by (simp add: refund_def list_map_def accounts_ok_def)
  next
    case False
    have "working ?u ! q = held_charge q (xs @ l # ys) \<and> requests ?u ! q = length (held_by q (xs @ l # ys)) \<and>
        length (held_by q (xs @ l # ys)) \<le> 1"
      using ok q unfolding accounts_ok_def by blast
    then have "working ?u ! q = held_charge q (xs @ ys) \<and> requests ?u ! q = length (held_by q (xs @ ys)) \<and>
        length (held_by q (xs @ ys)) \<le> 1"
      using False held_by_middle [of q xs l ys] by simp
    moreover have "length (working ?u) = principal_count" "length (requests ?u) = principal_count"
      using ok by (simp_all add: accounts_ok_def)
    ultimately show ?thesis
      using l q False by (auto simp: refund_def list_map_def)
  qed
  then show ?thesis
    using ok l now minus(3) by (auto simp: accounts_ok_def refund_def list_map_def)
qed

lemma accounts_new: "new_ledger limit = Inr led \<Longrightarrow> accounts_ok led []"
  by (auto simp: new_ledger_def accounts_ok_def empty_usage_def held_charge_def held_by_def split: if_splits)

lemma admissions_ok: "admissions led ls \<Longrightarrow> accounts_ok led ls"
  by (induction rule: admissions.induct)
    (auto intro: accounts_new accounts_admit accounts_release dest: admit_Inl)

text \<open>C19: Whatever admissions and refunds happen, in any order and with leases of both principals
  held at once: the charges of a principal are exactly those of the leases it holds, it holds
  at most one, they never exceed its working limit, so no subtraction on these counters wraps,
  and the leases held altogether stay within the global limit.\<close>

theorem admission_accounts:
  assumes "admissions led ls" "p < principal_count"
  shows "working (ledger_usage led) ! p = held_charge p ls \<and>
    working (ledger_usage led) ! p \<le> working_limit (grants ! p) \<and>
    requests (ledger_usage led) ! p \<le> 1 \<and>
    global_requests (ledger_usage led) = length ls \<and> length ls \<le> global_limit led"
proof -
  have ok: "accounts_ok led ls" using admissions_ok [OF assms(1)] .
  have "held_charge p ls \<le> working_limit (grants ! p)"
  proof (cases "held_by p ls")
    case (Cons l rest)
    then have "rest = []" using ok assms(2) by (auto simp: accounts_ok_def)
    moreover have "l \<in> set ls" "lease_principal l = p"
      using Cons by (auto simp: held_by_def filter_eq_Cons_iff)
    ultimately show ?thesis using ok Cons by (auto simp: accounts_ok_def held_charge_def)
  qed (simp add: held_charge_def)
  then show ?thesis using ok assms(2) by (simp add: accounts_ok_def)
qed

definition start_ledger :: ledger where
  "start_ledger =
     \<lparr>ledger_usage = empty_usage, sponsors = replicate slot_count (- 1),
      ledger_live = replicate slot_count False, ledger_world = None, global_limit = 2\<rparr>"

lemma start_ledger_new: "new_ledger 2 = Inr start_ledger"
  by (simp add: new_ledger_def start_ledger_def)

lemma eight: "[0 ..< slot_count] = [0, 1, 2, 3, 4, 5, 6, 7]" "replicate slot_count x = [x, x, x, x, x, x, x, x]"
  "replicate 8 x = [x, x, x, x, x, x, x, x]" "replicate 7 x = [x, x, x, x, x, x, x]" "replicate 2 x = [x, x]"
  "[0 ..< 2] = [0, 1]" "[0 ..< 8] = [0, 1, 2, 3, 4, 5, 6, 7]"
  by (simp_all add: slot_count_def eval_nat_numeral)

lemmas policy_samples = start_ledger_def empty_usage_def new_lease_def new_guard_def
  principal_count_def slot_count_def eight

definition charged_ledger :: "nat list \<Rightarrow> nat list \<Rightarrow> ledger" where
  "charged_ledger ws rs =
     start_ledger\<lparr>ledger_usage := empty_usage\<lparr>working := ws, requests := rs, global_requests := sum_list rs\<rparr>\<rparr>"

lemmas admit_samples = admit_def grant_of_def working_charge_def charge_def body_limit_def size_minus_def
  grants_def require_def list_map_def charged_ledger_def policy_samples

lemma two_admitted:
  "admit 0 100 start_ledger = (charged_ledger [74528, 0] [1, 0], Inr (new_lease 0 100))"
  "admit 1 16384 (charged_ledger [74528, 0] [1, 0]) = (charged_ledger [74528, 204800] [1, 1], Inr (new_lease 1 16384))"
  by (simp_all add: admit_samples)

definition two_leases :: ledger where
  "two_leases = charged_ledger [74528, 204800] [1, 1]"

lemma two_leases_reached: "admissions two_leases [new_lease 1 16384, new_lease 0 100]"
  unfolding two_leases_def
  by (rule admissions.admitted [OF admissions.admitted [OF admissions.opened [OF start_ledger_new] two_admitted(1)] two_admitted(2)])

theorem admission_accounts_witness:
  "working (ledger_usage two_leases) ! 1 = held_charge 1 [new_lease 1 16384, new_lease 0 100] \<and>
    working (ledger_usage two_leases) ! 1 \<le> working_limit (grants ! 1) \<and>
    requests (ledger_usage two_leases) ! 1 \<le> 1 \<and>
    global_requests (ledger_usage two_leases) = length [new_lease 1 16384, new_lease 0 100] \<and>
    length [new_lease 1 16384, new_lease 0 100] \<le> global_limit two_leases"
  by (rule admission_accounts [OF two_leases_reached]) (simp add: principal_count_def)

section \<open>A session of policy calls\<close>

inductive policy_session :: "world \<Rightarrow> world \<Rightarrow> ledger \<Rightarrow> bool" for w0 where
  opened: "new_ledger limit = Inr led \<Longrightarrow> policy_session w0 w0 led"
| applied: "policy_session w0 w led \<Longrightarrow> policy_apply J e p (w, led) = ((w', led'), r) \<Longrightarrow>
    policy_session w0 w' led'"

lemma new_ledger_idle: "new_ledger limit = Inr led \<Longrightarrow> idle led"
  by (auto simp: new_ledger_def idle_def empty_usage_def split: if_splits)

lemma new_ledger_ok:
  assumes "make_world address w seed0 cap = Inr w0" "new_ledger limit = Inr led"
  shows "ledger_ok led w0"
proof -
  have w0: "slots (state w0) = []" "world_revision (state w0) = 0"
    using assms(1) by (auto simp: make_world_def split: if_splits)
  have led: "led = \<lparr>ledger_usage = empty_usage, sponsors = replicate slot_count (- 1),
      ledger_live = replicate slot_count False, ledger_world = None, global_limit = limit\<rparr>"
    using assms(2) by (simp add: new_ledger_def split: if_splits)
  have "books_ok (replicate slot_count (- 1)) (replicate slot_count False) (replicate principal_count 0)"
    by code_simp
  then show ?thesis
    using w0 by (simp add: led ledger_ok_def empty_usage_def mirrors_def live_slot_def)
qed

lemma session_ok:
  assumes "policy_session w0 w led" "make_world address wid seed0 cap = Inr w0"
  shows "ledger_ok led w \<and> idle led"
  using assms(1)
proof induction
  case (opened limit led)
  then show ?case using new_ledger_ok [OF assms(2)] new_ledger_idle by blast
next
  case (applied w led J e p w' led' r)
  then show ?case using policy_apply_outcome [of J e p w led w' led' r] by blast
qed

text \<open>A call of the eastern principal that creates a cube and places it in its region.\<close>

definition workshop :: world where
  "workshop =
     \<lparr>world_address = 5, state = \<lparr>format_version = 1, snapshot_world_id = ''workshop'', seed = 7,
        max_slots = 8, world_revision = 0, slots = []\<rparr>\<rparr>"

definition east_spot :: transform where
  "east_spot = \<lparr>position_m = (f_two, 0, 0), rotation_xyzw = (0, 0, 0, f_one), scale = (f_one, f_one, f_one)\<rparr>"

definition east_envelope :: envelope where
  "east_envelope =
     sample_envelope\<lparr>world_id := ''workshop'',
       operations := [EntityCreate ''a'' unit_cube, TransformSet (TemporaryTarget ''a'') east_spot]\<rparr>"

definition east_lib :: json_lib where
  "east_lib = one_value_lib (printed_json east_envelope)"

definition east_world :: world where
  "east_world = workshop\<lparr>state := (state workshop)\<lparr>world_revision := 1, slots := [live uuid_a (cube east_spot None [])]\<rparr>\<rparr>"

definition east_charge :: nat where
  "east_charge = 76"

definition admitted_east :: policy_state where
  "admitted_east =
     \<lparr>the_ledger = charged_ledger [0, 74336] [0, 1], the_lease = new_lease 1 east_charge, the_guard = new_guard, terminated = False\<rparr>"

definition begun_east :: policy_state where
  "begun_east =
     \<lparr>the_ledger = (charged_ledger [0, 74336] [0, 1])\<lparr>ledger_world := Some 5\<rparr>, the_lease = (new_lease 1 east_charge)\<lparr>claimed := True\<rparr>,
      the_guard = new_guard\<lparr>begun := True, guard_sponsors := replicate 8 (- 1)\<rparr>, terminated = False\<rparr>"

definition created_east :: policy_state where
  "created_east = begun_east\<lparr>the_guard := (the_guard begun_east)
     \<lparr>guard_sponsors := 1 # replicate 7 (- 1), guard_live := True # replicate 7 False,
      unplaced := True # replicate 7 False, guard_retained := [0, 384]\<rparr>\<rparr>"

definition placed_east :: policy_state where
  "placed_east = created_east\<lparr>the_guard := (the_guard created_east)\<lparr>unplaced := replicate 8 False\<rparr>\<rparr>"

definition finished_east :: policy_state where
  "finished_east = placed_east\<lparr>the_guard := (the_guard placed_east)\<lparr>finished := True\<rparr>\<rparr>"

lemma east_field_bytes: "field_bytes east_envelope = Inr east_charge"
  by (simp add: field_bytes_def east_envelope_def sample_envelope_def policy_operation_limit_def add_field_def
      body_limit_def unit_cube_def east_charge_def)

lemma east_admit: "admit 1 east_charge start_ledger = (charged_ledger [0, 74336] [0, 1], Inr (new_lease 1 east_charge))"
  by (simp add: admit_samples east_charge_def)

lemma east_begin:
  "policy_begin workshop (state workshop) east_envelope admitted_east = (begun_east, Inr ())"
  by (simp add: policy_begin_def begin_checks_def east_field_bytes flat_world_def slot_agrees_def require_def Let_def
      workshop_def begun_east_def admitted_east_def charged_ledger_def policy_samples)

lemma east_validated: "validated_json east_envelope = Inr (printed_json east_envelope)"
  by code_simp

lemma half_samples:
  "fabs f_one = f_one" "fmul f_one f_half = f_half" "fmul 0 f_half = 0" "fadd f_zero f_half = f_half"
  "fadd f_zero 0 = 0" "fadd f_half 0 = f_half" "fadd 0 f_half = f_half"
  "fsub f_two f_half = 0x3FF8000000000000" "fadd f_two f_half = 0x4004000000000000" "fsub 0 f_half = 0xBFE0000000000000"
  by code_simp+

lemma bound_samples:
  "f_int 1 = f_one" "f_int 8 = 0x4020000000000000" "f_int 4 = 0x4010000000000000" "f_int (-4) = 0xC010000000000000"
  by code_simp+

lemma east_axes: "axis_inside (f_int 1) (f_int 8) f_two f_half" "axis_inside (f_int (-4)) (f_int 4) 0 f_half"
  unfolding axis_inside_def Let_def bound_samples half_samples by code_simp+

lemma east_in_scope: "in_scope 1 east_spot"
  by (simp add: in_scope_def east_spot_def grants_def Let_def float_samples half_samples east_axes)

lemma east_replacement: "replacement_transform east_spot path index = Inr east_spot"
  by (simp add: replacement_transform_def squared_norm_def east_spot_def normalize_zero_def positive_zero_def
      float_samples sample_not_nan Let_def)

lemma east_created: "policy_create 0 0 begun_east = (created_east, Inr ())"
  by (simp add: policy_create_def account_def with_guard_def require_def Let_def grants_def skeleton_charge_def
      cube_charge_def created_east_def begun_east_def charged_ledger_def policy_samples)

lemma east_waiting:
  "unplaced (the_guard created_east) = True # replicate 7 False" "lease_principal (the_lease created_east) = 1"
  by (simp_all add: created_east_def begun_east_def charged_ledger_def policy_samples)

lemma east_placed: "policy_transform 0 before east_spot index created_east = (placed_east, Inr ())"
  using east_waiting east_in_scope
  by (simp add: policy_transform_def Let_def scope_check_def require_def placed_east_def eight)

lemma east_finished: "policy_finish sn placed_east = (finished_east, Inr ())"
  using east_waiting by (simp add: policy_finish_def finished_east_def) (simp add: placed_east_def eight)

definition east_bindings :: "created_binding list" where
  "east_bindings =
     [\<lparr>binding_temporary_id = ''a'', binding_world_id = ''workshop'', binding_uuid = uuid_a, binding_generation = 1\<rparr>]"

lemma east_stage_create:
  "apply_create (Some policy_hooks) None 1 0 ''a'' unit_cube
     \<lparr>staged = state workshop, staged_names = [], staged_created = []\<rparr> begun_east =
   (created_east, Inr \<lparr>staged = (state workshop)\<lparr>slots := [live uuid_a (cube default_transform None [])]\<rparr>,
       staged_names = [(''a'', (''workshop'', uuid_a, 1))], staged_created = east_bindings\<rparr>)"
  by (simp add: apply_create_def allocate_slot_def use_binding_def new_slot_def new_entity_def workshop_def
      east_bindings_def east_created hook_def sample_simps)

lemma east_stage_transform:
  "apply_transform (Some policy_hooks) 1 1 (TemporaryTarget ''a'') east_spot
     \<lparr>staged = (state workshop)\<lparr>slots := [live uuid_a (cube default_transform None [])]\<rparr>,
      staged_names = [(''a'', (''workshop'', uuid_a, 1))], staged_created = east_bindings\<rparr> created_east =
   (placed_east, Inr \<lparr>staged = (state workshop)\<lparr>slots := [live uuid_a (cube east_spot None [])]\<rparr>,
      staged_names = [(''a'', (''workshop'', uuid_a, 1))], staged_created = east_bindings\<rparr>)"
  by (simp add: apply_transform_def east_replacement resolve_identity_def has_children_def child_of_def
      parent_of_def entity_at_def map_entity_def subtree_def subtree_loop.simps subtree_child_def
      upt_rec set_slots_def res_simps east_placed hook_def workshop_def sample_simps)

lemma east_stage:
  "stage (Some policy_hooks) None (state workshop) (operations east_envelope) begun_east =
     (finished_east, Inr \<lparr>staged = (state workshop)\<lparr>slots := [live uuid_a (cube east_spot None [])]\<rparr>,
        staged_names = [(''a'', (''workshop'', uuid_a, 1))], staged_created = east_bindings\<rparr>)"
proof -
  have r: "world_revision (state workshop) + 1 = 1" by (simp add: workshop_def)
  have nums: "Suc 0 = 1" by simp
  show ?thesis
    by (simp del: One_nat_def add: stage_def r east_envelope_def gbind_def gret_def Let_def nums hook_def
        east_stage_create east_stage_transform east_finished)
      (simp add: staged_version_def live_def cube_def workshop_def)
qed

lemma east_serialize: "serialize east_lib east_envelope = Inr ''{}''"
  using serialize_Inr_iff [OF east_validated one_value_reads_back one_value_dump] one_value_fits
  unfolding east_lib_def by blast

lemma east_admission: "admission workshop east_lib east_envelope = Inr ()"
  by (simp add: admission_def east_serialize) (simp add: workshop_def east_envelope_def sample_envelope_def)

definition east_receipt :: receipt where
  "east_receipt = commit_receipt (initial_receipt (Some policy_hooks) workshop east_envelope) 1 east_bindings"

definition east_ledger :: ledger where
  "east_ledger = refund (the_lease (policy_commit finished_east)) (the_ledger (policy_commit finished_east))"

lemma east_call:
  "policy_call east_lib east_envelope admitted_east workshop =
     ((east_world, policy_commit finished_east), east_receipt)"
proof -
  show ?thesis
    by (simp add: east_begin policy_call_def apply_at_boundary_def apply_envelope_def Let_def east_admission east_stage
        publish_commit_def east_receipt_def hook_def)
      (simp add: workshop_def east_world_def)
qed

lemma workshop_made: "make_world 5 ''workshop'' 7 8 = Inr workshop"
  by code_simp

lemma east_applied: "policy_apply east_lib east_envelope 1 (workshop, start_ledger) = ((east_world, east_ledger), east_receipt)"
  using east_call
  by (simp add: policy_apply_def east_field_bytes east_admit admitted_east_def east_ledger_def del: One_nat_def)

lemma east_session: "policy_session workshop east_world east_ledger"
  by (rule policy_session.applied [OF policy_session.opened [OF start_ledger_new] east_applied])

lemma live_slot_in_scope:
  assumes "live_slot ss i \<longrightarrow> in_scope p (transform_of (entity_at ss i))"
  shows "pred_option (\<lambda>c. in_scope p (transform_of c)) (if i < length ss then entity_of (ss ! i) else None)"
  using assms by (cases "entity_of (ss ! i)") (simp_all add: live_slot_def entity_at_def)

lemma scoped_change_slots:
  assumes "scoped_change p ss0 ss i" "i < length ss"
  shows "i < length ss0 \<and> ss ! i = ss0 ! i \<or>
      pred_option (\<lambda>c. in_scope p (transform_of c)) (if i < length ss0 then entity_of (ss0 ! i) else None) \<and>
      pred_option (\<lambda>c. in_scope p (transform_of c)) (entity_of (ss ! i))"
  using assms live_slot_in_scope [of ss0 i p] live_slot_in_scope [of ss i p] unfolding scoped_change_def by presburger

text \<open>C17: In any sequence of calls on a fresh fixture world, of any principals with any envelopes: a
  call that commits was made by one of the two principals, and every slot it changed held no cube
  outside that principal's write region before and holds none after; any other call leaves the
  world as it was.\<close>

theorem committed_changes_in_scope:
  assumes "make_world address wid seed0 cap = Inr w0" "policy_session w0 w led"
    and "policy_apply J e p (w, led) = ((w', led'), r)"
  shows "if receipt_status r = ''committed''
    then p < principal_count \<and>
      (\<forall>i < length (slots (state w')).
         i < length (slots (state w)) \<and> slots (state w') ! i = slots (state w) ! i \<or>
         pred_option (\<lambda>c. in_scope p (transform_of c)) (if i < length (slots (state w)) then entity_of (slots (state w) ! i) else None) \<and>
         pred_option (\<lambda>c. in_scope p (transform_of c)) (entity_of (slots (state w') ! i)))
    else w' = w"
proof (cases "receipt_status r = ''committed''")
  case False
  then show ?thesis
    using policy_apply_outcome [OF assms(3)] session_ok [OF assms(2,1)] by simp
next
  case True
  then have p: "p < principal_count"
    and scoped: "i < length (slots (state w')) \<Longrightarrow> scoped_change p (slots (state w)) (slots (state w')) i" for i
    using policy_apply_outcome [OF assms(3)] session_ok [OF assms(2,1)] by simp_all
  have "i < length (slots (state w)) \<and> slots (state w') ! i = slots (state w) ! i \<or>
      pred_option (\<lambda>c. in_scope p (transform_of c)) (if i < length (slots (state w)) then entity_of (slots (state w) ! i) else None) \<and>
      pred_option (\<lambda>c. in_scope p (transform_of c)) (entity_of (slots (state w') ! i))"
    if "i < length (slots (state w'))" for i
    using scoped [OF that] that by (rule scoped_change_slots)
  then show ?thesis using True p by simp
qed

theorem committed_changes_in_scope_witness:
  "1 < principal_count \<and> entity_of (slots (state east_world) ! 0) = Some (cube east_spot None []) \<and>
    pred_option (\<lambda>c. in_scope 1 (transform_of c)) (entity_of (slots (state east_world) ! 0))"
proof -
  have "receipt_status east_receipt = ''committed''" by (simp add: east_receipt_def commit_receipt_def)
  moreover have "slots (state east_world) = [live uuid_a (cube east_spot None [])]" "slots (state workshop) = []"
    by (simp_all add: east_world_def workshop_def)
  ultimately show ?thesis
    using committed_changes_in_scope [OF workshop_made policy_session.opened [OF start_ledger_new] east_applied]
    by (simp add: live_def)
qed

text \<open>C18: After any sequence of calls the ledger and the world agree: a principal retains exactly
  the charges of the slots it sponsors, within its grant; nothing stays charged for requests; the
  revisions are equal; the sponsored slots are those of the world, and those marked live hold a
  cube.\<close>

theorem policy_books_balance:
  assumes "make_world address wid seed0 cap = Inr w0" "policy_session w0 w led"
  shows "usage_revision (ledger_usage led) = world_revision (state w) \<and>
    working (ledger_usage led) = [0, 0] \<and> requests (ledger_usage led) = [0, 0] \<and>
    global_requests (ledger_usage led) = 0 \<and>
    (\<forall>p < principal_count. retained (ledger_usage led) ! p = retained_by p (sponsors led) (ledger_live led) \<and>
       retained_by p (sponsors led) (ledger_live led) \<le> retained_limit (grants ! p)) \<and>
    length (slots (state w)) \<le> slot_count \<and>
    (\<forall>i < slot_count. (0 \<le> sponsors led ! i) = (i < length (slots (state w))) \<and>
       ledger_live led ! i = (i < length (slots (state w)) \<and> entity_of (slots (state w) ! i) \<noteq> None))"
  using session_ok [OF assms(2,1)]
  by (auto simp: ledger_ok_def idle_def books_ok_def mirrors_def totals_def within_grants_def live_slot_def
      list_all_iff principal_count_def eval_nat_numeral less_Suc_eq)

theorem policy_books_balance_witness:
  "usage_revision (ledger_usage east_ledger) = world_revision (state east_world) \<and>
    working (ledger_usage east_ledger) = [0, 0] \<and> requests (ledger_usage east_ledger) = [0, 0]"
  using policy_books_balance [OF workshop_made east_session] by blast

end
