(* ===== verification/Sha256.thy ===== *)
theory Sha256
  imports Byte_Codec
begin

text \<open>
  The digest of \<open>src/persistence_io.cpp\<close> that names stored content and authenticates journal
  frames.  Words are kept at 32 bits, so the additions wrap as in the source.  The lemmas show
  that padding terminates, fills whole blocks and keeps different inputs apart.
\<close>

section \<open>Padding\<close>

text \<open>The loop that appends zero bytes up to 56 modulo 64.\<close>

definition zeros_missing :: "nat \<Rightarrow> nat" where
  "zeros_missing n = (120 - n mod 64) mod 64"

lemma zeros_missing_Suc:
  assumes "n mod 64 \<noteq> 56"
  shows "zeros_missing n = Suc (zeros_missing (Suc n))"
proof -
  have "n mod 64 < 64" by simp
  then consider "n mod 64 < 56" | "n mod 64 = 63" | "56 < n mod 64" "n mod 64 < 63"
    using assms by linarith
  then show ?thesis
    by cases (simp_all add: zeros_missing_def mod_Suc le_mod_geq)
qed

lemma zeros_missing_0: "n mod 64 = 56 \<Longrightarrow> zeros_missing n = 0"
  by (simp add: zeros_missing_def)

function zero_fill :: "bytes \<Rightarrow> bytes" where
  "zero_fill data = (if length data mod 64 = 56 then data else zero_fill (data @ [0]))"
  by pat_completeness auto

termination zero_fill
  by (relation "measure (\<lambda>data. zeros_missing (length data))") (simp_all add: zeros_missing_Suc)

declare zero_fill.simps [simp del]

definition big_endian :: "u64 \<Rightarrow> bytes" where
  "big_endian v = map (\<lambda>i. ucast (drop_bit (8 * (i - 1)) v)) [8, 7, 6, 5, 4, 3, 2, 1]"

definition padded :: "bytes \<Rightarrow> bytes" where
  "padded input = zero_fill (input @ [0x80]) @ big_endian (word_of_nat (length input) * 8)"

section \<open>Compression\<close>

text \<open>The table \<open>k\<close>, in decimal.\<close>

definition round_constants :: "u32 list" where
  "round_constants =
    [1116352408, 1899447441, 3049323471, 3921009573, 961987163, 1508970993, 2453635748, 2870763221,
     3624381080, 310598401, 607225278, 1426881987, 1925078388, 2162078206, 2614888103, 3248222580,
     3835390401, 4022224774, 264347078, 604807628, 770255983, 1249150122, 1555081692, 1996064986,
     2554220882, 2821834349, 2952996808, 3210313671, 3336571891, 3584528711, 113926993, 338241895,
     666307205, 773529912, 1294757372, 1396182291, 1695183700, 1986661051, 2177026350, 2456956037,
     2730485921, 2820302411, 3259730800, 3345764771, 3516065817, 3600352804, 4094571909, 275423344,
     430227734, 506948616, 659060556, 883997877, 958139571, 1322822218, 1537002063, 1747873779,
     1955562222, 2024104815, 2227730452, 2361852424, 2428436474, 2756734187, 3204031479, 3329325298]"

type_synonym hash_state = "u32 \<times> u32 \<times> u32 \<times> u32 \<times> u32 \<times> u32 \<times> u32 \<times> u32"

definition initial_hash :: hash_state where
  "initial_hash =
     (1779033703, 3144134277, 1013904242, 2773480762, 1359893119, 2600822924, 528734635, 1541459225)"

definition block_word :: "bytes \<Rightarrow> nat \<Rightarrow> u32" where
  "block_word block i = foldl (\<lambda>w j. or (push_bit 8 w) (ucast (block ! (i * 4 + j)))) 0 [0, 1, 2, 3]"

definition extend_schedule :: "u32 list \<Rightarrow> nat \<Rightarrow> u32 list" where
  "extend_schedule w i =
     (let a = w ! (i - 15); b = w ! (i - 2) in
      w @ [w ! (i - 16) + xor (xor (word_rotr 7 a) (word_rotr 18 a)) (drop_bit 3 a) + w ! (i - 7) +
           xor (xor (word_rotr 17 b) (word_rotr 19 b)) (drop_bit 10 b)])"

definition schedule :: "bytes \<Rightarrow> u32 list" where
  "schedule block = foldl extend_schedule (map (block_word block) [0 ..< 16]) [16 ..< 64]"

fun sha_round :: "hash_state \<Rightarrow> u32 \<times> u32 \<Rightarrow> hash_state" where
  "sha_round (a, b, c, d, e, f, g, v) (k, w) =
     (let t1 = v + xor (xor (word_rotr 6 e) (word_rotr 11 e)) (word_rotr 25 e) + xor (and e f) (and (not e) g) + k + w;
          t2 = xor (xor (word_rotr 2 a) (word_rotr 13 a)) (word_rotr 22 a) + xor (xor (and a b) (and a c)) (and b c)
      in (t1 + t2, a, b, c, d + t1, e, f, g))"

fun hash_add :: "hash_state \<Rightarrow> hash_state \<Rightarrow> hash_state" where
  "hash_add (a, b, c, d, e, f, g, v) (a', b', c', d', e', f', g', v') =
     (a + a', b + b', c + c', d + d', e + e', f + f', g + g', v + v')"

definition compress_block :: "hash_state \<Rightarrow> bytes \<Rightarrow> hash_state" where
  "compress_block h block = hash_add h (foldl sha_round h (zip round_constants (schedule block)))"

fun compress_blocks :: "nat \<Rightarrow> bytes \<Rightarrow> hash_state \<Rightarrow> hash_state" where
  "compress_blocks 0 data h = h"
| "compress_blocks (Suc n) data h = compress_blocks n (drop 64 data) (compress_block h (take 64 data))"

fun hash_words :: "hash_state \<Rightarrow> u32 list" where
  "hash_words (a, b, c, d, e, f, g, v) = [a, b, c, d, e, f, g, v]"

definition word_digest :: "u32 \<Rightarrow> bytes" where
  "word_digest h = map (\<lambda>j. ucast (drop_bit (24 - j * 8) h)) [0, 1, 2, 3]"

definition digest_of :: "bytes \<Rightarrow> bytes" where
  "digest_of input =
     (let data = padded input in
      concat (map word_digest (hash_words (compress_blocks (length data div 64) data initial_hash))))"

definition sha256 :: "bytes \<Rightarrow> string + bytes" where
  "sha256 input =
     (if length input > 18446744073709551615 div 8 then Inl ''BUDGET_EXCEEDED'' else Inr (digest_of input))"

section \<open>Properties of the padding\<close>

lemma zero_fill_eq: "zero_fill data = data @ replicate (zeros_missing (length data)) 0"
proof (induction data rule: zero_fill.induct)
  case (1 data)
  show ?case
  proof (cases "length data mod 64 = 56")
    case True
    then show ?thesis by (simp add: zero_fill.simps [of data] zeros_missing_0)
  next
    case False
    then show ?thesis
      using 1 zeros_missing_Suc [OF False] by (simp add: zero_fill.simps [of data])
  qed
qed

lemma zero_fill_code [code]: "zero_fill data = data @ replicate (zeros_missing (length data)) 0"
  by (rule zero_fill_eq)

lemma length_big_endian [simp]: "length (big_endian v) = 8"
  by (simp add: big_endian_def)

lemma big_endian_inject: "big_endian v = big_endian w \<Longrightarrow> v = w"
proof -
  assume eq: "big_endian v = big_endian w"
  have "(ucast (drop_bit (8 * (i - 1)) v) :: u8) = ucast (drop_bit (8 * (i - 1)) w)"
    if "i \<in> set [8, 7, 6, 5, 4, 3, 2, 1]" for i
    using eq that unfolding big_endian_def map_eq_conv by blast
  moreover have "Suc k \<in> set [8, 7, 6, 5, 4, 3, 2, 1]" if "k < 8" for k
    using that by (simp add: less_Suc_eq numeral_eq_Suc) blast
  ultimately have "(ucast (drop_bit (8 * k) v) :: u8) = ucast (drop_bit (8 * k) w)" if "k < 8" for k
    using that by (metis diff_Suc_1)
  then have byte: "bit v (8 * k + j) = bit w (8 * k + j)" if "k < 8" "j < 8" for k j
    using that by (auto simp: bit_eq_iff [where 'a = "8 word"] bit_simps)
  show "v = w"
  proof (rule bit_word_eqI)
    fix n
    assume "n < LENGTH(64)"
    then have "n div 8 < 8" "n mod 8 < 8" by auto
    from byte [OF this] show "bit v n = bit w n" by simp
  qed
qed

lemma length_padded: "length (padded input) mod 64 = 0"
proof -
  have "(n + zeros_missing n) mod 64 = 56" for n
  proof (induction "zeros_missing n" arbitrary: n)
    case 0
    then show ?case using zeros_missing_Suc [of n] by (cases "n mod 64 = 56") simp_all
  next
    case (Suc k)
    then have "n mod 64 \<noteq> 56" using zeros_missing_0 [of n] by auto
    then show ?case using zeros_missing_Suc [of n] Suc.hyps(1) [of "Suc n"] Suc.hyps(2) by simp
  qed
  then have fill: "length (zero_fill data) mod 64 = 56" for data by (simp add: zero_fill_eq)
  show ?thesis
    using fill [of "input @ [0x80]"] mod_add_left_eq [of "length (zero_fill (input @ [0x80]))" 64 8] by (simp add: padded_def)
qed

lemma length_word_digest [simp]: "length (word_digest h) = 4"
  by (simp add: word_digest_def)

lemma length_digest_of [simp, codec_simps]: "length (digest_of input) = 32"
proof -
  have "length (concat (map word_digest (hash_words h))) = 32" for h
    by (cases h rule: hash_words.cases) simp
  then show ?thesis by (simp add: digest_of_def Let_def)
qed

lemma sha256_small: "length input \<le> 2 ^ 60 \<Longrightarrow> sha256 input = Inr (digest_of input)"
  by (simp add: sha256_def)

text \<open>C24: The message that is hashed consists of whole 64-byte blocks, begins with the input and
  differs for different inputs: no two inputs shorter than \<open>2^61\<close> bytes are padded alike.\<close>

theorem padding_keeps_inputs_apart:
  assumes "length a < 2 ^ 61" "length b < 2 ^ 61"
  shows "length (padded a) mod 64 = 0 \<and> take (length a) (padded a) = a \<and> (padded a = padded b \<longleftrightarrow> a = b)"
proof -
  have start: "take (length x) (padded x) = x" for x
    by (simp add: padded_def zero_fill_eq)
  have "a = b" if eq: "padded a = padded b"
  proof -
    have "big_endian (word_of_nat (length a) * 8) = big_endian (word_of_nat (length b) * 8)"
      using eq by (simp add: padded_def)
    then have "(word_of_nat (length a) * 8 :: u64) = word_of_nat (length b) * 8" by (rule big_endian_inject)
    moreover have "(word_of_nat n * 8 :: u64) = word_of_nat (n * 8)" for n by simp
    moreover have "unat (word_of_nat (n * 8) :: u64) = n * 8" if "n < 2 ^ 61" for n
      using that by (simp add: unsigned_of_nat take_bit_nat_eq_self_iff del: of_nat_mult)
    ultimately have "length a * 8 = length b * 8" using assms by metis
    then have "length a = length b" by simp
    then show ?thesis using eq start [of a] start [of b] by metis
  qed
  then show ?thesis using length_padded start by auto
qed

theorem padding_keeps_inputs_apart_witness:
  "length (padded [1]) mod 64 = 0 \<and> take (length [1 :: u8]) (padded [1]) = [1] \<and>
    (padded [1] = padded [1, 0] \<longleftrightarrow> [1 :: u8] = [1, 0])"
  by (rule padding_keeps_inputs_apart) simp_all

end
