(* ===== verification/Reader.thy ===== *)
theory Reader
  imports Byte_Codec
begin

text \<open>
  Readers over untrusted bytes: what \<open>assets::Reader\<close>, \<open>persistence::Reader\<close> and \<open>gltf::le32\<close>
  have in common.  A reader takes the bytes that remain and returns an error or a value and
  the bytes after it; \<open>rd_bind\<close> sequences two, so that the first error ends the parse.  The
  locale \<open>readable\<close> is the contract between an encoder and the reader of its output.
\<close>

type_synonym 'a reader = "bytes \<Rightarrow> string + 'a \<times> bytes"

definition rd_return :: "'a \<Rightarrow> 'a reader" where
  "rd_return a bs = Inr (a, bs)"

definition rd_fail :: "string \<Rightarrow> 'a reader" where
  "rd_fail code bs = Inl code"

definition rd_bind :: "'a reader \<Rightarrow> ('a \<Rightarrow> 'b reader) \<Rightarrow> 'b reader" where
  "rd_bind m f bs = rbind (m bs) (\<lambda>(a, rest). f a rest)"

definition rd_check :: "bool \<Rightarrow> string \<Rightarrow> unit reader" where
  "rd_check b code bs = rbind (require b code) (\<lambda>_. Inr ((), bs))"

definition rd_lift :: "string + 'a \<Rightarrow> 'a reader" where
  "rd_lift r bs = rbind r (\<lambda>a. Inr (a, bs))"

named_theorems rd_simps \<open>running and inverting readers\<close>

lemma rd_return_eq [simp, rd_simps]: "rd_return a bs = Inr (a, bs)"
  by (simp add: rd_return_def)

lemma rd_fail_eq [simp, rd_simps]: "rd_fail code bs = Inl code"
  by (simp add: rd_fail_def)

lemma rd_check_eq [rd_simps]: "rd_check b code bs = (if b then Inr ((), bs) else Inl code)"
  by (simp add: rd_check_def require_def)

lemma rd_bind_Inr [rd_simps]:
  "rd_bind m f bs = Inr r \<longleftrightarrow> (\<exists>a rest. m bs = Inr (a, rest) \<and> f a rest = Inr r)"
  by (auto simp: rd_bind_def res_simps)

lemma rd_bind_step: "m bs = Inr (a, rest) \<Longrightarrow> rd_bind m f bs = f a rest"
  by (simp add: rd_bind_def)

lemma rd_bind_error: "m bs = Inl code \<Longrightarrow> rd_bind m f bs = Inl code"
  by (simp add: rd_bind_def)

lemma rd_lift_Inr [rd_simps]: "rd_lift r bs = Inr x \<longleftrightarrow> (\<exists>a. r = Inr a \<and> x = (a, bs))"
  by (auto simp: rd_lift_def res_simps)

lemma rd_lift_step [simp]: "rd_lift (Inr a) bs = Inr (a, bs)"
  by (simp add: rd_lift_def)

section \<open>Taking bytes\<close>

definition rd_take :: "string \<Rightarrow> nat \<Rightarrow> bytes reader" where
  "rd_take code n bs = (if n > length bs then Inl code else Inr (take n bs, drop n bs))"

lemma rd_take_append [simp]: "length xs = n \<Longrightarrow> rd_take code n (xs @ rest) = Inr (xs, rest)"
  by (simp add: rd_take_def)

lemma rd_take_Inr: "rd_take code n bs = Inr (xs, rest) \<longleftrightarrow> bs = xs @ rest \<and> length xs = n"
  by (auto simp: rd_take_def)

section \<open>Little-endian words\<close>

text \<open>The loop \<open>value |= data[i] << (8 * i)\<close>.\<close>

definition or_bytes :: "bytes \<Rightarrow> 'a::len word" where
  "or_bytes data = foldl (\<lambda>v i. or v (push_bit (8 * i) (ucast (data ! i)))) 0 [0 ..< length data]"

lemma bit_or_prefix:
  fixes data :: bytes
  assumes "8 * length data \<le> LENGTH('a)" "n \<le> length data"
  shows "bit (foldl (\<lambda>v i. or v (push_bit (8 * i) (ucast (data ! i)))) 0 [0 ..< n] :: 'a::len word) k \<longleftrightarrow>
    k < 8 * n \<and> bit (data ! (k div 8)) (k mod 8)"
  using assms(2)
proof (induction n)
  case 0
  then show ?case by simp
next
  case (Suc n)
  have len: "8 * n + 8 \<le> LENGTH('a)" using assms(1) Suc.prems by linarith
  have last: "bit (push_bit (8 * n) (ucast (data ! n)) :: 'a word) k \<longleftrightarrow>
      8 * n \<le> k \<and> k < 8 * n + 8 \<and> bit (data ! n) (k - 8 * n)"
    using len bit_imp_le_length [of "data ! n" "k - 8 * n"] by (auto simp: bit_simps)
  show ?case
  proof (cases "8 * n \<le> k \<and> k < 8 * n + 8")
    case True
    then have "k div 8 = n" by auto
    then have "k mod 8 = k - 8 * n" using minus_mult_div_eq_mod [of k 8] by simp
    with \<open>k div 8 = n\<close> show ?thesis using Suc True last by (auto simp: bit_or_iff)
  next
    case False
    then show ?thesis using Suc last by (auto simp: bit_or_iff)
  qed
qed

lemma bit_le_value:
  "bit (le_value data) k \<longleftrightarrow> k < 8 * length data \<and> bit (data ! (k div 8)) (k mod 8)"
proof (induction data arbitrary: k)
  case Nil
  then show ?case by simp
next
  case (Cons b data)
  have "\<not> (bit (unat b) n \<and> bit (push_bit 8 (le_value data)) n)" for n
    using bit_imp_le_length [of b n] by (auto simp: bit_simps)
  then have "and (unat b) (push_bit 8 (le_value data)) = 0"
    by (intro bit_eqI) (simp add: bit_and_iff)
  from disjunctive_add_eq_or [OF this]
  have "unat b + 256 * le_value data = or (unat b) (push_bit 8 (le_value data))"
    by (simp add: push_bit_eq_mult mult.commute)
  then have step: "bit (le_value (b # data)) k \<longleftrightarrow> bit (unat b) k \<or> 8 \<le> k \<and> bit (le_value data) (k - 8)"
    by (simp add: bit_simps)
  show ?case
  proof (cases "k < 8")
    case True
    then show ?thesis unfolding step by (simp add: bit_simps)
  next
    case False
    then have "k div 8 = Suc ((k - 8) div 8)" "k mod 8 = (k - 8) mod 8"
      by (simp_all add: div_nat_eqI le_div_geq le_mod_geq not_less)
    then show ?thesis
      using False Cons [of "k - 8"] bit_imp_le_length [of b k] unfolding step by (auto simp: bit_simps)
  qed
qed

lemma or_bytes_eq:
  assumes "8 * length data \<le> LENGTH('a)"
  shows "(or_bytes data :: 'a::len word) = word_of_nat (le_value data)"
proof (rule bit_word_eqI)
  fix k
  assume "k < LENGTH('a)"
  then show "bit (or_bytes data :: 'a word) k = bit (word_of_nat (le_value data) :: 'a word) k"
    using bit_or_prefix [OF assms, of "length data" k]
    by (simp add: or_bytes_def bit_le_value bit_of_nat_iff)
qed

lemma or_bytes_le_bytes:
  assumes "8 * k \<le> LENGTH('a)" "n < 256 ^ k"
  shows "(or_bytes (le_bytes k n) :: 'a::len word) = word_of_nat n"
  using assms or_bytes_eq [of "le_bytes k n", where 'a = 'a] by (simp add: le_value_le_bytes)

lemma le_bytes_or_bytes:
  assumes "8 * length data = LENGTH('a)"
  shows "le_bytes (length data) (unat (or_bytes data :: 'a::len word)) = data"
proof -
  have "le_value data < 2 ^ LENGTH('a)"
    using le_value_bound [of data] by (simp add: assms [symmetric] power_mult)
  then have "unat (or_bytes data :: 'a word) = le_value data"
    using or_bytes_eq [of data, where 'a = 'a] assms
    by (simp add: unsigned_of_nat take_bit_nat_eq_self_iff)
  then show ?thesis by (simp add: le_bytes_le_value)
qed

section \<open>Encoders and their readers\<close>

text \<open>What a reader makes of the bytes an encoder wrote, whatever follows them.\<close>

locale readable = self_delimiting +
  fixes rd :: "'a reader"
  assumes reads: "ok a \<Longrightarrow> rd (enc a @ rest) = Inr (a, rest)"
begin

lemma rd_enc [simp]: "ok a \<Longrightarrow> rd (enc a) = Inr (a, [])"
  using reads [of a "[]"] by simp

lemma rd_bind_enc: "ok a \<Longrightarrow> rd_bind rd f (enc a @ rest) = f a rest"
  by (simp add: rd_bind_def reads)

end

text \<open>What is read back can be told apart.\<close>

lemma readable_self_delimiting:
  assumes "\<And>a rest. ok a \<Longrightarrow> rd (enc a @ rest) = Inr (a, rest)"
  shows "readable enc ok rd"
proof
  fix a b r s
  assume ok: "ok a" "ok b" and eq: "enc a @ r = enc b @ s"
  have "rd (enc a @ r) = rd (enc b @ s)" by (rule arg_cong [OF eq])
  then show "a = b \<and> r = s" unfolding assms [OF ok(1)] assms [OF ok(2)] by simp
qed (rule assms)

fun rd_times :: "nat \<Rightarrow> 'a reader \<Rightarrow> 'a list reader" where
  "rd_times 0 rd = rd_return []"
| "rd_times (Suc n) rd = rd_bind rd (\<lambda>x. rd_bind (rd_times n rd) (\<lambda>xs. rd_return (x # xs)))"

end
