(* ===== verification/Search.thy ===== *)
theory Search
  imports Prelude
begin

text \<open>
  The library's binary search, as \<open>src/assets.cpp\<close> and \<open>src/observe.cpp\<close> use it.
\<close>

text \<open>\<open>std::binary_search\<close>: the halving loop of \<open>std::lower_bound\<close> on \<open>count\<close> elements from \<open>first\<close>.\<close>

function lower_bound :: "'a::linorder list \<Rightarrow> 'a \<Rightarrow> nat \<Rightarrow> nat \<Rightarrow> nat" where
  "lower_bound xs v first count =
     (if count = 0 then first
      else let step = count div 2 in
        if xs ! (first + step) < v then lower_bound xs v (first + step + 1) (count - (step + 1))
        else lower_bound xs v first step)"
  by pat_completeness auto

termination lower_bound
  by (relation "measure (\<lambda>(xs, v, first, count). count)") auto

declare lower_bound.simps [simp del]

definition binary_search :: "'a::linorder list \<Rightarrow> 'a \<Rightarrow> bool" where
  "binary_search xs v = (let i = lower_bound xs v 0 (length xs) in i < length xs \<and> \<not> v < xs ! i)"

lemma lower_bound_splits:
  assumes "sorted xs" "first + count \<le> length xs"
    and "\<forall>i < first. xs ! i < v" "\<forall>i < length xs. first + count \<le> i \<longrightarrow> \<not> xs ! i < v"
  shows "lower_bound xs v first count \<le> length xs \<and> (\<forall>i < lower_bound xs v first count. xs ! i < v) \<and>
    (\<forall>i < length xs. lower_bound xs v first count \<le> i \<longrightarrow> \<not> xs ! i < v)"
  using assms
proof (induction xs v first count rule: lower_bound.induct)
  case (1 xs v first count)
  show ?case
  proof (cases "count = 0")
    case True
    then show ?thesis using "1.prems" by (simp add: lower_bound.simps)
  next
    case False
    let ?step = "count div 2"
    have step: "?step < count" "first + ?step < length xs" using False "1.prems"(2) by (simp_all add: less_le_trans)
    show ?thesis
    proof (cases "xs ! (first + ?step) < v")
      case True
      have before: "\<forall>i < first + ?step + 1. xs ! i < v"
      proof (intro allI impI)
        fix i
        assume "i < first + ?step + 1"
        then have "xs ! i \<le> xs ! (first + ?step)" using step by (intro sorted_nth_mono [OF "1.prems"(1)]) simp_all
        then show "xs ! i < v" using True by (rule le_less_trans)
      qed
      have eq: "first + ?step + 1 + (count - (?step + 1)) = first + count" using step by simp
      have "lower_bound xs v (first + ?step + 1) (count - (?step + 1)) \<le> length xs \<and>
          (\<forall>i < lower_bound xs v (first + ?step + 1) (count - (?step + 1)). xs ! i < v) \<and>
          (\<forall>i < length xs. lower_bound xs v (first + ?step + 1) (count - (?step + 1)) \<le> i \<longrightarrow> \<not> xs ! i < v)"
        by (rule "1.IH"(1) [OF False refl True "1.prems"(1)]) (unfold eq, rule "1.prems"(2), rule before, rule "1.prems"(4))
      then show ?thesis using False True by (simp add: lower_bound.simps [of xs v first count] Let_def)
    next
      case le: False
      have after: "\<forall>i < length xs. first + ?step \<le> i \<longrightarrow> \<not> xs ! i < v"
        using sorted_nth_mono [OF "1.prems"(1), of "first + ?step"] le by (meson le_less_trans)
      have "lower_bound xs v first ?step \<le> length xs \<and> (\<forall>i < lower_bound xs v first ?step. xs ! i < v) \<and>
          (\<forall>i < length xs. lower_bound xs v first ?step \<le> i \<longrightarrow> \<not> xs ! i < v)"
        by (rule "1.IH"(2) [OF False refl le "1.prems"(1) _ "1.prems"(3) after]) (use step in simp)
      then show ?thesis using False le by (simp add: lower_bound.simps [of xs v first count] Let_def)
    qed
  qed
qed

lemma binary_search_member:
  assumes "sorted xs"
  shows "binary_search xs v \<longleftrightarrow> v \<in> set xs"
proof -
  let ?i = "lower_bound xs v 0 (length xs)"
  have b: "?i \<le> length xs" "\<forall>i < ?i. xs ! i < v" "\<forall>i < length xs. ?i \<le> i \<longrightarrow> \<not> xs ! i < v"
    using lower_bound_splits [OF assms, of 0 "length xs" v] by simp_all
  show ?thesis
  proof
    assume "binary_search xs v"
    then have i: "?i < length xs" "\<not> v < xs ! ?i" by (simp_all add: binary_search_def Let_def)
    then have "\<not> xs ! ?i < v" using b(3) by blast
    then have "xs ! ?i = v" using i(2) by (simp add: not_less order_antisym)
    then show "v \<in> set xs" using nth_mem [OF i(1)] by simp
  next
    assume "v \<in> set xs"
    then obtain j where j: "j < length xs" "xs ! j = v" by (auto simp: in_set_conv_nth)
    have "?i \<le> j"
    proof (rule ccontr)
      assume "\<not> ?i \<le> j"
      then have "xs ! j < v" using b(2) by simp
      then show False using j by simp
    qed
    then have "?i < length xs" "xs ! ?i \<le> v" using j sorted_nth_mono [OF assms, of ?i j] by auto
    then show "binary_search xs v" by (simp add: binary_search_def Let_def not_less)
  qed
qed

end
