(* ===== verification/Assets.thy ===== *)
theory Assets
  imports Sha256 Reader Search
begin

text \<open>
  The content-addressed asset catalog of \<open>include/omniweft/assets.hpp\<close> and \<open>src/assets.cpp\<close>:
  manifests and blobs named by their digests, the binary bundle they are imported from and
  exported to, named root sets, collection of what no root retains, and the report that
  explains it.  A thrown \<open>assets::Failure\<close> is the error value of a result.  The standard
  library's sorts are \<open>sort_key\<close> (the keys that meet are distinct) and its binary search is the
  halving loop.  Memory is a boolean argument of the two operations that catch \<open>std::bad_alloc\<close>:
  whether an allocation fails before the outcome is decided.
\<close>

section \<open>Data\<close>

definition manifest_limit :: nat where "manifest_limit = 8"
definition blob_limit :: nat where "blob_limit = 8"
definition history_limit :: nat where "history_limit = 4"
definition roots_limit :: nat where "roots_limit = 8"
definition blob_byte_limit :: nat where "blob_byte_limit = 65536"
definition decoded_byte_limit :: nat where "decoded_byte_limit = 262144"
definition bundle_byte_limit :: nat where "bundle_byte_limit = 524288"
definition canonical_limit :: nat where "canonical_limit = 310"

lemmas asset_limits = manifest_limit_def blob_limit_def history_limit_def roots_limit_def blob_byte_limit_def
  decoded_byte_limit_def bundle_byte_limit_def canonical_limit_def

record manifest =
  manifest_version :: u32
  manifest_hash :: string
  decoded_length :: u32
  media_type :: string
  source_text :: string
  license :: string

record asset =
  asset_key :: string
  asset_manifest :: manifest

record blob =
  blob_hash :: string
  blob_bytes :: bytes

record root_set =
  root_set_name :: string
  root_ids :: "string list"

record catalog =
  catalog_version :: u32
  catalog_revision :: u64
  catalog_assets :: "asset list"
  catalog_blobs :: "blob list"
  current_roots :: "string list"
  history_roots :: "root_set list"

datatype catalog_command =
    Import bytes
  | SetCurrentRoots "string list"
  | SetHistoryRoots string "string list"
  | RemoveHistoryRoots string
  | Collect

record catalog_receipt =
  catalog_status :: string
  receipt_catalog_revision :: u64
  catalog_code :: string
  imported :: "string list"
  manifests_removed :: u32
  blobs_removed :: u32

definition new_catalog :: catalog where
  "new_catalog =
     \<lparr>catalog_version = 1, catalog_revision = 0, catalog_assets = [], catalog_blobs = [],
      current_roots = [], history_roots = []\<rparr>"

definition empty_catalog_receipt :: catalog_receipt where
  "empty_catalog_receipt =
     \<lparr>catalog_status = ''rejected'', receipt_catalog_revision = 0, catalog_code = [], imported = [],
      manifests_removed = 0, blobs_removed = 0\<rparr>"

section \<open>Digests as text\<close>

definition valid_hash :: "string \<Rightarrow> bool" where
  "valid_hash s \<longleftrightarrow> length s = 64 \<and> list_all is_lower_hex s"

definition hex_char :: "u8 \<Rightarrow> char" where
  "hex_char v = ''0123456789abcdef'' ! unat v"

fun hex_text :: "bytes \<Rightarrow> string" where
  "hex_text [] = []"
| "hex_text (b # bs) = hex_char (drop_bit 4 b) # hex_char (and b 15) # hex_text bs"

definition nibble :: "char \<Rightarrow> u8" where
  "nibble c = (if c \<le> CHR ''9'' then of_char c - 48 else of_char c - 97 + 10)"

fun nibble_pairs :: "string \<Rightarrow> bytes" where
  "nibble_pairs (a # b # s) = or (push_bit 4 (nibble a)) (nibble b) # nibble_pairs s"
| "nibble_pairs s = []"

definition digest_bytes :: "string \<Rightarrow> string + bytes" where
  "digest_bytes s = (if \<not> valid_hash s then Inl ''INVALID_MANIFEST'' else Inr (nibble_pairs s))"

definition content_hash :: "bytes \<Rightarrow> string + string" where
  "content_hash input =
     (if length input > blob_byte_limit then Inl ''BUDGET_EXCEEDED''
      else rbind (sha256 input) (\<lambda>digest. Inr (hex_text digest)))"

section \<open>Manifests\<close>

definition printable :: "char \<Rightarrow> bool" where
  "printable = char_between (CHR 0x20) (CHR 0x7E)"

definition ascii_text :: "string \<Rightarrow> nat \<Rightarrow> bool" where
  "ascii_text s limit \<longleftrightarrow> s \<noteq> [] \<and> length s \<le> limit \<and> list_all printable s"

definition manifest_valid :: "manifest \<Rightarrow> string + unit" where
  "manifest_valid m =
     rbind (require (manifest_version m = 1) ''UNSUPPORTED_VERSION'') (\<lambda>_.
     rbind (require (\<not> unat (decoded_length m) > blob_byte_limit) ''BUDGET_EXCEEDED'') (\<lambda>_.
     require (valid_hash (manifest_hash m) \<and> ascii_text (media_type m) 64 \<and> ascii_text (source_text m) 128 \<and>
       ascii_text (license m) 64) ''INVALID_MANIFEST''))"

definition put16 :: "nat \<Rightarrow> bytes" where
  "put16 v = [word_of_nat v, word_of_nat (drop_bit 8 v)]"

definition put32 :: "u32 \<Rightarrow> bytes" where
  "put32 v = map (\<lambda>shift. ucast (drop_bit shift v)) [0, 8, 16, 24]"

definition put_text :: "string \<Rightarrow> bytes" where
  "put_text s = put16 (length s) @ str_bytes s"

definition canonical_manifest :: "manifest \<Rightarrow> string + bytes" where
  "canonical_manifest m =
     rbind (manifest_valid m) (\<lambda>_.
     rbind (digest_bytes (manifest_hash m)) (\<lambda>digest.
     Inr (str_bytes ''OWAMNF01'' @ put32 (manifest_version m) @ digest @ put32 (decoded_length m) @
       put_text (media_type m) @ put_text (source_text m) @ put_text (license m))))"

definition asset_id :: "manifest \<Rightarrow> string + string" where
  "asset_id m = rbind (canonical_manifest m) content_hash"

section \<open>Reading\<close>

definition read8 :: "string \<Rightarrow> u8 reader" where
  "read8 code = rd_bind (rd_take code 1) (\<lambda>data. rd_return (data ! 0))"

definition read16 :: "string \<Rightarrow> u16 reader" where
  "read16 code = rd_bind (rd_take code 2) (\<lambda>data.
     rd_return (or (ucast (data ! 0)) (push_bit 8 (ucast (data ! 1)))))"

definition read32 :: "string \<Rightarrow> u32 reader" where
  "read32 code = rd_bind (rd_take code 4) (\<lambda>data. rd_return (or_bytes data))"

definition read_text :: "string \<Rightarrow> nat \<Rightarrow> string \<Rightarrow> string reader" where
  "read_text code limit limit_code =
     rd_bind (read16 code) (\<lambda>n.
     rd_bind (rd_check (\<not> unat n > limit) limit_code) (\<lambda>_.
     rd_bind (rd_take code (unat n)) (\<lambda>data. rd_return (bytes_str data))))"

definition read_magic :: "string \<Rightarrow> string \<Rightarrow> unit reader" where
  "read_magic code expected =
     rd_bind (rd_take code (length expected)) (\<lambda>v. rd_check (v = str_bytes expected) code)"

definition read_end :: "string \<Rightarrow> unit reader" where
  "read_end code bs = rd_check (bs = []) code bs"

definition manifest_fields :: "manifest reader" where
  "manifest_fields =
     (let code = ''INVALID_MANIFEST'' in
      rd_bind (read_magic code ''OWAMNF01'') (\<lambda>_.
      rd_bind (read32 code) (\<lambda>version.
      rd_bind (rd_check (version = 1) ''UNSUPPORTED_VERSION'') (\<lambda>_.
      rd_bind (rd_take code 32) (\<lambda>digest.
      rd_bind (read32 code) (\<lambda>n.
      rd_bind (read_text code 64 code) (\<lambda>media.
      rd_bind (read_text code 128 code) (\<lambda>src.
      rd_bind (read_text code 64 code) (\<lambda>lic.
      rd_bind (read_end code) (\<lambda>_.
      rd_return \<lparr>manifest_version = version, manifest_hash = hex_text digest, decoded_length = n,
        media_type = media, source_text = src, license = lic\<rparr>))))))))))"

definition read_manifest :: "bytes \<Rightarrow> string + manifest" where
  "read_manifest bs =
     (if length bs > canonical_limit then Inl ''INVALID_MANIFEST''
      else rbind (manifest_fields bs) (\<lambda>(m, _). rbind (manifest_valid m) (\<lambda>_. Inr m)))"

definition find_asset :: "asset list \<Rightarrow> string \<Rightarrow> asset option" where
  "find_asset xs i = find (\<lambda>a. asset_key a = i) xs"

definition find_blob :: "blob list \<Rightarrow> string \<Rightarrow> blob option" where
  "find_blob xs h = find (\<lambda>b. blob_hash b = h) xs"

definition sort_entries :: "asset list \<Rightarrow> blob list \<Rightarrow> asset list \<times> blob list" where
  "sort_entries xs bs = (sort_key asset_key xs, sort_key blob_hash bs)"

section \<open>Bundles\<close>

text \<open>The two loops over a run-length encoding: the check of its expansion and the expansion.\<close>

fun rle_expanded :: "nat \<Rightarrow> nat \<Rightarrow> bytes \<Rightarrow> string + nat" where
  "rle_expanded limit expanded (count # _ # rest) =
     (if count = 0 \<or> unat count > limit - expanded then Inl ''DECOMPRESSION_ERROR''
      else rle_expanded limit (expanded + unat count) rest)"
| "rle_expanded limit expanded _ = Inr expanded"

fun rle_expand :: "bytes \<Rightarrow> bytes" where
  "rle_expand (count # v # rest) = replicate (unat count) v @ rle_expand rest"
| "rle_expand _ = []"

definition decode_blob :: "u8 \<Rightarrow> u32 \<Rightarrow> bytes \<Rightarrow> string + bytes" where
  "decode_blob codec n encoded =
     (if codec = 0 then
        rbind (require (length encoded = unat n) ''SIZE_MISMATCH'') (\<lambda>_. Inr encoded)
      else
        rbind (require (length encoded mod 2 = 0) ''DECOMPRESSION_ERROR'') (\<lambda>_.
        rbind (rle_expanded (unat n) 0 encoded) (\<lambda>expanded.
        rbind (require (expanded = unat n) ''SIZE_MISMATCH'') (\<lambda>_. Inr (rle_expand encoded)))))"

definition read_asset :: "asset list \<Rightarrow> asset reader" where
  "read_asset known =
     (let code = ''INVALID_BUNDLE'' in
      rd_bind (rd_take code 32) (\<lambda>digest.
      rd_bind (read32 code) (\<lambda>n.
      rd_bind (rd_check (\<not> unat n > canonical_limit) ''INVALID_MANIFEST'') (\<lambda>_.
      rd_bind (rd_take code (unat n)) (\<lambda>data.
      rd_bind (rd_lift (read_manifest data)) (\<lambda>m.
      rd_bind (rd_lift (asset_id m)) (\<lambda>i.
      rd_bind (rd_check (i = hex_text digest) ''HASH_MISMATCH'') (\<lambda>_.
      rd_bind (rd_check (find_asset known (hex_text digest) = None) ''DUPLICATE_ENTRY'') (\<lambda>_.
      rd_return \<lparr>asset_key = hex_text digest, asset_manifest = m\<rparr>)))))))))"

definition blob_path_hash :: "string \<Rightarrow> string + string" where
  "blob_path_hash path =
     (if length path \<noteq> 70 \<or> take 6 path \<noteq> ''blobs/'' \<or> \<not> valid_hash (drop 6 path) then Inl ''INVALID_PATH''
      else Inr (drop 6 path))"

definition read_blob :: "blob list \<Rightarrow> nat \<Rightarrow> blob reader" where
  "read_blob known used =
     (let code = ''INVALID_BUNDLE'' in
      rd_bind (read_text code 70 ''INVALID_PATH'') (\<lambda>path.
      rd_bind (rd_lift (blob_path_hash path)) (\<lambda>h.
      rd_bind (rd_check (find_blob known h = None) ''DUPLICATE_ENTRY'') (\<lambda>_.
      rd_bind (read8 code) (\<lambda>codec.
      rd_bind (read32 code) (\<lambda>n.
      rd_bind (read32 code) (\<lambda>encoded_length.
      rd_bind (rd_check (\<not> (unat n > blob_byte_limit \<or> unat n > decoded_byte_limit - used \<or>
        unat encoded_length > blob_byte_limit * 2)) ''BUDGET_EXCEEDED'') (\<lambda>_.
      rd_bind (rd_check (\<not> codec > 1) ''INVALID_BUNDLE'') (\<lambda>_.
      rd_bind (rd_take code (unat encoded_length)) (\<lambda>encoded.
      rd_bind (rd_lift (decode_blob codec n encoded)) (\<lambda>data.
      rd_bind (rd_lift (content_hash data)) (\<lambda>h'.
      rd_bind (rd_check (h' = h) ''HASH_MISMATCH'') (\<lambda>_.
      rd_return \<lparr>blob_hash = h, blob_bytes = data\<rparr>)))))))))))))"

fun read_assets :: "nat \<Rightarrow> asset list \<Rightarrow> asset list reader" where
  "read_assets 0 known = rd_return known"
| "read_assets (Suc n) known = rd_bind (read_asset known) (\<lambda>a. read_assets n (known @ [a]))"

fun read_blobs :: "nat \<Rightarrow> blob list \<Rightarrow> nat \<Rightarrow> blob list reader" where
  "read_blobs 0 known used = rd_return known"
| "read_blobs (Suc n) known used =
     rd_bind (read_blob known used) (\<lambda>b. read_blobs n (known @ [b]) (used + length (blob_bytes b)))"

text \<open>The hashes that the manifests refer to, each with its blob.\<close>

definition referenced_hash :: "blob list \<Rightarrow> asset \<Rightarrow> string + string" where
  "referenced_hash bs a =
     (case find_blob bs (manifest_hash (asset_manifest a)) of
        None \<Rightarrow> Inl ''MISSING_BLOB''
      | Some b \<Rightarrow>
          rbind (require (length (blob_bytes b) = unat (decoded_length (asset_manifest a))) ''SIZE_MISMATCH'') (\<lambda>_.
          Inr (blob_hash b)))"

definition bundle_entries :: "(asset list \<times> blob list) reader" where
  "bundle_entries =
     (let code = ''INVALID_BUNDLE'' in
      rd_bind (read_magic code ''OWASB001'') (\<lambda>_.
      rd_bind (read32 code) (\<lambda>version.
      rd_bind (rd_check (version = 1) ''UNSUPPORTED_VERSION'') (\<lambda>_.
      rd_bind (read32 code) (\<lambda>asset_count.
      rd_bind (read32 code) (\<lambda>blob_count.
      rd_bind (rd_check (\<not> (unat asset_count > manifest_limit \<or> unat blob_count > blob_limit)) ''BUDGET_EXCEEDED'') (\<lambda>_.
      rd_bind (read_assets (unat asset_count) []) (\<lambda>xs.
      rd_bind (read_blobs (unat blob_count) [] 0) (\<lambda>bs.
      rd_bind (read_end code) (\<lambda>_.
      rd_return (xs, bs)))))))))))"

definition decode_bundle :: "bytes \<Rightarrow> string + asset list \<times> blob list" where
  "decode_bundle input =
     rbind (require (\<not> length input > bundle_byte_limit) ''BUDGET_EXCEEDED'') (\<lambda>_.
     rbind (bundle_entries input) (\<lambda>((xs, bs), _).
     rbind (rmap_list (referenced_hash bs) xs) (\<lambda>hs.
     rbind (require (length (remdups hs) = length bs) ''EXTRA_BLOB'') (\<lambda>_.
     Inr (sort_entries xs bs)))))"

section \<open>Commands\<close>

fun blob_quota :: "nat \<Rightarrow> blob list \<Rightarrow> bool" where
  "blob_quota used [] = True"
| "blob_quota used (b # bs) \<longleftrightarrow>
     \<not> length (blob_bytes b) > blob_byte_limit \<and> \<not> length (blob_bytes b) > decoded_byte_limit - used \<and>
     blob_quota (used + length (blob_bytes b)) bs"

definition asset_quota :: "asset list \<Rightarrow> blob list \<Rightarrow> string + unit" where
  "asset_quota xs bs =
     require (\<not> (length xs > manifest_limit \<or> length bs > blob_limit) \<and> blob_quota 0 bs) ''BUDGET_EXCEEDED''"

fun add_assets :: "asset list \<Rightarrow> asset list \<Rightarrow> string + asset list" where
  "add_assets xs [] = Inr xs"
| "add_assets xs (a # incoming) =
     (case find_asset xs (asset_key a) of
        None \<Rightarrow> if length xs = manifest_limit then Inl ''BUDGET_EXCEEDED'' else add_assets (xs @ [a]) incoming
      | Some found \<Rightarrow>
          if asset_manifest found \<noteq> asset_manifest a then Inl ''HASH_MISMATCH'' else add_assets xs incoming)"

fun add_blobs :: "blob list \<Rightarrow> blob list \<Rightarrow> string + blob list" where
  "add_blobs bs [] = Inr bs"
| "add_blobs bs (b # incoming) =
     (case find_blob bs (blob_hash b) of
        None \<Rightarrow> if length bs = blob_limit then Inl ''BUDGET_EXCEEDED'' else add_blobs (bs @ [b]) incoming
      | Some found \<Rightarrow>
          if blob_bytes found \<noteq> blob_bytes b then Inl ''HASH_MISMATCH'' else add_blobs bs incoming)"

definition import_bundle :: "bytes \<Rightarrow> catalog \<Rightarrow> string + catalog \<times> string list" where
  "import_bundle bundle c =
     rbind (decode_bundle bundle) (\<lambda>(incoming, content).
     rbind (add_assets (catalog_assets c) incoming) (\<lambda>xs.
     rbind (add_blobs (catalog_blobs c) content) (\<lambda>bs.
     rbind (asset_quota xs bs) (\<lambda>_.
     let (xs', bs') = sort_entries xs bs in
     Inr (c\<lparr>catalog_assets := xs', catalog_blobs := bs'\<rparr>, map asset_key incoming)))))"

fun adjacent_equal :: "'a list \<Rightarrow> bool" where
  "adjacent_equal (x # y # xs) \<longleftrightarrow> x = y \<or> adjacent_equal (y # xs)"
| "adjacent_equal _ = False"

definition known_root :: "catalog \<Rightarrow> string \<Rightarrow> string + string" where
  "known_root c i =
     rbind (require (valid_hash i) ''INVALID_ROOT'') (\<lambda>_.
     rbind (require (find_asset (catalog_assets c) i \<noteq> None) ''UNKNOWN_ASSET'') (\<lambda>_. Inr i))"

definition roots :: "catalog \<Rightarrow> string list \<Rightarrow> string + string list" where
  "roots c values =
     rbind (require (\<not> length values > roots_limit) ''BUDGET_EXCEEDED'') (\<lambda>_.
     rbind (rmap_list (known_root c) values) (\<lambda>_.
     rbind (require (\<not> adjacent_equal (sort values)) ''DUPLICATE_ENTRY'') (\<lambda>_.
     Inr (sort values))))"

definition root_char :: "char \<Rightarrow> bool" where
  "root_char c \<longleftrightarrow> is_letter c \<or> is_digit_char c \<or> c = CHR ''_'' \<or> c = CHR ''.'' \<or> c = CHR ''-''"

definition root_name :: "string \<Rightarrow> string + unit" where
  "root_name s =
     rbind (require (\<not> (s = [] \<or> length s > 32 \<or> \<not> is_letter (s ! 0))) ''INVALID_ROOT'') (\<lambda>_.
     require (list_all root_char s) ''INVALID_ROOT'')"

definition set_history :: "string \<Rightarrow> string list \<Rightarrow> root_set list \<Rightarrow> string + root_set list" where
  "set_history name ids hs =
     rbind (case find_index (\<lambda>h. root_set_name h = name) hs of
              Some i \<Rightarrow> Inr (hs[i := (hs ! i)\<lparr>root_ids := ids\<rparr>])
            | None \<Rightarrow>
                if length hs = history_limit then Inl ''BUDGET_EXCEEDED''
                else Inr (hs @ [\<lparr>root_set_name = name, root_ids = ids\<rparr>]))
       (\<lambda>hs'. Inr (sort_key root_set_name hs'))"

definition retained_ids :: "catalog \<Rightarrow> string set" where
  "retained_ids c = set (current_roots c) \<union> \<Union> (set (map (set \<circ> root_ids) (history_roots c)))"

definition collect :: "catalog \<Rightarrow> catalog \<times> u32 \<times> u32" where
  "collect c =
     (let xs = filter (\<lambda>a. asset_key a \<in> retained_ids c) (catalog_assets c);
          reachable_hashes = (\<lambda>a. manifest_hash (asset_manifest a)) ` set xs;
          bs = filter (\<lambda>b. blob_hash b \<in> reachable_hashes) (catalog_blobs c)
      in (c\<lparr>catalog_assets := xs, catalog_blobs := bs\<rparr>,
          word_of_nat (length (catalog_assets c) - length xs), word_of_nat (length (catalog_blobs c) - length bs)))"

text \<open>The staged catalog of a command and the receipt it fills in.\<close>

definition plain :: "catalog \<Rightarrow> catalog \<times> catalog_receipt" where
  "plain c = (c, empty_catalog_receipt)"

fun run_command :: "catalog_command \<Rightarrow> catalog \<Rightarrow> string + catalog \<times> catalog_receipt" where
  "run_command (Import bundle) c =
     rbind (import_bundle bundle c) (\<lambda>(c', ids). Inr (c', empty_catalog_receipt\<lparr>imported := ids\<rparr>))"
| "run_command (SetCurrentRoots ids) c =
     rbind (roots c ids) (\<lambda>rs. Inr (plain (c\<lparr>current_roots := rs\<rparr>)))"
| "run_command (SetHistoryRoots name ids) c =
     rbind (root_name name) (\<lambda>_.
     rbind (roots c ids) (\<lambda>rs.
     rbind (set_history name rs (history_roots c)) (\<lambda>hs.
     Inr (plain (c\<lparr>history_roots := hs\<rparr>)))))"
| "run_command (RemoveHistoryRoots name) c =
     rbind (root_name name) (\<lambda>_.
     Inr (plain (c\<lparr>history_roots := filter (\<lambda>h. root_set_name h \<noteq> name) (history_roots c)\<rparr>)))"
| "run_command Collect c =
     (let (c', ms, bs) = collect c in
      Inr (c', empty_catalog_receipt\<lparr>manifests_removed := ms, blobs_removed := bs\<rparr>))"

definition catalog_rejection :: "catalog \<Rightarrow> string \<Rightarrow> catalog_receipt" where
  "catalog_rejection c code =
     empty_catalog_receipt\<lparr>receipt_catalog_revision := catalog_revision c, catalog_code := code\<rparr>"

definition catalog_apply :: "bool \<Rightarrow> catalog_command \<Rightarrow> u64 \<Rightarrow> catalog \<Rightarrow> catalog \<times> catalog_receipt" where
  "catalog_apply exhausted command expected c =
     (if expected \<noteq> catalog_revision c then (c, catalog_rejection c ''REVISION_CONFLICT'')
      else if catalog_revision c = u64_max then (c, catalog_rejection c ''REVISION_EXHAUSTED'')
      else if exhausted then (c, catalog_rejection c ''BUDGET_EXCEEDED'')
      else case run_command command c of
             Inl code \<Rightarrow> (c, catalog_rejection c code)
           | Inr (staged, r) \<Rightarrow>
               (let staged' = staged\<lparr>catalog_revision := catalog_revision staged + 1\<rparr> in
                (staged', r\<lparr>catalog_status := ''committed'', receipt_catalog_revision := catalog_revision staged'\<rparr>)))"

section \<open>Export\<close>

definition export_asset :: "asset \<Rightarrow> string + bytes" where
  "export_asset a =
     rbind (digest_bytes (asset_key a)) (\<lambda>digest.
     rbind (canonical_manifest (asset_manifest a)) (\<lambda>m.
     Inr (digest @ put32 (word_of_nat (length m)) @ m)))"

definition export_blob :: "blob \<Rightarrow> bytes" where
  "export_blob b =
     put_text (''blobs/'' @ blob_hash b) @ [0] @ put32 (word_of_nat (length (blob_bytes b))) @
     put32 (word_of_nat (length (blob_bytes b))) @ blob_bytes b"

definition export_bundle :: "catalog \<Rightarrow> string + bytes" where
  "export_bundle c =
     rbind (rmap_list export_asset (catalog_assets c)) (\<lambda>xs.
     let out = str_bytes ''OWASB001'' @ put32 1 @ put32 (word_of_nat (length (catalog_assets c))) @
           put32 (word_of_nat (length (catalog_blobs c))) @ concat xs @ concat (map export_blob (catalog_blobs c))
     in if length out > bundle_byte_limit then Inl ''BUDGET_EXCEEDED'' else Inr out)"

section \<open>The retention report\<close>

record asset_retention =
  retention_id :: string
  retention_hash :: string
  is_current_root :: bool
  retaining_histories :: "string list"

record blob_retention =
  retention_blob :: string
  referencing_assets :: "string list"
  retaining_assets :: "string list"

record retention_report =
  report_version :: u32
  report_current :: "string list"
  report_history :: "root_set list"
  report_assets :: "asset_retention list"
  report_blobs :: "blob_retention list"
  removable_assets :: "string list"
  removable_blobs :: "string list"

record retention_result =
  retention_status :: string
  retention_code :: string
  retention_revision :: u64
  retention_report :: "retention_report option"

definition asset_row :: "catalog \<Rightarrow> asset \<Rightarrow> asset_retention" where
  "asset_row c a =
     \<lparr>retention_id = asset_key a, retention_hash = manifest_hash (asset_manifest a),
      is_current_root = binary_search (current_roots c) (asset_key a),
      retaining_histories = map root_set_name (filter (\<lambda>h. binary_search (root_ids h) (asset_key a)) (history_roots c))\<rparr>"

definition row_retained :: "asset_retention \<Rightarrow> bool" where
  "row_retained r \<longleftrightarrow> is_current_root r \<or> retaining_histories r \<noteq> []"

definition blob_row :: "asset_retention list \<Rightarrow> blob \<Rightarrow> blob_retention" where
  "blob_row rows b =
     (let refs = filter (\<lambda>r. retention_hash r = blob_hash b) rows in
      \<lparr>retention_blob = blob_hash b, referencing_assets = map retention_id refs,
       retaining_assets = map retention_id (filter row_retained refs)\<rparr>)"

definition make_report :: "catalog \<Rightarrow> retention_report" where
  "make_report c =
     (let rows = map (asset_row c) (catalog_assets c); blobs = map (blob_row rows) (catalog_blobs c) in
      \<lparr>report_version = 1, report_current = current_roots c, report_history = history_roots c,
       report_assets = rows, report_blobs = blobs,
       removable_assets = map retention_id (filter (\<lambda>r. \<not> row_retained r) rows),
       removable_blobs = map retention_blob (filter (\<lambda>r. retaining_assets r = []) blobs)\<rparr>)"

definition inspect_retention :: "bool \<Rightarrow> u64 \<Rightarrow> catalog \<Rightarrow> retention_result" where
  "inspect_retention exhausted expected c =
     (let rejected = \<lparr>retention_status = ''rejected'', retention_code = [], retention_revision = catalog_revision c,
            retention_report = None\<rparr> in
      if expected \<noteq> catalog_revision c then rejected\<lparr>retention_code := ''REVISION_CONFLICT''\<rparr>
      else if exhausted then rejected\<lparr>retention_code := ''RESOURCE_EXHAUSTED''\<rparr>
      else rejected\<lparr>retention_status := ''ok'', retention_report := Some (make_report c)\<rparr>)"

end
