(* ===== verification/Asset_Codec.thy ===== *)
theory Asset_Codec
  imports Assets
begin

text \<open>
  The two binary formats of the catalog read back what was written: integers, text fields,
  digests, manifests and bundles.  Every field is an interpretation of the contract
  \<open>readable\<close> on the catalog's own writer and reader.
\<close>

section \<open>Integers and text\<close>

lemma word_of_nat_div: "(word_of_nat (unat (v :: 'a::len word) div 2 ^ k) :: 'b::len word) = ucast (drop_bit k v)"
proof -
  have "unat (drop_bit k v) = drop_bit k (unat v)" by (rule unat_drop_bit_eq)
  then have "unat v div 2 ^ k = unat (drop_bit k v)" unfolding drop_bit_eq_div [of k "unat v"] by (rule sym)
  then show ?thesis by (simp only: of_nat_unat ucast_id)
qed

lemma le_bytes_4:
  "le_bytes 4 n = [word_of_nat n, word_of_nat (n div 256), word_of_nat (n div 256 div 256), word_of_nat (n div 256 div 256 div 256)]"
proof -
  have "(4 :: nat) = Suc (Suc (Suc (Suc 0)))" by simp
  then show ?thesis by (simp only: le_bytes.simps)
qed

lemma put32_le: "put32 v = le_bytes 4 (unat v)"
proof -
  have "unat v div 256 div 256 = unat v div 2 ^ 16" "unat v div 256 div 256 div 256 = unat v div 2 ^ 24"
    "unat v div 256 = unat v div 2 ^ 8"
    unfolding div_mult2_eq [symmetric] by simp_all
  then have "le_bytes 4 (unat v) =
      [word_of_nat (unat v), word_of_nat (unat v div 2 ^ 8), word_of_nat (unat v div 2 ^ 16), word_of_nat (unat v div 2 ^ 24)]"
    by (simp only: le_bytes_4)
  then show ?thesis
    unfolding word_of_nat_div by (simp add: put32_def)
qed

lemma length_put32 [simp, codec_simps]: "length (put32 v) = 4"
  by (simp add: put32_def)

lemma read32_put32: "read32 code (put32 v @ rest) = Inr (v, rest)"
proof -
  have "unat v < 256 ^ 4" using unat_u32_less [of v] by simp
  then show ?thesis
    by (simp add: read32_def rd_bind_def put32_le or_bytes_le_bytes)
qed

interpretation u32_le: readable put32 "\<lambda>_. True" "read32 code" for code
  by (rule readable_self_delimiting) (rule read32_put32)

lemma length_put16 [simp, codec_simps]: "length (put16 n) = 2"
  by (simp add: put16_def)

lemma read16_put16:
  assumes "n < 65536"
  shows "read16 code (put16 n @ rest) = Inr (word_of_nat n, rest)"
proof -
  have "or (ucast (word_of_nat n :: u8)) (push_bit 8 (ucast (word_of_nat (drop_bit 8 n) :: u8))) = (word_of_nat n :: u16)"
  proof (rule bit_word_eqI)
    fix k
    assume "k < LENGTH(16)"
    then show "bit (or (ucast (word_of_nat n :: u8)) (push_bit 8 (ucast (word_of_nat (drop_bit 8 n) :: u8))) :: u16) k =
        bit (word_of_nat n :: u16) k"
      by (cases "k < 8") (auto simp: bit_simps)
  qed
  then show ?thesis
    by (simp add: read16_def rd_bind_def rd_take_def put16_def)
qed

lemma unat_u16_of_nat: "n < 65536 \<Longrightarrow> unat (word_of_nat n :: u16) = n"
  by (simp add: unsigned_of_nat take_bit_nat_eq_self_iff)

lemma read_text_put_text:
  assumes "length s \<le> limit" "limit < 65536"
  shows "read_text code limit limit_code (put_text s @ rest) = Inr (s, rest)"
  using assms
  by (simp add: read_text_def put_text_def read16_put16 unat_u16_of_nat
      rd_bind_def rd_check_def rd_take_def)

interpretation text_le: readable put_text "\<lambda>s. length s \<le> limit \<and> limit < 65536" "read_text code limit limit_code"
  for limit code limit_code
  by (rule readable_self_delimiting) (simp add: read_text_put_text)

lemma length_put_text [simp, codec_simps]: "length (put_text s) = 2 + length s"
  by (simp add: put_text_def)

lemma read_magic_str [simp]: "read_magic code s (str_bytes s @ rest) = Inr ((), rest)"
  by (simp add: read_magic_def rd_bind_def rd_check_def)

section \<open>Digests as text\<close>

lemma nibble_hex_char: "v < 16 \<Longrightarrow> nibble (hex_char v) = v \<and> is_lower_hex (hex_char v)"
proof -
  assume "v < 16"
  then have "unat v < 16" by (simp add: word_less_nat_alt)
  then have "v \<in> set (map word_of_nat [0 ..< 16])" by (simp add: image_iff) (metis atLeastLessThan_iff le0 of_nat_unat ucast_id)
  moreover have "\<forall>v \<in> set (map word_of_nat [0 ..< 16]). nibble (hex_char v) = v \<and> is_lower_hex (hex_char v)"
    by code_simp
  ultimately show ?thesis by (rule bspec [rotated])
qed

lemma hex_char_nibble: "is_lower_hex c \<Longrightarrow> hex_char (nibble c) = c \<and> nibble c < 16"
proof -
  assume "is_lower_hex c"
  then have "of_char c \<in> set ([48 ..< 58] @ [97 ..< 103] :: nat list)"
    unfolding set_append set_upt by (auto simp: is_lower_hex_def is_digit_char_def char_between_def less_eq_char_def)
  moreover have "\<forall>n \<in> set ([48 ..< 58] @ [97 ..< 103]). hex_char (nibble (char_of n)) = char_of n \<and> nibble (char_of n) < 16"
    by code_simp
  ultimately have "hex_char (nibble (char_of (of_char c :: nat))) = char_of (of_char c :: nat) \<and>
      nibble (char_of (of_char c :: nat)) < 16"
    by (rule bspec [rotated])
  then show ?thesis by simp
qed

lemma byte_halves:
  "or (push_bit 4 (drop_bit 4 b)) (and b 15) = (b :: u8)" "drop_bit 4 b < 16" "and b 15 < 16"
proof -
  have m: "(15 :: u8) = mask 4" by (simp add: mask_eq_exp_minus_1)
  show "or (push_bit 4 (drop_bit 4 b)) (and b 15) = b"
    unfolding m by (rule bit_word_eqI) (auto simp: bit_simps)
  show "and b 15 < 16" using word_and_le1 [of b 15] by (simp add: word_less_nat_alt word_le_nat_alt)
  have "unat (drop_bit 4 b) = unat b div 2 ^ 4"
    using unat_drop_bit_eq [of 4 b] unfolding drop_bit_eq_div [of 4 "unat b"] .
  then have "unat (drop_bit 4 b) < 16" using less_mult_imp_div_less [of "unat b" 16 16] by simp
  then show "drop_bit 4 b < 16" by (simp add: word_less_nat_alt)
qed

lemma halves_of_pair:
  assumes "h < 16" "l < (16 :: u8)"
  shows "drop_bit 4 (or (push_bit 4 h) l) = h" "and (or (push_bit 4 h) l) 15 = l"
proof -
  have "unat h < 2 ^ 4" "unat l < 2 ^ 4" using assms by (simp_all add: word_less_nat_alt)
  then have "h = take_bit 4 h" "l = take_bit 4 l"
    by (simp_all add: word_unat_eq_iff unsigned_take_bit_eq take_bit_nat_eq_self)
  moreover have m: "(15 :: u8) = mask 4" by (simp add: mask_eq_exp_minus_1)
  have "drop_bit 4 (or (push_bit 4 (take_bit 4 h)) (take_bit 4 l)) = take_bit 4 h"
    "and (or (push_bit 4 (take_bit 4 h)) (take_bit 4 l)) 15 = take_bit 4 l"
    unfolding m by (rule bit_word_eqI, auto simp: bit_simps)+
  ultimately show "drop_bit 4 (or (push_bit 4 h) l) = h" "and (or (push_bit 4 h) l) 15 = l" by metis+
qed

lemma nibble_pairs_hex [simp]: "nibble_pairs (hex_text bs) = bs"
  by (induction bs) (simp_all add: nibble_hex_char byte_halves)

lemma hex_nibble_pairs: "list_all is_lower_hex s \<Longrightarrow> even (length s) \<Longrightarrow> hex_text (nibble_pairs s) = s"
  by (induction s rule: nibble_pairs.induct) (simp_all add: hex_char_nibble halves_of_pair del: drop_bit_or)

lemma length_hex_text [simp, codec_simps]: "length (hex_text bs) = 2 * length bs"
  by (induction bs) simp_all

lemma hex_text_lower: "list_all is_lower_hex (hex_text bs)"
  by (induction bs) (simp_all add: nibble_hex_char byte_halves)

lemma valid_hash_hex: "length bs = 32 \<Longrightarrow> valid_hash (hex_text bs)"
  by (simp add: valid_hash_def hex_text_lower)

lemma digest_bytes_Inr: "digest_bytes s = Inr d \<longleftrightarrow> length d = 32 \<and> s = hex_text d"
proof
  assume "digest_bytes s = Inr d"
  then have v: "valid_hash s" and d: "d = nibble_pairs s" by (auto simp: digest_bytes_def split: if_splits)
  then have "hex_text d = s" using hex_nibble_pairs by (simp add: valid_hash_def)
  then have "2 * length d = 64" using v length_hex_text [of d] by (simp add: valid_hash_def)
  then show "length d = 32 \<and> s = hex_text d" using \<open>hex_text d = s\<close> by simp
next
  assume "length d = 32 \<and> s = hex_text d"
  then show "digest_bytes s = Inr d" by (simp add: digest_bytes_def valid_hash_hex)
qed

section \<open>What a reader accepted\<close>

lemma read32_Inr [rd_simps]: "read32 code bs = Inr (v, rest) \<longleftrightarrow> bs = put32 v @ rest"
proof
  assume "read32 code bs = Inr (v, rest)"
  then obtain data where d: "bs = data @ rest" "length data = 4" "v = or_bytes data"
    by (auto simp: read32_def rd_simps rd_take_Inr)
  then have "le_bytes 4 (unat v) = data" using le_bytes_or_bytes [of data, where 'a = 32] by simp
  then show "bs = put32 v @ rest" using d by (simp add: put32_le)
qed (simp add: read32_put32)

lemma read16_Inr: "read16 code bs = Inr (v, rest) \<Longrightarrow> bs = put16 (unat v) @ rest"
proof -
  assume "read16 code bs = Inr (v, rest)"
  then obtain data where d: "bs = data @ rest" "length data = 2"
    and v: "v = or (ucast (data ! 0)) (push_bit 8 (ucast (data ! 1)))"
    by (auto simp: read16_def rd_simps rd_take_Inr)
  have "word_of_nat (unat v) = data ! 0" "word_of_nat (drop_bit 8 (unat v)) = data ! 1"
    unfolding v using bit_imp_le_length [of "data ! 0" "8 + n" for n]
    by (rule_tac [!] bit_word_eqI) (auto simp: bit_simps)
  moreover have "data = [data ! 0, data ! 1]" using d(2) by (auto simp: numeral_2_eq_2 length_Suc_conv)
  ultimately show ?thesis using d(1) by (simp add: put16_def)
qed

lemma read_text_Inr:
  assumes "read_text code limit limit_code bs = Inr (s, rest)"
  shows "bs = put_text s @ rest \<and> length s \<le> limit"
proof -
  obtain n :: u16 and data where n: "bs = put16 (unat n) @ data @ rest" "\<not> limit < unat n" "length data = unat n" "s = bytes_str data"
    using assms by (auto simp: read_text_def rd_simps rd_take_Inr dest!: read16_Inr split: if_splits)
  then show ?thesis by (simp add: put_text_def)
qed

lemma read_magic_Inr: "read_magic code s bs = Inr (u, rest) \<Longrightarrow> bs = str_bytes s @ rest"
  by (auto simp: read_magic_def rd_simps rd_take_Inr split: if_splits)

lemma read_end_Inr [rd_simps]: "read_end code bs = Inr (u, rest) \<longleftrightarrow> bs = [] \<and> rest = []"
  by (auto simp: read_end_def rd_simps)

section \<open>Manifests\<close>

definition manifest_ok :: "manifest \<Rightarrow> bool" where
  "manifest_ok m \<longleftrightarrow>
     manifest_version m = 1 \<and> unat (decoded_length m) \<le> blob_byte_limit \<and> valid_hash (manifest_hash m) \<and>
     ascii_text (media_type m) 64 \<and> ascii_text (source_text m) 128 \<and> ascii_text (license m) 64"

definition manifest_bytes :: "manifest \<Rightarrow> bytes" where
  "manifest_bytes m =
     str_bytes ''OWAMNF01'' @ put32 (manifest_version m) @ nibble_pairs (manifest_hash m) @ put32 (decoded_length m) @
     put_text (media_type m) @ put_text (source_text m) @ put_text (license m)"

lemma manifest_valid_Inr: "manifest_valid m = Inr () \<longleftrightarrow> manifest_ok m"
  by (auto simp: manifest_valid_def manifest_ok_def res_simps)

lemma canonical_manifest_Inr: "canonical_manifest m = Inr bs \<longleftrightarrow> manifest_ok m \<and> bs = manifest_bytes m"
  by (auto simp: canonical_manifest_def manifest_valid_Inr digest_bytes_def manifest_bytes_def manifest_ok_def res_simps)

lemma length_nibble_pairs: "valid_hash s \<Longrightarrow> length (nibble_pairs s) = 32"
  using digest_bytes_Inr [of s "nibble_pairs s"] by (simp add: digest_bytes_def)

lemma hex_digest [simp]: "valid_hash s \<Longrightarrow> hex_text (nibble_pairs s) = s"
  by (simp add: hex_nibble_pairs valid_hash_def)

lemma length_manifest_bytes: "manifest_ok m \<Longrightarrow> length (manifest_bytes m) \<le> canonical_limit"
  by (simp add: manifest_bytes_def manifest_ok_def length_nibble_pairs ascii_text_def canonical_limit_def)

lemma manifest_fields_bytes: "manifest_ok m \<Longrightarrow> manifest_fields (manifest_bytes m) = Inr (m, [])"
  by (simp add: manifest_ok_def manifest_bytes_def manifest_fields_def Let_def ascii_text_def length_nibble_pairs
      rd_bind_def rd_check_def read32_put32 read_text_put_text read_text_put_text [of _ _ _ _ "[]", simplified] read_end_def)

lemma read_manifest_bytes: "manifest_ok m \<Longrightarrow> read_manifest (manifest_bytes m) = Inr m"
  using length_manifest_bytes [of m] manifest_valid_Inr [of m] by (simp add: read_manifest_def manifest_fields_bytes)

lemma read_manifest_Inr: "read_manifest bs = Inr m \<longleftrightarrow> manifest_ok m \<and> bs = manifest_bytes m"
proof
  assume "read_manifest bs = Inr m"
  then obtain rest where f: "manifest_fields bs = Inr (m, rest)" and ok: "manifest_ok m"
    by (auto simp: read_manifest_def manifest_valid_Inr res_simps split: if_splits)
  from f obtain b1 b2 digest n b3 media b4 src b5 lic b6 where
    "read_magic ''INVALID_MANIFEST'' ''OWAMNF01'' bs = Inr ((), b1)" "b1 = put32 1 @ digest @ put32 n @ b3" "length digest = 32"
    "read_text ''INVALID_MANIFEST'' 64 ''INVALID_MANIFEST'' b3 = Inr (media, b4)"
    "read_text ''INVALID_MANIFEST'' 128 ''INVALID_MANIFEST'' b4 = Inr (src, b5)"
    "read_text ''INVALID_MANIFEST'' 64 ''INVALID_MANIFEST'' b5 = Inr (lic, b6)" "b6 = []"
    and m: "m = \<lparr>manifest_version = 1, manifest_hash = hex_text digest, decoded_length = n,
        media_type = media, source_text = src, license = lic\<rparr>"
    by (auto simp: manifest_fields_def Let_def rd_simps rd_take_Inr split: if_splits)
  then have "bs = manifest_bytes m"
    by (auto simp: manifest_bytes_def dest!: read_magic_Inr read_text_Inr)
  with ok show "manifest_ok m \<and> bs = manifest_bytes m" by simp
qed (simp add: read_manifest_bytes)

text \<open>C23: Manifests: the canonical bytes of a manifest are read back as that manifest, and
  conversely every byte string accepted as a manifest is the canonical one of what was read, so
  that an asset id hashes exactly the bytes that were stored.\<close>

theorem manifest_round_trip:
  "(canonical_manifest m = Inr bs) = (read_manifest bs = Inr m)"
  by (simp add: canonical_manifest_Inr read_manifest_Inr)

section \<open>Bundles\<close>

definition asset_ok :: "asset \<Rightarrow> bool" where
  "asset_ok a \<longleftrightarrow> manifest_ok (asset_manifest a) \<and> asset_id (asset_manifest a) = Inr (asset_key a)"

definition blob_ok :: "blob \<Rightarrow> bool" where
  "blob_ok b \<longleftrightarrow> content_hash (blob_bytes b) = Inr (blob_hash b)"

definition blob_sizes :: "blob list \<Rightarrow> nat" where
  "blob_sizes bs = sum_list (map (\<lambda>b. length (blob_bytes b)) bs)"

text \<open>The entries a bundle may hold.\<close>

definition entries_ok :: "asset list \<Rightarrow> blob list \<Rightarrow> bool" where
  "entries_ok xs bs \<longleftrightarrow>
     (\<forall>a \<in> set xs. asset_ok a) \<and> distinct (map asset_key xs) \<and> length xs \<le> manifest_limit \<and>
     (\<forall>b \<in> set bs. blob_ok b) \<and> distinct (map blob_hash bs) \<and> length bs \<le> blob_limit \<and>
     blob_sizes bs \<le> decoded_byte_limit \<and>
     (\<forall>a \<in> set xs. \<exists>b \<in> set bs. blob_hash b = manifest_hash (asset_manifest a) \<and>
        length (blob_bytes b) = unat (decoded_length (asset_manifest a))) \<and>
     (\<forall>b \<in> set bs. \<exists>a \<in> set xs. blob_hash b = manifest_hash (asset_manifest a))"

lemma content_hash_Inr:
  "content_hash bs = Inr h \<longleftrightarrow> length bs \<le> blob_byte_limit \<and> h = hex_text (digest_of bs)"
  by (auto simp: content_hash_def sha256_small blob_byte_limit_def)

lemma content_hash_valid: "content_hash bs = Inr h \<Longrightarrow> valid_hash h"
  by (simp add: content_hash_Inr valid_hash_hex)

lemma blob_okD: "blob_ok b \<Longrightarrow> valid_hash (blob_hash b) \<and> length (blob_bytes b) \<le> blob_byte_limit"
  using content_hash_valid [of "blob_bytes b" "blob_hash b"] by (simp add: blob_ok_def content_hash_Inr)

lemma asset_id_Inr:
  "asset_id m = Inr i \<longleftrightarrow> manifest_ok m \<and> i = hex_text (digest_of (manifest_bytes m))"
  using length_manifest_bytes [of m]
  by (auto simp: asset_id_def canonical_manifest_Inr content_hash_Inr canonical_limit_def blob_byte_limit_def res_simps)

lemma asset_okD: "asset_ok a \<Longrightarrow> manifest_ok (asset_manifest a) \<and> valid_hash (asset_key a)"
  by (auto simp: asset_ok_def asset_id_Inr valid_hash_hex)

definition asset_bytes :: "asset \<Rightarrow> bytes" where
  "asset_bytes a =
     (let m = manifest_bytes (asset_manifest a) in nibble_pairs (asset_key a) @ put32 (word_of_nat (length m)) @ m)"

lemma export_asset_ok: "asset_ok a \<Longrightarrow> export_asset a = Inr (asset_bytes a)"
  using asset_okD [of a]
  by (simp add: export_asset_def digest_bytes_def asset_bytes_def Let_def iffD2 [OF canonical_manifest_Inr])

lemma unat_u32_of_nat: "n < 2 ^ 32 \<Longrightarrow> unat (word_of_nat n :: u32) = n"
  by (simp add: unsigned_of_nat take_bit_nat_eq_self_iff)

lemma find_asset_None: "find_asset xs i = None \<longleftrightarrow> i \<notin> asset_key ` set xs"
  by (auto simp: find_asset_def find_None_iff)

lemma find_blob_None: "find_blob bs h = None \<longleftrightarrow> h \<notin> blob_hash ` set bs"
  by (auto simp: find_blob_def find_None_iff)

lemma find_distinct:
  assumes "distinct (map f xs)" "x \<in> set xs"
  shows "find (\<lambda>y. f y = f x) xs = Some x"
  using assms by (induction xs) (auto simp: image_iff)

lemma find_blob_Some: "distinct (map blob_hash bs) \<Longrightarrow> find_blob bs h = Some b \<longleftrightarrow> b \<in> set bs \<and> blob_hash b = h"
  using find_distinct [of blob_hash bs] by (auto simp: find_blob_def find_Some_iff in_set_conv_nth)

lemma find_asset_Some: "distinct (map asset_key xs) \<Longrightarrow> find_asset xs i = Some a \<longleftrightarrow> a \<in> set xs \<and> asset_key a = i"
  using find_distinct [of asset_key xs] by (auto simp: find_asset_def find_Some_iff in_set_conv_nth)

lemma read_asset_bytes:
  assumes "asset_ok a" "asset_key a \<notin> asset_key ` set known"
  shows "read_asset known (asset_bytes a @ rest) = Inr (a, rest)"
proof -
  let ?m = "manifest_bytes (asset_manifest a)"
  have ok: "manifest_ok (asset_manifest a)" "valid_hash (asset_key a)" using asset_okD [OF assms(1)] by simp_all
  have n: "unat (word_of_nat (length ?m) :: u32) = length ?m"
    using length_manifest_bytes [OF ok(1)] by (intro unat_u32_of_nat) (simp add: canonical_limit_def)
  show ?thesis
    using assms ok length_manifest_bytes [OF ok(1)]
    by (simp add: read_asset_def asset_bytes_def Let_def rd_bind_def rd_check_def read32_put32 n
        length_nibble_pairs rd_lift_def read_manifest_bytes asset_ok_def find_asset_None)
qed

lemma read_assets_bytes:
  assumes "\<forall>a \<in> set xs. asset_ok a" "distinct (map asset_key (known @ xs))"
  shows "read_assets (length xs) known (concat (map asset_bytes xs) @ rest) = Inr (known @ xs, rest)"
  using assms
proof (induction xs arbitrary: known)
  case Nil
  then show ?case by simp
next
  case (Cons a xs)
  from Cons.prems have "read_asset known (asset_bytes a @ concat (map asset_bytes xs) @ rest) =
      Inr (a, concat (map asset_bytes xs) @ rest)"
    by (intro read_asset_bytes) auto
  then show ?case using Cons.IH [of "known @ [a]"] Cons.prems by (simp add: rd_bind_def)
qed

lemma read_blob_bytes:
  assumes "blob_ok b" "blob_hash b \<notin> blob_hash ` set known" "used + length (blob_bytes b) \<le> decoded_byte_limit"
  shows "read_blob known used (export_blob b @ rest) = Inr (b, rest)"
proof -
  have ok: "valid_hash (blob_hash b)" "length (blob_bytes b) \<le> blob_byte_limit" using blob_okD [OF assms(1)] by simp_all
  then have len: "length (blob_hash b) = 64" by (simp add: valid_hash_def)
  have n: "unat (word_of_nat (length (blob_bytes b)) :: u32) = length (blob_bytes b)"
    using ok by (intro unat_u32_of_nat) (simp add: blob_byte_limit_def)
  have "\<not> decoded_byte_limit - used < length (blob_bytes b)" using assms(3) by simp
  then show ?thesis
    using assms ok
    by (simp add: read_blob_def export_blob_def Let_def rd_bind_def rd_check_def read_text_put_text len
        rd_lift_def blob_path_hash_def find_blob_None read8_def rd_take_def read32_put32 n decode_blob_def
        blob_ok_def blob_byte_limit_def)
qed

lemma read_blobs_bytes:
  assumes "\<forall>b \<in> set bs. blob_ok b" "distinct (map blob_hash (known @ bs))" "used + blob_sizes bs \<le> decoded_byte_limit"
  shows "read_blobs (length bs) known used (concat (map export_blob bs) @ rest) = Inr (known @ bs, rest)"
  using assms
proof (induction bs arbitrary: known used)
  case Nil
  then show ?case by simp
next
  case (Cons b bs)
  from Cons.prems have "read_blob known used (export_blob b @ concat (map export_blob bs) @ rest) =
      Inr (b, concat (map export_blob bs) @ rest)"
    by (intro read_blob_bytes) (auto simp: blob_sizes_def)
  then show ?case
    using Cons.IH [of "known @ [b]" "used + length (blob_bytes b)"] Cons.prems by (simp add: rd_bind_def blob_sizes_def)
qed

definition bundle_bytes :: "asset list \<Rightarrow> blob list \<Rightarrow> bytes" where
  "bundle_bytes xs bs =
     str_bytes ''OWASB001'' @ put32 1 @ put32 (word_of_nat (length xs)) @ put32 (word_of_nat (length bs)) @
     concat (map asset_bytes xs) @ concat (map export_blob bs)"

lemma sum_list_bounded: "(\<And>x. x \<in> set xs \<Longrightarrow> f x \<le> (k :: nat)) \<Longrightarrow> sum_list (map f xs) \<le> k * length xs"
  by (induction xs) (auto simp: add_mono)

lemma bundle_fits:
  assumes "entries_ok xs bs"
  shows "length (bundle_bytes xs bs) \<le> bundle_byte_limit"
proof -
  have a: "length (asset_bytes a) \<le> 346" if "a \<in> set xs" for a
  proof -
    have "manifest_ok (asset_manifest a)" "valid_hash (asset_key a)"
      using assms that asset_okD [of a] by (auto simp: entries_ok_def)
    then show ?thesis
      using length_manifest_bytes [of "asset_manifest a"]
      by (simp add: asset_bytes_def Let_def length_nibble_pairs canonical_limit_def)
  qed
  have b: "length (export_blob b) = 81 + length (blob_bytes b)" if "b \<in> set bs" for b
  proof -
    have "valid_hash (blob_hash b)" using assms that blob_okD [of b] by (auto simp: entries_ok_def)
    then show ?thesis by (simp add: export_blob_def valid_hash_def)
  qed
  have "length (concat (map asset_bytes xs)) \<le> 346 * length xs"
    unfolding length_concat map_map comp_def using a by (rule sum_list_bounded)
  moreover have "length (concat (map export_blob bs)) = sum_list (map (\<lambda>b. 81 + length (blob_bytes b)) bs)"
    unfolding length_concat map_map comp_def using b by (metis (mono_tags, lifting) map_cong)
  moreover have "\<dots> = 81 * length bs + blob_sizes bs"
    unfolding blob_sizes_def by (induction bs) simp_all
  ultimately have "length (bundle_bytes xs bs) \<le> 20 + 346 * length xs + 81 * length bs + blob_sizes bs"
    by (simp add: bundle_bytes_def)
  also have "\<dots> \<le> bundle_byte_limit"
    using assms by (simp add: entries_ok_def asset_limits)
  finally show ?thesis .
qed

lemma export_entries:
  assumes "entries_ok (catalog_assets c) (catalog_blobs c)"
  shows "export_bundle c = Inr (bundle_bytes (catalog_assets c) (catalog_blobs c))"
proof -
  have "rmap_list export_asset xs = Inr (map asset_bytes xs)" if "\<forall>a \<in> set xs. asset_ok a" for xs
    using that by (induction xs) (simp_all add: export_asset_ok)
  then have "rmap_list export_asset (catalog_assets c) = Inr (map asset_bytes (catalog_assets c))"
    using assms by (simp add: entries_ok_def)
  then show ?thesis
    using bundle_fits [OF assms] by (simp add: export_bundle_def bundle_bytes_def Let_def)
qed

lemma bundle_entries_bytes:
  assumes "entries_ok xs bs"
  shows "bundle_entries (bundle_bytes xs bs) = Inr ((xs, bs), [])"
proof -
  have n: "unat (word_of_nat (length xs) :: u32) = length xs" "unat (word_of_nat (length bs) :: u32) = length bs"
    using assms by (auto intro!: unat_u32_of_nat simp: entries_ok_def asset_limits)
  have xs: "read_assets (length xs) [] (concat (map asset_bytes xs) @ rest) = Inr (xs, rest)" for rest
    using read_assets_bytes [of xs "[]" rest] assms by (simp add: entries_ok_def)
  have bs: "read_blobs (length bs) [] 0 (concat (map export_blob bs)) = Inr (bs, [])"
    using read_blobs_bytes [of bs "[]" 0 "[]"] assms by (simp add: entries_ok_def)
  show ?thesis
    using assms
    by (simp add: bundle_entries_def bundle_bytes_def Let_def rd_bind_def rd_check_def read32_put32 n xs bs
        entries_ok_def read_end_def)
qed

lemma referenced_hashes:
  assumes "distinct (map blob_hash bs)"
  shows "rmap_list (referenced_hash bs) xs = Inr hs \<longleftrightarrow>
    hs = map (\<lambda>a. manifest_hash (asset_manifest a)) xs \<and>
    (\<forall>a \<in> set xs. \<exists>b \<in> set bs. blob_hash b = manifest_hash (asset_manifest a) \<and>
       length (blob_bytes b) = unat (decoded_length (asset_manifest a)))"
proof -
  have one: "referenced_hash bs a = Inr h \<longleftrightarrow> h = manifest_hash (asset_manifest a) \<and>
      (\<exists>b \<in> set bs. blob_hash b = manifest_hash (asset_manifest a) \<and>
         length (blob_bytes b) = unat (decoded_length (asset_manifest a)))" for a h
  proof (cases "find_blob bs (manifest_hash (asset_manifest a))")
    case None
    then have "referenced_hash bs a = Inl ''MISSING_BLOB''" by (simp add: referenced_hash_def)
    then show ?thesis using iffD1 [OF find_blob_None None] by force
  next
    case (Some b)
    then have b: "b \<in> set bs" "blob_hash b = manifest_hash (asset_manifest a)"
      using find_blob_Some [OF assms] by simp_all
    have unique: "b' = b" if "b' \<in> set bs" "blob_hash b' = manifest_hash (asset_manifest a)" for b'
      using that Some find_blob_Some [OF assms, of "manifest_hash (asset_manifest a)" b'] by simp
    have "referenced_hash bs a = Inr h \<longleftrightarrow> length (blob_bytes b) = unat (decoded_length (asset_manifest a)) \<and> h = blob_hash b"
      using Some by (auto simp: referenced_hash_def require_def)
    also have "\<dots> \<longleftrightarrow> h = manifest_hash (asset_manifest a) \<and>
      (\<exists>b \<in> set bs. blob_hash b = manifest_hash (asset_manifest a) \<and>
         length (blob_bytes b) = unat (decoded_length (asset_manifest a)))"
      using b unique by metis
    finally show ?thesis .
  qed
  show ?thesis
    by (induction xs arbitrary: hs) (auto simp: res_simps one)
qed

lemma same_references:
  assumes "distinct (map blob_hash bs)"
    and "\<forall>a \<in> set xs. \<exists>b \<in> set bs. blob_hash b = manifest_hash (asset_manifest a)"
  shows "length (remdups (map (\<lambda>a. manifest_hash (asset_manifest a)) xs)) = length bs \<longleftrightarrow>
    (\<forall>b \<in> set bs. \<exists>a \<in> set xs. blob_hash b = manifest_hash (asset_manifest a))"
proof -
  let ?r = "(\<lambda>a. manifest_hash (asset_manifest a)) ` set xs"
  have sub: "?r \<subseteq> blob_hash ` set bs" using assms(2) by force
  have "length bs = card (blob_hash ` set bs)"
    using assms(1) distinct_card [of "map blob_hash bs"] by simp
  then have "length (remdups (map (\<lambda>a. manifest_hash (asset_manifest a)) xs)) = length bs \<longleftrightarrow>
      card ?r = card (blob_hash ` set bs)"
    by (simp add: length_remdups_card_conv)
  also have "\<dots> \<longleftrightarrow> ?r = blob_hash ` set bs"
    using card_subset_eq [OF _ sub] by auto
  also have "\<dots> \<longleftrightarrow> blob_hash ` set bs \<subseteq> ?r" using sub by blast
  also have "\<dots> \<longleftrightarrow> (\<forall>b \<in> set bs. \<exists>a \<in> set xs. blob_hash b = manifest_hash (asset_manifest a))" by force
  finally show ?thesis .
qed

lemma decode_bundle_bytes:
  assumes "entries_ok xs bs"
  shows "decode_bundle (bundle_bytes xs bs) = Inr (sort_entries xs bs)"
proof -
  have d: "distinct (map blob_hash bs)" using assms by (simp add: entries_ok_def)
  have "rmap_list (referenced_hash bs) xs = Inr (map (\<lambda>a. manifest_hash (asset_manifest a)) xs)"
    using assms referenced_hashes [OF d] by (simp add: entries_ok_def)
  moreover have "length (remdups (map (\<lambda>a. manifest_hash (asset_manifest a)) xs)) = length bs"
    using assms by (subst same_references [OF d]) (auto simp: entries_ok_def)
  ultimately show ?thesis
    using bundle_fits [OF assms] bundle_entries_bytes [OF assms] by (simp add: decode_bundle_def require_def)
qed

section \<open>What an accepted bundle holds\<close>

lemma read_asset_Inr:
  assumes "read_asset known bs = Inr (a, rest)"
  shows "asset_ok a \<and> asset_key a \<notin> asset_key ` set known"
  using assms
  by (auto simp: read_asset_def Let_def rd_simps asset_ok_def read_manifest_Inr find_asset_None split: if_splits)

lemma read_assets_Inr:
  assumes "read_assets n known bs = Inr (xs, rest)" "\<forall>a \<in> set known. asset_ok a" "distinct (map asset_key known)"
  shows "(\<forall>a \<in> set xs. asset_ok a) \<and> distinct (map asset_key xs) \<and> length xs = length known + n"
  using assms
proof (induction n arbitrary: known bs)
  case 0
  then show ?case by simp
next
  case (Suc n)
  then obtain a bs' where "read_asset known bs = Inr (a, bs')" "read_assets n (known @ [a]) bs' = Inr (xs, rest)"
    by (auto simp: rd_simps)
  then show ?case using Suc.IH [of "known @ [a]" bs'] Suc.prems read_asset_Inr [of known bs a bs'] by auto
qed

lemma rle_expanded_length:
  "rle_expanded limit expanded enc = Inr r \<Longrightarrow> r = expanded + length (rle_expand enc)"
  by (induction limit expanded enc rule: rle_expanded.induct) (auto split: if_splits)

lemma decode_blob_length: "decode_blob codec n encoded = Inr data \<Longrightarrow> length data = unat n"
  by (auto simp: decode_blob_def res_simps split: if_splits dest: rle_expanded_length)

lemma read_blob_Inr:
  assumes "read_blob known used bs = Inr (b, rest)" "used \<le> decoded_byte_limit"
  shows "blob_ok b \<and> blob_hash b \<notin> blob_hash ` set known \<and> used + length (blob_bytes b) \<le> decoded_byte_limit"
  using assms
  by (auto simp: read_blob_def Let_def rd_simps blob_ok_def find_blob_None split: if_splits dest!: decode_blob_length)

lemma read_blobs_Inr:
  assumes "read_blobs n known used input = Inr (bs, rest)" "\<forall>b \<in> set known. blob_ok b"
    "distinct (map blob_hash known)" "used = blob_sizes known" "used \<le> decoded_byte_limit"
  shows "(\<forall>b \<in> set bs. blob_ok b) \<and> distinct (map blob_hash bs) \<and> length bs = length known + n \<and>
    blob_sizes bs \<le> decoded_byte_limit"
  using assms
proof (induction n arbitrary: known used input)
  case 0
  then show ?case by simp
next
  case (Suc n)
  then obtain b input' where b: "read_blob known used input = Inr (b, input')"
    and rest: "read_blobs n (known @ [b]) (used + length (blob_bytes b)) input' = Inr (bs, rest)"
    by (auto simp: rd_simps)
  show ?case
    using Suc.IH [OF rest] Suc.prems read_blob_Inr [OF b] by (auto simp: blob_sizes_def)
qed

lemma sort_entries_ok: "sort_entries xs bs = (xs', bs') \<Longrightarrow> entries_ok xs bs \<Longrightarrow>
    entries_ok xs' bs' \<and> sorted (map asset_key xs') \<and> sorted (map blob_hash bs')"
proof -
  have d: "distinct (map f (sort_key f ys)) = distinct (map f ys)" for f :: "'a \<Rightarrow> string" and ys
    by (metis distinct_map distinct_sort set_sort)
  have s: "sum_list (map f (sort_key g ys)) = sum_list (map f ys)" if "distinct (map g ys)"
    for f :: "'a \<Rightarrow> nat" and g :: "'a \<Rightarrow> string" and ys
    using that by (simp add: sum_list_distinct_conv_sum_set distinct_map)
  assume "sort_entries xs bs = (xs', bs')" "entries_ok xs bs"
  then show ?thesis
    by (auto simp: sort_entries_def entries_ok_def d s blob_sizes_def)
qed

lemma decode_bundle_ok:
  assumes "decode_bundle input = Inr (xs, bs)"
  shows "entries_ok xs bs \<and> sorted (map asset_key xs) \<and> sorted (map blob_hash bs)"
proof -
  obtain ys cs hs rest where e: "bundle_entries input = Inr ((ys, cs), rest)"
    and r: "rmap_list (referenced_hash cs) ys = Inr hs" "length (remdups hs) = length cs"
    and s: "sort_entries ys cs = (xs, bs)"
    using assms by (auto simp: decode_bundle_def res_simps)
  obtain n k :: u32 and b1 b2 b3 where a: "read_assets (unat n) [] b1 = Inr (ys, b2)" "read_blobs (unat k) [] 0 b2 = Inr (cs, b3)"
    "unat n \<le> manifest_limit" "unat k \<le> blob_limit"
    using e by (auto simp: bundle_entries_def Let_def rd_simps split: if_splits)
  have ok: "(\<forall>a \<in> set ys. asset_ok a) \<and> distinct (map asset_key ys) \<and> length ys = unat n"
    using read_assets_Inr [OF a(1)] by simp
  have ok': "(\<forall>b \<in> set cs. blob_ok b) \<and> distinct (map blob_hash cs) \<and> length cs = unat k \<and> blob_sizes cs \<le> decoded_byte_limit"
    using read_blobs_Inr [OF a(2)] by (simp add: blob_sizes_def decoded_byte_limit_def)
  have refs: "hs = map (\<lambda>a. manifest_hash (asset_manifest a)) ys \<and>
    (\<forall>a \<in> set ys. \<exists>b \<in> set cs. blob_hash b = manifest_hash (asset_manifest a) \<and>
       length (blob_bytes b) = unat (decoded_length (asset_manifest a)))"
    using referenced_hashes ok' r(1) by blast
  then have "\<forall>b \<in> set cs. \<exists>a \<in> set ys. blob_hash b = manifest_hash (asset_manifest a)"
    using same_references [of cs ys] ok' r(2) by blast
  then have "entries_ok ys cs"
    using ok ok' refs a(3,4) by (simp add: entries_ok_def)
  then show ?thesis by (rule sort_entries_ok [OF s])
qed

end
