(* ===== verification/Catalog_Claims.thy ===== *)
theory Catalog_Claims
  imports Asset_Codec
begin

text \<open>
  The properties of the asset catalog: the invariant that every command keeps, the round trip
  of an exported bundle, and the agreement of the retention report with what collection does.
\<close>

section \<open>The invariant\<close>

definition roots_ok :: "asset list \<Rightarrow> string list \<Rightarrow> bool" where
  "roots_ok xs ids \<longleftrightarrow>
     length ids \<le> roots_limit \<and> sorted ids \<and> distinct ids \<and> set ids \<subseteq> asset_key ` set xs"

definition history_ok :: "asset list \<Rightarrow> root_set list \<Rightarrow> bool" where
  "history_ok xs hs \<longleftrightarrow>
     length hs \<le> history_limit \<and> sorted (map root_set_name hs) \<and> distinct (map root_set_name hs) \<and>
     (\<forall>h \<in> set hs. root_name (root_set_name h) = Inr () \<and> roots_ok xs (root_ids h))"

definition catalog_ok :: "catalog \<Rightarrow> bool" where
  "catalog_ok c \<longleftrightarrow>
     entries_ok (catalog_assets c) (catalog_blobs c) \<and>
     sorted (map asset_key (catalog_assets c)) \<and> sorted (map blob_hash (catalog_blobs c)) \<and>
     roots_ok (catalog_assets c) (current_roots c) \<and> history_ok (catalog_assets c) (history_roots c)"

lemma sorted_not_adjacent_distinct: "sorted xs \<Longrightarrow> \<not> adjacent_equal xs \<Longrightarrow> distinct xs"
  for xs :: "string list"
  by (induction xs rule: adjacent_equal.induct) auto

lemma known_roots:
  assumes "rmap_list (known_root c) ids = Inr ys"
  shows "set ids \<subseteq> asset_key ` set (catalog_assets c)"
proof
  fix i
  assume "i \<in> set ids"
  then obtain k where k: "k < length ids" "i = ids ! k" by (metis in_set_conv_nth)
  have "known_root c (ids ! k) = Inr (ys ! k)"
    using assms k(1) list_all2_nthD [of "\<lambda>x y. known_root c x = Inr y" ids ys k] by (simp add: rmap_list_Inr_conv)
  then have "find_asset (catalog_assets c) i \<noteq> None"
    unfolding k(2) by (auto simp: known_root_def rbind_eq_Inr)
  then show "i \<in> asset_key ` set (catalog_assets c)" unfolding find_asset_None by blast
qed

lemma roots_Inr:
  assumes "roots c ids = Inr rs"
  shows "roots_ok (catalog_assets c) rs \<and> set rs = set ids"
proof -
  have r: "length ids \<le> roots_limit \<and> (\<exists>ys. rmap_list (known_root c) ids = Inr ys) \<and>
      \<not> adjacent_equal (sort ids) \<and> rs = sort ids"
    using assms unfolding roots_def rbind_eq_Inr by auto
  then have "distinct (sort ids)" using sorted_not_adjacent_distinct [of "sort ids"] by simp
  moreover have "set ids \<subseteq> asset_key ` set (catalog_assets c)" using r known_roots by blast
  ultimately show ?thesis using r by (simp add: roots_ok_def)
qed

lemma roots_ok_mono: "roots_ok xs ids \<Longrightarrow> asset_key ` set xs \<subseteq> asset_key ` set ys \<Longrightarrow> roots_ok ys ids"
  unfolding roots_ok_def by blast

lemma history_ok_mono: "history_ok xs hs \<Longrightarrow> asset_key ` set xs \<subseteq> asset_key ` set ys \<Longrightarrow> history_ok ys hs"
  unfolding history_ok_def using roots_ok_mono by blast

lemma add_assets_Inr:
  assumes "add_assets xs incoming = Inr ys" "distinct (map asset_key xs)" "length xs \<le> manifest_limit"
  shows "distinct (map asset_key ys) \<and> length ys \<le> manifest_limit \<and> set xs \<subseteq> set ys \<and> set ys \<subseteq> set xs \<union> set incoming \<and>
    (\<forall>a \<in> set incoming. \<exists>a' \<in> set ys. asset_key a' = asset_key a \<and> asset_manifest a' = asset_manifest a)"
  using assms
proof (induction xs incoming rule: add_assets.induct)
  case (1 xs)
  then show ?case by simp
next
  case (2 xs a incoming)
  show ?case
  proof (cases "find_asset xs (asset_key a)")
    case None
    then have fresh: "asset_key a \<notin> asset_key ` set xs" and room: "length xs \<noteq> manifest_limit"
      and run: "add_assets (xs @ [a]) incoming = Inr ys"
      using "2.prems"(1) None iffD1 [OF find_asset_None None] by (auto split: if_splits)
    have "distinct (map asset_key (xs @ [a]))" "length (xs @ [a]) \<le> manifest_limit"
      using fresh room "2.prems"(2,3) by auto
    from "2.IH"(1) [OF None room run this] show ?thesis by auto
  next
    case (Some a')
    then have same: "asset_manifest a' = asset_manifest a" and run: "add_assets xs incoming = Inr ys"
      using "2.prems"(1) Some by (auto split: if_splits)
    have a': "a' \<in> set xs" "asset_key a' = asset_key a"
      using Some find_asset_Some [OF "2.prems"(2)] by simp_all
    show ?thesis using "2.IH"(2) [OF Some _ run "2.prems"(2,3)] same a' by auto
  qed
qed

lemma add_blobs_Inr:
  assumes "add_blobs bs incoming = Inr cs" "distinct (map blob_hash bs)" "length bs \<le> blob_limit"
  shows "distinct (map blob_hash cs) \<and> length cs \<le> blob_limit \<and> set bs \<subseteq> set cs \<and> set cs \<subseteq> set bs \<union> set incoming \<and>
    (\<forall>b \<in> set incoming. \<exists>b' \<in> set cs. blob_hash b' = blob_hash b \<and> blob_bytes b' = blob_bytes b)"
  using assms
proof (induction bs incoming rule: add_blobs.induct)
  case (1 bs)
  then show ?case by simp
next
  case (2 bs b incoming)
  show ?case
  proof (cases "find_blob bs (blob_hash b)")
    case None
    then have fresh: "blob_hash b \<notin> blob_hash ` set bs" and room: "length bs \<noteq> blob_limit"
      and run: "add_blobs (bs @ [b]) incoming = Inr cs"
      using "2.prems"(1) None iffD1 [OF find_blob_None None] by (auto split: if_splits)
    have "distinct (map blob_hash (bs @ [b]))" "length (bs @ [b]) \<le> blob_limit"
      using fresh room "2.prems"(2,3) by auto
    from "2.IH"(1) [OF None room run this] show ?thesis by auto
  next
    case (Some b')
    then have same: "blob_bytes b' = blob_bytes b" and run: "add_blobs bs incoming = Inr cs"
      using "2.prems"(1) Some by (auto split: if_splits)
    have b': "b' \<in> set bs" "blob_hash b' = blob_hash b"
      using Some find_blob_Some [OF "2.prems"(2)] by simp_all
    show ?thesis using "2.IH"(2) [OF Some _ run "2.prems"(2,3)] same b' by auto
  qed
qed

lemma blob_quota_sizes: "blob_quota used bs \<Longrightarrow> used \<le> decoded_byte_limit \<Longrightarrow> used + blob_sizes bs \<le> decoded_byte_limit"
proof (induction bs arbitrary: used)
  case Nil
  then show ?case by (simp add: blob_sizes_def)
next
  case (Cons b bs)
  then have "used + length (blob_bytes b) \<le> decoded_byte_limit" by (simp add: not_less le_diff_conv2)
  then show ?case using Cons.IH [of "used + length (blob_bytes b)"] Cons.prems by (simp add: blob_sizes_def add.assoc)
qed

lemma import_bundle_ok:
  assumes "import_bundle bundle c = Inr (c', ids)" and ok: "catalog_ok c"
  shows "catalog_ok c'"
proof -
  obtain incoming content xs bs where d: "decode_bundle bundle = Inr (incoming, content)"
    and xs: "add_assets (catalog_assets c) incoming = Inr xs" and bs: "add_blobs (catalog_blobs c) content = Inr bs"
    and q: "asset_quota xs bs = Inr ()"
    and c0: "c' = c\<lparr>catalog_assets := fst (sort_entries xs bs), catalog_blobs := snd (sort_entries xs bs)\<rparr>"
    using assms(1) by (auto simp: import_bundle_def res_simps split_beta)
  obtain xs' bs' where s: "sort_entries xs bs = (xs', bs')" by (cases "sort_entries xs bs")
  have c': "c' = c\<lparr>catalog_assets := xs', catalog_blobs := bs'\<rparr>" using c0 by (simp add: s)
  have old: "entries_ok (catalog_assets c) (catalog_blobs c)" using ok by (simp add: catalog_ok_def)
  have new: "entries_ok incoming content" using decode_bundle_ok [OF d] by simp
  have a: "distinct (map asset_key xs) \<and> length xs \<le> manifest_limit \<and> set (catalog_assets c) \<subseteq> set xs \<and>
      set xs \<subseteq> set (catalog_assets c) \<union> set incoming \<and>
      (\<forall>a \<in> set incoming. \<exists>a' \<in> set xs. asset_key a' = asset_key a \<and> asset_manifest a' = asset_manifest a)"
    using add_assets_Inr [OF xs] old by (simp add: entries_ok_def)
  have b: "distinct (map blob_hash bs) \<and> length bs \<le> blob_limit \<and> set (catalog_blobs c) \<subseteq> set bs \<and>
      set bs \<subseteq> set (catalog_blobs c) \<union> set content \<and>
      (\<forall>b \<in> set content. \<exists>b' \<in> set bs. blob_hash b' = blob_hash b \<and> blob_bytes b' = blob_bytes b)"
    using add_blobs_Inr [OF bs] old by (simp add: entries_ok_def)
  have sizes: "blob_sizes bs \<le> decoded_byte_limit"
    using q blob_quota_sizes [of 0 bs] by (simp add: asset_quota_def)
  have "\<forall>a \<in> set xs. \<exists>b \<in> set bs. blob_hash b = manifest_hash (asset_manifest a) \<and>
      length (blob_bytes b) = unat (decoded_length (asset_manifest a))"
  proof
    fix x
    assume "x \<in> set xs"
    then have "x \<in> set (catalog_assets c) \<or> x \<in> set incoming" using a by blast
    then obtain b0 where "b0 \<in> set (catalog_blobs c) \<or> b0 \<in> set content"
      "blob_hash b0 = manifest_hash (asset_manifest x)"
      "length (blob_bytes b0) = unat (decoded_length (asset_manifest x))"
      using old new unfolding entries_ok_def by blast
    then show "\<exists>b \<in> set bs. blob_hash b = manifest_hash (asset_manifest x) \<and>
        length (blob_bytes b) = unat (decoded_length (asset_manifest x))"
      using b by (metis subsetD)
  qed
  moreover have "\<forall>b \<in> set bs. \<exists>a \<in> set xs. blob_hash b = manifest_hash (asset_manifest a)"
  proof
    fix y
    assume "y \<in> set bs"
    then have "y \<in> set (catalog_blobs c) \<or> y \<in> set content" using b by blast
    then obtain a0 where "a0 \<in> set (catalog_assets c) \<or> a0 \<in> set incoming"
      "blob_hash y = manifest_hash (asset_manifest a0)"
      using old new unfolding entries_ok_def by blast
    then show "\<exists>a \<in> set xs. blob_hash y = manifest_hash (asset_manifest a)"
      using a by (metis subsetD)
  qed
  moreover have "\<forall>a \<in> set xs. asset_ok a" "\<forall>b \<in> set bs. blob_ok b"
    using a b old new unfolding entries_ok_def by blast+
  ultimately have "entries_ok xs bs" using a b sizes by (simp add: entries_ok_def)
  note sorted = sort_entries_ok [OF s this]
  have "set xs' = set xs" using s by (auto simp: sort_entries_def)
  then have "asset_key ` set (catalog_assets c) \<subseteq> asset_key ` set xs'" using a by auto
  then show ?thesis
    using sorted ok roots_ok_mono history_ok_mono by (simp add: c' catalog_ok_def) blast
qed

lemma collect_fields:
  "catalog_assets (fst (collect c)) = filter (\<lambda>a. asset_key a \<in> retained_ids c) (catalog_assets c)"
  "catalog_blobs (fst (collect c)) =
     filter (\<lambda>b. \<exists>a \<in> set (catalog_assets c). asset_key a \<in> retained_ids c \<and> blob_hash b = manifest_hash (asset_manifest a))
       (catalog_blobs c)"
  "current_roots (fst (collect c)) = current_roots c" "history_roots (fst (collect c)) = history_roots c"
  "catalog_revision (fst (collect c)) = catalog_revision c" "catalog_version (fst (collect c)) = catalog_version c"
  by (auto simp: collect_def Let_def intro!: filter_cong)

lemma sum_list_filter_le: "sum_list (map f (filter P xs)) \<le> (sum_list (map f xs) :: nat)"
  by (induction xs) auto

lemma collect_ok:
  assumes ok: "catalog_ok c"
  shows "catalog_ok (fst (collect c))"
proof -
  let ?xs = "catalog_assets (fst (collect c))" and ?bs = "catalog_blobs (fst (collect c))"
  have e: "entries_ok (catalog_assets c) (catalog_blobs c)" using ok by (simp add: catalog_ok_def)
  have d: "distinct (map f (filter P zs))" if "distinct (map f zs)" for f :: "'z \<Rightarrow> string" and P zs
    using that by (simp add: distinct_map_filter)
  have len: "length (filter P zs) \<le> n" if "length zs \<le> n" for P n and zs :: "'z list"
    using that length_filter_le le_trans by blast
  have "blob_sizes ?bs \<le> decoded_byte_limit"
    using e sum_list_filter_le [of _ _ "catalog_blobs c"] unfolding collect_fields entries_ok_def blob_sizes_def
    by (meson le_trans)
  then have entries: "entries_ok ?xs ?bs"
    using e unfolding entries_ok_def collect_fields by (auto intro: d len) blast+
  have roots: "roots_ok ?xs ids" if "roots_ok (catalog_assets c) ids" "set ids \<subseteq> retained_ids c" for ids
    using that unfolding roots_ok_def collect_fields by auto
  have "roots_ok ?xs (current_roots c)"
    using ok by (intro roots) (auto simp: catalog_ok_def retained_ids_def)
  moreover have "history_ok ?xs (history_roots c)"
  proof -
    have "roots_ok ?xs (root_ids h)" if "h \<in> set (history_roots c)" for h
      using ok that by (intro roots) (auto simp: catalog_ok_def history_ok_def retained_ids_def)
    then show ?thesis using ok by (simp add: catalog_ok_def history_ok_def)
  qed
  ultimately show ?thesis
    using ok entries by (simp add: catalog_ok_def collect_fields sorted_filter)
qed

lemma set_history_ok:
  assumes "set_history name rs hs = Inr hs'" "history_ok xs hs" "roots_ok xs rs" "root_name name = Inr ()"
  shows "history_ok xs hs'"
proof -
  obtain hs0 where hs': "hs' = sort_key root_set_name hs0"
    and hs0: "(case find_index (\<lambda>h. root_set_name h = name) hs of
              Some i \<Rightarrow> Inr (hs[i := (hs ! i)\<lparr>root_ids := rs\<rparr>])
            | None \<Rightarrow>
                if length hs = history_limit then Inl ''BUDGET_EXCEEDED''
                else Inr (hs @ [\<lparr>root_set_name = name, root_ids = rs\<rparr>])) = Inr hs0"
    using assms(1) by (auto simp: set_history_def rbind_eq_Inr)
  have "length hs0 \<le> history_limit \<and> distinct (map root_set_name hs0) \<and>
      (\<forall>h \<in> set hs0. root_name (root_set_name h) = Inr () \<and> roots_ok xs (root_ids h))"
  proof (cases "find_index (\<lambda>h. root_set_name h = name) hs")
    case None
    then have "hs0 = hs @ [\<lparr>root_set_name = name, root_ids = rs\<rparr>]" "length hs \<noteq> history_limit"
      using hs0 by (auto split: if_splits)
    moreover have "name \<notin> root_set_name ` set hs" using None by (auto simp: find_index_None)
    ultimately show ?thesis using assms(2-4) by (auto simp: history_ok_def)
  next
    case (Some i)
    then have "hs0 = hs[i := (hs ! i)\<lparr>root_ids := rs\<rparr>]" using hs0 by simp
    moreover have "i < length hs" "root_set_name (hs ! i) = name" using find_index_SomeD [OF Some] by simp_all
    moreover have "map root_set_name (hs[i := (hs ! i)\<lparr>root_ids := rs\<rparr>]) = map root_set_name hs"
      by (simp add: map_update) (metis list_update_id map_update nth_map)
    ultimately show ?thesis
      using assms(2-4) by (auto simp: history_ok_def dest!: set_update_subset_insert [THEN subsetD])
  qed
  moreover have "distinct (map root_set_name (sort_key root_set_name hs0)) = distinct (map root_set_name hs0)"
    by (metis distinct_map distinct_sort set_sort)
  ultimately show ?thesis by (simp add: hs' history_ok_def)
qed

lemma run_command_ok:
  assumes "run_command cmd c = Inr (c', r)" "catalog_ok c"
  shows "catalog_ok c' \<and> catalog_revision c' = catalog_revision c"
proof (cases cmd)
  case (Import input)
  then obtain ids where i: "import_bundle input c = Inr (c', ids)"
    using assms(1) by (auto simp: rbind_eq_Inr)
  then have "catalog_revision c' = catalog_revision c"
    by (auto simp: import_bundle_def rbind_eq_Inr split_beta)
  then show ?thesis using import_bundle_ok [OF i assms(2)] by simp
next
  case (SetCurrentRoots ids)
  then obtain rs where "roots c ids = Inr rs" "c' = c\<lparr>current_roots := rs\<rparr>"
    using assms(1) by (auto simp: rbind_eq_Inr plain_def)
  then show ?thesis using assms(2) roots_Inr [of c ids rs] by (simp add: catalog_ok_def)
next
  case (SetHistoryRoots name ids)
  then obtain rs hs where h: "root_name name = Inr ()" "roots c ids = Inr rs" "set_history name rs (history_roots c) = Inr hs"
    and c': "c' = c\<lparr>history_roots := hs\<rparr>"
    using assms(1) by (auto simp: rbind_eq_Inr plain_def)
  have "history_ok (catalog_assets c) hs"
    using set_history_ok [OF h(3) _ _ h(1)] roots_Inr [OF h(2)] assms(2) by (simp add: catalog_ok_def)
  then show ?thesis using assms(2) by (simp add: c' catalog_ok_def)
next
  case (RemoveHistoryRoots name)
  then have "c' = c\<lparr>history_roots := filter (\<lambda>h. root_set_name h \<noteq> name) (history_roots c)\<rparr>"
    using assms(1) by (auto simp: rbind_eq_Inr plain_def)
  moreover have "length (filter (\<lambda>h. root_set_name h \<noteq> name) (history_roots c)) \<le> history_limit"
    using assms(2) length_filter_le [of _ "history_roots c"] unfolding catalog_ok_def history_ok_def
    by (meson le_trans)
  ultimately show ?thesis
    using assms(2) by (auto simp: catalog_ok_def history_ok_def distinct_map_filter sorted_filter)
next
  case Collect
  then have "c' = fst (collect c)" using assms(1) by (auto simp: split_beta)
  then show ?thesis using collect_ok [OF assms(2)] by (simp add: collect_fields)
qed

inductive catalog_run :: "catalog \<Rightarrow> bool" where
  fresh: "catalog_run new_catalog"
| obeyed: "catalog_run c \<Longrightarrow> catalog_apply exhausted cmd expected c = (c', r) \<Longrightarrow> catalog_run c'"

lemma new_catalog_ok: "catalog_ok new_catalog"
  by (simp add: new_catalog_def catalog_ok_def entries_ok_def roots_ok_def history_ok_def blob_sizes_def)

lemma catalog_apply_cases:
  assumes "catalog_apply exhausted cmd expected c = (c', r)"
  obtains (rejected) code where "c' = c" "r = catalog_rejection c code"
  | (committed) staged r0 where "run_command cmd c = Inr (staged, r0)" "catalog_revision c \<noteq> u64_max"
      "expected = catalog_revision c" "c' = staged\<lparr>catalog_revision := catalog_revision staged + 1\<rparr>"
      "r = r0\<lparr>catalog_status := ''committed'', receipt_catalog_revision := catalog_revision c'\<rparr>"
  using assms by (auto simp: catalog_apply_def Let_def split: if_splits sum.splits)

lemma catalog_run_ok: "catalog_run c \<Longrightarrow> catalog_ok c"
proof (induction rule: catalog_run.induct)
  case fresh
  then show ?case by (rule new_catalog_ok)
next
  case (obeyed c exhausted cmd expected c' r)
  from obeyed.hyps(2) show ?case
  proof (cases rule: catalog_apply_cases)
    case rejected
    then show ?thesis using obeyed.IH by simp
  next
    case (committed staged r0)
    then show ?thesis using run_command_ok [OF committed(1) obeyed.IH] by (simp add: catalog_ok_def)
  qed
qed

text \<open>A catalog that retains one asset in a named history.\<close>

definition sample_content :: bytes where
  "sample_content = [1, 2, 3]"

definition sample_manifest :: manifest where
  "sample_manifest =
     \<lparr>manifest_version = 1, manifest_hash = hex_text (digest_of sample_content), decoded_length = 3,
      media_type = ''a/b'', source_text = ''here'', license = ''MIT''\<rparr>"

definition sample_key :: string where
  "sample_key = hex_text (digest_of (manifest_bytes sample_manifest))"

definition sample_assets :: "asset list" where
  "sample_assets = [\<lparr>asset_key = sample_key, asset_manifest = sample_manifest\<rparr>]"

definition sample_blobs :: "blob list" where
  "sample_blobs = [\<lparr>blob_hash = hex_text (digest_of sample_content), blob_bytes = sample_content\<rparr>]"

definition sample_catalog :: catalog where
  "sample_catalog = new_catalog\<lparr>catalog_revision := 1, catalog_assets := sample_assets, catalog_blobs := sample_blobs\<rparr>"

lemma sample_manifest_ok: "manifest_ok sample_manifest"
proof -
  have "ascii_text ''a/b'' 64" "ascii_text ''here'' 128" "ascii_text ''MIT'' 64" by code_simp+
  then show ?thesis by (simp add: manifest_ok_def sample_manifest_def valid_hash_hex blob_byte_limit_def)
qed

lemma sample_entries_ok: "entries_ok sample_assets sample_blobs"
proof -
  have "asset_id sample_manifest = Inr sample_key"
    using sample_manifest_ok by (simp add: asset_id_Inr sample_key_def)
  then show ?thesis
    using sample_manifest_ok
    by (simp add: entries_ok_def sample_assets_def sample_blobs_def asset_ok_def blob_ok_def content_hash_Inr
        sample_content_def asset_limits blob_sizes_def sample_manifest_def)
qed

definition sample_import_receipt :: catalog_receipt where
  "sample_import_receipt =
     empty_catalog_receipt\<lparr>catalog_status := ''committed'', receipt_catalog_revision := 1, imported := [sample_key]\<rparr>"

lemma sample_import:
  "catalog_apply False (Import (bundle_bytes sample_assets sample_blobs)) 0 new_catalog =
     (sample_catalog, sample_import_receipt)"
proof -
  have "decode_bundle (bundle_bytes sample_assets sample_blobs) = Inr (sample_assets, sample_blobs)"
    using decode_bundle_bytes [OF sample_entries_ok] by (simp add: sort_entries_def sample_assets_def sample_blobs_def)
  then have "import_bundle (bundle_bytes sample_assets sample_blobs) new_catalog =
      Inr (new_catalog\<lparr>catalog_assets := sample_assets, catalog_blobs := sample_blobs\<rparr>, [sample_key])"
    by (simp add: import_bundle_def new_catalog_def sample_assets_def sample_blobs_def find_asset_def find_blob_def
        asset_quota_def require_def asset_limits sample_content_def sort_entries_def)
  then show ?thesis
    by (simp add: catalog_apply_def Let_def sample_catalog_def sample_import_receipt_def)
      (simp add: new_catalog_def empty_catalog_receipt_def)
qed

lemma sample_catalog_run: "catalog_run sample_catalog"
  by (rule catalog_run.obeyed [OF catalog_run.fresh sample_import])

text \<open>C20: In every catalog that commands lead to: assets and blobs are within their quotas, sorted
  and named by the digests of their own bytes; every manifest has its blob with the declared
  length and every blob a manifest; all roots are sorted, distinct, within their limits and name
  assets that are present.\<close>

theorem catalog_invariant:
  assumes "catalog_run c"
  shows "entries_ok (catalog_assets c) (catalog_blobs c) \<and>
    sorted (map asset_key (catalog_assets c)) \<and> sorted (map blob_hash (catalog_blobs c)) \<and>
    roots_ok (catalog_assets c) (current_roots c) \<and> history_ok (catalog_assets c) (history_roots c)"
  using catalog_run_ok [OF assms] by (simp add: catalog_ok_def)

theorem catalog_invariant_witness:
  "entries_ok (catalog_assets sample_catalog) (catalog_blobs sample_catalog) \<and>
    roots_ok (catalog_assets sample_catalog) (current_roots sample_catalog)"
  using catalog_invariant [OF sample_catalog_run] by blast

section \<open>Export and import\<close>

text \<open>C21: Every reachable catalog can be exported within the bundle limit, and importing the bundle
  into a new catalog commits and restores exactly its assets and blobs.\<close>

theorem export_import_round_trip:
  assumes "catalog_run c"
  shows "\<exists>bundle. export_bundle c = Inr bundle \<and> length bundle \<le> bundle_byte_limit \<and>
    catalog_apply False (Import bundle) 0 new_catalog =
      (new_catalog\<lparr>catalog_revision := 1, catalog_assets := catalog_assets c, catalog_blobs := catalog_blobs c\<rparr>,
       empty_catalog_receipt\<lparr>catalog_status := ''committed'', receipt_catalog_revision := 1,
         imported := map asset_key (catalog_assets c)\<rparr>)"
proof -
  let ?xs = "catalog_assets c" and ?bs = "catalog_blobs c"
  have ok: "entries_ok ?xs ?bs" and sorted: "sorted (map asset_key ?xs)" "sorted (map blob_hash ?bs)"
    using catalog_run_ok [OF assms] by (simp_all add: catalog_ok_def)
  then have d: "decode_bundle (bundle_bytes ?xs ?bs) = Inr (?xs, ?bs)"
    using decode_bundle_bytes [OF ok] by (simp add: sort_entries_def sort_key_id_if_sorted)
  have xs: "add_assets ys zs = Inr (ys @ zs)" if "distinct (map asset_key (ys @ zs))" "length (ys @ zs) \<le> manifest_limit" for ys zs
    using that
  proof (induction zs arbitrary: ys)
    case (Cons a zs)
    then have "find_asset ys (asset_key a) = None" by (simp add: find_asset_None)
    then show ?case using Cons.IH [of "ys @ [a]"] Cons.prems by simp
  qed simp
  have bs: "add_blobs ys zs = Inr (ys @ zs)" if "distinct (map blob_hash (ys @ zs))" "length (ys @ zs) \<le> blob_limit" for ys zs
    using that
  proof (induction zs arbitrary: ys)
    case (Cons b zs)
    then have "find_blob ys (blob_hash b) = None" by (simp add: find_blob_None)
    then show ?case using Cons.IH [of "ys @ [b]"] Cons.prems by simp
  qed simp
  have quota: "blob_quota used zs" if "\<forall>b \<in> set zs. blob_ok b" "used + blob_sizes zs \<le> decoded_byte_limit" for used zs
    using that
  proof (induction zs arbitrary: used)
    case (Cons b zs)
    then show ?case using Cons.IH [of "used + length (blob_bytes b)"] blob_okD [of b] by (simp add: blob_sizes_def)
  qed simp
  have "import_bundle (bundle_bytes ?xs ?bs) new_catalog =
      Inr (new_catalog\<lparr>catalog_assets := ?xs, catalog_blobs := ?bs\<rparr>, map asset_key ?xs)"
    using ok sorted d xs [of "[]" ?xs] bs [of "[]" ?bs] quota [of ?bs 0]
    by (simp add: import_bundle_def new_catalog_def entries_ok_def asset_quota_def require_def sort_entries_def
        sort_key_id_if_sorted)
  then have "catalog_apply False (Import (bundle_bytes ?xs ?bs)) 0 new_catalog =
      (new_catalog\<lparr>catalog_revision := 1, catalog_assets := ?xs, catalog_blobs := ?bs\<rparr>,
       empty_catalog_receipt\<lparr>catalog_status := ''committed'', receipt_catalog_revision := 1, imported := map asset_key ?xs\<rparr>)"
    by (simp add: catalog_apply_def Let_def) (simp add: new_catalog_def empty_catalog_receipt_def)
  then show ?thesis using export_entries [OF ok] bundle_fits [OF ok] by blast
qed

theorem export_import_round_trip_witness:
  "\<exists>bundle. export_bundle sample_catalog = Inr bundle \<and> length bundle \<le> bundle_byte_limit"
  using export_import_round_trip [OF sample_catalog_run] by blast

section \<open>The retention report and collection\<close>

lemma row_retained_iff:
  assumes "catalog_ok c"
  shows "row_retained (asset_row c a) \<longleftrightarrow> asset_key a \<in> retained_ids c"
proof -
  have "sorted (current_roots c)" "\<forall>h \<in> set (history_roots c). sorted (root_ids h)"
    using assms by (auto simp: catalog_ok_def roots_ok_def history_ok_def)
  then show ?thesis
    by (auto simp: row_retained_def asset_row_def binary_search_member retained_ids_def filter_empty_conv)
qed

text \<open>C22: The retention report explains exactly what collection does: collecting a reachable
  catalog removes the assets and the blobs that the report of the same revision lists as
  removable and no others, keeps the order of the rest and every root, and reports how many it
  removed.\<close>

theorem report_predicts_collection:
  assumes "catalog_run c" "catalog_revision c \<noteq> u64_max"
    and "catalog_apply False Collect (catalog_revision c) c = (c', r)"
    and "retention_report (inspect_retention False (catalog_revision c) c) = Some rep"
  shows "catalog_assets c' = filter (\<lambda>a. asset_key a \<notin> set (removable_assets rep)) (catalog_assets c) \<and>
    catalog_blobs c' = filter (\<lambda>b. blob_hash b \<notin> set (removable_blobs rep)) (catalog_blobs c) \<and>
    current_roots c' = current_roots c \<and> history_roots c' = history_roots c \<and>
    manifests_removed r = word_of_nat (length (removable_assets rep)) \<and>
    blobs_removed r = word_of_nat (length (removable_blobs rep))"
proof -
  let ?xs = "catalog_assets c" and ?bs = "catalog_blobs c"
  have ok: "catalog_ok c" by (rule catalog_run_ok [OF assms(1)])
  then have d: "distinct (map asset_key ?xs)" "distinct (map blob_hash ?bs)"
    by (simp_all add: catalog_ok_def entries_ok_def)
  have rep: "rep = make_report c" using assms(4) by (simp add: inspect_retention_def Let_def)
  have c': "c' = (fst (collect c))\<lparr>catalog_revision := catalog_revision c + 1\<rparr>"
    and r: "manifests_removed r = fst (snd (collect c))" "blobs_removed r = snd (snd (collect c))"
    using assms(2,3) collect_fields(5) [of c] by (auto simp: catalog_apply_def Let_def split_beta)
  have gone: "removable_assets rep = map asset_key (filter (\<lambda>a. asset_key a \<notin> retained_ids c) ?xs)"
    by (simp add: rep make_report_def Let_def filter_map comp_def row_retained_iff [OF ok]) (simp add: asset_row_def)
  have refs: "retaining_assets (blob_row (map (asset_row c) ?xs) b) = [] \<longleftrightarrow>
      \<not> (\<exists>a \<in> set ?xs. asset_key a \<in> retained_ids c \<and> blob_hash b = manifest_hash (asset_manifest a))" for b
    by (auto simp: blob_row_def Let_def filter_empty_conv row_retained_iff [OF ok])
      (auto simp: asset_row_def)
  have bgone: "removable_blobs rep = map blob_hash (filter (\<lambda>b. \<not> (\<exists>a \<in> set ?xs. asset_key a \<in> retained_ids c \<and>
      blob_hash b = manifest_hash (asset_manifest a))) ?bs)"
    by (simp add: rep make_report_def Let_def filter_map comp_def refs) (simp add: blob_row_def Let_def)
  have assets: "catalog_assets c' = filter (\<lambda>a. asset_key a \<notin> set (removable_assets rep)) ?xs"
    unfolding c' gone using d(1) by (auto simp: collect_fields intro!: filter_cong)
  have blobs: "catalog_blobs c' = filter (\<lambda>b. blob_hash b \<notin> set (removable_blobs rep)) ?bs"
    unfolding c' bgone using inj_onD [of blob_hash "set ?bs"] d(2)
    by (auto simp: collect_fields distinct_map intro!: filter_cong)
  have count: "length zs - length (filter P zs) = length (filter (\<lambda>z. \<not> P z) zs)" for P and zs :: "'z list"
    using sum_length_filter_compl [of P zs] by simp
  have "fst (snd (collect c)) = word_of_nat (length ?xs - length (catalog_assets (fst (collect c))))"
    "snd (snd (collect c)) = word_of_nat (length ?bs - length (catalog_blobs (fst (collect c))))"
    by (simp_all add: collect_def Let_def)
  then have "manifests_removed r = word_of_nat (length (removable_assets rep))"
    "blobs_removed r = word_of_nat (length (removable_blobs rep))"
    unfolding r gone bgone collect_fields count by simp_all
  then show ?thesis using assets blobs by (simp add: c' collect_fields)
qed

lemma sample_collect:
  "catalog_apply False Collect 1 sample_catalog =
    (fst (catalog_apply False Collect 1 sample_catalog), snd (catalog_apply False Collect 1 sample_catalog))"
  by simp

theorem report_predicts_collection_witness:
  "catalog_assets (fst (catalog_apply False Collect 1 sample_catalog)) = [] \<and>
    removable_assets (make_report sample_catalog) = [sample_key]"
proof -
  have rev: "catalog_revision sample_catalog = 1" by (simp add: sample_catalog_def)
  have "removable_assets (make_report sample_catalog) = [sample_key]"
    by (simp add: make_report_def Let_def sample_catalog_def sample_assets_def new_catalog_def row_retained_def
        asset_row_def binary_search_def lower_bound.simps)
  moreover have "catalog_assets sample_catalog = sample_assets" by (simp add: sample_catalog_def)
  moreover have "catalog_assets (fst (catalog_apply False Collect 1 sample_catalog)) =
      filter (\<lambda>a. asset_key a \<notin> set (removable_assets (make_report sample_catalog))) (catalog_assets sample_catalog)"
    using report_predicts_collection [OF sample_catalog_run _ sample_collect [folded rev]]
    by (simp add: inspect_retention_def Let_def rev)
  ultimately show ?thesis by (simp add: sample_assets_def)
qed

end
