(* ===== verification/Replay.thy ===== *)
theory Replay
  imports Transaction_Claims History
begin

text \<open>
  The authoring log of \<open>include/omniweft/replay.hpp\<close> and \<open>src/replay.cpp\<close>: a recorder observes the
  commits of a world that starts empty and keeps up to eight of them, each with the bindings it
  created and the canonical bytes of the world after it; \<open>reconstruct\<close> replays an exported log on a
  private world and compares every checkpoint.  The fixed array of records is a list of eight.
\<close>

section \<open>The log\<close>

definition entry_limit :: nat where
  "entry_limit = 8"

definition command_limit :: nat where
  "command_limit = 16384"

definition checkpoint_limit :: nat where
  "checkpoint_limit = 8192"

definition builtin_manifest :: string where
  \<open>builtin_manifest = ''{"schema":1,"prefab":"builtin.unit_cube","revision":1,"faces_m":[[[0.5,-0.5,-0.5],[0.5,0.5,-0.5],[0.5,0.5,0.5],[0.5,-0.5,0.5]],[[-0.5,-0.5,0.5],[-0.5,0.5,0.5],[-0.5,0.5,-0.5],[-0.5,-0.5,-0.5]],[[-0.5,0.5,-0.5],[-0.5,0.5,0.5],[0.5,0.5,0.5],[0.5,0.5,-0.5]],[[-0.5,-0.5,0.5],[-0.5,-0.5,-0.5],[0.5,-0.5,-0.5],[0.5,-0.5,0.5]],[[-0.5,-0.5,0.5],[0.5,-0.5,0.5],[0.5,0.5,0.5],[-0.5,0.5,0.5]],[[0.5,-0.5,-0.5],[-0.5,-0.5,-0.5],[-0.5,0.5,-0.5],[0.5,0.5,-0.5]]],"face_rgba8":[[255,64,64,255],[128,32,32,255],[64,255,64,255],[32,128,32,255],[64,64,255,255],[32,32,128,255]],"face_triangles":[0,1,2,2,3,0]}''\<close>

definition builtin_sha256 :: string where
  "builtin_sha256 = ''d2af4f6d7d72763bdb9c693423e2ac2d29927f3c7a44f1d45180268e9f9fbd69''"

record replay_asset =
  replay_prefab :: string
  replay_revision :: u32
  replay_manifest :: string
  replay_sha256 :: string

definition builtin_asset :: replay_asset where
  "builtin_asset =
     \<lparr>replay_prefab = unit_cube, replay_revision = 1, replay_manifest = builtin_manifest,
      replay_sha256 = builtin_sha256\<rparr>"

record replay_record =
  record_sequence :: u64
  boundary_tick :: u64
  expected_revision :: u64
  record_budget :: budget_limits
  record_operations :: "operation list"
  record_created :: "created_binding list"
  checkpoint :: bytes

definition empty_record :: replay_record where
  "empty_record =
     \<lparr>record_sequence = 0, boundary_tick = 0, expected_revision = 0,
      record_budget = \<lparr>budget_max_operations = 0, budget_max_blob_bytes = 0\<rparr>,
      record_operations = [], record_created = [], checkpoint = []\<rparr>"

record replay_log =
  log_schema :: u32
  command_schema :: string
  checkpoint_schema :: string
  log_world_id :: string
  log_seed :: u32
  log_max_slots :: u32
  log_assets :: "replay_asset list"
  log_records :: "replay_record list"

definition empty_log :: replay_log where
  "empty_log =
     \<lparr>log_schema = 1, command_schema = ''0.1'', checkpoint_schema = ''OWOBJ001-003'', log_world_id = [],
      log_seed = 7, log_max_slots = 8, log_assets = [builtin_asset], log_records = []\<rparr>"

section \<open>Errors and bounds\<close>

definition replay_fail :: "string \<Rightarrow> string \<Rightarrow> terror" where
  "replay_fail code path = terr_batch code path ''Recorded authoring replay rejected.''"

definition replay_rejected :: "envelope \<Rightarrow> u64 \<Rightarrow> string \<Rightarrow> string \<Rightarrow> receipt" where
  "replay_rejected e revision code path =
     empty_receipt\<lparr>receipt_revision := revision,
       receipt_transaction_id := (if length (transaction_id e) \<le> 36 then transaction_id e else []),
       receipt_errors := [replay_fail code path]\<rparr>"

fun replay_target_bounded :: "target \<Rightarrow> bool" where
  "replay_target_bounded (EntityTarget w u g) \<longleftrightarrow> length w \<le> 128 \<and> length u \<le> 36"
| "replay_target_bounded (TemporaryTarget name) \<longleftrightarrow> length name \<le> 64"

fun replay_operation_bounded :: "operation \<Rightarrow> bool" where
  "replay_operation_bounded (EntityCreate name pf) \<longleftrightarrow> length name \<le> 64 \<and> length pf \<le> 128"
| "replay_operation_bounded (EntityTagsSet t ts) \<longleftrightarrow>
     replay_target_bounded t \<and> length ts \<le> 8 \<and> list_all (\<lambda>tag. length tag \<le> 32) ts"
| "replay_operation_bounded (EntityReparent t p mode) \<longleftrightarrow>
     replay_target_bounded t \<and> length mode \<le> 32 \<and>
     (case p of None \<Rightarrow> True | Some q \<Rightarrow> replay_target_bounded q)"
| "replay_operation_bounded (EntityDelete t policy) \<longleftrightarrow> replay_target_bounded t \<and> length policy \<le> 32"
| "replay_operation_bounded (TransformSet t v) \<longleftrightarrow> replay_target_bounded t"

definition operations_bounded :: "operation list \<Rightarrow> bool" where
  "operations_bounded ops \<longleftrightarrow> length ops \<le> operation_limit \<and> list_all replay_operation_bounded ops"

definition command_bounded :: "envelope \<Rightarrow> bool" where
  "command_bounded e \<longleftrightarrow>
     length (protocol_version e) \<le> 16 \<and> length (world_id e) \<le> 128 \<and> length (transaction_id e) \<le> 36 \<and>
     length (epoch (idempotency e)) \<le> 128 \<and> length (apply_mode (apply_at e)) \<le> 32 \<and>
     length (operations e) \<le> operation_limit \<and> list_all replay_operation_bounded (operations e)"

section \<open>Checking a log\<close>

definition replay_envelope :: "replay_log \<Rightarrow> replay_record \<Rightarrow> envelope" where
  "replay_envelope log r =
     \<lparr>protocol_version = ''0.1'', world_id = log_world_id log,
      transaction_id = ''018f7242-4387-7c98-a114-00000013000'' @ to_string (unat (record_sequence r)),
      idempotency = \<lparr>epoch = ''offline-replay-internal'', idem_sequence = record_sequence r\<rparr>,
      expected_world_revision = expected_revision r,
      apply_at = \<lparr>apply_mode = ''next_tick'', expires_after_ticks = 120\<rparr>,
      budget = record_budget r, operations = record_operations r\<rparr>"

definition replay_binding_ok :: "created_binding \<Rightarrow> bool" where
  "replay_binding_ok b \<longleftrightarrow>
     length (binding_temporary_id b) \<le> 64 \<and> length (binding_world_id b) \<le> 128 \<and>
     length (binding_uuid b) = 36 \<and> binding_generation b \<noteq> 0"

fun prefab_known :: "operation \<Rightarrow> bool" where
  "prefab_known (EntityCreate name pf) \<longleftrightarrow> pf = unit_cube"
| "prefab_known op \<longleftrightarrow> True"

definition preflight_command :: "json_lib \<Rightarrow> replay_log \<Rightarrow> replay_record \<Rightarrow> terror + unit" where
  "preflight_command J log r =
     (case serialize J (replay_envelope log r) of
        Inl errors \<Rightarrow> Inl (replay_fail ''INVALID_REPLAY'' ''/operations'')
      | Inr text0 \<Rightarrow> require (length text0 \<le> command_limit) (replay_fail ''BUDGET_EXCEEDED'' ''/command''))"

definition preflight_record :: "json_lib \<Rightarrow> replay_log \<Rightarrow> nat \<Rightarrow> u64 \<Rightarrow> replay_record \<Rightarrow> terror + unit" where
  "preflight_record J log i tick r =
     rbind (require (record_sequence r = of_nat (i + 1) \<and> expected_revision r = of_nat i \<and>
                     boundary_tick r \<ge> tick) (replay_fail ''INVALID_REPLAY'' ''/order'')) (\<lambda>_.
     rbind (require (checkpoint r \<noteq> [] \<and> length (checkpoint r) \<le> checkpoint_limit \<and>
                     length (record_created r) \<le> operation_limit \<and> record_operations r \<noteq> [] \<and>
                     operations_bounded (record_operations r))
              (replay_fail ''BUDGET_EXCEEDED'' ''/records'')) (\<lambda>_.
     rbind (require (list_all replay_binding_ok (record_created r))
              (replay_fail ''INVALID_REPLAY'' ''/created'')) (\<lambda>_.
     rbind (require (list_all prefab_known (record_operations r))
              (replay_fail ''MISSING_ASSET'' ''/operations/prefab'')) (\<lambda>_.
     preflight_command J log r))))"

fun preflight_records :: "json_lib \<Rightarrow> replay_log \<Rightarrow> nat \<Rightarrow> u64 \<Rightarrow> replay_record list \<Rightarrow> terror + unit" where
  "preflight_records J log i tick [] = Inr ()"
| "preflight_records J log i tick (r # rs) =
     rbind (preflight_record J log i tick r) (\<lambda>_. preflight_records J log (i + 1) (boundary_tick r) rs)"

definition preflight :: "json_lib \<Rightarrow> replay_log \<Rightarrow> replay_asset list \<Rightarrow> terror + unit" where
  "preflight J log available =
     rbind (require (log_schema log = 1 \<and> command_schema log = ''0.1'' \<and>
                     checkpoint_schema log = ''OWOBJ001-003'')
              (replay_fail ''UNSUPPORTED_SCHEMA'' ''/schema'')) (\<lambda>_.
     rbind (require (log_world_id log \<noteq> [] \<and> length (log_world_id log) \<le> 128 \<and> log_max_slots log \<noteq> 0 \<and>
                     log_max_slots log \<le> 8 \<and> length (log_records log) \<le> entry_limit \<and>
                     length available \<le> 8)
              (replay_fail ''BUDGET_EXCEEDED'' ''/log'')) (\<lambda>_.
     rbind (require (log_assets log = [builtin_asset]) (replay_fail ''MISSING_ASSET'' ''/assets'')) (\<lambda>_.
     rbind (require (list_ex (\<lambda>a. a = builtin_asset) available)
              (replay_fail ''MISSING_ASSET'' ''/assets'')) (\<lambda>_.
     preflight_records J log 0 0 (log_records log)))))"

section \<open>Recording\<close>

record recorder =
  records :: "replay_record list"
  record_count :: nat
  head_revision :: u64

definition fresh_recorder :: recorder where
  "fresh_recorder =
     \<lparr>records = replicate entry_limit empty_record, record_count = 0, head_revision = 0\<rparr>"

text \<open>The constructor; the recorder refers to the world it is made for.\<close>

definition make_recorder :: "world \<Rightarrow> terror + recorder" where
  "make_recorder w =
     rbind (require (world_revision (state w) = 0 \<and> slots (state w) = [] \<and> max_slots (state w) \<le> 8)
              (replay_fail ''INVALID_REPLAY'' ''/initial_world'')) (\<lambda>_. Inr fresh_recorder)"

text \<open>The observer works on the recorder and on the record being prepared.\<close>

definition record_prepare :: "snapshot \<Rightarrow> receipt \<Rightarrow> (recorder \<times> replay_record, 'x prepare_failure, unit) gx" where
  "record_prepare sn receipt st =
     (let prepared = (snd st)\<lparr>record_created := receipt_created receipt, checkpoint := canonical_bytes sn\<rparr> in
      if length (checkpoint prepared) > checkpoint_limit
      then ((fst st, prepared), Inl (Rejects (replay_fail ''BUDGET_EXCEEDED'' ''/checkpoint'')))
      else ((fst st, prepared), Inr ()))"

definition record_publish :: "recorder \<times> replay_record \<Rightarrow> recorder \<times> replay_record" where
  "record_publish st =
     ((fst st)\<lparr>records := (records (fst st))[record_count (fst st) := snd st],
               record_count := record_count (fst st) + 1,
               head_revision := head_revision (fst st) + 1\<rparr>, snd st)"

definition recording_observer :: "(recorder \<times> replay_record, 'x) observer_hooks" where
  "recording_observer = \<lparr>observer_prepare = record_prepare, observer_publish = record_publish\<rparr>"

definition prepared_record :: "recorder \<Rightarrow> envelope \<Rightarrow> u64 \<Rightarrow> replay_record" where
  "prepared_record rec e tick =
     empty_record\<lparr>record_sequence := of_nat (record_count rec + 1), boundary_tick := tick,
       expected_revision := head_revision rec, record_budget := budget e, record_operations := operations e\<rparr>"

definition recorder_refusal :: "json_lib \<Rightarrow> world \<Rightarrow> recorder \<Rightarrow> envelope \<Rightarrow> u64 \<Rightarrow> (string \<times> string) option" where
  "recorder_refusal J w rec e tick =
     (let live = world_revision (state w) in
      if \<not> command_bounded e then Some (''BUDGET_EXCEEDED'', ''/command'')
      else if live \<noteq> head_revision rec \<or> expected_world_revision e \<noteq> live
      then Some (''REVISION_CONFLICT'', ''/expected_world_revision'')
      else if record_count rec = entry_limit then Some (''BUDGET_EXCEEDED'', ''/records'')
      else if record_count rec \<noteq> 0 \<and> tick < boundary_tick (records rec ! (record_count rec - 1))
      then Some (''INVALID_REPLAY'', ''/boundary_tick'')
      else case serialize J e of
        Inl errors \<Rightarrow> Some (''INVALID_SCHEMA'', ''/command'')
      | Inr text0 \<Rightarrow> if length text0 > command_limit then Some (''BUDGET_EXCEEDED'', ''/command'') else None)"

definition recorder_apply ::
  "json_lib \<Rightarrow> 'g staging_hooks option \<Rightarrow> envelope \<Rightarrow> u64 \<Rightarrow> (world \<times> 'g \<times> recorder, 'x, receipt) gx" where
  "recorder_apply J guard e tick b =
     (let (w, g, rec) = b in
      case recorder_refusal J w rec e tick of
        Some (code, path) \<Rightarrow> (b, Inr (replay_rejected e (world_revision (state w)) code path))
      | None \<Rightarrow>
          (case apply_at_boundary J guard (Some recording_observer) e (w, g, (rec, prepared_record rec e tick)) of
             ((w', g', (rec', _)), res) \<Rightarrow> ((w', g', rec'), res)))"

definition export_log :: "world \<Rightarrow> recorder \<Rightarrow> terror + replay_log" where
  "export_log w rec =
     rbind (require (world_revision (state w) = head_revision rec)
              (replay_fail ''REVISION_CONFLICT'' ''/expected_world_revision'')) (\<lambda>_.
     Inr (empty_log\<lparr>log_world_id := snapshot_world_id (state w), log_seed := seed (state w),
       log_max_slots := max_slots (state w), log_records := take (record_count rec) (records rec)\<rparr>))"

section \<open>Reconstruction\<close>

definition replay_one :: "json_lib \<Rightarrow> replay_log \<Rightarrow> replay_record \<Rightarrow> world \<Rightarrow> terror + world" where
  "replay_one J log r w =
     (let (w', receipt) = replay_at_boundary J (record_created r) (replay_envelope log r) w in
      rbind (require (receipt_status receipt = ''committed'' \<and> receipt_created receipt = record_created r)
               (replay_fail ''INVALID_REPLAY'' ''/created'')) (\<lambda>_.
      rbind (require (world_canonical_bytes w' = checkpoint r)
               (replay_fail ''CHECKPOINT_MISMATCH'' ''/checkpoint'')) (\<lambda>_. Inr w')))"

fun replay_records :: "json_lib \<Rightarrow> replay_log \<Rightarrow> replay_record list \<Rightarrow> world \<Rightarrow> terror + world" where
  "replay_records J log [] w = Inr w"
| "replay_records J log (r # rs) w = rbind (replay_one J log r w) (replay_records J log rs)"

text \<open>The result holds a world or an error; \<open>address\<close> is where the new world is allocated.\<close>

definition reconstruct :: "json_lib \<Rightarrow> nat \<Rightarrow> replay_log \<Rightarrow> replay_asset list \<Rightarrow> terror + world" where
  "reconstruct J address log available =
     rbind (preflight J log available) (\<lambda>_.
     case make_world address (log_world_id log) (log_seed log) (log_max_slots log) of
       Inl message \<Rightarrow> Inl (replay_fail ''INVALID_REPLAY'' ''/world_id'')
     | Inr w \<Rightarrow> replay_records J log (log_records log) w)"

end
