(* ===== verification/Command_Width.thy ===== *)
theory Command_Width
  imports Replay
begin

text \<open>
  The command in which a record is replayed (\<open>envelope\<close> of \<open>src/replay.cpp\<close>) always passes the checks
  of \<open>preflight\<close> on its printed form: it satisfies the schema, and however its strings and numbers
  are spelled it is far within \<open>command_limit\<close>.  What this needs of the JSON library is stated for
  the printed value alone: that the library reads it back, and that its \<open>dump\<close> is the compact one.
\<close>

section \<open>The length of a compact print\<close>

text \<open>
  The compact form (\<open>dump()\<close> with its default arguments) has no white space, one separator after an
  element, at most six characters for a byte of a string (an escape \<open>\u00XX\<close>), at most 20 for an
  integer and at most 24 for a double, which is printed with at most 17 digits.
\<close>

fun json_width :: "json \<Rightarrow> nat" where
  "json_width JNull = 4"
| "json_width (JBool b) = 5"
| "json_width (JUInt u) = 20"
| "json_width (JInt i) = 20"
| "json_width (JFloat x) = 24"
| "json_width (JStr s) = 2 + 6 * length s"
| "json_width (JArr vs) = 2 + sum_list (map (\<lambda>v. json_width v + 1) vs)"
| "json_width (JObj ms) = 2 + sum_list (map (\<lambda>m. 6 * length (fst m) + 4 + json_width (snd m)) ms)"

definition prints_compactly :: "json_lib \<Rightarrow> json \<Rightarrow> bool" where
  "prints_compactly J v \<longleftrightarrow>
     reads_back J v \<and> (case json_dump J v of None \<Rightarrow> True | Some doc \<Rightarrow> length doc \<le> json_width v)"

lemma sum_list_insort: "sum_list (map f (insort_key g x xs)) = f x + sum_list (map f xs)" for f :: "'a \<Rightarrow> nat"
  by (induction xs) auto

lemma sum_list_sort: "sum_list (map f (sort_key g xs)) = sum_list (map f xs)" for f :: "'a \<Rightarrow> nat"
  by (induction xs) (auto simp: sum_list_insort)

lemma json_width_object [simp]:
  "json_width (json_object ms) = 2 + sum_list (map (\<lambda>m. 6 * length (fst m) + 4 + json_width (snd m)) ms)"
  by (simp add: json_object_def sum_list_sort)

lemma sum_list_widths: "(\<And>x. x \<in> set xs \<Longrightarrow> f x \<le> k) \<Longrightarrow> sum_list (map f xs) \<le> length xs * k" for k :: nat
proof (induction xs)
  case (Cons x xs)
  then have "f x \<le> k" "sum_list (map f xs) \<le> length xs * k" by simp_all
  then show ?case by simp
qed simp

section \<open>The length of a command\<close>

lemma target_width: "target_ok t \<Longrightarrow> json_width (target_json t) \<le> 1196"
  by (cases t) (auto simp: ascii_id_def dest: canonical_uuid_length)

lemma vector_width: "json_width (vector_json vs) = 2 + 25 * length vs"
  by (simp add: vector_json_def o_def sum_list_triv)

lemma tags_width: "length ts \<le> 8 \<Longrightarrow> list_all (ascii_id 32) ts \<Longrightarrow> json_width (JArr (map JStr ts)) \<le> 1562"
proof -
  assume "length ts \<le> 8" "list_all (ascii_id 32) ts"
  moreover from this(2) have "sum_list (map (\<lambda>s. json_width (JStr s) + 1) ts) \<le> length ts * 195"
    by (intro sum_list_widths) (auto simp: list_all_iff ascii_id_def)
  ultimately show ?thesis by (simp add: o_def)
qed

lemma operation_width:
  assumes "operation_ok op" "operation_json (i, op) = Inr v"
  shows "json_width v \<le> 3000"
proof (cases op)
  case (EntityCreate name pf)
  then show ?thesis using assms by (auto simp: operation_json_def ascii_id_def)
next
  case (TransformSet t tr)
  then have "json_width (target_json t) \<le> 1196" using assms(1) target_width by simp
  moreover have "length (vec3_list p) = 3" "length (quat_list q) = 4" for p q by (cases p; simp)(cases q; simp)
  ultimately show ?thesis
    using assms(2) TransformSet by (auto simp: operation_json_def Let_def res_simps vector_width)
next
  case (EntityDelete t policy)
  then have "json_width (target_json t) \<le> 1196" "policy = ''reject_if_children''" using assms(1) target_width by simp_all
  then show ?thesis using assms(2) EntityDelete by (auto simp: operation_json_def Let_def)
next
  case (EntityReparent t p mode)
  then have "json_width (target_json t) \<le> 1196" "length mode \<le> 14"
    using assms(1) target_width by auto
  moreover have "json_width (case p of Some q \<Rightarrow> target_json q | None \<Rightarrow> JNull) \<le> 1196"
    using assms(1) EntityReparent target_width by (auto split: option.split)
  ultimately show ?thesis using assms(2) EntityReparent by (auto simp: operation_json_def Let_def)
next
  case (EntityTagsSet t ts)
  then have "json_width (target_json t) \<le> 1196" "json_width (JArr (map JStr ts)) \<le> 1562"
    using assms(1) target_width tags_width by simp_all
  then show ?thesis using assms(2) EntityTagsSet by (auto simp: operation_json_def Let_def res_simps simp del: json_width.simps(7))
qed

lemma envelope_width:
  assumes e: "envelope_ok e" "envelope_json e = Inr v" and few: "length (operations e) \<le> operation_limit"
    and short: "length (epoch (idempotency e)) \<le> 64"
  shows "json_width v \<le> command_limit"
proof -
  obtain ops where ops: "rmap_list operation_json (enumerate 0 (operations e)) = Inr ops"
    and v: "v = json_object
       [(''protocol_version'', JStr (protocol_version e)), (''world_id'', JStr (world_id e)),
        (''transaction_id'', JStr (transaction_id e)),
        (''idempotency'', json_object [(''epoch'', JStr (epoch (idempotency e))),
           (''sequence'', JUInt (idem_sequence (idempotency e)))]),
        (''expected_world_revision'', JUInt (expected_world_revision e)),
        (''apply_at'', json_object [(''mode'', JStr (apply_mode (apply_at e))),
           (''expires_after_ticks'', JUInt (expires_after_ticks (apply_at e)))]),
        (''budget'', json_object [(''max_operations'', JUInt (budget_max_operations (budget e))),
           (''max_blob_bytes'', JUInt (budget_max_blob_bytes (budget e)))]),
        (''operations'', JArr ops)]"
    using e(2) by (auto simp: envelope_json_def res_simps)
  have len: "length ops = length (operations e)"
    and each: "\<And>i. i < length (operations e) \<Longrightarrow> operation_json (i, operations e ! i) = Inr (ops ! i)"
    using ops by (simp_all add: rmap_list_enumerate)
  have "json_width w + 1 \<le> 3001" if w: "w \<in> set ops" for w
  proof -
    obtain i where i: "i < length ops" "w = ops ! i" using w by (auto simp: in_set_conv_nth)
    then have "operation_ok (operations e ! i)" using e(1) len by (simp add: envelope_ok_def list_all_length)
    from operation_width [OF this each] show ?thesis using i len by simp
  qed
  then have "sum_list (map (\<lambda>w. json_width w + 1) ops) \<le> length ops * 3001" by (rule sum_list_widths)
  also have "\<dots> \<le> 12004" using len few by (simp add: operation_limit_def)
  finally have "json_width (JArr ops) \<le> 12006" by simp
  then show ?thesis
    using e(1) short
    by (simp add: v envelope_ok_def command_limit_def ascii_id_def canonical_uuid_length del: json_width.simps(7))
qed

section \<open>The command of a record\<close>

text \<open>What an admitted envelope gives its record: operations of the schema within the declared budget.\<close>

definition admitted_record :: "replay_record \<Rightarrow> bool" where
  "admitted_record r \<longleftrightarrow>
     list_all operation_ok (record_operations r) \<and> record_operations r \<noteq> [] \<and>
     0 < budget_max_operations (record_budget r) \<and> unat (budget_max_operations (record_budget r)) \<le> max_operations \<and>
     length (record_operations r) \<le> unat (budget_max_operations (record_budget r)) \<and>
     length (record_operations r) \<le> operation_limit"

lemma replay_transaction_uuid:
  assumes "1 \<le> n" "n \<le> 8"
  shows "canonical_uuid (''018f7242-4387-7c98-a114-00000013000'' @ to_string n)"
proof -
  have "\<forall>n \<in> {1, 2, 3, 4, 5, 6, 7, 8 :: nat}. canonical_uuid (''018f7242-4387-7c98-a114-00000013000'' @ to_string n)"
    by code_simp
  moreover have "n \<in> {1, 2, 3, 4, 5, 6, 7, 8}" using assms by auto
  ultimately show ?thesis by blast
qed

lemma replay_envelope_ok:
  assumes "admitted_record r" "record_sequence r = of_nat (i + 1)" "i < entry_limit" "ascii_id 128 (log_world_id log)"
  shows "envelope_ok (replay_envelope log r)"
proof -
  have i: "i < 8" using assms(3) by (simp add: entry_limit_def)
  have "unat (record_sequence r) = i + 1"
    unfolding assms(2) using i by (simp add: unsigned_of_nat take_bit_nat_eq_self_iff del: of_nat_add of_nat_Suc)
  then have "canonical_uuid (transaction_id (replay_envelope log r))"
    using replay_transaction_uuid [of "i + 1"] i by (simp add: replay_envelope_def)
  moreover have "ascii_id 128 ''offline-replay-internal''" by code_simp
  ultimately show ?thesis
    using assms(1,4) by (simp add: envelope_ok_def replay_envelope_def admitted_record_def)
qed

lemma preflight_command_ok:
  assumes r: "admitted_record r" "record_sequence r = of_nat (i + 1)" "i < entry_limit"
    and id: "ascii_id 128 (log_world_id log)"
    and lib: "\<And>v. envelope_json (replay_envelope log r) = Inr v \<Longrightarrow> prints_compactly J v"
  shows "preflight_command J log r = Inr ()"
proof -
  let ?e = "replay_envelope log r"
  have ok: "envelope_ok ?e" by (rule replay_envelope_ok [OF r id])
  then obtain v where v: "validated_json ?e = Inr v" using validated_json_iff by blast
  then have json: "envelope_json ?e = Inr v" by (auto simp: validated_json_def res_simps)
  have rb: "reads_back J v" using lib [OF json] by (simp add: prints_compactly_def)
  then obtain doc where doc: "json_dump J v = Some doc" by (auto simp: reads_back_def split: option.splits)
  have "json_width v \<le> command_limit"
    by (rule envelope_width [OF ok json]) (use r(1) in \<open>simp_all add: replay_envelope_def admitted_record_def\<close>)
  then have short: "length doc \<le> command_limit" using lib [OF json] doc by (simp add: prints_compactly_def)
  then have "serialize J ?e = Inr doc"
    using serialize_Inr_iff [OF v rb doc] by (simp add: command_limit_def max_envelope_bytes_def)
  then show ?thesis using short by (simp add: preflight_command_def)
qed

end
