(* ===== verification/Replay_Claims.thy ===== *)
theory Replay_Claims
  imports Command_Width
begin

text \<open>
  What a recorded session is (a chain of commits, each with its checkpoint), that the recorder
  keeps one, and that \<open>reconstruct\<close> accepts exactly such chains.
\<close>

section \<open>The two bounds checks agree\<close>

lemma replay_target_bounded_eq: "replay_target_bounded t = target_bounded t"
  by (cases t) simp_all

lemma replay_operation_bounded_eq: "replay_operation_bounded op = operation_bounded op"
  by (cases op) (auto simp: replay_target_bounded_eq split: option.split)

lemma command_bounded_eq: "command_bounded e = envelope_bounded e"
proof -
  have "replay_operation_bounded = operation_bounded" by (intro ext) (rule replay_operation_bounded_eq)
  then show ?thesis by (simp add: command_bounded_def envelope_bounded_def)
qed

lemma command_bounded_operations: "command_bounded e \<Longrightarrow> operations_bounded (operations e)"
  by (simp add: command_bounded_def operations_bounded_def)

section \<open>What a commit creates\<close>

lemma length_slot_uuid: "length (slot_uuid sd i) = 36"
  by (simp add: slot_uuid_def length_hex)

lemma apply_operation_created:
  assumes "apply_operation guard bindings revision index op st g = (g', Inr st')"
    and "\<And>name pf. op \<noteq> EntityCreate name pf"
  shows "staged_created st' = staged_created st"
  using assms
  by (cases op)
    (auto simp: apply_transform_def apply_delete_def apply_reparent_def apply_tags_def Let_def gbind_eq_Inr
      res_simps split: if_splits)

lemma apply_create_binding:
  assumes run: "apply_create guard bindings revision index name pf st g = (g', Inr st')"
    and wf: "wf_staging revision st" and id: "length (snapshot_world_id (staged st)) \<le> 128"
    and name: "length name \<le> 64"
  shows "\<exists>b. staged_created st' = staged_created st @ [b] \<and> replay_binding_ok b \<and> pf = unit_cube"
proof -
  obtain g1 i ss s where pf: "pf = unit_cube"
    and al: "allocate_slot guard (operation_path index) index (staged st) g = (g1, Inr (i, ss))"
    and s: "use_binding bindings (length (staged_created st)) name (snapshot_world_id (staged st)) index (ss ! i) = Inr s"
    and st': "staged_created st' = staged_created st @
       [\<lparr>binding_temporary_id = name, binding_world_id = snapshot_world_id (staged st),
         binding_uuid = entity_uuid s, binding_generation = generation s\<rparr>]"
    using run by (auto simp: apply_create_def Let_def gbind_eq_Inr split: if_splits)
  have "wf_slots (seed (staged st)) (unat (max_slots (staged st))) revision ss \<and> i < length ss"
    using allocate_slot_wf [OF al wf [unfolded wf_staging_def]] by simp
  then have "entity_uuid (ss ! i) = slot_uuid (seed (staged st)) i \<and> 1 \<le> generation (ss ! i)"
    by (simp add: wf_slots_def wf_slot_def)
  then have "length (entity_uuid s) = 36 \<and> generation s \<noteq> 0"
    using use_binding_same [OF s] by (auto simp: length_slot_uuid)
  then show ?thesis using st' pf id name by (simp add: replay_binding_ok_def)
qed

lemma apply_operations_created:
  assumes "apply_operations guard bindings revision index ops st g = (g', Inr st')"
    and "list_all operation_ok ops" "list_all replay_operation_bounded ops"
    and "wf_staging revision st" "length (snapshot_world_id (staged st)) \<le> 128"
    and "list_all replay_binding_ok (staged_created st)"
  shows "list_all replay_binding_ok (staged_created st') \<and>
    length (staged_created st') \<le> length (staged_created st) + length ops \<and> list_all prefab_known ops"
  using assms
proof (induction ops arbitrary: index st g)
  case Nil
  then show ?case by simp
next
  case (Cons op ops)
  then obtain g1 st1 where 1: "apply_operation guard bindings revision index op st g = (g1, Inr st1)"
    and 2: "apply_operations guard bindings revision (Suc index) ops st1 g1 = (g', Inr st')"
    by (auto simp: gbind_eq_Inr)
  have wf1: "wf_staging revision st1 \<and> same_header (staged st1) (staged st)"
    using apply_operation_wf [OF 1] Cons.prems by simp
  have h: "list_all replay_binding_ok (staged_created st1) \<and>
      length (staged_created st1) \<le> Suc (length (staged_created st)) \<and> prefab_known op"
  proof (cases op)
    case (EntityCreate name pf)
    then show ?thesis using apply_create_binding [of guard bindings revision index name pf st g g1 st1] 1 Cons.prems by auto
  qed (use apply_operation_created [OF 1] Cons.prems in auto)
  have "list_all replay_binding_ok (staged_created st') \<and>
      length (staged_created st') \<le> length (staged_created st1) + length ops \<and> list_all prefab_known ops"
    by (rule Cons.IH [OF 2]) (use Cons.prems wf1 h in \<open>auto simp: same_header_def\<close>)
  with h show ?case by auto
qed

section \<open>Chains of commits\<close>

definition recorded_step :: "world \<Rightarrow> replay_record \<Rightarrow> world \<Rightarrow> bool" where
  "recorded_step w r w' \<longleftrightarrow>
     expected_revision r = world_revision (state w) \<and> world_revision (state w) \<noteq> u64_max \<and>
     (\<exists>st. stage (None :: unit staging_hooks option) (Some (record_created r)) (state w) (record_operations r) () =
             ((), Inr st) \<and> w' = w\<lparr>state := committed_snapshot (state w) st\<rparr>) \<and>
     checkpoint r = canonical_bytes (state w')"

fun recorded_chain :: "world \<Rightarrow> replay_record list \<Rightarrow> world \<Rightarrow> bool" where
  "recorded_chain w [] w' \<longleftrightarrow> w' = w"
| "recorded_chain w (r # rs) w' \<longleftrightarrow> (\<exists>w1. recorded_step w r w1 \<and> recorded_chain w1 rs w')"

lemma recorded_chain_snoc:
  "recorded_chain w (rs @ [r]) w' \<longleftrightarrow> (\<exists>w1. recorded_chain w rs w1 \<and> recorded_step w1 r w')"
  by (induction rs arbitrary: w) auto

definition record_ok :: "replay_record \<Rightarrow> bool" where
  "record_ok r \<longleftrightarrow>
     checkpoint r \<noteq> [] \<and> length (checkpoint r) \<le> checkpoint_limit \<and>
     length (record_created r) \<le> operation_limit \<and> record_operations r \<noteq> [] \<and>
     operations_bounded (record_operations r) \<and> list_all replay_binding_ok (record_created r) \<and>
     list_all prefab_known (record_operations r) \<and> admitted_record r"

definition in_order :: "replay_record list \<Rightarrow> bool" where
  "in_order rs \<longleftrightarrow>
     sorted (map boundary_tick rs) \<and>
     (\<forall>i < length rs. record_sequence (rs ! i) = of_nat (i + 1) \<and> expected_revision (rs ! i) = of_nat i)"

definition kept_records :: "recorder \<Rightarrow> replay_record list" where
  "kept_records rec = take (record_count rec) (records rec)"

definition same_world :: "world \<Rightarrow> world \<Rightarrow> bool" where
  "same_world w w' \<longleftrightarrow>
     snapshot_world_id (state w') = snapshot_world_id (state w) \<and> seed (state w') = seed (state w) \<and>
     max_slots (state w') = max_slots (state w)"

definition recording :: "world \<Rightarrow> world \<Rightarrow> recorder \<Rightarrow> bool" where
  "recording w0 w rec \<longleftrightarrow>
     length (records rec) = entry_limit \<and> record_count rec \<le> entry_limit \<and>
     head_revision rec = of_nat (record_count rec) \<and> world_revision (state w) = head_revision rec \<and>
     wf_snapshot (state w) \<and> same_world w0 w \<and>
     recorded_chain w0 (kept_records rec) w \<and> list_all record_ok (kept_records rec) \<and>
     in_order (kept_records rec)"

lemma length_kept: "recording w0 w rec \<Longrightarrow> length (kept_records rec) = record_count rec"
  by (simp add: recording_def kept_records_def)

lemma canonical_bytes_not_empty: "canonical_bytes sn \<noteq> []"
  by (simp add: canonical_bytes_def canonical_magic_def str_bytes_def)

section \<open>One call of the recorder\<close>

text \<open>A call with an observer: rejected before it prepares, or what its \<open>prepare\<close> decides.\<close>

lemma observed_cases:
  fixes h :: "('o, 'x) observer_hooks" and res :: "'x + receipt"
  assumes "apply_envelope J guard (Some h) bindings e (w, g, obs) = ((w', g', obs'), res)"
  obtains (rejected) r where "w' = w" "obs' = obs" "res = Inr r" "receipt_status r \<noteq> ''committed''"
  | (prepared) g1 g2 st obs1 pr where "admission w J e = Inr ()"
      "stage guard bindings (state w) (operations e) g1 = (g2, Inr st)"
      "observer_prepare h (committed_snapshot (state w) st)
         (commit_receipt (initial_receipt guard w e) (world_revision (state w) + 1) (staged_created st)) obs = (obs1, pr)"
      "case pr of
         Inl (Rejects err) \<Rightarrow> w' = w \<and> obs' = obs1 \<and> (\<exists>r. res = Inr r \<and> receipt_status r \<noteq> ''committed'')
       | Inl (Throws x) \<Rightarrow> w' = w \<and> obs' = obs1 \<and> res = Inl x
       | Inr _ \<Rightarrow> w' = w\<lparr>state := committed_snapshot (state w) st\<rparr> \<and> obs' = observer_publish h obs1 \<and>
           res = Inr (commit_receipt (initial_receipt guard w e) (world_revision (state w) + 1) (staged_created st))"
proof -
  note rej = rejection_def initial_receipt_def empty_receipt_def
  obtain g1 r1 where begun: "hook guard (\<lambda>h. guard_begin h w (state w) e) g = (g1, r1)"
    by (cases "hook guard (\<lambda>h. guard_begin h w (state w) e) g") auto
  obtain g2 r2 where staged: "stage guard bindings (state w) (operations e) g1 = (g2, r2)"
    by (cases "stage guard bindings (state w) (operations e) g1") auto
  note run = assms [unfolded apply_envelope_def Let_def prod.case begun option.case]
  show ?thesis
  proof (cases r1)
    case (Inl err)
    then show ?thesis using run by (intro rejected) (auto simp: rej)
  next
    case r1: (Inr u)
    show ?thesis
    proof (cases "admission w J e")
      case (Inl errors)
      then show ?thesis using run r1 by (intro rejected) (auto simp: rej)
    next
      case adm: (Inr v)
      then have adm': "admission w J e = Inr ()" by simp
      show ?thesis
      proof (cases r2)
        case (Inl err)
        then show ?thesis using run r1 adm staged by (intro rejected) (auto simp: rej)
      next
        case fin: (Inr st)
        let ?sn = "committed_snapshot (state w) st"
        let ?r = "commit_receipt (initial_receipt guard w e) (world_revision (state w) + 1) (staged_created st)"
        obtain obs1 pr where prep: "observer_prepare h ?sn ?r obs = (obs1, pr)"
          by (cases "observer_prepare h ?sn ?r obs") auto
        note run' = run [unfolded r1 adm staged fin prod.case sum.case, folded committed_snapshot_def,
            unfolded prep prod.case]
        have outcome: "case pr of
            Inl (Rejects err) \<Rightarrow> ((w, g2, obs1), Inr (rejection (initial_receipt guard w e) [err])) = ((w', g', obs'), res)
          | Inl (Throws x) \<Rightarrow> ((w, g2, obs1), Inl x) = ((w', g', obs'), res)
          | Inr _ \<Rightarrow> (publish_commit guard (Some h) ?sn (w, g2, obs1), Inr ?r) = ((w', g', obs'), res)"
          using run' by (cases pr rule: sum.exhaust) (auto split: prepare_failure.splits)
        show ?thesis
        proof (rule prepared [OF adm' _ prep])
          show "stage guard bindings (state w) (operations e) g1 = (g2, Inr st)" using staged fin by simp
          show "case pr of
             Inl (Rejects err) \<Rightarrow> w' = w \<and> obs' = obs1 \<and> (\<exists>r. res = Inr r \<and> receipt_status r \<noteq> ''committed'')
           | Inl (Throws x) \<Rightarrow> w' = w \<and> obs' = obs1 \<and> res = Inl x
           | Inr _ \<Rightarrow> w' = w\<lparr>state := ?sn\<rparr> \<and> obs' = observer_publish h obs1 \<and> res = Inr ?r"
            using outcome by (auto simp: publish_commit_def rej split: sum.splits prepare_failure.splits)
        qed
      qed
    qed
  qed
qed

lemma recording_cases:
  fixes rec rec' :: recorder and prep prep' :: replay_record and res :: "'x + receipt"
  assumes "apply_envelope J guard (Some recording_observer) bindings e (w, g, (rec, prep)) =
      ((w', g', (rec', prep')), res)"
  obtains (kept) "w' = w" "rec' = rec" "\<And>r. res = Inr r \<Longrightarrow> receipt_status r \<noteq> ''committed''"
  | (committed) g1 g2 st where "admission w J e = Inr ()"
      "stage guard bindings (state w) (operations e) g1 = (g2, Inr st)"
      "w' = w\<lparr>state := committed_snapshot (state w) st\<rparr>"
      "length (canonical_bytes (state w')) \<le> checkpoint_limit"
      "rec' = fst (record_publish (rec, prep\<lparr>record_created := staged_created st,
                 checkpoint := canonical_bytes (state w')\<rparr>))"
      "res = Inr (commit_receipt (initial_receipt guard w e) (world_revision (state w) + 1) (staged_created st))"
  using assms
proof (cases rule: observed_cases)
  case (rejected r)
  then show ?thesis by (intro kept) simp_all
next
  case (prepared g1 g2 st obs1 pr)
  let ?sn = "committed_snapshot (state w) st"
  let ?prep = "prep\<lparr>record_created := staged_created st, checkpoint := canonical_bytes ?sn\<rparr>"
  have created: "receipt_created (commit_receipt r0 rev cs) = cs" for r0 rev cs by (simp add: commit_receipt_def)
  show ?thesis
  proof (cases "length (canonical_bytes ?sn) > checkpoint_limit")
    case True
    then have "obs1 = (rec, ?prep) \<and> pr = Inl (Rejects (replay_fail ''BUDGET_EXCEEDED'' ''/checkpoint''))"
      using prepared(3) by (auto simp: recording_observer_def record_prepare_def created)
    then show ?thesis using prepared(4) by (intro kept) auto
  next
    case False
    then have "obs1 = (rec, ?prep) \<and> pr = Inr ()"
      using prepared(3) by (auto simp: recording_observer_def record_prepare_def created)
    then have eqs: "w' = w\<lparr>state := ?sn\<rparr>" "(rec', prep') = record_publish (rec, ?prep)"
        "res = Inr (commit_receipt (initial_receipt guard w e) (world_revision (state w) + 1) (staged_created st))"
      using prepared(4) by (simp_all add: recording_observer_def)
    have "state w' = ?sn" "rec' = fst (record_publish (rec, ?prep))"
      using eqs(1) arg_cong [OF eqs(2), of fst] by simp_all
    then show ?thesis
      using committed [OF prepared(1,2) eqs(1) _ _ eqs(3)] False by simp
  qed
qed

lemma recorder_no_throw:
  fixes res :: "'x + receipt"
  assumes "recorder_apply J guard e tick (w, g, rec) = (b, res)"
  shows "\<exists>r. res = Inr r"
proof (cases "recorder_refusal J w rec e tick")
  case (Some cp)
  then show ?thesis using assms by (cases cp) (auto simp: recorder_apply_def Let_def)
next
  case None
  obtain w' g' rec' prep' where call: "apply_envelope J guard (Some recording_observer) None e
      (w, g, (rec, prepared_record rec e tick)) = ((w', g', (rec', prep')), res)"
    using assms None by (auto simp: recorder_apply_def Let_def apply_at_boundary_def split: prod.splits)
  then show ?thesis
    by (auto simp: apply_envelope_def Let_def recording_observer_def record_prepare_def
        split: prod.splits sum.splits if_splits prepare_failure.splits)
qed

lemma recorded_step_fields:
  assumes "recorded_step w r w'"
  shows "world_revision (state w') = world_revision (state w) + 1" "checkpoint r = canonical_bytes (state w')"
  using assms by (auto simp: recorded_step_def committed_snapshot_def)

lemma commit_recorded:
  assumes adm0: "admission w J e = Inr ()"
    and staged: "stage guard None (state w) (operations e) g1 = (g2, Inr st)"
    and w': "w' = w\<lparr>state := committed_snapshot (state w) st\<rparr>"
    and bounded: "operations_bounded (operations e)" and wf: "wf_snapshot (state w)"
    and small: "length (canonical_bytes (state w')) \<le> checkpoint_limit"
    and rc: "expected_revision rc = world_revision (state w)" "record_operations rc = operations e"
      "record_created rc = staged_created st" "checkpoint rc = canonical_bytes (state w')" "record_budget rc = budget e"
  shows "recorded_step w rc w' \<and> record_ok rc \<and> wf_snapshot (state w') \<and> same_world w w'"
proof -
  note adm = admission_Inr [OF adm0] and oks = admitted_operations [OF adm0]
  have "stage (None :: unit staging_hooks option) (Some (staged_created st)) (state w) (operations e) () = ((), Inr st)"
    by (rule iffD2 [OF stage_replay [OF staged]]) simp
  then have step: "recorded_step w rc w'"
    using adm w' by (auto simp: recorded_step_def rc)
  have wf': "wf_snapshot (state w')"
    using stage_wf [OF staged oks wf] adm w' by simp
  obtain g3 st0 where ops: "apply_operations guard None (world_revision (state w) + 1) 0 (operations e)
       \<lparr>staged = state w, staged_names = [], staged_created = []\<rparr> g1 = (g3, Inr st0)"
    and st: "st = st0\<lparr>staged := (staged st0)\<lparr>format_version := staged_version (slots (staged st0))\<rparr>\<rparr>"
    using stage_Inr [OF staged] by metis
  have "world_revision (state w) \<le> world_revision (state w) + 1"
    using adm by (intro less_imp_le u64_succ_less) auto
  then have wfs: "wf_staging (world_revision (state w) + 1) \<lparr>staged = state w, staged_names = [], staged_created = []\<rparr>"
    using wf wf_slots_mono by (auto simp: wf_staging_def wf_snapshot_def)
  have header: "same_header (staged st0) (state w)"
    using apply_operations_wf [OF ops oks wfs] by simp
  have "list_all replay_binding_ok (staged_created st) \<and> length (staged_created st) \<le> length (operations e) \<and>
      list_all prefab_known (operations e)"
    using apply_operations_created [OF ops oks _ wfs] bounded wf st
    by (auto simp: operations_bounded_def wf_snapshot_def ascii_id_def)
  then have "record_ok rc"
    using bounded small adm
    by (auto simp: record_ok_def admitted_record_def rc canonical_bytes_not_empty operations_bounded_def envelope_ok_def)
  then show ?thesis
    using step wf' w' st header by (auto simp: same_world_def same_header_def committed_snapshot_def)
qed

lemma in_order_snoc:
  assumes "in_order rs" "rs \<noteq> [] \<longrightarrow> boundary_tick (last rs) \<le> boundary_tick r"
    and "record_sequence r = of_nat (length rs + 1)" "expected_revision r = of_nat (length rs)"
  shows "in_order (rs @ [r])"
proof -
  have "boundary_tick x \<le> boundary_tick r" if x: "x \<in> set rs" for x
  proof -
    obtain ys y where rs: "rs = ys @ [y]" using x by (cases rs rule: rev_cases) auto
    have "boundary_tick x \<le> boundary_tick y"
      using assms(1) x by (auto simp: rs in_order_def sorted_append)
    then show ?thesis using assms(2) by (auto simp: rs)
  qed
  then show ?thesis
    using assms(1,3,4) by (auto simp: in_order_def sorted_append nth_append less_Suc_eq)
qed

lemma recorder_call:
  assumes run: "recorder_apply J guard e tick (w, g, rec) = ((w', g', rec'), res)"
    and inv: "recording w0 w rec"
  shows "recording w0 w' rec' \<and>
    (w' = w \<and> rec' = rec \<and> (\<forall>r. res = Inr r \<longrightarrow> receipt_status r \<noteq> ''committed'') \<or>
     (\<exists>r rc. res = Inr r \<and> receipt_status r = ''committed'' \<and> kept_records rec' = kept_records rec @ [rc] \<and>
        recorded_step w rc w' \<and>
        rc = \<lparr>record_sequence = of_nat (record_count rec + 1), boundary_tick = tick,
               expected_revision = world_revision (state w), record_budget = budget e, record_operations = operations e,
               record_created = receipt_created r, checkpoint = canonical_bytes (state w')\<rparr>))"
proof (cases "recorder_refusal J w rec e tick")
  case (Some cp)
  then show ?thesis
    using assms by (cases cp) (auto simp: recorder_apply_def Let_def replay_rejected_def empty_receipt_def)
next
  case None
  obtain prep' where call: "apply_envelope J guard (Some recording_observer) None e
      (w, g, (rec, prepared_record rec e tick)) = ((w', g', (rec', prep')), res)"
    using run None by (auto simp: recorder_apply_def Let_def apply_at_boundary_def split: prod.splits)
  from call show ?thesis
  proof (cases rule: recording_cases)
    case kept
    then show ?thesis using inv by simp
  next
    case (committed g1 g2 st)
    define rc where "rc = (prepared_record rec e tick)\<lparr>record_created := staged_created st,
      checkpoint := canonical_bytes (state w')\<rparr>"
    have fields: "record_sequence rc = of_nat (record_count rec + 1)" "boundary_tick rc = tick"
        "expected_revision rc = head_revision rec" "record_operations rc = operations e"
        "record_created rc = staged_created st" "checkpoint rc = canonical_bytes (state w')" "record_budget rc = budget e"
      by (simp_all add: rc_def prepared_record_def)
    have ref: "command_bounded e" "record_count rec \<noteq> entry_limit"
        "record_count rec \<noteq> 0 \<Longrightarrow> boundary_tick (records rec ! (record_count rec - 1)) \<le> tick"
      using None by (auto simp: recorder_refusal_def Let_def split: if_splits)
    note adm = admission_Inr [OF committed(1)]
    have len: "length (records rec) = entry_limit" "record_count rec < entry_limit"
      using inv ref(2) by (auto simp: recording_def)
    have rec': "rec' = \<lparr>records = (records rec)[record_count rec := rc], record_count = record_count rec + 1,
        head_revision = head_revision rec + 1\<rparr>"
      using committed(5) by (simp add: record_publish_def rc_def)
    have kept': "kept_records rec' = kept_records rec @ [rc]"
      using len by (simp add: rec' kept_records_def take_Suc_conv_app_nth)
    have bounded: "operations_bounded (operations e)"
      by (rule command_bounded_operations [OF ref(1)])
    have rcs: "recorded_step w rc w' \<and> record_ok rc \<and> wf_snapshot (state w') \<and> same_world w w'"
      by (rule commit_recorded [OF committed(1,2,3) bounded _ committed(4)])
        (use inv adm in \<open>auto simp: fields recording_def\<close>)
    have "in_order (kept_records rec @ [rc])"
    proof (rule in_order_snoc)
      show "in_order (kept_records rec)" using inv by (simp add: recording_def)
      show "kept_records rec \<noteq> [] \<longrightarrow> boundary_tick (last (kept_records rec)) \<le> boundary_tick rc"
        using ref(3) len by (auto simp: fields kept_records_def last_conv_nth)
      show "record_sequence rc = of_nat (length (kept_records rec) + 1)"
        using length_kept [OF inv] by (simp add: fields)
      show "expected_revision rc = of_nat (length (kept_records rec))"
        using length_kept [OF inv] inv by (simp add: fields recording_def)
    qed
    then have "recording w0 w' rec'"
      using inv rcs len recorded_step_fields(1) [of w rc w']
      by (auto simp: recording_def kept' recorded_chain_snoc same_world_def) (auto simp: rec')
    moreover have "rc = \<lparr>record_sequence = of_nat (record_count rec + 1), boundary_tick = tick,
        expected_revision = world_revision (state w), record_budget = budget e, record_operations = operations e,
        record_created = staged_created st, checkpoint = canonical_bytes (state w')\<rparr>"
      using inv fields by (intro replay_record.equality) (simp_all add: recording_def)
    ultimately show ?thesis
      using kept' rcs committed(6) by (auto simp: commit_receipt_def)
  qed
qed

section \<open>Replaying a chain\<close>

lemma recorded_chain_revision:
  "recorded_chain w rs w' \<Longrightarrow> world_revision (state w') = world_revision (state w) + of_nat (length rs)"
  by (induction rs arbitrary: w) (auto dest: recorded_step_fields(1))

lemma recorded_chain_last:
  "recorded_chain w rs w' \<Longrightarrow> rs \<noteq> [] \<Longrightarrow> canonical_bytes (state w') = checkpoint (last rs)"
  by (cases rs rule: rev_cases) (auto simp: recorded_chain_snoc dest: recorded_step_fields(2))

lemma recorded_chain_same:
  assumes "recorded_chain w rs w'" "state w1 = state w"
  shows "\<exists>w2. recorded_chain w1 rs w2 \<and> state w2 = state w'"
  using assms
proof (induction rs arbitrary: w w1)
  case Nil
  then show ?case by simp
next
  case (Cons r rs)
  then obtain w4 where "recorded_step w r w4" and rest: "recorded_chain w4 rs w'" by auto
  then have "recorded_step w1 r (w1\<lparr>state := state w4\<rparr>)"
    using Cons.prems(2) by (auto simp: recorded_step_def)
  then show ?case using Cons.IH [OF rest, of "w1\<lparr>state := state w4\<rparr>"] by auto
qed

lemma replay_one_complete:
  assumes step: "recorded_step w r w1" and printed: "serialize J (replay_envelope log r) = Inr doc"
    and id: "log_world_id log = snapshot_world_id (state w)"
  shows "replay_one J log r w = Inr w1"
proof -
  obtain st where st: "stage (None :: unit staging_hooks option) (Some (record_created r)) (state w)
        (record_operations r) () = ((), Inr st)"
      "w1 = w\<lparr>state := committed_snapshot (state w) st\<rparr>"
    and rev: "expected_revision r = world_revision (state w)" "world_revision (state w) \<noteq> u64_max"
    and bytes: "checkpoint r = canonical_bytes (state w1)"
    using step by (auto simp: recorded_step_def)
  have created: "record_created r = staged_created st" by (rule stage_consumed [OF st(1)])
  have "admission w J (replay_envelope log r) = Inr ()"
    using printed id rev by (simp add: admission_def) (simp add: replay_envelope_def)
  moreover have "operations (replay_envelope log r) = record_operations r" by (simp add: replay_envelope_def)
  ultimately have "\<exists>rc. replay_at_boundary J (record_created r) (replay_envelope log r) w = (w1, rc) \<and>
      receipt_status rc = ''committed'' \<and> receipt_created rc = staged_created st"
    using st by (simp add: replay_at_boundary_def apply_envelope_def Let_def publish_commit_def
        committed_snapshot_def commit_receipt_def)
  then show ?thesis using created bytes by (auto simp: replay_one_def world_canonical_bytes_def)
qed

lemma replay_one_sound:
  assumes "replay_one J log r w = Inr w1"
  shows "recorded_step w r w1"
    and "wf_snapshot (state w) \<Longrightarrow> wf_snapshot (state w1) \<and> same_world w w1"
proof -
  obtain rc where run: "replay_at_boundary J (record_created r) (replay_envelope log r) w = (w1, rc)"
    and ok: "receipt_status rc = ''committed''" "canonical_bytes (state w1) = checkpoint r"
    using assms by (auto simp: replay_one_def world_canonical_bytes_def res_simps split: prod.splits)
  have call: "apply_envelope J (None :: unit staging_hooks option) (None :: bare_observer option)
      (Some (record_created r)) (replay_envelope log r) (w, (), ()) = ((w1, (), ()), Inr rc)"
    using run ok by (auto simp: replay_at_boundary_def empty_receipt_def split: prod.splits sum.splits)
  have ops: "operations (replay_envelope log r) = record_operations r"
      "expected_world_revision (replay_envelope log r) = expected_revision r"
    by (simp_all add: replay_envelope_def)
  from call show step: "recorded_step w r w1"
  proof (cases rule: apply_envelope_cases)
    case kept
    then show ?thesis using ok by (simp add: rejected_receipt_def)
  next
    case (committed g1 g2 st)
    then show ?thesis
      using admission_Inr [OF committed(1)] ok(2) by (auto simp: recorded_step_def ops)
  qed
  show "wf_snapshot (state w) \<Longrightarrow> wf_snapshot (state w1) \<and> same_world w w1"
    using apply_envelope_wf [OF call] apply_envelope_le [OF call]
    by (auto simp: same_world_def world_le_def)
qed

lemma replay_records_complete:
  assumes "recorded_chain w rs w'" "log_world_id log = snapshot_world_id (state w)" "wf_snapshot (state w)"
    and "\<And>r. r \<in> set rs \<Longrightarrow> \<exists>doc. serialize J (replay_envelope log r) = Inr doc"
  shows "replay_records J log rs w = Inr w'"
  using assms
proof (induction rs arbitrary: w)
  case Nil
  then show ?case by simp
next
  case (Cons r rs)
  then obtain w1 where step: "recorded_step w r w1" and rest: "recorded_chain w1 rs w'" by auto
  obtain doc where doc: "serialize J (replay_envelope log r) = Inr doc" using Cons.prems(4) [of r] by auto
  have one: "replay_one J log r w = Inr w1"
    by (rule replay_one_complete [OF step doc]) (use Cons.prems in simp)
  have "replay_records J log rs w1 = Inr w'"
    using Cons.prems replay_one_sound(2) [OF one] by (intro Cons.IH [OF rest]) (auto simp: same_world_def)
  then show ?case
    using replay_one_complete [OF step doc] Cons.prems(2) by simp
qed

lemma replay_records_sound:
  assumes "replay_records J log rs w = Inr w'" "wf_snapshot (state w)"
  shows "recorded_chain w rs w' \<and> wf_snapshot (state w') \<and> same_world w w'"
  using assms
proof (induction rs arbitrary: w)
  case Nil
  then show ?case by (simp add: same_world_def)
next
  case (Cons r rs)
  then obtain w1 where one: "replay_one J log r w = Inr w1" and rest: "replay_records J log rs w1 = Inr w'"
    by (auto simp: res_simps)
  note s = replay_one_sound [OF one]
  then show ?case using Cons.IH [OF rest] Cons.prems(2) by (auto simp: same_world_def)
qed

section \<open>The checks before a replay\<close>

lemma preflight_records_ok:
  assumes "list_all record_ok rs" "sorted (tick # map boundary_tick rs)"
    and "\<And>k. k < length rs \<Longrightarrow> record_sequence (rs ! k) = of_nat (i + k + 1) \<and> expected_revision (rs ! k) = of_nat (i + k)"
    and "\<And>r. r \<in> set rs \<Longrightarrow> preflight_command J log r = Inr ()"
  shows "preflight_records J log i tick rs = Inr ()"
  using assms
proof (induction rs arbitrary: i tick)
  case Nil
  then show ?case by simp
next
  case (Cons r rs)
  have "preflight_record J log i tick r = Inr ()"
    using Cons.prems Cons.prems(3) [of 0] by (simp add: preflight_record_def record_ok_def)
  moreover have "preflight_records J log (i + 1) (boundary_tick r) rs = Inr ()"
  proof (rule Cons.IH)
    show "record_sequence (rs ! k) = of_nat (i + 1 + k + 1) \<and> expected_revision (rs ! k) = of_nat (i + 1 + k)"
      if "k < length rs" for k
      using Cons.prems(3) [of "Suc k"] that by simp
  qed (use Cons.prems in auto)
  ultimately show ?case by simp
qed

fun record_all ::
  "json_lib \<Rightarrow> ('g staging_hooks option \<times> envelope \<times> u64) list \<Rightarrow> world \<times> 'g \<times> recorder \<Rightarrow> world \<times> 'g \<times> recorder" where
  "record_all J [] b = b"
| "record_all J ((guard, e, tick) # calls) b =
     record_all J calls (fst (recorder_apply J guard e tick b :: _ \<times> (unit + receipt)))"

lemma record_all_recording:
  assumes "record_all J calls (w, g, rec) = (w', g', rec')" "recording w0 w rec"
  shows "recording w0 w' rec'"
  using assms
proof (induction calls arbitrary: w g rec)
  case Nil
  then show ?case by simp
next
  case (Cons call calls)
  obtain guard e tick where c: "call = (guard, e, tick)" by (cases call) auto
  obtain w1 g1 rec1 res where r: "recorder_apply J guard e tick (w, g, rec) = ((w1, g1, rec1), res :: unit + receipt)"
    by (metis prod.exhaust_sel)
  show ?case
    using Cons.IH [of w1 g1 rec1] Cons.prems recorder_call [OF r Cons.prems(2)] by (simp add: c r)
qed

lemma fresh_recording:
  assumes "make_world address i sd cap = Inr w0" "make_recorder w0 = Inr rec0"
  shows "recording w0 w0 rec0"
proof -
  have "world_revision (state w0) = 0" "rec0 = fresh_recorder"
    using assms by (auto simp: make_world_def make_recorder_def res_simps split: if_splits)
  then show ?thesis
    using make_world_wf [OF assms(1)]
    by (simp add: recording_def kept_records_def fresh_recorder_def same_world_def in_order_def)
qed

lemma recording_exports:
  assumes "recording w0 w rec"
  shows "export_log w rec = Inr (empty_log\<lparr>log_world_id := snapshot_world_id (state w), log_seed := seed (state w),
       log_max_slots := max_slots (state w), log_records := kept_records rec\<rparr>)"
  using assms by (simp add: export_log_def recording_def kept_records_def)

lemma chain_reconstructs:
  assumes made: "make_world address i sd cap = Inr w0" and cap: "cap \<le> 8"
    and log: "log = empty_log\<lparr>log_world_id := i, log_seed := sd, log_max_slots := cap, log_records := rs\<rparr>"
    and chain: "recorded_chain w0 rs w" and ok: "list_all record_ok rs" "in_order rs" "length rs \<le> entry_limit"
    and assets: "builtin_asset \<in> set available" "length available \<le> 8"
    and printed: "\<And>r. r \<in> set rs \<Longrightarrow> preflight_command J log r = Inr ()"
  shows "\<exists>w'. reconstruct J address' log available = Inr w' \<and> state w' = state w"
proof -
  have fields: "log_records log = rs" "log_world_id log = i" "log_seed log = sd" "log_max_slots log = cap"
    and rest: "log_schema log = 1" "command_schema log = ''0.1''" "checkpoint_schema log = ''OWOBJ001-003''"
      "log_assets log = [builtin_asset]"
    by (simp_all add: log empty_log_def)
  have i: "i \<noteq> []" "length i \<le> 128" "cap \<noteq> 0"
    using made by (auto simp: make_world_def valid_id_def ascii_id_def split: if_splits)
  have "preflight_records J log 0 0 rs = Inr ()"
    by (rule preflight_records_ok) (use ok printed in \<open>auto simp: in_order_def\<close>)
  then have pre: "preflight J log available = Inr ()"
    using fields rest cap i assets ok(3) by (simp add: preflight_def list_ex_iff)
  obtain w1 where again: "make_world address' i sd cap = Inr w1" and w1: "state w1 = state w0"
    using made by (auto simp: make_world_def split: if_splits)
  have id: "log_world_id log = snapshot_world_id (state w1)"
    using made w1 fields by (auto simp: make_world_def split: if_splits)
  obtain w' where chain': "recorded_chain w1 rs w'" and w': "state w' = state w"
    using recorded_chain_same [OF chain w1] by blast
  have printed_docs: "\<exists>doc. serialize J (replay_envelope log r) = Inr doc" if "r \<in> set rs" for r
    using printed [OF that] by (auto simp: preflight_command_def split: sum.splits)
  have "replay_records J log rs w1 = Inr w'"
    by (rule replay_records_complete [OF chain' id])
      (use printed_docs make_world_wf [OF again] in auto)
  then show ?thesis using pre again w' fields by (simp add: reconstruct_def)
qed

lemma recording_reconstructs:
  assumes inv: "recording w0 w rec"
    and made: "make_world address i sd cap = Inr w0" and rec0: "make_recorder w0 = Inr rec0"
    and log: "export_log w rec = Inr log"
    and assets: "builtin_asset \<in> set available" "length available \<le> 8"
    and lib: "\<And>r v. r \<in> set (log_records log) \<Longrightarrow> envelope_json (replay_envelope log r) = Inr v \<Longrightarrow> prints_compactly J v"
  shows "\<exists>w'. reconstruct J address' log available = Inr w' \<and> state w' = state w"
proof (rule chain_reconstructs [OF made])
  have "snapshot_world_id (state w) = i \<and> seed (state w) = sd \<and> max_slots (state w) = cap"
    using made inv by (auto simp: recording_def same_world_def make_world_def split: if_splits)
  then show log': "log = empty_log\<lparr>log_world_id := i, log_seed := sd, log_max_slots := cap, log_records := kept_records rec\<rparr>"
    using log recording_exports [OF inv] by auto
  have id: "ascii_id 128 (log_world_id log)"
    using made log' by (auto simp: make_world_def valid_id_def split: if_splits)
  show "cap \<le> 8" using made rec0 by (auto simp: make_world_def make_recorder_def res_simps split: if_splits)
  show "preflight_command J log r = Inr ()" if r: "r \<in> set (kept_records rec)" for r
  proof -
    obtain k where k: "k < length (kept_records rec)" "r = kept_records rec ! k" using r by (auto simp: in_set_conv_nth)
    have "record_ok r" "record_sequence r = of_nat (k + 1)"
      using inv k r by (auto simp: recording_def list_all_iff in_order_def)
    moreover have "k < entry_limit" using inv k length_kept [OF inv] by (simp add: recording_def)
    moreover have "r \<in> set (log_records log)" using r log' by simp
    ultimately show ?thesis
      using preflight_command_ok [of r k log J] id lib by (simp add: record_ok_def)
  qed
qed (use inv length_kept [OF inv] assets in \<open>simp_all add: recording_def\<close>)

section \<open>Edits outside the recorder\<close>

lemma outside_edit:
  assumes "reachable guards observers w w'"
  shows "w' = w \<or> world_revision (state w) < world_revision (state w')"
  using assms
proof (induction rule: reachable.induct)
  case (call wa guard observer J bindings e g obs wb g' obs' res)
  from call.hyps(4) show ?case
  proof (cases rule: apply_envelope_cases)
    case kept
    then show ?thesis using call.IH by simp
  next
    case (committed g1 g2 st)
    then have "world_revision (state wa) < world_revision (state wb)"
      using admission_Inr [OF committed(1)] u64_succ_less by (simp add: committed_snapshot_def)
    then show ?thesis using call.IH by auto
  qed
qed simp

lemma outside_edit_ends_recording:
  assumes inv: "recording w0 w rec" and out: "reachable guards observers w w1"
  shows "export_log w1 rec =
      (if w1 = w
       then Inr (empty_log\<lparr>log_world_id := snapshot_world_id (state w), log_seed := seed (state w),
              log_max_slots := max_slots (state w), log_records := take (record_count rec) (records rec)\<rparr>)
       else Inl (replay_fail ''REVISION_CONFLICT'' ''/expected_world_revision''))"
    and "w1 \<noteq> w \<Longrightarrow> \<exists>r. recorder_apply J guard e tick (w1, g, rec) = ((w1, g, rec), Inr r) \<and> receipt_status r = ''rejected''"
proof -
  have moved: "world_revision (state w1) \<noteq> head_revision rec" if "w1 \<noteq> w"
    using outside_edit [OF out] inv that by (auto simp: recording_def)
  show "export_log w1 rec =
      (if w1 = w
       then Inr (empty_log\<lparr>log_world_id := snapshot_world_id (state w), log_seed := seed (state w),
              log_max_slots := max_slots (state w), log_records := take (record_count rec) (records rec)\<rparr>)
       else Inl (replay_fail ''REVISION_CONFLICT'' ''/expected_world_revision''))"
    using recording_exports [OF inv] moved by (cases "w1 = w") (simp_all add: export_log_def kept_records_def require_def)
  show "\<exists>r. recorder_apply J guard e tick (w1, g, rec) = ((w1, g, rec), Inr r) \<and> receipt_status r = ''rejected''" if "w1 \<noteq> w"
    using moved [OF that]
    by (simp add: recorder_apply_def recorder_refusal_def Let_def replay_rejected_def empty_receipt_def)
qed

lemma reconstruct_sound:
  assumes run: "reconstruct J address log available = Inr w"
  shows "wf_snapshot (state w) \<and> snapshot_world_id (state w) = log_world_id log \<and>
    seed (state w) = log_seed log \<and> max_slots (state w) = log_max_slots log \<and>
    world_revision (state w) = of_nat (length (log_records log)) \<and>
    (\<exists>w0. make_world address (log_world_id log) (log_seed log) (log_max_slots log) = Inr w0 \<and>
       recorded_chain w0 (log_records log) w)"
proof -
  obtain w0 where made: "make_world address (log_world_id log) (log_seed log) (log_max_slots log) = Inr w0"
    and replayed: "replay_records J log (log_records log) w0 = Inr w"
    using run by (auto simp: reconstruct_def res_simps split: sum.splits)
  note s = replay_records_sound [OF replayed make_world_wf [OF made]]
  have "world_revision (state w0) = 0 \<and> snapshot_world_id (state w0) = log_world_id log \<and>
      seed (state w0) = log_seed log \<and> max_slots (state w0) = log_max_slots log"
    using made by (auto simp: make_world_def split: if_splits)
  then show ?thesis
    using s made recorded_chain_revision [of w0 "log_records log" w] by (auto simp: same_world_def)
qed

section \<open>A small session\<close>

definition small_world :: world where
  "small_world = empty_world\<lparr>state := (state empty_world)\<lparr>max_slots := 4\<rparr>\<rparr>"

definition first_envelope :: envelope where
  "first_envelope =
     \<lparr>protocol_version = ''0.1'', world_id = ''w'',
      transaction_id = ''018f7242-4387-7c98-a114-000000130001'',
      idempotency = \<lparr>epoch = ''offline-replay-internal'', idem_sequence = 1\<rparr>, expected_world_revision = 0,
      apply_at = \<lparr>apply_mode = ''next_tick'', expires_after_ticks = 120\<rparr>,
      budget = \<lparr>budget_max_operations = 1, budget_max_blob_bytes = 0\<rparr>,
      operations = [EntityCreate ''a'' unit_cube]\<rparr>"

definition first_lib :: json_lib where
  "first_lib = one_value_lib (printed_json first_envelope)"

definition first_binding :: created_binding where
  "first_binding =
     \<lparr>binding_temporary_id = ''a'', binding_world_id = ''w'', binding_uuid = uuid_a, binding_generation = 1\<rparr>"

definition first_snapshot :: snapshot where
  "first_snapshot = (state small_world)\<lparr>world_revision := 1, slots := [live uuid_a (new_entity unit_cube 1)]\<rparr>"

definition first_record :: replay_record where
  "first_record =
     \<lparr>record_sequence = 1, boundary_tick = 5, expected_revision = 0, record_budget = budget first_envelope,
      record_operations = operations first_envelope, record_created = [first_binding],
      checkpoint = canonical_bytes first_snapshot\<rparr>"

definition first_recorder :: recorder where
  "first_recorder =
     \<lparr>records = first_record # replicate 7 empty_record, record_count = 1, head_revision = 1\<rparr>"

definition first_log :: replay_log where
  "first_log =
     empty_log\<lparr>log_world_id := ''w'', log_seed := 7, log_max_slots := 4, log_records := [first_record]\<rparr>"

definition first_receipt :: receipt where
  "first_receipt =
     commit_receipt (initial_receipt (None :: unit staging_hooks option) small_world first_envelope) 1 [first_binding]"

lemma small_made: "make_world 1 ''w'' 7 4 = Inr small_world"
  by code_simp

lemma small_recorder: "make_recorder small_world = Inr fresh_recorder"
  by (simp add: make_recorder_def small_world_def empty_world_def)

lemma first_serialize: "serialize first_lib first_envelope = Inr ''{}''"
proof -
  have "validated_json first_envelope = Inr (printed_json first_envelope)" by code_simp
  from serialize_Inr_iff [OF this one_value_reads_back one_value_dump] one_value_fits
  show ?thesis unfolding first_lib_def by blast
qed

lemma first_stage:
  "stage (None :: unit staging_hooks option) None (state small_world) (operations first_envelope) () =
     ((), Inr \<lparr>staged = first_snapshot\<lparr>world_revision := 0\<rparr>,
        staged_names = [(''a'', (''w'', uuid_a, 1))], staged_created = [first_binding]\<rparr>)"
  by (simp add: stage_def first_envelope_def apply_create_def allocate_slot_def use_binding_def gbind_def gret_def
      Let_def small_world_def empty_world_def first_snapshot_def staged_version_def new_slot_def sample_uuids
      live_def first_binding_def new_entity_def glift_def)

lemma first_checkpoint: "length (canonical_bytes first_snapshot) \<le> checkpoint_limit"
  by (simp add: first_snapshot_def small_world_def empty_world_def canonical_bytes_def canonical_magic_def
      header_bytes_def slot_bytes_def live_def entity_bytes_def new_entity_def text_bytes_def numbers_def
      transform_bytes_def parent_bytes_def tags_bytes_def uuid_a_def unit_cube_def checkpoint_limit_def
      default_transform_def)

lemma first_call:
  "recorder_apply first_lib (None :: unit staging_hooks option) first_envelope 5 (small_world, (), fresh_recorder) =
     ((small_world\<lparr>state := first_snapshot\<rparr>, (), first_recorder), Inr first_receipt :: unit + receipt)"
proof -
  have refusal: "recorder_refusal first_lib small_world fresh_recorder first_envelope 5 = None"
  proof -
    have "command_bounded first_envelope" "expected_world_revision first_envelope = 0"
      by (simp_all add: first_envelope_def command_bounded_def operation_limit_def unit_cube_def)
    moreover have "world_revision (state small_world) = 0" "head_revision fresh_recorder = 0"
        "record_count fresh_recorder = 0" "entry_limit = 8"
      by (simp_all add: small_world_def empty_world_def fresh_recorder_def entry_limit_def)
    ultimately show ?thesis by (simp add: recorder_refusal_def first_serialize command_limit_def)
  qed
  have adm: "admission small_world first_lib first_envelope = Inr ()"
    by (simp add: admission_def first_serialize) (simp add: small_world_def empty_world_def first_envelope_def)
  have rev: "world_revision (state small_world) = 0" "first_snapshot\<lparr>world_revision := 1\<rparr> = first_snapshot"
    by (simp_all add: small_world_def empty_world_def first_snapshot_def)
  have prep: "prepared_record fresh_recorder first_envelope 5 =
      first_record\<lparr>record_created := [], checkpoint := []\<rparr>"
    by (simp add: prepared_record_def fresh_recorder_def empty_record_def first_record_def)
  have pub: "fresh_recorder\<lparr>records := (records fresh_recorder)[record_count fresh_recorder := first_record],
      record_count := record_count fresh_recorder + 1, head_revision := head_revision fresh_recorder + 1\<rparr> = first_recorder"
    by (simp add: fresh_recorder_def first_recorder_def entry_limit_def eval_nat_numeral)
  have rec1: "first_record\<lparr>record_created := [first_binding], checkpoint := canonical_bytes first_snapshot\<rparr> = first_record"
    by (simp add: first_record_def)
  show ?thesis
    using first_checkpoint pub
    by (simp add: recorder_apply_def Let_def refusal apply_at_boundary_def apply_envelope_def adm first_stage
        publish_commit_def recording_observer_def record_prepare_def record_publish_def prep rev first_receipt_def
        commit_receipt_def rec1 not_less)
qed

section \<open>Properties\<close>

text \<open>C25: A session recorded from a fresh world can be reconstructed: whatever was called through the
  recorder, \<open>reconstruct\<close> of the exported log accepts it, given the built-in asset, and the world it
  returns has the snapshot of the recorded one.  Every check of the log, the printed size of each
  replayed command included, is proved to pass; of the JSON library it is used that it reads back
  what it prints for these commands and prints them without white space.\<close>

theorem recorded_session_reconstructs:
  assumes made: "make_world address i sd cap = Inr w0" and rec0: "make_recorder w0 = Inr rec0"
    and run: "record_all J calls (w0, g, rec0) = (w, g', rec)"
    and log: "export_log w rec = Inr log"
    and assets: "builtin_asset \<in> set available" "length available \<le> 8"
    and lib: "\<And>r v. r \<in> set (log_records log) \<Longrightarrow> envelope_json (replay_envelope log r) = Inr v \<Longrightarrow> prints_compactly J v"
  shows "\<exists>w'. reconstruct J address' log available = Inr w' \<and> state w' = state w"
  by (rule recording_reconstructs [OF record_all_recording [OF run fresh_recording [OF made rec0]]])
    (rule made rec0 log assets lib | assumption)+

lemma first_run:
  "record_all first_lib [(None :: unit staging_hooks option, first_envelope, 5)] (small_world, (), fresh_recorder) =
     (small_world\<lparr>state := first_snapshot\<rparr>, (), first_recorder)"
  by (simp add: first_call)

lemma first_export: "export_log (small_world\<lparr>state := first_snapshot\<rparr>) first_recorder = Inr first_log"
  by (simp add: export_log_def first_recorder_def first_snapshot_def first_log_def small_world_def empty_world_def
      empty_log_def)

lemma one_printed: "to_string (Suc 0) = ''1''"
  by code_simp

lemma first_replayed: "replay_envelope first_log first_record = first_envelope"
  by (simp add: replay_envelope_def first_log_def empty_log_def first_record_def first_envelope_def one_printed)

lemma first_prints: "r \<in> set (log_records first_log) \<Longrightarrow> envelope_json (replay_envelope first_log r) = Inr v \<Longrightarrow>
    prints_compactly first_lib v"
proof -
  assume "r \<in> set (log_records first_log)" "envelope_json (replay_envelope first_log r) = Inr v"
  then have json: "envelope_json first_envelope = Inr v" by (simp add: first_log_def first_replayed [unfolded first_log_def])
  have val: "validated_json first_envelope = Inr (printed_json first_envelope)" by code_simp
  then have "envelope_json first_envelope = Inr (printed_json first_envelope)" by (auto simp: validated_json_def res_simps)
  then have v: "v = printed_json first_envelope" using json by simp
  have "2 \<le> json_width v" by (cases v) simp_all
  then show ?thesis
    using one_value_reads_back [of v] by (simp add: prints_compactly_def first_lib_def v [symmetric] one_value_lib_def)
qed

theorem recorded_session_reconstructs_witness:
  "\<exists>w'. reconstruct first_lib 2 first_log [builtin_asset] = Inr w' \<and> state w' = first_snapshot"
proof -
  have "\<exists>w'. reconstruct first_lib 2 first_log [builtin_asset] = Inr w' \<and>
      state w' = state (small_world\<lparr>state := first_snapshot\<rparr>)"
    by (rule recorded_session_reconstructs [OF small_made small_recorder first_run first_export _ _ first_prints]) simp_all
  then show ?thesis by simp
qed

text \<open>C26: In a session whose edits all go through the recorder, the next call either commits and appends
  exactly the record of that commit (the next sequence number, the tick, the revision before it,
  budget and operations of the envelope, the bindings of the receipt, the canonical bytes of the
  world after it), or returns a receipt that is not committed and leaves world and log; there are
  never more than eight records.  The log can then be exported with these records as long as nobody
  else has edited the world: after any edit outside the recorder the export is refused with
  \<open>REVISION_CONFLICT\<close>, and every further call of the recorder is rejected without effect.\<close>

theorem recorder_logs_commits:
  assumes made: "make_world address i sd cap = Inr w0" and rec0: "make_recorder w0 = Inr rec0"
    and run: "record_all J calls (w0, g, rec0) = (w, g1, rec)"
    and call: "recorder_apply J' guard e tick (w, g2, rec) = ((w', g3, rec'), res :: unit + receipt)"
    and outside: "reachable guards observers w' w1"
  shows "(w' = w \<and> rec' = rec \<and> (\<exists>r. res = Inr r \<and> receipt_status r \<noteq> ''committed'') \<or>
      (\<exists>r. res = Inr r \<and> receipt_status r = ''committed'' \<and>
         take (record_count rec') (records rec') = take (record_count rec) (records rec) @
           [\<lparr>record_sequence = of_nat (record_count rec + 1), boundary_tick = tick,
             expected_revision = world_revision (state w), record_budget = budget e, record_operations = operations e,
             record_created = receipt_created r, checkpoint = canonical_bytes (state w')\<rparr>])) \<and>
    record_count rec' \<le> 8 \<and>
    export_log w1 rec' =
      (if w1 = w'
       then Inr (empty_log\<lparr>log_world_id := snapshot_world_id (state w'), log_seed := seed (state w'),
              log_max_slots := max_slots (state w'), log_records := take (record_count rec') (records rec')\<rparr>)
       else Inl (replay_fail ''REVISION_CONFLICT'' ''/expected_world_revision'')) \<and>
    (w1 \<noteq> w' \<longrightarrow> (\<exists>r. recorder_apply J2 guard2 e2 tick2 (w1, g4, rec') = ((w1, g4, rec'), Inr r :: unit + receipt) \<and>
       receipt_status r = ''rejected''))"
proof -
  have inv: "recording w0 w rec"
    by (rule record_all_recording [OF run fresh_recording [OF made rec0]])
  note c = recorder_call [OF call inv]
  then have inv': "recording w0 w' rec'" by simp
  have "record_count rec' \<le> 8" using inv' by (simp add: recording_def entry_limit_def)
  moreover note outside_edit_ends_recording(1) [OF inv' outside]
  moreover have "w1 \<noteq> w' \<longrightarrow> (\<exists>r. recorder_apply J2 guard2 e2 tick2 (w1, g4, rec') = ((w1, g4, rec'), Inr r :: unit + receipt) \<and>
      receipt_status r = ''rejected'')"
    using outside_edit_ends_recording(2) [OF inv' outside, of J2 guard2 e2 tick2 g4] by blast
  moreover have "\<exists>r. res = Inr r" by (rule recorder_no_throw [OF call])
  moreover have "w' = w \<and> rec' = rec \<and> (\<forall>r. res = Inr r \<longrightarrow> receipt_status r \<noteq> ''committed'') \<or>
      (\<exists>r. res = Inr r \<and> receipt_status r = ''committed'' \<and>
         take (record_count rec') (records rec') = take (record_count rec) (records rec) @
           [\<lparr>record_sequence = of_nat (record_count rec + 1), boundary_tick = tick,
             expected_revision = world_revision (state w), record_budget = budget e, record_operations = operations e,
             record_created = receipt_created r, checkpoint = canonical_bytes (state w')\<rparr>])"
    using c unfolding kept_records_def by blast
  ultimately show ?thesis by blast
qed

theorem recorder_logs_commits_witness:
  "record_count first_recorder \<le> 8 \<and> take (record_count first_recorder) (records first_recorder) = [first_record] \<and>
   export_log (small_world\<lparr>state := first_snapshot\<rparr>) first_recorder = Inr first_log"
proof -
  let ?w = "small_world\<lparr>state := first_snapshot\<rparr>"
  have start: "record_all first_lib [] (small_world, (), fresh_recorder) = (small_world, (), fresh_recorder)" by simp
  have stay: "reachable ({} :: unit staging_hooks option set) ({} :: (unit, unit) observer_hooks option set) ?w ?w"
    by (rule reachable.start)
  note applied = recorder_logs_commits [OF small_made small_recorder start first_call stay,
      of first_lib None first_envelope 5 "()"]
  have "record_count first_recorder \<le> 8" using applied by blast
  moreover have "export_log ?w first_recorder = Inr (empty_log\<lparr>log_world_id := snapshot_world_id (state ?w),
      log_seed := seed (state ?w), log_max_slots := max_slots (state ?w),
      log_records := take (record_count first_recorder) (records first_recorder)\<rparr>)"
    using applied by simp
  ultimately show ?thesis
    by (simp add: first_recorder_def first_log_def first_snapshot_def small_world_def empty_world_def empty_log_def)
qed

text \<open>C27: What \<open>reconstruct\<close> returns was checked: the world is well formed, carries the identity, seed
  and capacity of the log and one revision per record, and is reached from a fresh world by
  replaying the records in order, each with its bindings and with the checkpoint of its result.\<close>

theorem reconstruct_checks_log:
  assumes run: "reconstruct J address log available = Inr w"
  shows "wf_snapshot (state w) \<and> snapshot_world_id (state w) = log_world_id log \<and>
    seed (state w) = log_seed log \<and> max_slots (state w) = log_max_slots log \<and>
    world_revision (state w) = of_nat (length (log_records log)) \<and>
    (\<exists>w0. make_world address (log_world_id log) (log_seed log) (log_max_slots log) = Inr w0 \<and>
       recorded_chain w0 (log_records log) w)"
  using reconstruct_sound [OF run] .

theorem reconstruct_checks_log_witness:
  "\<exists>w. reconstruct first_lib 2 first_log [builtin_asset] = Inr w \<and> world_revision (state w) = 1 \<and>
     snapshot_world_id (state w) = ''w''"
proof -
  have "recording small_world (small_world\<lparr>state := first_snapshot\<rparr>) first_recorder"
    by (rule record_all_recording [OF first_run fresh_recording [OF small_made small_recorder]])
  from recording_reconstructs [OF this small_made small_recorder first_export, of "[builtin_asset]" first_lib 2]
  obtain w where w: "reconstruct first_lib 2 first_log [builtin_asset] = Inr w"
    using first_prints by auto
  from reconstruct_checks_log [OF w] w show ?thesis by (auto simp: first_log_def)
qed

end
