(* ===== verification/Presentation.thy ===== *)
theory Presentation
  imports Hierarchy Transactions
begin

text \<open>
  The presentation packet of \<open>include/omniweft/presentation.hpp\<close> and \<open>src/presentation.cpp\<close>: the
  flat lists of objects, vertices and indices that the renderer uploads, computed from a snapshot
  of the world, and the budget and capability checks of the renderer.  Single precision numbers
  are their 32-bit representation; every failed \<open>require\<close> throws the same exception.
\<close>

section \<open>Single precision\<close>

type_synonym f32 = "32 word"

definition f32_pack :: "bool \<Rightarrow> int \<Rightarrow> f32" where
  "f32_pack s mag = word_of_int (if s then 2 ^ 31 + mag else mag)"

definition f32_biased :: "f32 \<Rightarrow> int" where
  "f32_biased x = uint x div 2 ^ 23 mod 256"

definition f32_finite :: "f32 \<Rightarrow> bool" where
  "f32_finite x \<longleftrightarrow> f32_biased x \<noteq> 255"

definition f32_is_zero :: "f32 \<Rightarrow> bool" where
  "f32_is_zero x \<longleftrightarrow> uint x mod 2 ^ 31 = 0"

definition round32 :: "bool \<Rightarrow> int \<Rightarrow> int \<Rightarrow> f32" where
  "round32 s m e = f32_pack s (round_mag 24 (- 149) 8 m e)"

text \<open>\<open>static_cast<float>\<close> of a finite double, and the quotient of two small integers.\<close>

definition narrow :: "f64 \<Rightarrow> f32" where
  "narrow x = round32 (f_sign x) (f_mant x) (f_exp x)"

definition f32_quotient :: "nat \<Rightarrow> nat \<Rightarrow> f32" where
  "f32_quotient n d =
     (let m = int n * 2 ^ 52; q = m div int d; r = m mod int d
      in round32 False (2 * q + (if r = 0 then 0 else 1)) (- 53))"

definition f32_one :: f32 where
  "f32_one = 0x3F800000"

section \<open>The packet\<close>

record camera =
  camera_position :: vec3
  camera_left :: f64
  camera_right :: f64
  camera_bottom :: f64
  camera_top :: f64
  camera_near :: f64
  camera_far :: f64

definition default_camera :: camera where
  "default_camera =
     \<lparr>camera_position = (0, 0, 0x4014000000000000), camera_left = 0xC010000000000000,
      camera_right = 0x4010000000000000, camera_bottom = 0xC008000000000000,
      camera_top = 0x4008000000000000, camera_near = 0x3FB999999999999A, camera_far = 0x4034000000000000\<rparr>"

record vertex =
  clip_position :: "f32 list"
  vertex_color :: "f32 list"
  vertex_object :: u32

record present_object =
  object_id :: u32
  object_uuid :: string
  object_generation :: u64
  object_revision :: u64
  object_transform :: transform

record packet =
  packet_world_id :: string
  packet_revision :: u64
  packet_camera :: camera
  objects :: "present_object list"
  vertices :: "vertex list"
  indices :: "u32 list"

section \<open>Tables\<close>

definition f_minus_half :: f64 where
  "f_minus_half = 0xBFE0000000000000"

definition corner :: "bool \<Rightarrow> bool \<Rightarrow> bool \<Rightarrow> vec3" where
  "corner x y z = (let h = \<lambda>b. if b then f_half else f_minus_half in (h x, h y, h z))"

definition faces :: "vec3 list list" where
  "faces =
     [[corner True False False, corner True True False, corner True True True, corner True False True],
      [corner False False True, corner False True True, corner False True False, corner False False False],
      [corner False True False, corner False True True, corner True True True, corner True True False],
      [corner False False True, corner False False False, corner True False False, corner True False True],
      [corner False False True, corner True False True, corner True True True, corner False True True],
      [corner True False False, corner False False False, corner False True False, corner True True False]]"

definition colors :: "nat list list" where
  "colors =
     [[255, 64, 64, 255], [128, 32, 32, 255], [64, 255, 64, 255],
      [32, 128, 32, 255], [64, 64, 255, 255], [32, 32, 128, 255]]"

section \<open>Checks\<close>

definition present_check :: "bool \<Rightarrow> string + unit" where
  "present_check condition =
     require condition ''Presentation requires bounded, finite committed object data.''"

definition present_identifier :: "string \<Rightarrow> bool" where
  "present_identifier s \<longleftrightarrow>
     s \<noteq> [] \<and> length s \<le> 128 \<and> is_alnum (hd s) \<and>
     list_all (\<lambda>c. is_alnum c \<or> c = CHR ''.'' \<or> c = CHR ''_'' \<or> c = CHR '':'' \<or> c = CHR ''-'') s"

definition present_uuid_char :: "nat \<Rightarrow> char \<Rightarrow> bool" where
  "present_uuid_char i c \<longleftrightarrow>
     (if i = 8 \<or> i = 13 \<or> i = 18 \<or> i = 23 then c = CHR ''-''
      else is_lower_hex c)"

definition present_uuid :: "string \<Rightarrow> bool" where
  "present_uuid s \<longleftrightarrow> length s = 36 \<and> list_all (\<lambda>(i, c). present_uuid_char i c) (zip [0 ..< length s] s)"

definition float_max :: f64 where
  "float_max = 0x47EFFFFFE0000000"

definition checked_float :: "f64 \<Rightarrow> string + f32" where
  "checked_float v =
     rbind (present_check (is_finite v \<and> fle (fabs v) float_max)) (\<lambda>_.
     let r = narrow v in
     rbind (present_check (f32_finite r)) (\<lambda>_. Inr (if f32_is_zero r then 0 else r)))"

section \<open>Vertices\<close>

fun rotation_row :: "nat \<Rightarrow> quat \<Rightarrow> vec3" where
  "rotation_row i (x, y, z, w) =
     (if i = 0
      then (fsub f_one (fmul f_two (fadd (fmul y y) (fmul z z))), fmul f_two (fsub (fmul x y) (fmul z w)),
            fmul f_two (fadd (fmul x z) (fmul y w)))
      else if i = 1
      then (fmul f_two (fadd (fmul x y) (fmul z w)), fsub f_one (fmul f_two (fadd (fmul x x) (fmul z z))),
            fmul f_two (fsub (fmul y z) (fmul x w)))
      else (fmul f_two (fsub (fmul x z) (fmul y w)), fmul f_two (fadd (fmul y z) (fmul x w)),
            fsub f_one (fmul f_two (fadd (fmul x x) (fmul y y)))))"

fun row_times :: "vec3 \<Rightarrow> vec3 \<Rightarrow> f64 \<Rightarrow> f64" where
  "row_times (a, b, c) (x, y, z) p = fadd (fadd (fadd (fmul a x) (fmul b y)) (fmul c z)) p"

definition transformed :: "vec3 \<Rightarrow> transform \<Rightarrow> vec3" where
  "transformed local t =
     (let l = zip3 fmul local (scale t); q = rotation_xyzw t; (px, py, pz) = position_m t
      in (row_times (rotation_row 0 q) l px, row_times (rotation_row 1 q) l py,
          row_times (rotation_row 2 q) l pz))"

definition clip_x :: "camera \<Rightarrow> f64 \<Rightarrow> f64 \<Rightarrow> f64" where
  "clip_x c p origin =
     fdiv (fsub (fsub (fmul f_two (fsub p origin)) (camera_right c)) (camera_left c))
       (fsub (camera_right c) (camera_left c))"

definition clip_y :: "camera \<Rightarrow> f64 \<Rightarrow> f64 \<Rightarrow> f64" where
  "clip_y c p origin =
     fdiv (fneg (fsub (fsub (fmul f_two (fsub p origin)) (camera_top c)) (camera_bottom c)))
       (fsub (camera_top c) (camera_bottom c))"

definition clip_z :: "camera \<Rightarrow> f64 \<Rightarrow> f64 \<Rightarrow> f64" where
  "clip_z c p origin =
     fdiv (fsub (fsub origin p) (camera_near c)) (fsub (camera_far c) (camera_near c))"

definition present_vertex :: "camera \<Rightarrow> transform \<Rightarrow> nat list \<Rightarrow> u32 \<Rightarrow> vec3 \<Rightarrow> string + vertex" where
  "present_vertex c t color i local =
     (let p = transformed local t; (px, py, pz) = p; (cx, cy, cz) = camera_position c in
      rbind (present_check (list_all is_finite (vec3_list p))) (\<lambda>_.
      rbind (checked_float (clip_x c px cx)) (\<lambda>x.
      rbind (checked_float (clip_y c py cy)) (\<lambda>y.
      rbind (checked_float (clip_z c pz cz)) (\<lambda>z.
      Inr \<lparr>clip_position = [x, y, z, f32_one], vertex_color = map (\<lambda>n. f32_quotient n 255) color,
           vertex_object = i\<rparr>)))))"

definition present_face ::
  "transform \<Rightarrow> u32 \<Rightarrow> vec3 list \<times> nat list \<Rightarrow> packet \<Rightarrow> string + packet" where
  "present_face t i face p =
     (let base = of_nat (length (vertices p)) in
      rbind (rmap_list (present_vertex (packet_camera p) t (snd face) i) (fst face)) (\<lambda>vs.
      Inr (p\<lparr>vertices := vertices p @ vs,
             indices := indices p @ map (\<lambda>offset. base + offset) [0, 1, 2, 2, 3, 0]\<rparr>)))"

fun present_faces ::
  "transform \<Rightarrow> u32 \<Rightarrow> (vec3 list \<times> nat list) list \<Rightarrow> packet \<Rightarrow> string + packet" where
  "present_faces t i [] p = Inr p"
| "present_faces t i (f # fs) p = rbind (present_face t i f p) (present_faces t i fs)"

section \<open>Objects\<close>

definition transform_presentable :: "transform \<Rightarrow> bool" where
  "transform_presentable t \<longleftrightarrow>
     list_all is_finite (vec3_list (position_m t)) \<and> list_all is_finite (quat_list (rotation_xyzw t)) \<and>
     list_all is_finite (vec3_list (scale t)) \<and>
     (let norm = foldl (\<lambda>n v. fadd n (fmul v v)) 0 (quat_list (rotation_xyzw t)) in
      is_finite norm \<and> fle (fabs (fsub norm f_one)) f_1em12) \<and>
     list_all (\<lambda>v. \<not> feq v 0) (vec3_list (scale t))"

definition present_object_of :: "nat \<Rightarrow> slot \<Rightarrow> entity \<Rightarrow> present_object" where
  "present_object_of n s e =
     \<lparr>object_id = of_nat n + 1, object_uuid = entity_uuid s, object_generation = generation s,
      object_revision = authoring_revision e, object_transform = transform_of e\<rparr>"

definition present_entity :: "u64 \<Rightarrow> slot \<Rightarrow> entity \<Rightarrow> packet \<Rightarrow> string + packet" where
  "present_entity revision s e p =
     rbind (present_check (prefab e = unit_cube \<and> authoring_revision e > 0 \<and> authoring_revision e \<le> revision)) (\<lambda>_.
     rbind (present_check (transform_presentable (transform_of e))) (\<lambda>_.
     let i = of_nat (length (objects p)) + 1 in
     present_faces (transform_of e) i (zip faces colors)
       (p\<lparr>objects := objects p @ [present_object_of (length (objects p)) s e]\<rparr>)))"

fun present_slots :: "u64 \<Rightarrow> string \<Rightarrow> slot list \<Rightarrow> packet \<Rightarrow> string + packet" where
  "present_slots revision previous [] p = Inr p"
| "present_slots revision previous (s # ss) p =
     rbind (present_check (entity_uuid s \<noteq> previous)) (\<lambda>_.
     rbind (case entity_of s of None \<Rightarrow> Inr p | Some e \<Rightarrow> present_entity revision s e p) (\<lambda>p'.
     present_slots revision (entity_uuid s) ss p'))"

definition slot_presentable :: "slot \<Rightarrow> bool" where
  "slot_presentable s \<longleftrightarrow>
     present_uuid (entity_uuid s) \<and> generation s > 0 \<and> \<not> (retired s \<and> entity_of s \<noteq> None)"

definition make_packet :: "snapshot \<Rightarrow> string + packet" where
  "make_packet sn =
     rbind (present_check (1 \<le> format_version sn \<and> format_version sn \<le> 3 \<and>
                           present_identifier (snapshot_world_id sn))) (\<lambda>_.
     rbind (present_check (0 < max_slots sn \<and> max_slots sn \<le> 1024 \<and>
                           length (slots sn) \<le> unat (max_slots sn))) (\<lambda>_.
     rbind (present_check (list_all slot_presentable (slots sn))) (\<lambda>_.
     present_slots (world_revision sn) [] (sort_key entity_uuid (slots sn))
       \<lparr>packet_world_id = snapshot_world_id sn, packet_revision = world_revision sn,
        packet_camera = default_camera, objects = [], vertices = [], indices = []\<rparr>)))"

section \<open>Budgets and capabilities\<close>

definition checked_pixel_count :: "u32 \<Rightarrow> u32 \<Rightarrow> string + u64" where
  "checked_pixel_count width height =
     rbind (present_check (width > 0 \<and> height > 0 \<and> width \<le> 1024 \<and> height \<le> 1024)) (\<lambda>_.
     let pixels = (ucast width :: u64) * ucast height in
     rbind (present_check (pixels \<le> 786432)) (\<lambda>_. Inr pixels))"

definition allocation_fits :: "u64 \<Rightarrow> u64 \<Rightarrow> bool" where
  "allocation_fits current_bytes requested_bytes =
     (let limit = 64 * 1024 * 1024 in current_bytes \<le> limit \<and> requested_bytes \<le> limit - current_bytes)"

record capabilities =
  runtime_1_3 :: bool
  graphics_present_queue :: bool
  unorm_surface :: bool
  color_attachment :: bool
  id_attachment :: bool
  depth_attachment :: bool
  transfer_source :: bool
  swapchain_transfer_destination :: bool
  maintenance_extensions :: bool
  maintenance_feature :: bool

definition missing_capabilities :: "capabilities \<Rightarrow> string list" where
  "missing_capabilities c =
     (if runtime_1_3 c then [] else [''Vulkan 1.3 runtime'']) @
     (if graphics_present_queue c then [] else [''one graphics and present queue'']) @
     (if unorm_surface c then [] else [''RGBA8 or BGRA8 UNORM surface'']) @
     (if color_attachment c then [] else [''color attachment format'']) @
     (if id_attachment c then [] else [''R32_UINT attachment format'']) @
     (if depth_attachment c then [] else [''D32_SFLOAT attachment format'']) @
     (if transfer_source c then [] else [''attachment transfer-source formats'']) @
     (if swapchain_transfer_destination c then [] else [''swapchain transfer-destination usage'']) @
     (if maintenance_extensions c then [] else [''swapchain maintenance extension dependencies'']) @
     (if maintenance_feature c then [] else [''swapchainMaintenance1 feature''])"

end
