(* ===== verification/Presentation_Claims.thy ===== *)
theory Presentation_Claims
  imports Presentation Float_Code
begin

text \<open>
  What a packet contains: one object per live entity in the order of their UUIDs, and for each
  object twenty-four finite vertices and thirty-six indices that stay inside their own face.
\<close>

section \<open>Vertices\<close>

definition vertex_ok :: "vertex \<Rightarrow> bool" where
  "vertex_ok v \<longleftrightarrow>
     length (clip_position v) = 4 \<and> list_all f32_finite (clip_position v) \<and>
     length (vertex_color v) = 4 \<and> list_all f32_finite (vertex_color v)"

lemma present_check_Inr [simp]: "present_check b = Inr u \<longleftrightarrow> b"
  by (simp add: present_check_def)

lemma f32_constants_finite: "f32_finite 0" "f32_finite f32_one"
  by code_simp+

lemma checked_float_finite: "checked_float v = Inr r \<Longrightarrow> f32_finite r"
  by (auto simp: checked_float_def Let_def res_simps f32_constants_finite split: if_splits)

lemma color_values_finite: "n \<in> {255, 128, 64, 32} \<Longrightarrow> f32_finite (f32_quotient n 255)"
proof -
  have "f32_finite (f32_quotient 255 255)" "f32_finite (f32_quotient 128 255)"
    "f32_finite (f32_quotient 64 255)" "f32_finite (f32_quotient 32 255)"
    by code_simp+
  then show "n \<in> {255, 128, 64, 32} \<Longrightarrow> f32_finite (f32_quotient n 255)" by auto
qed

definition face_ok :: "vec3 list \<times> nat list \<Rightarrow> bool" where
  "face_ok f \<longleftrightarrow> length (fst f) = 4 \<and> length (snd f) = 4 \<and> set (snd f) \<subseteq> {255, 128, 64, 32}"

lemma faces_ok: "list_all face_ok (zip faces colors)" "length (zip faces colors) = 6"
  by (simp_all add: faces_def colors_def face_ok_def)

lemma present_vertex_ok:
  assumes "present_vertex c t color i local = Inr v" "length color = 4" "set color \<subseteq> {255, 128, 64, 32}"
  shows "vertex_ok v \<and> vertex_object v = i"
proof -
  obtain x y z where "f32_finite x" "f32_finite y" "f32_finite z"
    and v: "v = \<lparr>clip_position = [x, y, z, f32_one], vertex_color = map (\<lambda>n. f32_quotient n 255) color,
           vertex_object = i\<rparr>"
    using assms(1)
    by (auto simp: present_vertex_def Let_def res_simps split_beta dest: checked_float_finite)
  moreover have "list_all f32_finite (map (\<lambda>n. f32_quotient n 255) color)"
    using assms(3) color_values_finite by (auto simp: list_all_iff subset_iff)
  ultimately show ?thesis using assms(2) by (simp add: vertex_ok_def f32_constants_finite)
qed

section \<open>The mesh grows face by face\<close>

definition mesh_ok :: "nat \<Rightarrow> packet \<Rightarrow> bool" where
  "mesh_ok n p \<longleftrightarrow>
     length (vertices p) = 4 * n \<and> length (indices p) = 6 * n \<and>
     (\<forall>i < 6 * n. unat (indices p ! i) div 4 = i div 6) \<and>
     (\<forall>j < 4 * n. vertex_ok (vertices p ! j) \<and> vertex_object (vertices p ! j) = of_nat (j div 24) + 1)"

lemma unat_base: "n < 2 ^ 29 \<Longrightarrow> k < 4 \<Longrightarrow> unat (of_nat (4 * n) + of_nat k :: u32) = 4 * n + k"
proof -
  assume "n < 2 ^ 29" "k < 4"
  then have "4 * n + k < 2 ^ 32" by simp
  then have "unat (of_nat (4 * n + k) :: u32) = 4 * n + k"
    by (simp add: unsigned_of_nat take_bit_nat_eq_self_iff del: of_nat_add of_nat_mult)
  then show ?thesis by (simp only: of_nat_add)
qed

lemma six_offsets: "i < 6 \<Longrightarrow> [0, 1, 2, 2, 3, 0 :: nat] ! i < 4"
  by (auto simp: less_Suc_eq numeral_eq_Suc)

lemma present_face_mesh:
  assumes run: "present_face t i f p = Inr p'" and p: "mesh_ok n p" and f: "face_ok f"
    and i: "i = of_nat (n div 6) + 1" and n: "n < 2 ^ 29"
  shows "mesh_ok (Suc n) p' \<and> objects p' = objects p \<and> packet_camera p' = packet_camera p"
proof -
  obtain vs where vs: "rmap_list (present_vertex (packet_camera p) t (snd f) i) (fst f) = Inr vs"
    and p': "p' = p\<lparr>vertices := vertices p @ vs,
             indices := indices p @ map (\<lambda>offset. of_nat (length (vertices p)) + offset) [0, 1, 2, 2, 3, 0]\<rparr>"
    using run by (auto simp: present_face_def Let_def res_simps)
  have len: "length vs = 4" using rmap_list_Inr_length [OF vs] f by (simp add: face_ok_def)
  have new: "vertex_ok (vs ! k) \<and> vertex_object (vs ! k) = i" if "k < 4" for k
  proof -
    have "list_all2 (\<lambda>x y. present_vertex (packet_camera p) t (snd f) i x = Inr y) (fst f) vs"
      using vs by (simp add: rmap_list_Inr_conv)
    then have "present_vertex (packet_camera p) t (snd f) i (fst f ! k) = Inr (vs ! k)"
      by (rule list_all2_nthD2) (simp add: len that)
    from present_vertex_ok [OF this] show ?thesis using f by (simp add: face_ok_def)
  qed
  have offsets: "map (\<lambda>offset. of_nat (length (vertices p)) + offset) [0, 1, 2, 2, 3, 0] =
      map (\<lambda>k. of_nat (4 * n) + of_nat k :: u32) [0, 1, 2, 2, 3, 0]"
    using p by (simp add: mesh_ok_def)
  have idx: "unat ((indices p @ map (\<lambda>k. of_nat (4 * n) + of_nat k) [0, 1, 2, 2, 3, 0]) ! j) div 4 = j div 6"
    if "j < 6 * Suc n" for j
  proof (cases "j < 6 * n")
    case True
    then show ?thesis using p by (simp add: mesh_ok_def nth_append)
  next
    case False
    then obtain k where k: "j = 6 * n + k" "k < 6" using \<open>j < 6 * Suc n\<close> le_Suc_ex [of "6 * n" j] by auto
    have "(indices p @ map (\<lambda>k. of_nat (4 * n) + of_nat k) [0, 1, 2, 2, 3, 0]) ! j =
        of_nat (4 * n) + of_nat ([0, 1, 2, 2, 3, 0] ! k)"
      using p k by (simp add: mesh_ok_def nth_append del: map_map list.map)
    then show ?thesis using unat_base [OF n six_offsets [OF k(2)]] six_offsets [OF k(2)] k by simp
  qed
  have vert: "vertex_ok ((vertices p @ vs) ! j) \<and> vertex_object ((vertices p @ vs) ! j) = of_nat (j div 24) + 1"
    if "j < 4 * Suc n" for j
  proof (cases "j < 4 * n")
    case True
    then show ?thesis using p by (simp add: mesh_ok_def nth_append)
  next
    case False
    then obtain k where k: "j = 4 * n + k" "k < 4"
      using \<open>j < 4 * Suc n\<close> le_Suc_ex [of "4 * n" j] by auto
    then have "j div 24 = n div 6" by simp
    then show ?thesis using p new [OF k(2)] k i by (simp add: mesh_ok_def nth_append)
  qed
  show ?thesis
    using p len idx vert unfolding p' offsets by (simp add: mesh_ok_def)
qed

lemma present_faces_mesh:
  assumes "present_faces t i fs p = Inr p'" "mesh_ok n p" "list_all face_ok fs"
    and "\<And>k. k < length fs \<Longrightarrow> i = of_nat ((n + k) div 6) + 1" "n + length fs < 2 ^ 29"
  shows "mesh_ok (n + length fs) p' \<and> objects p' = objects p \<and> packet_camera p' = packet_camera p"
  using assms
proof (induction fs arbitrary: p n)
  case Nil
  then show ?case by simp
next
  case (Cons f fs)
  then obtain p1 where 1: "present_face t i f p = Inr p1" and 2: "present_faces t i fs p1 = Inr p'"
    by (auto simp: res_simps)
  have m: "mesh_ok (Suc n) p1 \<and> objects p1 = objects p \<and> packet_camera p1 = packet_camera p"
    by (rule present_face_mesh [OF 1]) (use Cons.prems Cons.prems(4) [of 0] in auto)
  have "i = of_nat ((Suc n + k) div 6) + 1" if "k < length fs" for k
    using Cons.prems(4) [of "Suc k"] that by simp
  then show ?case using Cons.IH [OF 2, of "Suc n"] m Cons.prems by simp
qed

lemma mesh_ok_objects [simp]: "mesh_ok n (p\<lparr>objects := os\<rparr>) = mesh_ok n p"
  by (simp add: mesh_ok_def)

definition meshed :: "packet \<Rightarrow> bool" where
  "meshed p \<longleftrightarrow> mesh_ok (6 * length (objects p)) p"

lemma present_entity_mesh:
  assumes run: "present_entity revision s e p = Inr p'" and p: "meshed p"
    and n: "length (objects p) < 2 ^ 20"
  shows "meshed p' \<and>
    objects p' = objects p @ [present_object_of (length (objects p)) s e]"
proof -
  let ?p = "p\<lparr>objects := objects p @ [present_object_of (length (objects p)) s e]\<rparr>"
  have "present_faces (transform_of e) (of_nat (length (objects p)) + 1) (zip faces colors) ?p = Inr p'"
    using run by (auto simp: present_entity_def Let_def res_simps)
  from present_faces_mesh [OF this _ faces_ok(1)] have
    "mesh_ok (6 * length (objects p) + 6) p' \<and> objects p' = objects ?p \<and> packet_camera p' = packet_camera ?p"
    using p n unfolding faces_ok(2) by (simp add: meshed_def)
  then show ?thesis by (simp add: meshed_def algebra_simps)
qed

definition objects_of :: "nat \<Rightarrow> slot list \<Rightarrow> present_object list" where
  "objects_of n ss =
     map (\<lambda>(k, s). present_object_of k s (the (entity_of s)))
       (enumerate n (filter (\<lambda>s. entity_of s \<noteq> None) ss))"

lemma present_slots_mesh:
  assumes "present_slots revision previous ss p = Inr p'" "meshed p"
    and "length (objects p) + length ss < 2 ^ 20" "sorted (previous # map entity_uuid ss)"
  shows "meshed p' \<and> objects p' = objects p @ objects_of (length (objects p)) ss \<and>
    sorted_wrt (<) (previous # map entity_uuid ss)"
  using assms
proof (induction ss arbitrary: previous p)
  case Nil
  then show ?case by (simp add: objects_of_def)
next
  case (Cons s ss)
  then obtain p1 where new: "entity_uuid s \<noteq> previous"
    and 1: "(case entity_of s of None \<Rightarrow> Inr p | Some e \<Rightarrow> present_entity revision s e p) = Inr p1"
    and 2: "present_slots revision (entity_uuid s) ss p1 = Inr p'"
    by (auto simp: res_simps)
  have m: "meshed p1 \<and> objects p1 = objects p @ objects_of (length (objects p)) [s]"
  proof (cases "entity_of s")
    case None
    then show ?thesis using 1 Cons.prems by (simp add: objects_of_def)
  next
    case (Some e)
    then have "present_entity revision s e p = Inr p1" using 1 by simp
    from present_entity_mesh [OF this Cons.prems(2)] show ?thesis
      using Cons.prems(3) Some by (simp add: objects_of_def del: One_nat_def)
  qed
  then have room: "length (objects p1) + length ss < 2 ^ 20"
    using Cons.prems(3) by (auto simp: objects_of_def)
  have "objects_of n (s # ss) = objects_of n [s] @ objects_of (n + length (objects_of n [s])) ss" for n
    by (simp add: objects_of_def)
  moreover have "previous < entity_uuid s" using Cons.prems(4) new by (simp add: order_less_le)
  ultimately show ?case
    using Cons.IH [OF 2] m room Cons.prems(4) by (auto intro: less_trans)
qed

definition packet_header :: "packet \<Rightarrow> string \<times> u64" where
  "packet_header p = (packet_world_id p, packet_revision p)"

lemma present_faces_header: "present_faces t i fs p = Inr p' \<Longrightarrow> packet_header p' = packet_header p"
  by (induction fs arbitrary: p) (auto simp: res_simps present_face_def Let_def packet_header_def)

lemma present_slots_header: "present_slots revision previous ss p = Inr p' \<Longrightarrow> packet_header p' = packet_header p"
  by (induction ss arbitrary: previous p)
    (auto simp: res_simps present_entity_def Let_def packet_header_def [of "_\<lparr>objects := _\<rparr>"]
      dest!: present_faces_header split: option.splits simp flip: packet_header_def)

lemma sorted_wrt_filter_map: "sorted_wrt (<) (map f xs) \<Longrightarrow> sorted_wrt (<) (map f (filter P xs))"
  by (induction xs) auto

lemma objects_of_uuids: "map object_uuid (objects_of n ss) = map entity_uuid (filter (\<lambda>s. entity_of s \<noteq> None) ss)"
proof -
  have "map object_uuid (map (\<lambda>(k, s). present_object_of k s (g s)) (enumerate n xs)) = map entity_uuid xs" for g xs
    by (induction xs arbitrary: n) (auto simp: present_object_of_def)
  then show ?thesis by (simp add: objects_of_def)
qed

section \<open>Properties\<close>

text \<open>C28: A packet holds one object per live entity, numbered from 1 in strictly increasing order of the
  UUIDs, with the handle, revision and transform of the entity; each object has 24 vertices that
  carry its number and only finite coordinates and colours, and 36 indices, each of which refers
  to a vertex of its own face.\<close>

theorem packet_matches_snapshot:
  assumes run: "make_packet sn = Inr p"
  shows "packet_world_id p = snapshot_world_id sn \<and> packet_revision p = world_revision sn \<and>
    objects p = objects_of 0 (sort_key entity_uuid (slots sn)) \<and>
    sorted_wrt (<) (map object_uuid (objects p)) \<and> length (objects p) \<le> 1024 \<and>
    length (vertices p) = 24 * length (objects p) \<and> length (indices p) = 36 * length (objects p) \<and>
    (\<forall>j < length (vertices p). vertex_ok (vertices p ! j) \<and>
       vertex_object (vertices p ! j) = object_id (objects p ! (j div 24))) \<and>
    (\<forall>i < length (indices p). unat (indices p ! i) < length (vertices p) \<and> unat (indices p ! i) div 4 = i div 6)"
proof -
  let ?p0 = "\<lparr>packet_world_id = snapshot_world_id sn, packet_revision = world_revision sn,
        packet_camera = default_camera, objects = [], vertices = [], indices = []\<rparr>"
  let ?ss = "sort_key entity_uuid (slots sn)"
  have room: "length (slots sn) \<le> 1024"
    and slots: "present_slots (world_revision sn) [] ?ss ?p0 = Inr p"
    using run by (auto simp: make_packet_def res_simps word_le_nat_alt)
  have "meshed ?p0" by (simp add: meshed_def mesh_ok_def)
  then have all: "meshed p \<and> objects p = [] @ objects_of 0 ?ss \<and>
      sorted_wrt (<) ([] # map entity_uuid ?ss)"
    using present_slots_mesh [OF slots] room by (simp del: append_Nil)
  then have m: "meshed p" "objects p = objects_of 0 ?ss"
    and order: "sorted_wrt (<) ([] # map entity_uuid ?ss)"
    unfolding append_Nil by blast+
  have len: "length (objects p) \<le> 1024"
    using room m(2) by (simp add: objects_of_def le_trans [OF length_filter_le])
  have ids: "object_id (objects p ! k) = of_nat k + 1" if "k < length (objects p)" for k
    using that m(2) by (simp add: objects_of_def nth_enumerate_eq present_object_of_def)
  have "sorted_wrt (<) (map object_uuid (objects p))"
    using order sorted_wrt_filter_map unfolding m(2) objects_of_uuids by auto
  moreover have "unat (indices p ! i) < length (vertices p) \<and> unat (indices p ! i) div 4 = i div 6"
    if "i < length (indices p)" for i
  proof -
    have d: "unat (indices p ! i) div 4 = i div 6" and "i div 6 < 6 * length (objects p)"
      using m(1) that by (simp_all add: meshed_def mesh_ok_def less_mult_imp_div_less mult.commute)
    then have "unat (indices p ! i) < 4 * (6 * length (objects p))" by (metis div_less_iff_less_mult mult.commute zero_less_numeral)
    then show ?thesis using d m(1) by (simp add: meshed_def mesh_ok_def)
  qed
  moreover have "vertex_ok (vertices p ! j) \<and> vertex_object (vertices p ! j) = object_id (objects p ! (j div 24))"
    if "j < length (vertices p)" for j
    using m(1) that ids [of "j div 24"] by (simp add: meshed_def mesh_ok_def less_mult_imp_div_less mult.commute)
  moreover have "packet_world_id p = snapshot_world_id sn \<and> packet_revision p = world_revision sn"
    using present_slots_header [OF slots] by (simp add: packet_header_def)
  ultimately show ?thesis using m len by (simp add: meshed_def mesh_ok_def)
qed

definition cube_snapshot :: snapshot where
  "cube_snapshot =
     \<lparr>format_version = 1, snapshot_world_id = ''w'', seed = 7, max_slots = 4, world_revision = 1,
      slots = [\<lparr>entity_uuid = ''00000007-0000-4000-8000-000000000001'', generation = 1, retired = False,
                entity_of = Some (new_entity unit_cube 1)\<rparr>]\<rparr>"

lemma unit_rotation:
  "rotation_row 0 (0, 0, 0, f_one) = (f_one, 0, 0)" "rotation_row 1 (0, 0, 0, f_one) = (0, f_one, 0)"
  "rotation_row 2 (0, 0, 0, f_one) = (0, 0, f_one)"
  by code_simp+

lemma half_products:
  "fmul f_half f_one = f_half" "fmul f_minus_half f_one = f_minus_half" "fmul f_one f_half = f_half"
  "fmul f_one f_minus_half = f_minus_half" "fmul 0 f_half = 0" "fmul 0 f_minus_half = fneg 0"
  by code_simp+

lemma half_sums:
  "fadd f_half 0 = f_half" "fadd f_minus_half 0 = f_minus_half" "fadd f_half (fneg 0) = f_half"
  "fadd f_minus_half (fneg 0) = f_minus_half" "fadd 0 f_half = f_half" "fadd 0 f_minus_half = f_minus_half"
  "fadd (fneg 0) f_half = f_half" "fadd (fneg 0) f_minus_half = f_minus_half"
  by code_simp+

lemma zero_sums: "fadd 0 0 = 0" "fadd 0 (fneg 0) = 0" "fadd (fneg 0) 0 = 0" "fadd (fneg 0) (fneg 0) = fneg 0"
  by code_simp+

definition half :: "bool \<Rightarrow> f64" where
  "half b = (if b then f_half else f_minus_half)"

lemma unit_rows:
  "row_times (f_one, 0, 0) (half x, half y, half z) 0 = half x"
  "row_times (0, f_one, 0) (half x, half y, half z) 0 = half y"
  "row_times (0, 0, f_one) (half x, half y, half z) 0 = half z"
proof -
  have one: "fmul f_one (half b) = half b" for b by (simp add: half_def half_products)
  have zero: "fmul 0 (half b) = (if b then 0 else fneg 0)" for b by (simp add: half_def half_products)
  have sum: "fadd (half b) 0 = half b" "fadd (half b) (fneg 0) = half b" "fadd 0 (half b) = half b"
    "fadd (fneg 0) (half b) = half b" for b by (simp_all add: half_def half_sums)
  show "row_times (f_one, 0, 0) (half x, half y, half z) 0 = half x"
    "row_times (0, f_one, 0) (half x, half y, half z) 0 = half y"
    "row_times (0, 0, f_one) (half x, half y, half z) 0 = half z"
    by (simp_all add: one zero sum zero_sums)
qed

lemma cube_corners: "transformed (corner x y z) default_transform = corner x y z"
proof -
  have c: "corner x y z = (half x, half y, half z)" by (simp add: corner_def half_def)
  have "zip3 fmul (corner x y z) (f_one, f_one, f_one) = (half x, half y, half z)"
    by (simp add: c) (simp add: half_def half_products)
  then show ?thesis
    by (simp add: transformed_def default_transform_def unit_rotation [simplified] unit_rows Let_def c
        del: row_times.simps)
qed

lemma cube_clip_x:
  "checked_float (clip_x default_camera f_half 0) = Inr 0x3E000000"
  "checked_float (clip_x default_camera f_minus_half 0) = Inr 0xBE000000"
  by code_simp+

lemma cube_clip_y:
  "checked_float (clip_y default_camera f_half 0) = Inr 0xBE2AAAAB"
  "checked_float (clip_y default_camera f_minus_half 0) = Inr 0x3E2AAAAB"
  by code_simp+

lemma cube_clip_z:
  "checked_float (clip_z default_camera f_half 0x4014000000000000) = Inr 0x3E62697D"
  "checked_float (clip_z default_camera f_minus_half 0x4014000000000000) = Inr 0x3E8AEF47"
  by code_simp+

lemma halves_finite: "is_finite f_half" "is_finite f_minus_half" "transform_presentable default_transform"
  by code_simp+

lemma cube_vertex: "\<exists>v. present_vertex default_camera default_transform color i (corner x y z) = Inr v"
proof -
  have c: "camera_position default_camera = (0, 0, 0x4014000000000000)" by (simp add: default_camera_def)
  show ?thesis
    by (simp add: present_vertex_def cube_corners c)
      (cases x; cases y; cases z; simp add: corner_def cube_clip_x cube_clip_y cube_clip_z halves_finite present_check_def)
qed

lemma cube_face:
  assumes "packet_camera p = default_camera" "list_all (\<lambda>c. \<exists>x y z. c = corner x y z) (fst f)"
  shows "\<exists>p'. present_face default_transform i f p = Inr p' \<and> packet_camera p' = default_camera"
proof -
  have "\<exists>vs. rmap_list (present_vertex default_camera default_transform color i) cs = Inr vs"
    if "list_all (\<lambda>c. \<exists>x y z. c = corner x y z) cs" for color cs
    using that
  proof (induction cs)
    case (Cons c cs)
    then obtain x y z vs where "c = corner x y z"
      "rmap_list (present_vertex default_camera default_transform color i) cs = Inr vs" by auto
    then show ?case using cube_vertex [of color i x y z] by auto
  qed simp
  from this [OF assms(2), of "snd f"] show ?thesis using assms(1) by (auto simp: present_face_def Let_def)
qed

lemma cube_faces:
  assumes "packet_camera p = default_camera" "list_all (\<lambda>f. list_all (\<lambda>c. \<exists>x y z. c = corner x y z) (fst f)) fs"
  shows "\<exists>p'. present_faces default_transform i fs p = Inr p'"
  using assms
proof (induction fs arbitrary: p)
  case (Cons f fs)
  then obtain p1 where "present_face default_transform i f p = Inr p1" "packet_camera p1 = default_camera"
    using cube_face [of p f i] by auto
  then show ?case using Cons.IH [of p1] Cons.prems by simp
qed simp

lemma cube_presented: "\<exists>p. make_packet cube_snapshot = Inr p"
proof -
  have uuid: "present_uuid ''00000007-0000-4000-8000-000000000001''" "present_identifier ''w''"
    by code_simp+
  have faces: "list_all (\<lambda>f. list_all (\<lambda>c. \<exists>x y z. c = corner x y z) (fst f)) (zip faces colors)"
    by (simp add: faces_def colors_def) blast
  have "\<exists>p'. present_entity 1 s (new_entity unit_cube 1) p = Inr p'" if "packet_camera p = default_camera" for s p
    using cube_faces [OF _ faces, of "p\<lparr>objects := objects p @ [present_object_of (length (objects p)) s (new_entity unit_cube 1)]\<rparr>"]
      that halves_finite
    by (auto simp: present_entity_def Let_def new_entity_def present_check_def)
  note entity = this
  have last: "\<exists>p. rbind m (present_slots r u []) = Inr p" if "\<exists>p. m = Inr p" for m r u
    using that by auto
  show ?thesis
    by (simp add: make_packet_def cube_snapshot_def present_check_def slot_presentable_def uuid)
      (rule last, rule entity, simp)
qed

theorem packet_matches_snapshot_witness:
  "\<exists>p. make_packet cube_snapshot = Inr p \<and> length (objects p) = 1 \<and> length (vertices p) = 24 \<and>
     length (indices p) = 36"
proof -
  obtain p where p: "make_packet cube_snapshot = Inr p" using cube_presented by auto
  moreover have "length (objects_of 0 (sort_key entity_uuid (slots cube_snapshot))) = 1"
    by (simp add: cube_snapshot_def objects_of_def)
  ultimately show ?thesis using packet_matches_snapshot [OF p] by auto
qed

text \<open>C29: The budget checks of the renderer are exact and do not wrap: an allocation fits when the sum of
  both sizes is within 64 MiB, and a pixel count is accepted, and is the product, when the extent
  is non-empty, within 1024 each way and within 786432 pixels.\<close>

theorem presentation_budgets_exact:
  "allocation_fits c r = (unat c + unat r \<le> 67108864) \<and>
   (checked_pixel_count w h = Inr n) =
     (0 < w \<and> 0 < h \<and> unat w \<le> 1024 \<and> unat h \<le> 1024 \<and> unat w * unat h \<le> 786432 \<and>
      unat n = unat w * unat h)"
proof
  show "allocation_fits c r = (unat c + unat r \<le> 67108864)"
    by (auto simp: allocation_fits_def word_le_nat_alt unat_sub)
next
  have small: "unat ((ucast w :: u64) * ucast h) = unat w * unat h" if "unat w \<le> 1024" "unat h \<le> 1024"
  proof -
    have "unat w * unat h \<le> 1024 * 1024" by (rule mult_le_mono [OF that])
    then show ?thesis by (simp add: unat_mult_lem [THEN iffD1])
  qed
  show "(checked_pixel_count w h = Inr n) =
     (0 < w \<and> 0 < h \<and> unat w \<le> 1024 \<and> unat h \<le> 1024 \<and> unat w * unat h \<le> 786432 \<and>
      unat n = unat w * unat h)"
    using small by (auto simp: checked_pixel_count_def Let_def res_simps word_le_nat_alt word_unat_eq_iff)
qed

end
