(* ===== verification/Observe.thy ===== *)
theory Observe
  imports Hierarchy Search Json
begin

text \<open>
  The read sessions of \<open>include/omniweft/observe.hpp\<close> and \<open>src/observe.cpp\<close>: a granted reader asks for
  the entities that match a query and receives them in pages cut from a copy of the rows, until the
  session or the copy expires.  A reading of the steady clock is a number of nanoseconds; an
  operation takes the readings it makes, in order.  The identity of a session is a number; the
  weak reference of a cursor is the identity it locks to, if any.  A printer that throws makes the
  operation throw, the result \<open>None\<close>; the session is then as before.
\<close>

section \<open>Grants and queries\<close>

record bounds =
  lower :: vec3
  upper :: vec3

record read_identity =
  read_uuid :: string
  read_generation :: u64

record read_grant =
  whole_world :: bool
  grant_entities :: "read_identity list"
  region :: "bounds option"
  grant_response_bytes :: nat
  retained_bytes :: nat
  lifetime_ms :: int
  snapshot_lifetime_ms :: int

record observe_query =
  all_tags :: "string list"
  intersects :: "bounds option"
  query_page_size :: nat
  query_response_bytes :: nat

definition valid_bounds :: "bounds \<Rightarrow> bool" where
  "valid_bounds b \<longleftrightarrow>
     list_all2 (\<lambda>l u. is_finite l \<and> is_finite u \<and> \<not> flt u l) (vec3_list (lower b)) (vec3_list (upper b))"

definition observe_identifier :: "string \<Rightarrow> bool" where
  "observe_identifier s \<longleftrightarrow>
     s \<noteq> [] \<and> length s \<le> 32 \<and> is_alnum (hd s) \<and>
     list_all (\<lambda>c. is_alnum c \<or> c = CHR ''.'' \<or> c = CHR ''_'' \<or> c = CHR '':'' \<or> c = CHR ''-'') s"

definition observe_uuid :: "string \<Rightarrow> bool" where
  "observe_uuid s \<longleftrightarrow>
     length s = 36 \<and>
     list_all (\<lambda>(i, c). if i = 8 \<or> i = 13 \<or> i = 18 \<or> i = 23 then c = CHR ''-'' else is_lower_hex c) (enumerate 0 s)"

definition checked_grant :: "read_grant \<Rightarrow> string + read_grant" where
  "checked_grant g =
     (if length (grant_entities g) > 1024 \<or> whole_world g \<and> grant_entities g \<noteq> [] \<or>
         grant_response_bytes g = 0 \<or> grant_response_bytes g > 4096 \<or>
         retained_bytes g = 0 \<or> retained_bytes g > 1048576 \<or>
         lifetime_ms g < 1 \<or> lifetime_ms g > 300000 \<or>
         snapshot_lifetime_ms g < 1 \<or> snapshot_lifetime_ms g > 30000 \<or>
         (case region g of None \<Rightarrow> False | Some b \<Rightarrow> \<not> valid_bounds b)
      then Inl ''INVALID_READ_GRANT''
      else if list_ex (\<lambda>i. \<not> observe_uuid (read_uuid i) \<or> read_generation i = 0) (grant_entities g)
      then Inl ''INVALID_READ_GRANT''
      else Inr g)"

fun fresh_tags :: "string list \<Rightarrow> string list \<Rightarrow> bool" where
  "fresh_tags seen [] \<longleftrightarrow> True"
| "fresh_tags seen (t # ts) \<longleftrightarrow> observe_identifier t \<and> t \<notin> set seen \<and> fresh_tags (seen @ [t]) ts"

definition valid_query :: "observe_query \<Rightarrow> bool" where
  "valid_query q \<longleftrightarrow>
     \<not> (length (all_tags q) > 4 \<or> query_page_size q = 0 \<or> query_page_size q > 64 \<or>
        query_response_bytes q = 0 \<or> query_response_bytes q > 4096 \<or>
        (case intersects q of None \<Rightarrow> False | Some b \<Rightarrow> \<not> valid_bounds b)) \<and>
     fresh_tags [] (all_tags q)"

section \<open>Boxes\<close>

fun box_rows :: "quat \<Rightarrow> vec3 list" where
  "box_rows (x, y, z, w) =
     [(fsub f_one (fmul f_two (fadd (fmul y y) (fmul z z))), fmul f_two (fsub (fmul x y) (fmul z w)),
       fmul f_two (fadd (fmul x z) (fmul y w))),
      (fmul f_two (fadd (fmul x y) (fmul z w)), fsub f_one (fmul f_two (fadd (fmul x x) (fmul z z))),
       fmul f_two (fsub (fmul y z) (fmul x w))),
      (fmul f_two (fsub (fmul x z) (fmul y w)), fmul f_two (fadd (fmul y z) (fmul x w)),
       fsub f_one (fmul f_two (fadd (fmul x x) (fmul y y))))]"

definition box_extent :: "vec3 \<Rightarrow> vec3 \<Rightarrow> f64" where
  "box_extent row sc =
     foldl (\<lambda>extent (r, s). fadd extent (fmul (fabs r) (fmul f_half (fabs s)))) 0
       (zip (vec3_list row) (vec3_list sc))"

definition entity_bounds :: "transform \<Rightarrow> bounds option" where
  "entity_bounds t =
     (let extents = map (\<lambda>row. box_extent row (scale t)) (box_rows (rotation_xyzw t));
          (x, y, z) = position_m t;
          b = \<lparr>lower = (fsub x (extents ! 0), fsub y (extents ! 1), fsub z (extents ! 2)),
               upper = (fadd x (extents ! 0), fadd y (extents ! 1), fadd z (extents ! 2))\<rparr>
      in if valid_bounds b then Some b else None)"

definition box_contains :: "bounds \<Rightarrow> bounds \<Rightarrow> bool" where
  "box_contains outer inner \<longleftrightarrow>
     list_all (\<lambda>((il, ol), (iu, ou)). \<not> (flt il ol \<or> flt ou iu))
       (zip (zip (vec3_list (lower inner)) (vec3_list (lower outer)))
            (zip (vec3_list (upper inner)) (vec3_list (upper outer))))"

definition box_overlaps :: "bounds \<Rightarrow> bounds \<Rightarrow> bool" where
  "box_overlaps a b \<longleftrightarrow>
     list_all (\<lambda>((au, bl), (bu, al)). \<not> (flt au bl \<or> flt bu al))
       (zip (zip (vec3_list (upper a)) (vec3_list (lower b)))
            (zip (vec3_list (upper b)) (vec3_list (lower a))))"

definition permitted :: "read_grant \<Rightarrow> slot \<Rightarrow> bool" where
  "permitted g s \<longleftrightarrow>
     whole_world g \<or> list_ex (\<lambda>i. read_uuid i = entity_uuid s \<and> read_generation i = generation s) (grant_entities g)"

section \<open>Sessions\<close>

record row_data =
  rows :: "string list"
  prefix_text :: string
  page_rows :: nat
  page_bytes :: nat
  row_deadline :: int

record cursor =
  cursor_owner :: "nat option"
  cursor_serial :: u64
  cursor_offset :: nat

record page =
  page_json :: string
  page_next :: "cursor option"

record session =
  session_grant :: read_grant
  session_identity :: "nat option"
  session_expires :: int
  session_rows :: "row_data option"
  session_serial :: u64
  session_closed :: bool

definition ms :: "int \<Rightarrow> int" where
  "ms n = n * 1000000"

definition open_session :: "nat \<Rightarrow> int \<Rightarrow> read_grant \<Rightarrow> string + session" where
  "open_session identity now g =
     rbind (checked_grant g) (\<lambda>g.
     Inr \<lparr>session_grant = g, session_identity = Some identity, session_expires = now + ms (lifetime_ms g),
          session_rows = None, session_serial = 0, session_closed = False\<rparr>)"

definition close_session :: "session \<Rightarrow> session" where
  "close_session s = s\<lparr>session_rows := None, session_closed := True, session_identity := None\<rparr>"

definition expire_session :: "int \<Rightarrow> session \<Rightarrow> session" where
  "expire_session now s =
     (if now \<ge> session_expires s then close_session s
      else case session_rows s of
        None \<Rightarrow> s
      | Some d \<Rightarrow> if now \<ge> row_deadline d then s\<lparr>session_rows := None\<rparr> else s)"

section \<open>Pages\<close>

definition page_suffix :: "bool \<Rightarrow> string" where
  \<open>page_suffix has_more = (if has_more then ''],"has_more":true}'' else ''],"has_more":false}'')\<close>

function page_end :: "row_data \<Rightarrow> nat \<Rightarrow> nat \<Rightarrow> nat \<Rightarrow> nat \<times> nat" where
  "page_end d offset e payload =
     (if e < length (rows d) \<and> e - offset < page_rows d then
        let candidate = payload + (if e > offset then 1 else 0) + length (rows d ! e) in
        if length (prefix_text d) + candidate + length (page_suffix (e + 1 < length (rows d))) > page_bytes d
        then (e, payload)
        else page_end d offset (e + 1) candidate
      else (e, payload))"
  by pat_completeness auto

termination page_end
  by (relation "measure (\<lambda>(d, offset, e, payload). length (rows d) - e)") auto

declare page_end.simps [simp del]

fun joined :: "string list \<Rightarrow> string" where
  "joined [] = []"
| "joined [r] = r"
| "joined (r # rs) = r @ '','' @ joined rs"

definition page_at :: "nat option \<Rightarrow> row_data \<Rightarrow> nat \<Rightarrow> u64 \<Rightarrow> string + page" where
  "page_at owner d offset serial =
     (let (e, payload) = page_end d offset offset 0;
          has_more = (e < length (rows d));
          count = length (prefix_text d) + payload + length (page_suffix has_more)
      in if e = offset \<and> has_more \<or> count > page_bytes d then Inl ''BUDGET_EXCEEDED''
         else Inr \<lparr>page_json = prefix_text d @ joined (take (e - offset) (drop offset (rows d))) @ page_suffix has_more,
                   page_next = (if has_more
                     then Some \<lparr>cursor_owner = owner, cursor_serial = serial, cursor_offset = e\<rparr> else None)\<rparr>)"

section \<open>Starting and continuing\<close>

definition bounds_json :: "bounds \<Rightarrow> json" where
  "bounds_json b =
     json_object [(''lower'', JArr (map JFloat (vec3_list (lower b)))),
       (''upper'', JArr (map JFloat (vec3_list (upper b))))]"

definition row_json :: "slot \<Rightarrow> entity \<Rightarrow> bounds \<Rightarrow> json" where
  "row_json s e b =
     json_object
       [(''entity_uuid'', JStr (entity_uuid s)), (''generation'', JUInt (generation s)),
        (''authoring_revision'', JUInt (authoring_revision e)), (''tags'', JArr (map JStr (tags e))),
        (''transform'', json_object
           [(''position_m'', JArr (map JFloat (vec3_list (position_m (transform_of e))))),
            (''rotation_xyzw'', JArr (map JFloat (quat_list (rotation_xyzw (transform_of e))))),
            (''scale'', JArr (map JFloat (vec3_list (scale (transform_of e)))))]),
        (''bounds'', bounds_json b)]"

definition region_hides :: "read_grant \<Rightarrow> bounds option \<Rightarrow> bool" where
  "region_hides g box \<longleftrightarrow>
     (case region g of None \<Rightarrow> False
      | Some r \<Rightarrow> (case box of None \<Rightarrow> True | Some b \<Rightarrow> \<not> box_contains r b))"

definition query_misses :: "observe_query \<Rightarrow> bounds \<Rightarrow> bool" where
  "query_misses q b \<longleftrightarrow> (case intersects q of None \<Rightarrow> False | Some i \<Rightarrow> \<not> box_overlaps i b)"

text \<open>The loop over the ordered slots; every slot it is given holds an entity.\<close>

fun gather ::
  "json_lib \<Rightarrow> read_grant \<Rightarrow> observe_query \<Rightarrow> nat \<Rightarrow> slot list \<Rightarrow> (string + string list) option" where
  "gather J g q retained [] = Some (Inr [])"
| "gather J g q retained (s # ss) =
     (let e = the (entity_of s); box = entity_bounds (transform_of e) in
      if region_hides g box then gather J g q retained ss
      else if \<not> list_all (binary_search (tags e)) (all_tags q) then gather J g q retained ss
      else case box of
        None \<Rightarrow> Some (Inl ''INVALID_STATE'')
      | Some b \<Rightarrow>
          if query_misses q b then gather J g q retained ss
          else case json_dump J (row_json s e b) of
            None \<Rightarrow> None
          | Some row \<Rightarrow>
              if length row > retained_bytes g - retained then Some (Inl ''BUDGET_EXCEEDED'')
              else case gather J g q (retained + length row) ss of
                None \<Rightarrow> None
              | Some r \<Rightarrow> Some (rbind r (\<lambda>rs. Inr (row # rs))))"

definition visible_slots :: "read_grant \<Rightarrow> snapshot \<Rightarrow> slot list" where
  "visible_slots g sn =
     sort_key entity_uuid
       (filter (\<lambda>s. entity_of s \<noteq> None \<and> \<not> retired s \<and> permitted g s) (slots sn))"

definition row_prefix :: "string \<Rightarrow> u64 \<Rightarrow> string" where
  \<open>row_prefix dumped_id revision =
     ''{"schema_version":1,"world_id":'' @ dumped_id @ '',"world_revision":'' @
     to_string (unat revision) @ '',"items":[''\<close>

definition capture ::
  "json_lib \<Rightarrow> int \<Rightarrow> snapshot \<Rightarrow> observe_query \<Rightarrow> session \<Rightarrow> (string + row_data) option" where
  "capture J now sn q s =
     (let g = session_grant s in
      case json_dump J (JStr (snapshot_world_id sn)) of
        None \<Rightarrow> None
      | Some dumped \<Rightarrow>
          let pre = row_prefix dumped (world_revision sn) in
          if length pre > retained_bytes g then Some (Inl ''BUDGET_EXCEEDED'')
          else case gather J g q (length pre) (visible_slots g sn) of
            None \<Rightarrow> None
          | Some r \<Rightarrow> Some (rbind r (\<lambda>rs.
              Inr \<lparr>rows = rs, prefix_text = pre, page_rows = query_page_size q,
                   page_bytes = min (query_response_bytes q) (grant_response_bytes g),
                   row_deadline = min (session_expires s) (now + ms (snapshot_lifetime_ms g))\<rparr>)))"

text \<open>Four readings: of the first \<open>expire\<close>, of the deadline, of the late check and of its \<open>expire\<close>.\<close>

definition observe_start ::
  "json_lib \<Rightarrow> int \<times> int \<times> int \<times> int \<Rightarrow> snapshot \<Rightarrow> observe_query \<Rightarrow> session \<Rightarrow> session \<times> (string + page) option" where
  "observe_start J clock sn q s0 =
     (let (t0, t1, t2, t3) = clock; s = expire_session t0 s0 in
      if session_closed s then (s, Some (Inl ''NOT_AUTHORIZED''))
      else if \<not> valid_query q then (s, Some (Inl ''INVALID_SCHEMA''))
      else if session_serial s = u64_max then (s, Some (Inl ''BUDGET_EXCEEDED''))
      else case capture J t1 sn q s of
        None \<Rightarrow> (s, None)
      | Some (Inl code) \<Rightarrow> (s, Some (Inl code))
      | Some (Inr d) \<Rightarrow>
          (case page_at (session_identity s) d 0 (session_serial s + 1) of
             Inl code \<Rightarrow> (s, Some (Inl code))
           | Inr p \<Rightarrow>
               if t2 \<ge> row_deadline d then (expire_session t3 s, Some (Inl ''REQUIRES_RESYNC''))
               else (s\<lparr>session_rows := Some d, session_serial := session_serial s + 1\<rparr>, Some (Inr p))))"

definition observe_next :: "int \<times> int \<times> int \<Rightarrow> cursor \<Rightarrow> session \<Rightarrow> session \<times> (string + page)" where
  "observe_next clock c s0 =
     (let (t0, t1, t2) = clock; s = expire_session t0 s0 in
      if session_closed s then (s, Inl ''REQUIRES_RESYNC'')
      else case session_rows s of
        None \<Rightarrow> (s, Inl ''REQUIRES_RESYNC'')
      | Some d \<Rightarrow>
          if cursor_owner c \<noteq> session_identity s \<or> cursor_serial c \<noteq> session_serial s \<or>
             cursor_offset c \<ge> length (rows d) then (s, Inl ''REQUIRES_RESYNC'')
          else let r = page_at (session_identity s) d (cursor_offset c) (session_serial s) in
            if t1 \<ge> row_deadline d then (expire_session t2 s, Inl ''REQUIRES_RESYNC'')
            else (s, r))"

end
