(* ===== verification/Observe_Claims.thy ===== *)
theory Observe_Claims
  imports Observe Transaction_Claims Presentation_Claims
begin

text \<open>
  What a reader receives: the pages of one copy, in order and complete, within the byte limits;
  the rows of the copy, exactly the granted entities that match; and nothing after the session
  has expired or with a cursor that is not its own.
\<close>

section \<open>Cutting a page\<close>

lemma length_joined_snoc:
  "length (joined (rs @ [r])) = length (joined rs) + (if rs = [] then 0 else 1) + length r"
  by (induction rs rule: joined.induct) auto

definition slice :: "row_data \<Rightarrow> nat \<Rightarrow> nat \<Rightarrow> string list" where
  "slice d offset e = take (e - offset) (drop offset (rows d))"

lemma slice_Suc:
  "offset \<le> e \<Longrightarrow> e < length (rows d) \<Longrightarrow> slice d offset (Suc e) = slice d offset e @ [rows d ! e]"
  by (simp add: slice_def Suc_diff_le take_Suc_conv_app_nth)

lemma slice_empty: "offset \<le> e \<Longrightarrow> e \<le> length (rows d) \<Longrightarrow> slice d offset e = [] \<longleftrightarrow> e = offset"
  by (auto simp: slice_def)

lemma page_end_slice:
  assumes "page_end d offset e payload = (e', payload')" "offset \<le> e" "e \<le> length (rows d)"
    and "payload = length (joined (slice d offset e))"
  shows "e \<le> e' \<and> e' \<le> length (rows d) \<and> payload' = length (joined (slice d offset e')) \<and>
    (e < e' \<longrightarrow> e' - offset \<le> page_rows d)"
  using assms
proof (induction d offset e payload rule: page_end.induct)
  case (1 d offset e payload)
  let ?cand = "payload + (if e > offset then 1 else 0) + length (rows d ! e)"
  show ?case
  proof (cases "e < length (rows d) \<and> e - offset < page_rows d \<and>
      length (prefix_text d) + ?cand + length (page_suffix (e + 1 < length (rows d))) \<le> page_bytes d")
    case True
    have cand: "?cand = length (joined (slice d offset (Suc e)))"
      using True "1.prems" slice_empty [of offset e d] by (simp add: slice_Suc length_joined_snoc)
    have "page_end d offset (Suc e) ?cand = (e', payload')"
      using "1.prems"(1) True by (simp add: page_end.simps [of d offset e payload] Let_def)
    then have "Suc e \<le> e' \<and> e' \<le> length (rows d) \<and> payload' = length (joined (slice d offset e')) \<and>
        (Suc e < e' \<longrightarrow> e' - offset \<le> page_rows d)"
      using "1.IH" [OF _ refl] True "1.prems"(2) cand by simp
    then show ?thesis using True by (cases "e' = Suc e") auto
  next
    case False
    then have "e' = e \<and> payload' = payload"
      using "1.prems"(1) unfolding page_end.simps [of d offset e payload] Let_def by (simp split: if_splits)
    then show ?thesis using "1.prems" by simp
  qed
qed

text \<open>A row that fits a page of its own, in the place it has; and the rows before the first that does not.\<close>

definition row_fits :: "row_data \<Rightarrow> nat \<Rightarrow> bool" where
  "row_fits d i \<longleftrightarrow>
     length (prefix_text d) + length (rows d ! i) + length (page_suffix (i + 1 < length (rows d))) \<le> page_bytes d"

definition leading_rows :: "row_data \<Rightarrow> nat" where
  "leading_rows d = length (takeWhile (row_fits d) [0 ..< length (rows d)])"

lemma leading_rows_from:
  assumes "\<And>i. i < e \<Longrightarrow> row_fits d i" "e \<le> length (rows d)"
  shows "leading_rows d = e + length (takeWhile (row_fits d) [e ..< length (rows d)])"
proof -
  have split: "[0 ..< length (rows d)] = [0 ..< e] @ [e ..< length (rows d)]"
    using upt_add_eq_append [of 0 e "length (rows d) - e"] assms(2) by simp
  have "takeWhile (row_fits d) [0 ..< length (rows d)] = [0 ..< e] @ takeWhile (row_fits d) [e ..< length (rows d)]"
    unfolding split by (rule takeWhile_append2) (use assms(1) in simp)
  then show ?thesis by (simp add: leading_rows_def)
qed

lemma leading_rows_stop:
  assumes "\<And>i. i < e \<Longrightarrow> row_fits d i" "e < length (rows d)" "\<not> row_fits d e"
  shows "leading_rows d = e"
  using leading_rows_from [OF assms(1), of e] assms(2,3) by (simp add: upt_conv_Cons)

lemma leading_rows_all:
  "(\<And>i. i < length (rows d) \<Longrightarrow> row_fits d i) \<Longrightarrow> leading_rows d = length (rows d)"
  using leading_rows_from [of "length (rows d)" d] by simp

lemma page_end_first:
  assumes "offset < length (rows d)" "0 < page_rows d"
  shows "page_end d offset offset 0 =
    (if row_fits d offset then page_end d offset (Suc offset) (length (rows d ! offset)) else (offset, 0))"
  using assms by (simp add: page_end.simps [of d offset offset 0] Let_def row_fits_def not_less)

lemma page_end_progress:
  assumes "page_end d offset offset 0 = (e', payload')" "offset < length (rows d)" "0 < page_rows d" "row_fits d offset"
  shows "offset < e'"
proof -
  have "page_end d offset (Suc offset) (length (rows d ! offset)) = (e', payload')"
    using assms page_end_first by simp
  from page_end_slice [OF this] show ?thesis
    using assms(2) slice_Suc [of offset offset d] by (simp add: slice_def)
qed

lemma page_end_fits:
  assumes "page_end d offset e payload = (e', payload')" "e \<le> i" "i < e'"
  shows "row_fits d i"
  using assms
proof (induction d offset e payload rule: page_end.induct)
  case (1 d offset e payload)
  let ?cand = "payload + (if e > offset then 1 else 0) + length (rows d ! e)"
  have go: "e < length (rows d) \<and> e - offset < page_rows d \<and>
      length (prefix_text d) + ?cand + length (page_suffix (e + 1 < length (rows d))) \<le> page_bytes d"
    using "1.prems" by (auto simp: page_end.simps [of d offset e payload] Let_def split: if_splits)
  then have rest: "page_end d offset (e + 1) ?cand = (e', payload')"
    using "1.prems"(1) by (simp add: page_end.simps [of d offset e payload] Let_def)
  show ?case
  proof (cases "i = e")
    case True
    then show ?thesis using go by (simp add: row_fits_def)
  next
    case False
    then show ?thesis using "1.IH" [OF _ refl _ rest] go "1.prems"(2,3) by simp
  qed
qed

lemma page_end_within:
  assumes "page_end d offset e payload = (e', payload')" "offset \<le> e" "e \<le> length (rows d)"
    and "length (prefix_text d) + payload + length (page_suffix (e < length (rows d))) \<le> page_bytes d"
  shows "length (prefix_text d) + payload' + length (page_suffix (e' < length (rows d))) \<le> page_bytes d"
  using assms
proof (induction d offset e payload rule: page_end.induct)
  case (1 d offset e payload)
  then show ?case
    by (auto simp: page_end.simps [of d offset e payload] Let_def split: if_splits)
qed

lemma page_at_slice:
  assumes "page_at owner d offset serial = Inr p" "offset \<le> length (rows d)"
  shows "\<exists>e. offset \<le> e \<and> e \<le> length (rows d) \<and> (offset < e \<longrightarrow> e - offset \<le> page_rows d) \<and>
    page_json p = prefix_text d @ joined (slice d offset e) @ page_suffix (e < length (rows d)) \<and>
    length (page_json p) \<le> page_bytes d \<and>
    page_next p = (if e < length (rows d)
      then Some \<lparr>cursor_owner = owner, cursor_serial = serial, cursor_offset = e\<rparr> else None) \<and>
    (e < length (rows d) \<longrightarrow> offset < e) \<and> (\<forall>i. offset \<le> i \<and> i < e \<longrightarrow> row_fits d i)"
proof -
  obtain e payload where pe: "page_end d offset offset 0 = (e, payload)"
    by (cases "page_end d offset offset 0") auto
  have s: "offset \<le> e \<and> e \<le> length (rows d) \<and> payload = length (joined (slice d offset e)) \<and>
      (offset < e \<longrightarrow> e - offset \<le> page_rows d)"
    by (rule page_end_slice [OF pe]) (use assms(2) in \<open>auto simp: slice_def\<close>)
  show ?thesis
    using assms(1) s page_end_fits [OF pe]
    by (intro exI [of _ e]) (auto simp: page_at_def pe Let_def slice_def split: if_splits)
qed

section \<open>Sessions over time\<close>

lemma expire_early: "now < session_expires s \<Longrightarrow> (\<And>d. session_rows s = Some d \<Longrightarrow> now < row_deadline d) \<Longrightarrow>
    expire_session now s = s"
  by (auto simp: expire_session_def split: option.splits)

lemma expire_fields:
  "session_grant (expire_session now s) = session_grant s" "session_expires (expire_session now s) = session_expires s"
  "session_serial (expire_session now s) = session_serial s"
  by (simp_all add: expire_session_def close_session_def split: option.splits)

lemma expire_late: "now \<ge> session_expires s \<Longrightarrow> session_closed (expire_session now s)"
  by (simp add: expire_session_def close_session_def)

lemma expire_keeps_closed: "session_closed s \<Longrightarrow> session_closed (expire_session now s)"
  by (simp add: expire_session_def close_session_def split: option.splits)

lemma start_Inr:
  assumes "observe_start J (t0, t1, t2, t3) sn q s0 = (s', Some (Inr p))"
  obtains s d where "s = expire_session t0 s0" "\<not> session_closed s" "valid_query q" "capture J t1 sn q s = Some (Inr d)"
    "page_at (session_identity s) d 0 (session_serial s + 1) = Inr p" "t2 < row_deadline d"
    "s' = s\<lparr>session_rows := Some d, session_serial := session_serial s + 1\<rparr>"
  using assms
  by (auto simp: observe_start_def Let_def split: if_splits option.splits sum.splits)

lemma capture_fields:
  assumes "capture J now sn q s = Some (Inr d)"
  shows "page_rows d = query_page_size q" "page_bytes d = min (query_response_bytes q) (grant_response_bytes (session_grant s))"
    "row_deadline d \<le> session_expires s" "row_deadline d \<le> now + ms (snapshot_lifetime_ms (session_grant s))"
    "\<exists>dumped. json_dump J (JStr (snapshot_world_id sn)) = Some dumped \<and>
       prefix_text d = row_prefix dumped (world_revision sn) \<and>
       length (prefix_text d) \<le> retained_bytes (session_grant s) \<and>
       gather J (session_grant s) q (length (prefix_text d)) (visible_slots (session_grant s) sn) = Some (Inr (rows d))"
  using assms by (auto simp: capture_def Let_def res_simps split: option.splits if_splits)

section \<open>Pages\<close>

text \<open>
  A reader that follows the cursors: the pages it gets and the code of the call that stopped it, if
  one did.  The fuel bounds the calls and \<open>None\<close> is running out of it.
\<close>

fun read_pages ::
  "nat \<Rightarrow> (nat \<Rightarrow> int \<times> int \<times> int) \<Rightarrow> session \<Rightarrow> page \<Rightarrow> (page list \<times> string option) option" where
  "read_pages 0 clock s p = None"
| "read_pages (Suc n) clock s p =
     (case page_next p of
        None \<Rightarrow> Some ([p], None)
      | Some c \<Rightarrow>
          (case observe_next (clock n) c s of
             (s', Inl code) \<Rightarrow> Some ([p], Some code)
           | (s', Inr p') \<Rightarrow> map_option (map_prod ((#) p) id) (read_pages n clock s' p')))"

definition live_rows :: "session \<Rightarrow> row_data \<Rightarrow> bool" where
  "live_rows s d \<longleftrightarrow>
     session_rows s = Some d \<and> \<not> session_closed s \<and> row_deadline d \<le> session_expires s \<and> 0 < page_rows d"

lemma live_rows_next:
  assumes "live_rows s d" "a < row_deadline d" "b < row_deadline d"
    and "offset < length (rows d)"
  shows "\<exists>r. observe_next (a, b, c) \<lparr>cursor_owner = session_identity s, cursor_serial = session_serial s,
      cursor_offset = offset\<rparr> s = (s, r) \<and>
    (if row_fits d offset then \<exists>p. r = Inr p \<and> page_at (session_identity s) d offset (session_serial s) = Inr p
     else r = Inl ''BUDGET_EXCEEDED'')"
proof -
  have same: "expire_session a s = s"
    by (rule expire_early) (use assms in \<open>auto simp: live_rows_def\<close>)
  have rows0: "0 < page_rows d" using assms(1) by (simp add: live_rows_def)
  obtain e payload where pe: "page_end d offset offset 0 = (e, payload)"
    by (cases "page_end d offset offset 0") auto
  have next_page: "observe_next (a, b, c) \<lparr>cursor_owner = session_identity s, cursor_serial = session_serial s,
      cursor_offset = offset\<rparr> s = (s, page_at (session_identity s) d offset (session_serial s))"
    if "page_at (session_identity s) d offset (session_serial s) = r" for r
    using assms same that by (cases r) (auto simp: observe_next_def Let_def live_rows_def)
  show ?thesis
  proof (cases "row_fits d offset")
    case True
    have "length (prefix_text d) + 0 + length (page_suffix (offset < length (rows d))) \<le> page_bytes d"
      using True assms(4) by (auto simp: page_suffix_def row_fits_def split: if_splits)
    from page_end_within [OF pe _ _ this] have
      "length (prefix_text d) + payload + length (page_suffix (e < length (rows d))) \<le> page_bytes d"
      using assms(4) by simp
    then obtain p where "page_at (session_identity s) d offset (session_serial s) = Inr p"
      using page_end_progress [OF pe assms(4) rows0 True] by (auto simp: page_at_def pe Let_def)
    then show ?thesis using next_page True by simp
  next
    case False
    then have "page_at (session_identity s) d offset (session_serial s) = Inl ''BUDGET_EXCEEDED''"
      using page_end_first [OF assms(4) rows0] assms(4) by (simp add: page_at_def)
    then show ?thesis using next_page False by simp
  qed
qed

definition pages_of :: "row_data \<Rightarrow> bool \<Rightarrow> page list \<Rightarrow> string list list \<Rightarrow> bool" where
  "pages_of d complete ps parts \<longleftrightarrow>
     length parts = length ps \<and>
     (\<forall>i < length ps.
        page_json (ps ! i) = prefix_text d @ joined (parts ! i) @ page_suffix (\<not> (complete \<and> i + 1 = length ps)) \<and>
        length (page_json (ps ! i)) \<le> page_bytes d \<and> length (parts ! i) \<le> page_rows d)"

definition stopped_by :: "row_data \<Rightarrow> string option" where
  "stopped_by d = (if leading_rows d = length (rows d) then None else Some ''BUDGET_EXCEEDED'')"

lemma read_pages_leading:
  assumes "live_rows s d" "\<And>k. case clock k of (a, b, c) \<Rightarrow> a < row_deadline d \<and> b < row_deadline d"
    and "page_at (session_identity s) d offset (session_serial s) = Inr p" "offset \<le> length (rows d)"
    and "\<And>i. i < offset \<Longrightarrow> row_fits d i" "length (rows d) - offset \<le> n"
  shows "\<exists>ps parts. read_pages (Suc n) clock s p = Some (ps, stopped_by d) \<and>
    concat parts = drop offset (take (leading_rows d) (rows d)) \<and>
    pages_of d (leading_rows d = length (rows d)) ps parts"
  using assms
proof (induction n arbitrary: offset p)
  case 0
  from page_at_slice [OF "0.prems"(3,4)] obtain e where e: "offset \<le> e" "e \<le> length (rows d)"
    "page_json p = prefix_text d @ joined (slice d offset e) @ page_suffix (e < length (rows d))"
    "length (page_json p) \<le> page_bytes d" "page_next p = (if e < length (rows d)
      then Some \<lparr>cursor_owner = session_identity s, cursor_serial = session_serial s, cursor_offset = e\<rparr> else None)"
    by blast
  have "e = length (rows d)" "offset = length (rows d)" using e "0.prems"(4,6) by simp_all
  moreover have "leading_rows d = length (rows d)"
    using leading_rows_all "0.prems"(5) calculation(2) by blast
  ultimately show ?case
    using e by (intro exI [of _ "[p]"] exI [of _ "[[]]"]) (simp add: pages_of_def slice_def stopped_by_def)
next
  case (Suc n)
  from page_at_slice [OF Suc.prems(3,4)] obtain e where e: "offset \<le> e" "e \<le> length (rows d)"
    "offset < e \<longrightarrow> e - offset \<le> page_rows d"
    "page_json p = prefix_text d @ joined (slice d offset e) @ page_suffix (e < length (rows d))"
    "length (page_json p) \<le> page_bytes d" "page_next p = (if e < length (rows d)
      then Some \<lparr>cursor_owner = session_identity s, cursor_serial = session_serial s, cursor_offset = e\<rparr> else None)"
    "e < length (rows d) \<longrightarrow> offset < e" "\<forall>i. offset \<le> i \<and> i < e \<longrightarrow> row_fits d i"
    by blast
  have part: "length (slice d offset e) \<le> page_rows d" using e(1,3) by (cases "offset = e") (auto simp: slice_def)
  have upto: "row_fits d i" if "i < e" for i
    using that e(8) Suc.prems(5) [of i] by (cases "i < offset") auto
  have m: "e \<le> leading_rows d" using leading_rows_from [OF upto e(2)] by simp
  have m_le: "leading_rows d \<le> length (rows d)"
    unfolding leading_rows_def by (rule order_trans [OF length_takeWhile_le]) simp
  show ?case
  proof (cases "e < length (rows d)")
    case False
    then have "slice d offset e = drop offset (rows d)" "leading_rows d = length (rows d)"
      using e(2) m m_le by (simp_all add: slice_def)
    then show ?thesis
      using e False part by (intro exI [of _ "[p]"] exI [of _ "[slice d offset e]"]) (simp add: pages_of_def stopped_by_def)
  next
    case True
    obtain a b c where clk: "clock (Suc n) = (a, b, c)" by (cases "clock (Suc n)") auto
    then have ab: "a < row_deadline d" "b < row_deadline d" using Suc.prems(2) [of "Suc n"] by auto
    obtain r where step: "observe_next (a, b, c) \<lparr>cursor_owner = session_identity s, cursor_serial = session_serial s,
        cursor_offset = e\<rparr> s = (s, r)"
      and r: "if row_fits d e then \<exists>p. r = Inr p \<and> page_at (session_identity s) d e (session_serial s) = Inr p
        else r = Inl ''BUDGET_EXCEEDED''"
      using live_rows_next [OF Suc.prems(1) ab True] by blast
    show ?thesis
    proof (cases "row_fits d e")
      case False
      have "leading_rows d = e" by (rule leading_rows_stop [OF upto True False])
      moreover from this have "drop offset (take (leading_rows d) (rows d)) = slice d offset e"
        by (simp add: slice_def drop_take)
      ultimately show ?thesis
        using e True part r False clk step
        by (intro exI [of _ "[p]"] exI [of _ "[slice d offset e]"]) (simp add: pages_of_def stopped_by_def)
    next
      case fits: True
      then obtain p' where p': "r = Inr p'" "page_at (session_identity s) d e (session_serial s) = Inr p'"
        using r by auto
      obtain ps parts where ps: "read_pages (Suc n) clock s p' = Some (ps, stopped_by d)"
        "concat parts = drop e (take (leading_rows d) (rows d))" "pages_of d (leading_rows d = length (rows d)) ps parts"
        using Suc.IH [OF Suc.prems(1,2) p'(2) e(2) upto] Suc.prems(6) e(7) True by fastforce
      have "ps \<noteq> []" using ps(1) by (auto split: option.splits prod.splits sum.splits)
      have "slice d offset e = take (e - offset) (drop offset (take (leading_rows d) (rows d)))"
        using m e(1) by (simp add: slice_def drop_take)
      moreover have "drop e (take (leading_rows d) (rows d)) =
          drop (e - offset) (drop offset (take (leading_rows d) (rows d)))" using e(1) by simp
      ultimately have "slice d offset e @ drop e (take (leading_rows d) (rows d)) = drop offset (take (leading_rows d) (rows d))"
        by (simp only: append_take_drop_id)
      moreover have "pages_of d (leading_rows d = length (rows d)) (p # ps) (slice d offset e # parts)"
        using ps(3) e(4,5) True part \<open>ps \<noteq> []\<close> by (auto simp: pages_of_def nth_Cons split: nat.splits)
      moreover have "read_pages (Suc (Suc n)) clock s p = Some (p # ps, stopped_by d)"
        using ps(1) e(6) True clk step p'(1) by simp
      ultimately show ?thesis
        using ps(2) by (intro exI [of _ "p # ps"] exI [of _ "slice d offset e # parts"]) simp
    qed
  qed
qed

section \<open>Rows\<close>

definition answers :: "read_grant \<Rightarrow> observe_query \<Rightarrow> slot \<Rightarrow> bool" where
  "answers g q s \<longleftrightarrow>
     (let e = the (entity_of s) in
      \<not> region_hides g (entity_bounds (transform_of e)) \<and> set (all_tags q) \<subseteq> set (tags e) \<and>
      (\<forall>b. entity_bounds (transform_of e) = Some b \<longrightarrow> \<not> query_misses q b))"

definition row_of :: "json_lib \<Rightarrow> slot \<Rightarrow> string \<Rightarrow> bool" where
  "row_of J s row \<longleftrightarrow>
     (\<exists>b. entity_bounds (transform_of (the (entity_of s))) = Some b \<and>
        json_dump J (row_json s (the (entity_of s)) b) = Some row)"

lemma gather_rows:
  assumes "gather J g q retained ss = Some (Inr rs)" "\<And>s. s \<in> set ss \<Longrightarrow> sorted (tags (the (entity_of s)))"
    and "retained \<le> retained_bytes g"
  shows "list_all2 (row_of J) (filter (answers g q) ss) rs \<and> retained + sum_list (map length rs) \<le> retained_bytes g"
  using assms
proof (induction ss arbitrary: retained rs)
  case Nil
  then show ?case by simp
next
  case (Cons s ss)
  let ?e = "the (entity_of s)"
  have tags: "list_all (binary_search (tags ?e)) (all_tags q) \<longleftrightarrow> set (all_tags q) \<subseteq> set (tags ?e)"
    using binary_search_member [OF Cons.prems(2) [of s]] by (auto simp: list_all_iff)
  show ?case
  proof (cases "region_hides g (entity_bounds (transform_of ?e)) \<or> \<not> set (all_tags q) \<subseteq> set (tags ?e)")
    case True
    then have "gather J g q retained ss = Some (Inr rs)" "\<not> answers g q s"
      using Cons.prems(1) by (auto simp: Let_def tags answers_def split: if_splits)
    then show ?thesis using Cons.IH Cons.prems(2,3) by simp
  next
    case False
    then obtain b where b: "entity_bounds (transform_of ?e) = Some b"
      using Cons.prems(1) by (cases "entity_bounds (transform_of ?e)") (auto simp: Let_def tags)
    show ?thesis
    proof (cases "query_misses q b")
      case True
      then have "gather J g q retained ss = Some (Inr rs)" "\<not> answers g q s"
        using Cons.prems(1) False b by (auto simp: Let_def tags answers_def)
      then show ?thesis using Cons.IH Cons.prems(2,3) by simp
    next
      case hit: False
      then obtain row rs' where row: "json_dump J (row_json s ?e b) = Some row"
          "length row \<le> retained_bytes g - retained" "gather J g q (retained + length row) ss = Some (Inr rs')"
          "rs = row # rs'"
        using Cons.prems(1) False b by (auto simp: Let_def tags res_simps split: option.splits if_splits)
      have "answers g q s" using False b hit by (simp add: answers_def)
      moreover have "row_of J s row" using b row(1) by (simp add: row_of_def)
      moreover have "retained + length row \<le> retained_bytes g" using row(2) Cons.prems(3) by simp
      ultimately show ?thesis using Cons.IH [OF row(3)] Cons.prems(2) row(4) by simp
    qed
  qed
qed

section \<open>A small session\<close>

definition reader_grant :: read_grant where
  "reader_grant =
     \<lparr>whole_world = True, grant_entities = [], region = None, grant_response_bytes = 4096,
      retained_bytes = 1000, lifetime_ms = 10, snapshot_lifetime_ms = 5\<rparr>"

definition reader_query :: observe_query where
  "reader_query = \<lparr>all_tags = [], intersects = None, query_page_size = 16, query_response_bytes = 4096\<rparr>"

definition reader_lib :: json_lib where
  "reader_lib = \<lparr>sax_events = (\<lambda>_. []), json_parse = (\<lambda>_. None), json_dump = (\<lambda>_. Some ''{}'')\<rparr>"

definition reader_session :: session where
  "reader_session =
     \<lparr>session_grant = reader_grant, session_identity = Some 1, session_expires = 10000000,
      session_rows = None, session_serial = 0, session_closed = False\<rparr>"

definition reader_rows :: row_data where
  "reader_rows =
     \<lparr>rows = [''{}''], prefix_text = row_prefix ''{}'' 1, page_rows = 16, page_bytes = 4096,
      row_deadline = 5000001\<rparr>"

definition reader_page :: page where
  "reader_page = \<lparr>page_json = row_prefix ''{}'' 1 @ ''{}'' @ page_suffix False, page_next = None\<rparr>"

lemma box_rows_rotation: "box_rows q = [rotation_row 0 q, rotation_row 1 q, rotation_row 2 q]"
  by (cases q) simp

lemma half_abs: "fabs f_one = f_one" "fabs 0 = 0" "fsub 0 f_half = f_minus_half" "valid_bounds \<lparr>lower =
    (f_minus_half, f_minus_half, f_minus_half), upper = (f_half, f_half, f_half)\<rparr>"
  by code_simp+

lemma cube_bounds: "entity_bounds default_transform =
    Some \<lparr>lower = (f_minus_half, f_minus_half, f_minus_half), upper = (f_half, f_half, f_half)\<rparr>"
  by (simp add: entity_bounds_def box_rows_rotation default_transform_def unit_rotation [simplified] box_extent_def
      half_abs half_products half_sums zero_sums Let_def)

lemma row_prefix_short: "length (row_prefix ''{}'' 1) \<le> 100"
  by (simp add: row_prefix_def to_string.simps)

lemma reader_visible: "visible_slots reader_grant cube_snapshot = slots cube_snapshot"
  by (simp add: visible_slots_def cube_snapshot_def permitted_def reader_grant_def)

lemma reader_gather: "gather reader_lib reader_grant reader_query n (slots cube_snapshot) =
    (if 2 \<le> 1000 - n then Some (Inr [''{}'']) else Some (Inl ''BUDGET_EXCEEDED''))"
  by (simp add: cube_snapshot_def new_entity_def cube_bounds region_hides_def query_misses_def reader_grant_def
      reader_query_def reader_lib_def)

lemma reader_capture: "capture reader_lib 1 cube_snapshot reader_query reader_session = Some (Inr reader_rows)"
proof -
  have s: "session_grant reader_session = reader_grant" "session_expires reader_session = 10000000"
    by (simp_all add: reader_session_def)
  have d: "json_dump reader_lib v = Some ''{}''" for v by (simp add: reader_lib_def)
  have r: "world_revision cube_snapshot = 1" by (simp add: cube_snapshot_def)
  show ?thesis
    using row_prefix_short
    by (simp add: capture_def s d r reader_visible reader_gather Let_def)
      (simp add: reader_grant_def reader_query_def reader_rows_def ms_def)
qed

lemma reader_first_page: "page_at owner reader_rows 0 serial = Inr reader_page"
proof -
  have "length (rows reader_rows) = 1" "page_rows reader_rows = 16" "page_bytes reader_rows = 4096"
    "prefix_text reader_rows = row_prefix ''{}'' 1" "rows reader_rows = [''{}'']"
    by (simp_all add: reader_rows_def)
  moreover have "length (page_suffix b) \<le> 19" for b by (simp add: page_suffix_def)
  from this [of False] have "length (page_suffix False) \<le> 19" .
  ultimately show ?thesis
    using row_prefix_short
    by (simp add: page_at_def page_end.simps [of reader_rows 0 0 0] page_end.simps [of reader_rows 0 "Suc 0" "Suc (Suc 0)"] Let_def
        reader_page_def)
qed

lemma reader_start: "observe_start reader_lib (0, 1, 2, 3) cube_snapshot reader_query reader_session =
    (reader_session\<lparr>session_rows := Some reader_rows, session_serial := 1\<rparr>, Some (Inr reader_page))"
proof -
  have "expire_session 0 reader_session = reader_session" "\<not> session_closed reader_session"
    "session_serial reader_session = 0" "session_identity reader_session = Some 1" "valid_query reader_query"
    by (simp_all add: expire_session_def reader_session_def valid_query_def reader_query_def)
  moreover have "2 < row_deadline reader_rows" by (simp add: reader_rows_def)
  ultimately show ?thesis
    by (simp add: observe_start_def reader_capture reader_first_page)
qed

section \<open>Properties\<close>

text \<open>C32: Every page is a slice of the copied rows: it begins where it was asked to, holds at most the page
  size, is a complete JSON object whose flag says whether rows remain, is within the byte limit,
  and carries a cursor to its end exactly when rows remain, and then it is not empty.\<close>

theorem page_is_a_slice:
  assumes "page_at owner d offset serial = Inr p" "offset \<le> length (rows d)"
  shows "\<exists>e. offset \<le> e \<and> e \<le> length (rows d) \<and> (offset < e \<longrightarrow> e - offset \<le> page_rows d) \<and>
    page_json p = prefix_text d @ joined (take (e - offset) (drop offset (rows d))) @ page_suffix (e < length (rows d)) \<and>
    length (page_json p) \<le> page_bytes d \<and>
    (page_next p = None \<longleftrightarrow> e = length (rows d)) \<and>
    (\<forall>c. page_next p = Some c \<longrightarrow> offset < e \<and> c = \<lparr>cursor_owner = owner, cursor_serial = serial, cursor_offset = e\<rparr>)"
proof -
  obtain e where "offset \<le> e" "e \<le> length (rows d)" "offset < e \<longrightarrow> e - offset \<le> page_rows d"
    "page_json p = prefix_text d @ joined (slice d offset e) @ page_suffix (e < length (rows d))"
    "length (page_json p) \<le> page_bytes d" "page_next p = (if e < length (rows d)
      then Some \<lparr>cursor_owner = owner, cursor_serial = serial, cursor_offset = e\<rparr> else None)"
    "e < length (rows d) \<longrightarrow> offset < e"
    using page_at_slice [OF assms] by blast
  then show ?thesis by (intro exI [of _ e]) (auto simp: slice_def)
qed

theorem page_is_a_slice_witness:
  "length (page_json reader_page) \<le> page_bytes reader_rows \<and> 0 \<le> length (rows reader_rows)"
  using page_is_a_slice [OF reader_first_page le0] by blast

text \<open>C30: What a reader that follows the cursors gets: until the deadline of the copy, in at most one more
  page than rows, the rows of the copy in order, each once, up to the first row that does not fit a
  page of its own; \<open>has_more\<close> is false only on the last page of a complete reading.  If every row
  fits, that is all of them; otherwise the call for the row that does not is refused with
  \<open>BUDGET_EXCEEDED\<close> and no other call fails.\<close>

theorem reading_delivers_all_rows:
  assumes start: "observe_start J (t0, t1, t2, t3) sn q s = (s', Some (Inr p))"
    and copy: "session_rows s' = Some d"
    and clock: "\<And>k. fst (clock k) < row_deadline d" "\<And>k. fst (snd (clock k)) < row_deadline d"
  shows "\<exists>ps parts. read_pages (length (rows d) + 1) clock s' p = Some (ps, stopped_by d) \<and>
    concat parts = take (leading_rows d) (rows d) \<and> pages_of d (leading_rows d = length (rows d)) ps parts \<and>
    ((\<forall>i < length (rows d). row_fits d i) \<longrightarrow> stopped_by d = None \<and> concat parts = rows d)"
proof -
  obtain s1 d1 where s1: "s1 = expire_session t0 s" "\<not> session_closed s1" "valid_query q"
    and cap: "capture J t1 sn q s1 = Some (Inr d1)" and first: "page_at (session_identity s1) d1 0 (session_serial s1 + 1) = Inr p"
    and s': "s' = s1\<lparr>session_rows := Some d1, session_serial := session_serial s1 + 1\<rparr>"
    by (rule start_Inr [OF start])
  have d: "d1 = d" using s' copy by simp
  have "live_rows s' d"
    using s' s1 capture_fields(1,3) [OF cap] by (auto simp: live_rows_def d valid_query_def)
  moreover have "(\<forall>i < length (rows d). row_fits d i) \<longrightarrow> leading_rows d = length (rows d)"
    using leading_rows_all by blast
  moreover have "page_at (session_identity s') d 0 (session_serial s') = Inr p" using first s' d by simp
  ultimately obtain ps parts where "read_pages (Suc (length (rows d))) clock s' p = Some (ps, stopped_by d)"
      "concat parts = take (leading_rows d) (rows d)" "pages_of d (leading_rows d = length (rows d)) ps parts"
    using read_pages_leading [of s' d clock 0 p "length (rows d)"] clock by (auto simp: split_beta)
  then show ?thesis
    using \<open>_ \<longrightarrow> leading_rows d = length (rows d)\<close>
    by (intro exI [of _ ps] exI [of _ parts]) (simp add: stopped_by_def)
qed

lemma reader_row_fits: "row_fits reader_rows 0"
  using row_prefix_short by (simp add: row_fits_def reader_rows_def page_suffix_def)

theorem reading_delivers_all_rows_witness:
  "\<exists>ps parts. read_pages 2 (\<lambda>_. (4, 5, 6)) (reader_session\<lparr>session_rows := Some reader_rows, session_serial := 1\<rparr>)
     reader_page = Some (ps, None) \<and> concat parts = [''{}''] \<and> length parts = length ps"
proof -
  have len: "length (rows reader_rows) + 1 = 2" "rows reader_rows = [''{}'']" by (simp_all add: reader_rows_def)
  have "\<exists>ps parts. read_pages (length (rows reader_rows) + 1) (\<lambda>_. (4, 5, 6))
      (reader_session\<lparr>session_rows := Some reader_rows, session_serial := 1\<rparr>) reader_page = Some (ps, stopped_by reader_rows) \<and>
      concat parts = take (leading_rows reader_rows) (rows reader_rows) \<and>
      pages_of reader_rows (leading_rows reader_rows = length (rows reader_rows)) ps parts \<and>
      ((\<forall>i < length (rows reader_rows). row_fits reader_rows i) \<longrightarrow>
        stopped_by reader_rows = None \<and> concat parts = rows reader_rows)"
    by (rule reading_delivers_all_rows [OF reader_start]) (simp_all add: reader_rows_def)
  moreover have "\<forall>i < length (rows reader_rows). row_fits reader_rows i"
    using reader_row_fits by (simp add: len(2))
  ultimately show ?thesis unfolding len(1) unfolding len(2) pages_of_def by metis
qed

text \<open>C31: What a query copies is authorized, exact and bounded: on a well-formed world the rows are, in the
  order of the UUIDs, the printed entities that are live, in the grant, inside its region, carry
  every tag asked for and overlap the box asked for; their bytes are within the retained bytes of
  the grant, and the copy expires with the session at the latest.\<close>

theorem start_copies_granted_rows:
  assumes start: "observe_start J (t0, t1, t2, t3) sn q s = (s', Some (Inr p))"
    and wf: "wf_snapshot sn"
  shows "\<exists>d. session_rows s' = Some d \<and> \<not> session_closed s' \<and>
    list_all2 (row_of J)
      (filter (answers (session_grant s) q)
         (sort_key entity_uuid
            (filter (\<lambda>x. entity_of x \<noteq> None \<and> \<not> retired x \<and> permitted (session_grant s) x) (slots sn))))
      (rows d) \<and>
    length (prefix_text d) + sum_list (map length (rows d)) \<le> retained_bytes (session_grant s) \<and>
    page_bytes d \<le> grant_response_bytes (session_grant s) \<and> row_deadline d \<le> session_expires s"
proof -
  obtain s1 d where s1: "s1 = expire_session t0 s" "\<not> session_closed s1"
    and cap: "capture J t1 sn q s1 = Some (Inr d)"
    and s': "s' = s1\<lparr>session_rows := Some d, session_serial := session_serial s1 + 1\<rparr>"
    by (rule start_Inr [OF start])
  note f = capture_fields [OF cap]
  have g: "session_grant s1 = session_grant s" "session_expires s1 = session_expires s"
    using s1(1) by (simp_all add: expire_fields)
  have "sorted (tags (the (entity_of x)))" if x: "x \<in> set (visible_slots (session_grant s) sn)" for x
  proof -
    obtain i e where "i < length (slots sn)" "slots sn ! i = x" "entity_of x = Some e"
      using x by (auto simp: visible_slots_def in_set_conv_nth)
    then show ?thesis using wf by (force simp: wf_snapshot_def wf_slots_def wf_slot_def wf_entity_def)
  qed
  then have "list_all2 (row_of J) (filter (answers (session_grant s) q) (visible_slots (session_grant s) sn)) (rows d) \<and>
      length (prefix_text d) + sum_list (map length (rows d)) \<le> retained_bytes (session_grant s)"
    using f(5) gather_rows [of J "session_grant s" q _ "visible_slots (session_grant s) sn" "rows d"] g by auto
  then show ?thesis
    using s' s1(2) f(2,3) g by (auto simp: visible_slots_def)
qed

lemma cube_snapshot_wf: "wf_snapshot cube_snapshot"
proof -
  have "slot_uuid 7 0 = ''00000007-0000-4000-8000-000000000001''" "ascii_id 128 ''w''" "sound_transform default_transform"
    by code_simp+
  moreover have "link (slots cube_snapshot) = {}"
    by (auto simp: cube_snapshot_def new_entity_def link_def child_of_def)
  then have "acyclic (link (slots cube_snapshot))" by (simp add: acyclic_def)
  ultimately show ?thesis
    by (simp add: wf_snapshot_def wf_slots_def) (simp add: cube_snapshot_def staged_version_def wf_slot_def wf_entity_def
        new_entity_def parents_live_def)
qed

theorem start_copies_granted_rows_witness:
  "\<exists>d. session_rows (reader_session\<lparr>session_rows := Some reader_rows, session_serial := 1\<rparr>) = Some d \<and>
     length (prefix_text d) + sum_list (map length (rows d)) \<le> 1000"
  using start_copies_granted_rows [OF reader_start cube_snapshot_wf] by (auto simp: reader_session_def reader_grant_def)

text \<open>C33: Expiry and ownership are enforced: once the clock has reached the end of the session every \<open>start\<close>
  is refused as not authorized and every \<open>next\<close> asks for a resync, the session stays closed and
  holds no rows; and a cursor of another session or of an earlier copy is refused.\<close>

theorem expired_or_foreign_refused:
  assumes "t0 \<ge> session_expires s \<or> session_closed s \<and> session_rows s = None"
  shows "(\<exists>s'. observe_start J (t0, t1, t2, t3) sn q s = (s', Some (Inl ''NOT_AUTHORIZED'')) \<and>
      session_closed s' \<and> session_rows s' = None) \<and>
    (\<exists>s'. observe_next (t0, t1, t2) c s = (s', Inl ''REQUIRES_RESYNC'') \<and>
      session_closed s' \<and> session_rows s' = None) \<and>
    (cursor_owner c' \<noteq> session_identity s2 \<or> cursor_serial c' \<noteq> session_serial s2 \<longrightarrow>
      snd (observe_next (u0, u1, u2) c' s2) = Inl ''REQUIRES_RESYNC'')"
proof -
  have closed: "session_closed (expire_session t0 s) \<and> session_rows (expire_session t0 s) = None"
    using assms by (auto simp: expire_session_def close_session_def)
  have own: "session_identity (expire_session u0 s2) = session_identity s2 \<or> session_closed (expire_session u0 s2)"
    by (auto simp: expire_session_def close_session_def split: option.splits)
  show ?thesis
    using closed own
    by (auto simp: observe_start_def observe_next_def Let_def expire_fields split: option.splits)
qed

theorem expired_or_foreign_refused_witness:
  "\<exists>s'. observe_start reader_lib (10000000, 0, 0, 0) cube_snapshot reader_query reader_session =
     (s', Some (Inl ''NOT_AUTHORIZED'')) \<and> session_closed s' \<and> session_rows s' = None"
proof -
  have "10000000 \<ge> session_expires reader_session \<or> session_closed reader_session \<and> session_rows reader_session = None"
    by (simp add: reader_session_def)
  from expired_or_foreign_refused [OF this] show ?thesis by blast
qed

end
