(* ===== verification/Persistence.thy ===== *)
theory Persistence
  imports Replay Sha256 Reader
begin

text \<open>
  The durable store of \<open>include/omniweft/persistence.hpp\<close>, \<open>src/persistence.cpp\<close> and the portable part of
  \<open>src/persistence_io.cpp\<close>: packages and their binary form, authenticated frames, and the store that
  appends a frame to its journal before it acknowledges a commit, compacts the journal into a
  checkpoint and recovers from both.

  A directory is the record \<open>disk\<close> of its files.  A call of the operating system may fail, a write
  after any number of its bytes, and the fault hook of the owner may throw at any phase; which do
  is the argument \<open>environment\<close>.  What was written stays (the store promises recovery from a crash
  of the process, not of the machine), so a flush has no effect of its own.  The random bytes of an
  epoch and the address of a new world are arguments.
\<close>

section \<open>Packages\<close>

definition package_limit :: nat where
  "package_limit = 256 * 1024"

definition header_size :: nat where
  "header_size = 52"

definition frame_overhead :: nat where
  "frame_overhead = 92"

definition commit_limit :: nat where
  "commit_limit = 8"

definition receipt_limit :: nat where
  "receipt_limit = 4"

definition journal_limit :: nat where
  "journal_limit = commit_limit * (package_limit + frame_overhead)"

definition maximum_quota :: u64 where
  "maximum_quota = 8 * 1024 * 1024"

record store_config =
  config_world_id :: string
  config_seed :: u32
  config_max_slots :: u32
  byte_quota :: u64

record store_entry =
  store_sequence :: u64
  store_tick :: u64
  store_payload :: string
  store_created :: "created_binding list"
  store_checkpoint :: bytes

record package =
  package_config :: store_config
  package_epoch :: string
  package_entries :: "store_entry list"
  package_receipts :: "receipt list"

definition package_high :: "package \<Rightarrow> u64" where
  "package_high p = of_nat (length (package_entries p))"

definition low_of :: "u64 \<Rightarrow> u64" where
  "low_of high = (if high > of_nat receipt_limit then high - of_nat receipt_limit + 1 else 1)"

definition package_low :: "package \<Rightarrow> u64" where
  "package_low p = low_of (package_high p)"

definition same_config :: "store_config \<Rightarrow> store_config \<Rightarrow> bool" where
  "same_config a b \<longleftrightarrow>
     config_world_id a = config_world_id b \<and> config_seed a = config_seed b \<and>
     config_max_slots a = config_max_slots b \<and> byte_quota a = byte_quota b"

section \<open>Bounds\<close>

fun stored_target_bounded :: "target \<Rightarrow> bool" where
  "stored_target_bounded (EntityTarget w u g) \<longleftrightarrow> length w \<le> 128 \<and> length u \<le> 36"
| "stored_target_bounded (TemporaryTarget name) \<longleftrightarrow> length name \<le> 64"

fun stored_operation_bounded :: "operation \<Rightarrow> bool" where
  "stored_operation_bounded (EntityCreate name pf) \<longleftrightarrow> length name \<le> 64 \<and> length pf \<le> 128"
| "stored_operation_bounded (EntityTagsSet t ts) \<longleftrightarrow>
     stored_target_bounded t \<and> length ts \<le> 8 \<and> list_all (\<lambda>tag. length tag \<le> 32) ts"
| "stored_operation_bounded (EntityReparent t p mode) \<longleftrightarrow>
     stored_target_bounded t \<and> length mode \<le> 32 \<and>
     (case p of None \<Rightarrow> True | Some q \<Rightarrow> stored_target_bounded q)"
| "stored_operation_bounded (EntityDelete t policy) \<longleftrightarrow> stored_target_bounded t \<and> length policy \<le> 32"
| "stored_operation_bounded (TransformSet t v) \<longleftrightarrow> stored_target_bounded t"

definition stored_command_bounded :: "envelope \<Rightarrow> bool" where
  "stored_command_bounded e \<longleftrightarrow>
     length (protocol_version e) \<le> 16 \<and> length (world_id e) \<le> 128 \<and> length (transaction_id e) \<le> 36 \<and>
     length (epoch (idempotency e)) \<le> 128 \<and> length (apply_mode (apply_at e)) \<le> 32 \<and>
     operations e \<noteq> [] \<and> length (operations e) \<le> operation_limit \<and>
     list_all stored_operation_bounded (operations e)"

section \<open>Writing\<close>

definition wr_u64 :: "u64 \<Rightarrow> bytes" where
  "wr_u64 v = map (\<lambda>i. ucast (drop_bit (i * 8) v)) [0 ..< 8]"

definition wr_u32 :: "u32 \<Rightarrow> bytes" where
  "wr_u32 v = map (\<lambda>i. ucast (drop_bit (i * 8) v)) [0 ..< 4]"

definition wr_text :: "string \<Rightarrow> bytes" where
  "wr_text s = wr_u32 (word_of_nat (length s)) @ str_bytes s"

definition wr_blob :: "bytes \<Rightarrow> bytes" where
  "wr_blob bs = wr_u32 (word_of_nat (length bs)) @ bs"

definition wr_binding :: "created_binding \<Rightarrow> bytes" where
  "wr_binding b =
     wr_text (binding_temporary_id b) @ wr_text (binding_world_id b) @ wr_text (binding_uuid b) @
     wr_u64 (binding_generation b)"

definition wr_bindings :: "created_binding list \<Rightarrow> bytes" where
  "wr_bindings bs = wr_u32 (word_of_nat (length bs)) @ concat (map wr_binding bs)"

definition wr_entry :: "store_entry \<Rightarrow> bytes" where
  "wr_entry e =
     wr_u64 (store_sequence e) @ wr_u64 (store_tick e) @ wr_text (store_payload e) @
     wr_bindings (store_created e) @ wr_blob (store_checkpoint e)"

definition wr_receipt :: "receipt \<Rightarrow> bytes" where
  "wr_receipt r =
     wr_text (receipt_status r) @ wr_text (receipt_durability r) @ wr_text (receipt_transaction_id r) @
     wr_u64 (receipt_revision r) @ wr_bindings (receipt_created r) @ wr_u32 0"

definition wr_package :: "package \<Rightarrow> bytes" where
  "wr_package p =
     (let c = package_config p in
      str_bytes ''OWPKG001'' @ wr_text (config_world_id c) @ wr_u32 (config_seed c) @
      wr_u32 (config_max_slots c) @ wr_u64 (byte_quota c) @ wr_text (package_epoch p) @
      wr_u64 (package_high p) @ wr_u64 (package_low p) @ wr_text builtin_manifest @ wr_text builtin_sha256 @
      wr_u32 (word_of_nat (length (package_entries p))) @ concat (map wr_entry (package_entries p)) @
      wr_u32 (word_of_nat (length (package_receipts p))) @ concat (map wr_receipt (package_receipts p)))"

definition encode_package :: "package \<Rightarrow> string + bytes" where
  "encode_package p =
     (let bs = wr_package p in
      rbind (require (length bs \<le> package_limit) ''BUDGET_EXCEEDED'') (\<lambda>_. Inr bs))"

section \<open>Reading\<close>

definition corrupt :: string where
  "corrupt = ''CORRUPT_STORE''"

definition pr_integer :: "nat \<Rightarrow> u64 reader" where
  "pr_integer n = rd_bind (rd_take corrupt n) (\<lambda>data. rd_return (or_bytes data))"

definition pr_u64 :: "u64 reader" where
  "pr_u64 = pr_integer 8"

definition pr_u32 :: "u32 reader" where
  "pr_u32 = rd_bind (pr_integer 4) (\<lambda>n. rd_return (ucast n))"

definition pr_blob :: "nat \<Rightarrow> bytes reader" where
  "pr_blob maximum =
     rd_bind pr_u32 (\<lambda>n.
     rd_bind (rd_check (unat n \<le> maximum) corrupt) (\<lambda>_.
     rd_take corrupt (unat n)))"

definition pr_text :: "nat \<Rightarrow> string reader" where
  "pr_text maximum =
     rd_bind pr_u32 (\<lambda>n.
     rd_bind (rd_check (unat n \<le> maximum) corrupt) (\<lambda>_.
     rd_bind (rd_take corrupt (unat n)) (\<lambda>v. rd_return (bytes_str v))))"

definition pr_magic :: "string \<Rightarrow> unit reader" where
  "pr_magic s =
     rd_bind (rd_take corrupt (length s)) (\<lambda>v. rd_check (v = str_bytes s) corrupt)"

definition pr_binding :: "created_binding reader" where
  "pr_binding =
     rd_bind (pr_text 64) (\<lambda>name.
     rd_bind (pr_text 128) (\<lambda>w.
     rd_bind (pr_text 36) (\<lambda>u.
     rd_bind pr_u64 (\<lambda>g.
     rd_return \<lparr>binding_temporary_id = name, binding_world_id = w, binding_uuid = u, binding_generation = g\<rparr>))))"

definition pr_bindings :: "created_binding list reader" where
  "pr_bindings =
     rd_bind pr_u32 (\<lambda>n.
     rd_bind (rd_check (unat n \<le> operation_limit) corrupt) (\<lambda>_.
     rd_times (unat n) pr_binding))"

definition pr_entry :: "store_entry reader" where
  "pr_entry =
     rd_bind pr_u64 (\<lambda>sequence.
     rd_bind pr_u64 (\<lambda>tick.
     rd_bind (pr_text command_limit) (\<lambda>payload.
     rd_bind pr_bindings (\<lambda>created.
     rd_bind (pr_blob checkpoint_limit) (\<lambda>bytes.
     rd_return \<lparr>store_sequence = sequence, store_tick = tick, store_payload = payload,
                store_created = created, store_checkpoint = bytes\<rparr>)))))"

definition epoch_ok :: "string \<Rightarrow> bool" where
  "epoch_ok s \<longleftrightarrow> length s = 64 \<and> list_all is_lower_hex s"

definition config_ok :: "store_config \<Rightarrow> bool" where
  "config_ok c \<longleftrightarrow>
     config_world_id c \<noteq> [] \<and> config_max_slots c \<ge> 1 \<and> config_max_slots c \<le> 8 \<and> byte_quota c \<le> maximum_quota"

text \<open>The header: the configuration, the epoch and the number of entries.\<close>

definition pr_header :: "(store_config \<times> string \<times> u64) reader" where
  "pr_header =
     rd_bind (pr_magic ''OWPKG001'') (\<lambda>_.
     rd_bind (pr_text 128) (\<lambda>i.
     rd_bind pr_u32 (\<lambda>sd.
     rd_bind pr_u32 (\<lambda>cap.
     rd_bind pr_u64 (\<lambda>quota.
     let c = \<lparr>config_world_id = i, config_seed = sd, config_max_slots = cap, byte_quota = quota\<rparr> in
     rd_bind (rd_check (config_ok c) corrupt) (\<lambda>_.
     rd_bind (pr_text 64) (\<lambda>ep.
     rd_bind (rd_check (epoch_ok ep) corrupt) (\<lambda>_.
     rd_bind pr_u64 (\<lambda>high.
     rd_bind pr_u64 (\<lambda>low.
     rd_bind (rd_check (high \<le> of_nat commit_limit \<and> low = low_of high) corrupt) (\<lambda>_.
     rd_bind (pr_text 4096) (\<lambda>manifest.
     rd_bind (rd_check (manifest = builtin_manifest) corrupt) (\<lambda>_.
     rd_bind (pr_text 64) (\<lambda>digest.
     rd_bind (rd_check (digest = builtin_sha256) corrupt) (\<lambda>_.
     rd_bind pr_u32 (\<lambda>count.
     rd_bind (rd_check (ucast count = high) corrupt) (\<lambda>_.
     rd_return (c, ep, high))))))))))))))))))"

text \<open>What an entry must be for its place in the log, with the envelope its payload parses to.\<close>

definition accept_entry ::
  "json_lib \<Rightarrow> store_config \<Rightarrow> string \<Rightarrow> nat \<Rightarrow> u64 \<Rightarrow> store_entry \<Rightarrow> string + envelope" where
  "accept_entry J c ep i tick entry =
     rbind (require (store_sequence entry = of_nat (i + 1) \<and> (i = 0 \<or> store_tick entry \<ge> tick)) corrupt) (\<lambda>_.
     case parse J (store_payload entry) of
       Inl errors \<Rightarrow> Inl corrupt
     | Inr e \<Rightarrow>
         rbind (require (stored_command_bounded e \<and> world_id e = config_world_id c \<and>
                  expected_world_revision e = of_nat i \<and> idem_sequence (idempotency e) = of_nat (i + 1) \<and>
                  epoch (idempotency e) = ep) corrupt) (\<lambda>_.
         rbind (require (serialize J e = Inr (store_payload entry)) corrupt) (\<lambda>_. Inr e)))"

definition entry_record :: "nat \<Rightarrow> store_entry \<Rightarrow> envelope \<Rightarrow> replay_record" where
  "entry_record i entry e =
     \<lparr>record_sequence = store_sequence entry, boundary_tick = store_tick entry, expected_revision = of_nat i,
      record_budget = budget e, record_operations = operations e, record_created = store_created entry,
      checkpoint = store_checkpoint entry\<rparr>"

definition entry_receipt_of :: "store_entry \<Rightarrow> envelope \<Rightarrow> receipt" where
  "entry_receipt_of entry e =
     \<lparr>receipt_status = ''committed'', receipt_durability = ''durable'',
      receipt_transaction_id = transaction_id e, receipt_revision = store_sequence entry,
      receipt_created = store_created entry, receipt_errors = []\<rparr>"

text \<open>Reading \<open>n\<close> entries from place \<open>i\<close> on: the entries, their records and the receipts from \<open>low\<close> on.\<close>

fun pr_entries ::
  "json_lib \<Rightarrow> store_config \<Rightarrow> string \<Rightarrow> u64 \<Rightarrow> nat \<Rightarrow> nat \<Rightarrow> u64 \<Rightarrow>
     (store_entry list \<times> replay_record list \<times> receipt list) reader" where
  "pr_entries J c ep low 0 i tick = rd_return ([], [], [])"
| "pr_entries J c ep low (Suc n) i tick =
     rd_bind pr_entry (\<lambda>entry.
     rd_bind (rd_lift (accept_entry J c ep i tick entry)) (\<lambda>e.
     rd_bind (pr_entries J c ep low n (i + 1) (store_tick entry)) (\<lambda>(entries, records, receipts).
     rd_return (entry # entries, entry_record i entry e # records,
       (if store_sequence entry \<ge> low then entry_receipt_of entry e # receipts else receipts)))))"

definition pr_receipt :: "receipt \<Rightarrow> receipt reader" where
  "pr_receipt expected =
     rd_bind (pr_text 16) (\<lambda>status.
     rd_bind (pr_text 16) (\<lambda>durability.
     rd_bind (pr_text 36) (\<lambda>transaction.
     rd_bind pr_u64 (\<lambda>revision.
     rd_bind pr_bindings (\<lambda>created.
     rd_bind pr_u32 (\<lambda>errors.
     rd_bind (rd_check (errors = 0) corrupt) (\<lambda>_.
     let r = \<lparr>receipt_status = status, receipt_durability = durability, receipt_transaction_id = transaction,
              receipt_revision = revision, receipt_created = created, receipt_errors = []\<rparr> in
     rd_bind (rd_check (r = expected) corrupt) (\<lambda>_. rd_return r))))))))"

fun pr_receipts :: "receipt list \<Rightarrow> receipt list reader" where
  "pr_receipts [] = rd_return []"
| "pr_receipts (r # rs) = rd_bind (pr_receipt r) (\<lambda>x. rd_bind (pr_receipts rs) (\<lambda>xs. rd_return (x # xs)))"

definition pr_end :: "unit reader" where
  "pr_end bs = (if bs = [] then Inr ((), bs) else Inl corrupt)"

definition log_of :: "store_config \<Rightarrow> replay_record list \<Rightarrow> replay_log" where
  "log_of c rs =
     empty_log\<lparr>log_world_id := config_world_id c, log_seed := config_seed c, log_max_slots := config_max_slots c,
       log_records := rs\<rparr>"

definition pr_package :: "json_lib \<Rightarrow> (package \<times> replay_record list) reader" where
  "pr_package J =
     rd_bind pr_header (\<lambda>(c, ep, high).
     rd_bind (pr_entries J c ep (low_of high) (unat high) 0 0) (\<lambda>(entries, records, expected).
     rd_bind pr_u32 (\<lambda>retained.
     rd_bind (rd_check (unat retained = length expected) corrupt) (\<lambda>_.
     rd_bind (pr_receipts expected) (\<lambda>receipts.
     rd_bind pr_end (\<lambda>_.
     rd_return (\<lparr>package_config = c, package_epoch = ep, package_entries = entries,
       package_receipts = receipts\<rparr>, records)))))))"

definition decode_package :: "json_lib \<Rightarrow> nat \<Rightarrow> bytes \<Rightarrow> string + package \<times> world" where
  "decode_package J address bs =
     rbind (pr_package J bs) (\<lambda>((p, records), _).
     case reconstruct J address (log_of (package_config p) records) [builtin_asset] of
       Inl error \<Rightarrow> Inl corrupt
     | Inr w \<Rightarrow> Inr (p, w))"

section \<open>Frames\<close>

definition store_frame :: "package \<Rightarrow> string + bytes" where
  "store_frame p =
     rbind (encode_package p) (\<lambda>payload.
     let head = str_bytes ''OWJRN001'' @ wr_u32 (word_of_nat (length payload)) @ wr_u64 (package_high p) in
     rbind (sha256 head) (\<lambda>header_digest.
     let body = head @ header_digest @ payload in
     rbind (sha256 body) (\<lambda>digest.
     Inr (body @ digest @ str_bytes ''OWEND001''))))"

definition torn_header_ok :: "bytes \<Rightarrow> string + unit" where
  "torn_header_ok remaining =
     rbind (require (take (min (length remaining) 8) remaining =
                     take (min (length remaining) 8) (str_bytes ''OWJRN001'')) corrupt) (\<lambda>_.
     if length remaining > 20
     then rbind (sha256 (take 20 remaining)) (\<lambda>expected.
            require (drop 20 remaining = take (length remaining - 20) expected) corrupt)
     else Inr ())"

text \<open>
  The frame at the head of the remaining bytes, as its payload, its number and the bytes after it;
  \<open>None\<close> when the bytes end before the frame does.
\<close>

definition read_frame :: "bytes \<Rightarrow> string + (bytes \<times> u64 \<times> bytes) option" where
  "read_frame remaining =
     (if length remaining < header_size then rbind (torn_header_ok remaining) (\<lambda>_. Inr None)
      else
        rbind (sha256 (take 20 remaining)) (\<lambda>header_digest.
        rbind (require (take (header_size - 20) (drop 20 remaining) = header_digest) corrupt) (\<lambda>_.
        rbind (pr_magic ''OWJRN001'' remaining) (\<lambda>(_, r1).
        rbind (pr_u32 r1) (\<lambda>(count, r2).
        rbind (require (unat count \<le> package_limit) corrupt) (\<lambda>_.
        rbind (pr_u64 r2) (\<lambda>(high, r3).
        rbind (require (high \<le> of_nat commit_limit) corrupt) (\<lambda>_.
        rbind (rd_take corrupt 32 r3) (\<lambda>(_, r4).
        if length remaining < unat count + frame_overhead then Inr None
        else
          rbind (rd_take corrupt (unat count) r4) (\<lambda>(payload, r5).
          rbind (rd_take corrupt 32 r5) (\<lambda>(digest, r6).
          rbind (sha256 (take (header_size + unat count) remaining)) (\<lambda>expected.
          rbind (require (digest = expected) corrupt) (\<lambda>_.
          rbind (pr_magic ''OWEND001'' r6) (\<lambda>(_, r7).
          Inr (Some (payload, high, r7))))))))))))))))"

definition prefix_check :: "package \<Rightarrow> package \<Rightarrow> string + unit" where
  "prefix_check earlier later =
     rbind (require (same_config (package_config earlier) (package_config later) \<and>
                     package_epoch earlier = package_epoch later \<and>
                     package_high earlier \<le> package_high later) corrupt) (\<lambda>_.
     require (package_entries earlier =
              take (length (package_entries earlier)) (package_entries later)) corrupt)"

section \<open>The directory\<close>

record disk =
  checkpoint_file :: "bytes option"
  scratch_file :: "bytes option"
  journal_file :: "bytes option"
  stray_entry :: bool
  lock_taken :: bool

datatype phase =
    Before_Blob_Flush | Before_Journal_Flush | After_Journal_Flush
  | Before_Ack | After_Ack | Before_Checkpoint_Flush | After_Checkpoint_Flush
  | Before_Checkpoint_Replace | After_Checkpoint_Replace
  | Before_Journal_Reclaim | After_Journal_Reclaim

datatype io_point =
    Take_Lock | Journal_Head | Head_Flush | Journal_Tail | Tail_Flush | Scratch_Write | Scratch_Flush | Scratch_Read
  | Replace_Checkpoint | Empty_Journal | Journal_Flush | Sync_Directory | Sync_Parent | Checkpoint_Read | Journal_Read
  | Truncate_Journal | Truncate_Flush | Remove_Scratch | Make_Directory

text \<open>\<open>call_fails c = Some n\<close>: the call \<open>c\<close> fails after \<open>n\<close> bytes; an atomic call has its effect when \<open>n\<close> is not 0.\<close>

record environment =
  hook_throws :: "phase \<Rightarrow> bool"
  call_fails :: "io_point \<Rightarrow> nat option"

text \<open>A \<open>Failure\<close> with its code, or any other exception.\<close>

datatype store_exn = Failed string | Thrown

type_synonym 'a store_io = "(disk, store_exn, 'a) gx"

definition store_phase :: "environment \<Rightarrow> phase \<Rightarrow> unit store_io" where
  "store_phase env p d = (d, if hook_throws env p then Inl Thrown else Inr ())"

definition fail_as :: "string + 'a \<Rightarrow> 'a store_io" where
  "fail_as r d = (d, case r of Inl code \<Rightarrow> Inl (Failed code) | Inr a \<Rightarrow> Inr a)"

definition io_call :: "environment \<Rightarrow> io_point \<Rightarrow> (nat option \<Rightarrow> disk \<Rightarrow> disk) \<Rightarrow> unit store_io" where
  "io_call env c act d =
     (case call_fails env c of
        None \<Rightarrow> (act None d, Inr ())
      | Some n \<Rightarrow> (act (Some n) d, Inl (Failed ''IO_ERROR'')))"

definition no_effect :: "nat option \<Rightarrow> disk \<Rightarrow> disk" where
  "no_effect r d = d"

definition written :: "bytes \<Rightarrow> nat option \<Rightarrow> bytes" where
  "written bs r = (case r of None \<Rightarrow> bs | Some n \<Rightarrow> take n bs)"

definition contents :: "bytes option \<Rightarrow> bytes" where
  "contents f = (case f of None \<Rightarrow> [] | Some bs \<Rightarrow> bs)"

definition append_journal :: "bytes \<Rightarrow> nat option \<Rightarrow> disk \<Rightarrow> disk" where
  "append_journal bs r d = d\<lparr>journal_file := Some (contents (journal_file d) @ written bs r)\<rparr>"

definition write_scratch :: "bytes \<Rightarrow> nat option \<Rightarrow> disk \<Rightarrow> disk" where
  "write_scratch bs r d = d\<lparr>scratch_file := Some (written bs r)\<rparr>"

definition atomically :: "(disk \<Rightarrow> disk) \<Rightarrow> nat option \<Rightarrow> disk \<Rightarrow> disk" where
  "atomically f r d = (if r = Some 0 then d else f d)"

definition check_directory :: "disk \<Rightarrow> string + unit" where
  "check_directory d = require (\<not> stray_entry d) corrupt"

definition add_size :: "u64 \<Rightarrow> bytes option \<Rightarrow> string + u64" where
  "add_size used f =
     (let n = of_nat (length (contents f)) in
      if length (contents f) > unat maximum_quota \<or> used > maximum_quota - n then Inl ''QUOTA_EXCEEDED''
      else Inr (used + n))"

text \<open>The lock file is empty.\<close>

definition bytes_used :: "disk \<Rightarrow> string + u64" where
  "bytes_used d =
     rbind (check_directory d) (\<lambda>_.
     rbind (add_size 0 (checkpoint_file d)) (\<lambda>n1.
     rbind (add_size n1 (scratch_file d)) (\<lambda>n2. add_size n2 (journal_file d))))"

definition quota_check :: "disk \<Rightarrow> package \<Rightarrow> nat \<Rightarrow> string + unit" where
  "quota_check d p added =
     rbind (bytes_used d) (\<lambda>used.
     let limit = byte_quota (package_config p) in
     require (\<not> (used > limit \<or> added > unat (limit - used))) ''QUOTA_EXCEEDED'')"

definition io_read :: "environment \<Rightarrow> io_point \<Rightarrow> bytes option \<Rightarrow> nat \<Rightarrow> bytes store_io" where
  "io_read env c f limit =
     (case f of
        None \<Rightarrow> fail_as (Inl ''IO_ERROR'')
      | Some bs \<Rightarrow>
          if length bs > limit then fail_as (Inl corrupt)
          else gbind (io_call env c no_effect) (\<lambda>_. gret bs))"

definition take_lock :: "environment \<Rightarrow> unit store_io" where
  "take_lock env d =
     (if lock_taken d then (d, Inl (Failed ''STORE_LOCKED''))
      else io_call env Take_Lock (\<lambda>r d. if r = None then d\<lparr>lock_taken := True\<rparr> else d) d)"

definition release_lock :: "disk \<Rightarrow> disk" where
  "release_lock d = d\<lparr>lock_taken := False\<rparr>"

text \<open>The lock goes with the object that holds it, so a failed operation releases it.\<close>

definition holding_lock :: "environment \<Rightarrow> 'a store_io \<Rightarrow> 'a store_io" where
  "holding_lock env m =
     gbind (take_lock env) (\<lambda>_ d.
     case m d of
       (d', Inl x) \<Rightarrow> (release_lock d', Inl x)
     | (d', Inr a) \<Rightarrow> (d', Inr a))"

definition epoch_text :: "bytes \<Rightarrow> string" where
  "epoch_text random =
     concat (map (\<lambda>b. [''0123456789abcdef'' ! unat (drop_bit 4 b), ''0123456789abcdef'' ! unat (and b 15)]) random)"

section \<open>The store\<close>

record store =
  store_package :: package
  store_world :: world
  sealed :: bool

record store_result =
  stored_receipt :: "receipt option"
  stored_replayed :: bool
  durable_revision :: u64
  high_water :: u64
  low_water :: u64
  recovery_required :: bool
  stored_code :: string

definition result_of :: "package \<Rightarrow> bool \<Rightarrow> string \<Rightarrow> store_result" where
  "result_of p is_sealed code =
     \<lparr>stored_receipt = None, stored_replayed = False, durable_revision = package_high p,
      high_water = package_high p, low_water = package_low p, recovery_required = is_sealed,
      stored_code = code\<rparr>"

definition store_result_of :: "store \<Rightarrow> string \<Rightarrow> store_result" where
  "store_result_of s code = result_of (store_package s) (sealed s) code"

definition write_checkpoint :: "environment \<Rightarrow> bytes \<Rightarrow> unit store_io" where
  "write_checkpoint env bs =
     gbind (io_call env Scratch_Write (write_scratch bs)) (\<lambda>_.
     gbind (store_phase env Before_Checkpoint_Flush) (\<lambda>_.
     gbind (io_call env Scratch_Flush no_effect) (\<lambda>_.
     gbind (store_phase env After_Checkpoint_Flush) (\<lambda>_.
     gbind (\<lambda>d. io_read env Scratch_Read (scratch_file d) (package_limit + frame_overhead) d) (\<lambda>stored.
     gbind (fail_as (require (stored = bs) corrupt)) (\<lambda>_.
     gbind (store_phase env Before_Checkpoint_Replace) (\<lambda>_.
     gbind (io_call env Replace_Checkpoint
              (atomically (\<lambda>d. d\<lparr>checkpoint_file := scratch_file d, scratch_file := None\<rparr>))) (\<lambda>_.
     store_phase env After_Checkpoint_Replace))))))))"

section \<open>Appending a commit\<close>

text \<open>The state of the observer: what it owns and what it changes of the store.\<close>

record store_observer =
  observed_disk :: disk
  observed_package :: package
  observed_prepared :: package
  observed_touched :: bool
  observed_result :: store_result

definition durable_receipt :: "receipt \<Rightarrow> receipt" where
  "durable_receipt r = r\<lparr>receipt_durability := ''durable''\<rparr>"

definition keep_last :: "receipt list \<Rightarrow> receipt list" where
  "keep_last rs = (if length rs > receipt_limit then drop 1 rs else rs)"

definition extend_package :: "package \<Rightarrow> store_entry \<Rightarrow> receipt \<Rightarrow> package" where
  "extend_package p entry receipt =
     p\<lparr>package_entries := package_entries p @ [entry],
       package_receipts := keep_last (package_receipts p @ [durable_receipt receipt])\<rparr>"

definition write_frame :: "environment \<Rightarrow> bytes \<Rightarrow> unit store_io" where
  "write_frame env bs =
     gbind (io_call env Journal_Head (append_journal (take (length bs - 40) bs))) (\<lambda>_.
     gbind (store_phase env Before_Blob_Flush) (\<lambda>_.
     gbind (io_call env Head_Flush no_effect) (\<lambda>_.
     gbind (io_call env Journal_Tail (append_journal (drop (length bs - 40) bs))) (\<lambda>_.
     gbind (store_phase env Before_Journal_Flush) (\<lambda>_.
     gbind (io_call env Tail_Flush no_effect) (\<lambda>_.
     store_phase env After_Journal_Flush))))))"

definition store_prepare ::
  "environment \<Rightarrow> string \<Rightarrow> u64 \<Rightarrow> snapshot \<Rightarrow> receipt \<Rightarrow> (store_observer, store_exn prepare_failure, unit) gx" where
  "store_prepare env payload tick sn receipt obs =
     (let p = observed_package obs;
          entry = \<lparr>store_sequence = package_high p + 1, store_tick = tick, store_payload = payload,
                   store_created = receipt_created receipt, store_checkpoint = canonical_bytes sn\<rparr>
      in if length (store_checkpoint entry) > checkpoint_limit
         then (obs\<lparr>observed_prepared := p\<rparr>, Inl (Throws (Failed ''BUDGET_EXCEEDED'')))
         else
           let p' = extend_package p entry receipt;
               res = (observed_result obs)\<lparr>stored_receipt := Some (durable_receipt receipt),
                       durable_revision := package_high p', high_water := package_high p',
                       low_water := package_low p'\<rparr>;
               obs1 = obs\<lparr>observed_prepared := p', observed_result := res\<rparr>
           in case store_frame p' of
                Inl code \<Rightarrow> (obs1, Inl (Throws (Failed code)))
              | Inr bs \<Rightarrow>
                  (case quota_check (observed_disk obs) p' (length bs) of
                     Inl code \<Rightarrow> (obs1, Inl (Throws (Failed code)))
                   | Inr _ \<Rightarrow>
                       (case write_frame env bs (observed_disk obs) of
                          (d, Inl x) \<Rightarrow> (obs1\<lparr>observed_disk := d, observed_touched := True\<rparr>, Inl (Throws x))
                        | (d, Inr _) \<Rightarrow> (obs1\<lparr>observed_disk := d, observed_touched := True\<rparr>, Inr ()))))"

definition store_publish :: "store_observer \<Rightarrow> store_observer" where
  "store_publish obs =
     obs\<lparr>observed_package := observed_prepared obs, observed_prepared := observed_package obs\<rparr>"

definition storing_observer :: "environment \<Rightarrow> string \<Rightarrow> u64 \<Rightarrow> (store_observer, store_exn) observer_hooks" where
  "storing_observer env payload tick =
     \<lparr>observer_prepare = store_prepare env payload tick, observer_publish = store_publish\<rparr>"

section \<open>Operations\<close>

definition store_lookup :: "store \<Rightarrow> u64 \<Rightarrow> store_result" where
  "store_lookup s sequence =
     (let p = store_package s in
      if sealed s then store_result_of s ''RECOVERY_REQUIRED''
      else if sequence < package_low p then store_result_of s ''REQUIRES_RESYNC''
      else if sequence > package_high p then store_result_of s ''NOT_FOUND''
      else (store_result_of s [])
             \<lparr>stored_receipt := Some (package_receipts p ! unat (sequence - package_low p)),
              stored_replayed := True\<rparr>)"

text \<open>A request whose number is in the window: the stored receipt, or the seal if the hook throws.\<close>

definition store_replay :: "environment \<Rightarrow> string \<Rightarrow> u64 \<Rightarrow> store \<Rightarrow> store \<times> store_result" where
  "store_replay env payload sequence s =
     (if payload \<noteq> store_payload (package_entries (store_package s) ! unat (sequence - 1))
      then (s, store_result_of s ''IDEMPOTENCY_CONFLICT'')
      else if hook_throws env Before_Ack
      then (s\<lparr>sealed := True\<rparr>, store_result_of (s\<lparr>sealed := True\<rparr>) ''OUTCOME_UNKNOWN'')
      else (s, store_lookup s sequence))"

definition exn_code :: "store_exn \<Rightarrow> string" where
  "exn_code x = (case x of Failed code \<Rightarrow> code | Thrown \<Rightarrow> ''RESOURCE_EXHAUSTED'')"

definition store_commit ::
  "json_lib \<Rightarrow> environment \<Rightarrow> envelope \<Rightarrow> string \<Rightarrow> u64 \<Rightarrow> disk \<times> store \<Rightarrow> (disk \<times> store) \<times> store_result" where
  "store_commit J env e payload tick ds =
     (let (d, s) = ds;
          obs0 = \<lparr>observed_disk = d, observed_package = store_package s, observed_prepared = store_package s,
                  observed_touched = False, observed_result = store_result_of s []\<rparr>
      in case apply_at_boundary J (None :: unit staging_hooks option) (Some (storing_observer env payload tick)) e
                (store_world s, (), obs0) of
           ((w', _, obs), Inr receipt) \<Rightarrow>
             let s' = s\<lparr>store_world := w', store_package := observed_package obs\<rparr> in
             if receipt_status receipt \<noteq> ''committed''
             then ((observed_disk obs, s'),
                   (store_result_of s' (case receipt_errors receipt of [] \<Rightarrow> ''INVALID_SCHEMA'' | err # _ \<Rightarrow> terr_code err))
                     \<lparr>stored_receipt := Some receipt\<rparr>)
             else if hook_throws env Before_Ack
             then ((observed_disk obs, s'\<lparr>sealed := True\<rparr>), store_result_of (s'\<lparr>sealed := True\<rparr>) ''OUTCOME_UNKNOWN'')
             else ((observed_disk obs, s'), observed_result obs)
         | ((w', _, obs), Inl x) \<Rightarrow>
             let s' = s\<lparr>store_world := w', store_package := observed_package obs\<rparr> in
             if \<not> observed_touched obs then ((observed_disk obs, s'), store_result_of s' (exn_code x))
             else ((observed_disk obs, s'\<lparr>sealed := True\<rparr>), store_result_of (s'\<lparr>sealed := True\<rparr>) ''OUTCOME_UNKNOWN''))"

definition apply_await_durable ::
  "json_lib \<Rightarrow> environment \<Rightarrow> envelope \<Rightarrow> u64 \<Rightarrow> disk \<times> store \<Rightarrow> (disk \<times> store) \<times> store_result" where
  "apply_await_durable J env e tick ds =
     (let (d, s) = ds; p = store_package s; sequence = idem_sequence (idempotency e) in
      if sealed s then (ds, store_result_of s ''RECOVERY_REQUIRED'')
      else if \<not> stored_command_bounded e then (ds, store_result_of s ''BUDGET_EXCEEDED'')
      else case serialize J e of
        Inl errors \<Rightarrow> (ds, store_result_of s ''INVALID_SCHEMA'')
      | Inr payload \<Rightarrow>
          if length payload > command_limit then (ds, store_result_of s ''BUDGET_EXCEEDED'')
          else if epoch (idempotency e) \<noteq> package_epoch p then (ds, store_result_of s ''EPOCH_MISMATCH'')
          else if sequence < package_low p then (ds, store_result_of s ''REQUIRES_RESYNC'')
          else if sequence \<le> package_high p then
            (let (s', r) = store_replay env payload sequence s in ((d, s'), r))
          else if sequence \<noteq> package_high p + 1 then (ds, store_result_of s ''SEQUENCE_GAP'')
          else if package_high p = of_nat commit_limit then (ds, store_result_of s ''BUDGET_EXCEEDED'')
          else if package_entries p \<noteq> [] \<and> tick < store_tick (last (package_entries p))
          then (ds, store_result_of s ''INVALID_TICK'')
          else store_commit J env e payload tick ds)"

definition empty_journal :: "nat option \<Rightarrow> disk \<Rightarrow> disk" where
  "empty_journal = atomically (\<lambda>d. d\<lparr>journal_file := Some []\<rparr>)"

definition compact_steps :: "environment \<Rightarrow> bytes \<Rightarrow> unit store_io" where
  "compact_steps env bs =
     gbind (write_checkpoint env bs) (\<lambda>_.
     gbind (store_phase env Before_Journal_Reclaim) (\<lambda>_.
     gbind (io_call env Empty_Journal empty_journal) (\<lambda>_.
     gbind (io_call env Journal_Flush no_effect) (\<lambda>_.
     gbind (io_call env Sync_Directory no_effect) (\<lambda>_.
     store_phase env After_Journal_Reclaim)))))"

definition store_compact :: "environment \<Rightarrow> disk \<times> store \<Rightarrow> (disk \<times> store) \<times> store_result" where
  "store_compact env ds =
     (let (d, s) = ds in
      if sealed s then (ds, store_result_of s ''RECOVERY_REQUIRED'')
      else case store_frame (store_package s) of
        Inl code \<Rightarrow> (ds, store_result_of s code)
      | Inr bs \<Rightarrow>
          (case quota_check d (store_package s) (length bs) of
             Inl code \<Rightarrow> (ds, store_result_of s code)
           | Inr _ \<Rightarrow>
               (case compact_steps env bs d of
                  (d', Inl x) \<Rightarrow> ((d', s\<lparr>sealed := True\<rparr>), store_result_of (s\<lparr>sealed := True\<rparr>) ''OUTCOME_UNKNOWN'')
                | (d', Inr _) \<Rightarrow> ((d', s), store_result_of s []))))"

definition notify_acknowledged :: "environment \<Rightarrow> store \<Rightarrow> store \<times> (string + unit)" where
  "notify_acknowledged env s =
     (if sealed s then (s, Inl ''RECOVERY_REQUIRED'')
      else if hook_throws env After_Ack then (s\<lparr>sealed := True\<rparr>, Inl ''OUTCOME_UNKNOWN'')
      else (s, Inr ()))"

definition store_snapshot :: "store \<Rightarrow> string + snapshot" where
  "store_snapshot s = (if sealed s then Inl ''RECOVERY_REQUIRED'' else Inr (state (store_world s)))"

section \<open>Creation\<close>

definition empty_disk :: disk where
  "empty_disk =
     \<lparr>checkpoint_file = None, scratch_file = None, journal_file = None, stray_entry = False, lock_taken = False\<rparr>"

definition rethrow :: "'a store_io \<Rightarrow> disk \<Rightarrow> disk \<times> (string + 'a)" where
  "rethrow m d =
     (case m d of
        (d', Inl (Failed code)) \<Rightarrow> (d', Inl code)
      | (d', Inl Thrown) \<Rightarrow> (d', Inl ''IO_ERROR'')
      | (d', Inr a) \<Rightarrow> (d', Inr a))"

definition create_steps :: "environment \<Rightarrow> package \<Rightarrow> unit store_io" where
  "create_steps env p =
     gbind (\<lambda>d. fail_as (check_directory d) d) (\<lambda>_.
     holding_lock env (
     gbind (fail_as (store_frame p)) (\<lambda>bs.
     gbind (\<lambda>d. fail_as (quota_check d p (length bs)) d) (\<lambda>_.
     gbind (io_call env Empty_Journal empty_journal) (\<lambda>_.
     gbind (io_call env Journal_Flush no_effect) (\<lambda>_.
     gbind (write_checkpoint env bs) (\<lambda>_.
     gbind (io_call env Sync_Directory no_effect) (\<lambda>_.
     io_call env Sync_Parent no_effect))))))))"

text \<open>The directory is \<open>None\<close> when it does not exist.\<close>

definition store_create ::
  "environment \<Rightarrow> nat \<Rightarrow> bytes \<Rightarrow> store_config \<Rightarrow> disk option \<Rightarrow> disk option \<times> (string + store)" where
  "store_create env address random c directory =
     (if config_world_id c = [] \<or> length (config_world_id c) > 128 \<or> config_max_slots c = 0 \<or>
         config_max_slots c > 8 \<or> byte_quota c > maximum_quota
      then (directory, Inl ''INVALID_CONFIG'')
      else case make_world address (config_world_id c) (config_seed c) (config_max_slots c) of
        Inl message \<Rightarrow> (directory, Inl ''IO_ERROR'')
      | Inr w \<Rightarrow>
          let p = \<lparr>package_config = c, package_epoch = epoch_text random, package_entries = [], package_receipts = []\<rparr> in
          case directory of
            Some d \<Rightarrow> (Some d, Inl ''STORE_EXISTS'')
          | None \<Rightarrow>
              if call_fails env Make_Directory \<noteq> None then (None, Inl ''IO_ERROR'')
              else case rethrow (create_steps env p) empty_disk of
                (d, Inl code) \<Rightarrow> (Some d, Inl code)
              | (d, Inr _) \<Rightarrow> (Some d, Inr \<lparr>store_package = p, store_world = w, sealed = False\<rparr>))"

section \<open>Recovery\<close>

lemma read_frame_shorter:
  assumes "read_frame bs = Inr (Some (payload, high, rest))"
  shows "length rest < length bs"
  using assms
  by (auto simp: read_frame_def pr_magic_def pr_u32_def pr_u64_def pr_integer_def rd_simps res_simps rd_take_Inr
      split: if_splits)

text \<open>
  The scan of the journal: \<open>selected\<close> is the package of the checkpoint, \<open>restored\<close> the newest state
  found so far, \<open>prior\<close> the previous frame.  The rest of the journal after the last frame is returned.
\<close>

definition accept_frame ::
  "package \<Rightarrow> package \<times> world \<Rightarrow> package option \<Rightarrow> u64 \<Rightarrow> package \<times> world \<Rightarrow> string + package \<times> world" where
  "accept_frame selected restored prior high candidate =
     (let p = fst candidate in
      rbind (require (high = package_high p \<and> high > 0) corrupt) (\<lambda>_.
      rbind (case prior of
               Some q \<Rightarrow> rbind (require (package_high p = package_high q + 1) corrupt) (\<lambda>_. prefix_check q p)
             | None \<Rightarrow> require (package_high p \<le> package_high selected + 1) corrupt) (\<lambda>_.
      rbind (if package_high p \<le> package_high selected then prefix_check p selected
             else rbind (require (package_high p = package_high (fst restored) + 1) corrupt)
                    (\<lambda>_. prefix_check (fst restored) p)) (\<lambda>_.
      Inr (if package_high p > package_high (fst restored) then candidate else restored)))))"

function scan_journal ::
  "json_lib \<Rightarrow> nat \<Rightarrow> package \<Rightarrow> package \<times> world \<Rightarrow> package option \<Rightarrow> bytes \<Rightarrow> string + (package \<times> world) \<times> bytes" where
  "scan_journal J address selected restored prior bs =
     (if bs = [] then Inr (restored, [])
      else case read_frame bs of
        Inl code \<Rightarrow> Inl code
      | Inr None \<Rightarrow> Inr (restored, bs)
      | Inr (Some (payload, high, rest)) \<Rightarrow>
          (case decode_package J address payload of
             Inl code \<Rightarrow> Inl code
           | Inr candidate \<Rightarrow>
               (case accept_frame selected restored prior high candidate of
                  Inl code \<Rightarrow> Inl code
                | Inr restored' \<Rightarrow> scan_journal J address selected restored' (Some (fst candidate)) rest)))"
  by pat_completeness auto

termination scan_journal
  by (relation "measure (\<lambda>(J, address, selected, restored, prior, bs). length bs)") (auto dest: read_frame_shorter)

declare scan_journal.simps [simp del]

definition read_checkpoint :: "json_lib \<Rightarrow> nat \<Rightarrow> bytes \<Rightarrow> string + package \<times> world" where
  "read_checkpoint J address bs =
     rbind (read_frame bs) (\<lambda>found.
     case found of
       None \<Rightarrow> Inl corrupt
     | Some (payload, high, rest) \<Rightarrow>
         rbind (require (rest = []) corrupt) (\<lambda>_.
         rbind (decode_package J address payload) (\<lambda>(p, w).
         rbind (require (package_high p = high) corrupt) (\<lambda>_. Inr (p, w)))))"

definition truncate_journal :: "nat \<Rightarrow> nat option \<Rightarrow> disk \<Rightarrow> disk" where
  "truncate_journal n = atomically (\<lambda>d. d\<lparr>journal_file := Some (take n (contents (journal_file d)))\<rparr>)"

definition open_checks :: "package \<times> world \<Rightarrow> disk \<Rightarrow> string + unit" where
  "open_checks restored d =
     rbind (bytes_used d) (\<lambda>used.
     rbind (require (used \<le> byte_quota (package_config (fst restored))) ''QUOTA_EXCEEDED'') (\<lambda>_.
     case scratch_file d of
       None \<Rightarrow> Inr ()
     | Some bs \<Rightarrow> require (length bs \<le> package_limit + frame_overhead) corrupt))"

definition repair_journal :: "environment \<Rightarrow> nat \<Rightarrow> bool \<Rightarrow> unit store_io" where
  "repair_journal env keep torn =
     (if torn
      then gbind (io_call env Truncate_Journal (truncate_journal keep)) (\<lambda>_. io_call env Truncate_Flush no_effect)
      else gret ())"

definition remove_scratch :: "environment \<Rightarrow> unit store_io" where
  "remove_scratch env d =
     (if scratch_file d = None then (d, Inr ())
      else gbind (io_call env Remove_Scratch (atomically (\<lambda>d. d\<lparr>scratch_file := None\<rparr>)))
             (\<lambda>_. io_call env Sync_Directory no_effect) d)"

definition open_steps :: "json_lib \<Rightarrow> environment \<Rightarrow> nat \<Rightarrow> (package \<times> world) store_io" where
  "open_steps J env address =
     gbind (\<lambda>d. fail_as (check_directory d) d) (\<lambda>_.
     holding_lock env (
     gbind (\<lambda>d. io_read env Checkpoint_Read (checkpoint_file d) (package_limit + frame_overhead) d) (\<lambda>cp.
     gbind (fail_as (read_checkpoint J address cp)) (\<lambda>selected.
     gbind (\<lambda>d. io_read env Journal_Read (journal_file d) journal_limit d) (\<lambda>journal.
     gbind (fail_as (scan_journal J address (fst selected) selected None journal)) (\<lambda>(restored, rest).
     gbind (\<lambda>d. fail_as (open_checks restored d) d) (\<lambda>_.
     gbind (repair_journal env (length journal - length rest) (rest \<noteq> [])) (\<lambda>_.
     gbind (remove_scratch env) (\<lambda>_. gret restored)))))))))"

definition store_open :: "json_lib \<Rightarrow> environment \<Rightarrow> nat \<Rightarrow> disk \<Rightarrow> disk \<times> (string + store)" where
  "store_open J env address d =
     (case rethrow (open_steps J env address) d of
        (d', Inl code) \<Rightarrow> (d', Inl code)
      | (d', Inr (p, w)) \<Rightarrow> (d', Inr \<lparr>store_package = p, store_world = w, sealed = False\<rparr>))"

end
