(* ===== verification/Persistence_Codec.thy ===== *)
theory Persistence_Codec
  imports Persistence Replay_Claims
begin

text \<open>
  The binary form of a package reads back what was written, and so does a frame, whatever follows
  it; every proper prefix of a frame is recognised as torn.
\<close>

section \<open>Integers, text and blobs\<close>

lemma wr_u64_eq: "wr_u64 v = integer_bytes v 8"
proof -
  have "(ucast (and x 255) :: u8) = ucast x" for x :: u64
  proof -
    have m: "(255 :: u64) = mask 8" by (simp add: mask_eq_exp_minus_1)
    show ?thesis unfolding m by (rule bit_word_eqI) (auto simp: bit_simps)
  qed
  then show ?thesis by (simp add: wr_u64_def integer_bytes_def mult.commute)
qed

lemma wr_u32_eq: "wr_u32 v = integer_bytes (ucast v) 4"
proof -
  have "(ucast (and (drop_bit k (ucast v :: u64)) 255) :: u8) = ucast (drop_bit k v)" for k
  proof -
    have m: "(255 :: u64) = mask 8" by (simp add: mask_eq_exp_minus_1)
    show ?thesis unfolding m by (rule bit_word_eqI) (auto simp: bit_simps dest: bit_imp_le_length)
  qed
  then show ?thesis by (simp add: wr_u32_def integer_bytes_def mult.commute)
qed

lemma length_wr_u64 [simp, codec_simps]: "length (wr_u64 v) = 8"
  by (simp add: wr_u64_def)

lemma length_wr_u32 [simp, codec_simps]: "length (wr_u32 v) = 4"
  by (simp add: wr_u32_def)

lemma pr_u64_wr: "pr_u64 (wr_u64 v @ rest) = Inr (v, rest)"
proof -
  have "unat v < 256 ^ 8" using unsigned_less [of v] by simp
  then have "(or_bytes (integer_bytes v 8) :: u64) = v"
    by (simp add: integer_bytes_eq or_bytes_le_bytes)
  then show ?thesis by (simp add: pr_u64_def pr_integer_def rd_bind_def wr_u64_eq)
qed

lemma pr_u32_wr: "pr_u32 (wr_u32 v @ rest) = Inr (v, rest)"
proof -
  have "unat v < 256 ^ 4" using unat_u32_less [of v] by simp
  then have "(or_bytes (integer_bytes (ucast v) 4) :: u64) = word_of_nat (unat v)"
    by (simp add: integer_bytes_eq or_bytes_le_bytes)
  moreover have "(ucast (ucast v :: u64) :: u32) = v"
    by (rule bit_word_eqI) (simp add: bit_simps)
  ultimately show ?thesis by (simp add: pr_u32_def pr_integer_def rd_bind_def wr_u32_eq)
qed

interpretation store_u64: readable wr_u64 "\<lambda>_. True" pr_u64
  by (rule readable_self_delimiting) (rule pr_u64_wr)

interpretation store_u32: readable wr_u32 "\<lambda>_. True" pr_u32
  by (rule readable_self_delimiting) (rule pr_u32_wr)

lemma unat_u32_small: "n < 2 ^ 32 \<Longrightarrow> unat (word_of_nat n :: u32) = n"
  by (simp add: unsigned_of_nat take_bit_nat_eq_self_iff)

lemma pr_blob_wr:
  assumes "length bs \<le> limit \<and> limit < 2 ^ 32"
  shows "pr_blob limit (wr_blob bs @ rest) = Inr (bs, rest)"
  using assms unat_u32_small [of "length bs"]
  by (simp add: pr_blob_def wr_blob_def rd_bind_def pr_u32_wr rd_check_eq)

lemma pr_text_wr:
  assumes "length s \<le> limit \<and> limit < 2 ^ 32"
  shows "pr_text limit (wr_text s @ rest) = Inr (s, rest)"
  using assms unat_u32_small [of "length s"]
  by (simp add: pr_text_def wr_text_def rd_bind_def pr_u32_wr rd_check_eq)

interpretation store_blob: readable wr_blob "\<lambda>bs. length bs \<le> limit \<and> limit < 2 ^ 32" "pr_blob limit" for limit
  by (rule readable_self_delimiting) (rule pr_blob_wr)

interpretation store_text: readable wr_text "\<lambda>s. length s \<le> limit \<and> limit < 2 ^ 32" "pr_text limit" for limit
  by (rule readable_self_delimiting) (rule pr_text_wr)

lemma pr_magic_str: "pr_magic s (str_bytes s @ rest) = Inr ((), rest)"
  by (simp add: pr_magic_def rd_bind_def rd_check_eq)

section \<open>Bindings, entries and receipts\<close>

context readable
begin

lemma rd_times_concat:
  "list_all ok xs \<Longrightarrow> rd_times (length xs) rd (concat (map enc xs) @ rest) = Inr (xs, rest)"
  by (induction xs arbitrary: rest) (simp_all add: reads rd_bind_def)

end

definition binding_fits :: "created_binding \<Rightarrow> bool" where
  "binding_fits b \<longleftrightarrow>
     length (binding_temporary_id b) \<le> 64 \<and> length (binding_world_id b) \<le> 128 \<and> length (binding_uuid b) \<le> 36"

lemma pr_binding_wr: "binding_fits b \<Longrightarrow> pr_binding (wr_binding b @ rest) = Inr (b, rest)"
  by (simp add: pr_binding_def wr_binding_def binding_fits_def rd_bind_def pr_text_wr pr_u64_wr)

interpretation store_binding: readable wr_binding binding_fits pr_binding
  by (rule readable_self_delimiting) (rule pr_binding_wr)

definition bindings_fit :: "created_binding list \<Rightarrow> bool" where
  "bindings_fit bs \<longleftrightarrow> length bs \<le> operation_limit \<and> list_all binding_fits bs"

lemma pr_bindings_wr: "bindings_fit bs \<Longrightarrow> pr_bindings (wr_bindings bs @ rest) = Inr (bs, rest)"
  using unat_u32_small [of "length bs"]
  by (simp add: pr_bindings_def wr_bindings_def bindings_fit_def operation_limit_def rd_bind_def pr_u32_wr rd_check_eq
      store_binding.rd_times_concat)

interpretation store_bindings: readable wr_bindings bindings_fit pr_bindings
  by (rule readable_self_delimiting) (rule pr_bindings_wr)

definition entry_fits :: "store_entry \<Rightarrow> bool" where
  "entry_fits e \<longleftrightarrow>
     length (store_payload e) \<le> command_limit \<and> bindings_fit (store_created e) \<and>
     length (store_checkpoint e) \<le> checkpoint_limit"

lemma pr_entry_wr: "entry_fits e \<Longrightarrow> pr_entry (wr_entry e @ rest) = Inr (e, rest)"
  by (simp add: pr_entry_def wr_entry_def entry_fits_def rd_bind_def pr_u64_wr pr_text_wr pr_bindings_wr pr_blob_wr
      command_limit_def checkpoint_limit_def)

interpretation store_entries: readable wr_entry entry_fits pr_entry
  by (rule readable_self_delimiting) (rule pr_entry_wr)

definition receipt_fits :: "receipt \<Rightarrow> bool" where
  "receipt_fits r \<longleftrightarrow>
     length (receipt_status r) \<le> 16 \<and> length (receipt_durability r) \<le> 16 \<and>
     length (receipt_transaction_id r) \<le> 36 \<and> bindings_fit (receipt_created r) \<and> receipt_errors r = []"

lemma pr_receipt_wr: "receipt_fits r \<Longrightarrow> pr_receipt r (wr_receipt r @ rest) = Inr (r, rest)"
  by (cases r)
    (simp add: pr_receipt_def wr_receipt_def receipt_fits_def rd_bind_def pr_u64_wr pr_u32_wr pr_text_wr pr_bindings_wr
      rd_check_eq Let_def)

lemma pr_receipts_wr:
  "list_all receipt_fits rs \<Longrightarrow> pr_receipts rs (concat (map wr_receipt rs) @ rest) = Inr (rs, rest)"
  by (induction rs) (simp_all add: rd_bind_def pr_receipt_wr)

section \<open>Packages\<close>

text \<open>The entries of a package with the envelopes their payloads parse to.\<close>

fun entries_accepted ::
  "json_lib \<Rightarrow> store_config \<Rightarrow> string \<Rightarrow> nat \<Rightarrow> u64 \<Rightarrow> (store_entry \<times> envelope) list \<Rightarrow> bool" where
  "entries_accepted J c ep i tick [] \<longleftrightarrow> True"
| "entries_accepted J c ep i tick ((entry, e) # es) \<longleftrightarrow>
     entry_fits entry \<and> accept_entry J c ep i tick entry = Inr e \<and>
     entries_accepted J c ep (i + 1) (store_tick entry) es"

fun records_of :: "nat \<Rightarrow> (store_entry \<times> envelope) list \<Rightarrow> replay_record list" where
  "records_of i [] = []"
| "records_of i ((entry, e) # es) = entry_record i entry e # records_of (i + 1) es"

definition receipts_from :: "u64 \<Rightarrow> (store_entry \<times> envelope) list \<Rightarrow> receipt list" where
  "receipts_from low es =
     map (\<lambda>(entry, e). entry_receipt_of entry e) (filter (\<lambda>(entry, e). store_sequence entry \<ge> low) es)"

definition package_of :: "store_config \<Rightarrow> string \<Rightarrow> (store_entry \<times> envelope) list \<Rightarrow> package" where
  "package_of c ep es =
     \<lparr>package_config = c, package_epoch = ep, package_entries = map fst es,
      package_receipts = receipts_from (low_of (of_nat (length es))) es\<rparr>"

lemma pr_entries_wr:
  assumes "entries_accepted J c ep i tick es"
  shows "pr_entries J c ep low (length es) i tick (concat (map wr_entry (map fst es)) @ rest) =
    Inr ((map fst es, records_of i es, receipts_from low es), rest)"
  using assms
proof (induction J c ep i tick es rule: entries_accepted.induct)
  case (1 J c ep i tick)
  then show ?case by (simp add: receipts_from_def)
next
  case (2 J c ep i tick entry e es)
  then show ?case
    by (simp add: rd_bind_def pr_entry_wr receipts_from_def)
qed

definition package_fits :: "json_lib \<Rightarrow> store_config \<Rightarrow> string \<Rightarrow> (store_entry \<times> envelope) list \<Rightarrow> bool" where
  "package_fits J c ep es \<longleftrightarrow>
     config_ok c \<and> length (config_world_id c) \<le> 128 \<and> epoch_ok ep \<and> length es \<le> commit_limit \<and>
     entries_accepted J c ep 0 0 es"

lemma entries_accepted_set:
  "entries_accepted J c ep i tick es \<Longrightarrow> (entry, e) \<in> set es \<Longrightarrow>
     entry_fits entry \<and> length (transaction_id e) \<le> 36"
proof (induction J c ep i tick es rule: entries_accepted.induct)
  case (2 J c ep i tick entry' e' es)
  have "length (transaction_id e') \<le> 36"
    using "2.prems"(1) by (auto simp: accept_entry_def res_simps stored_command_bounded_def split: sum.splits)
  then show ?case using 2 by auto
qed simp

lemma receipts_fit:
  assumes "entries_accepted J c ep i tick es"
  shows "list_all receipt_fits (receipts_from low es)"
  using entries_accepted_set [OF assms]
  by (auto simp: receipts_from_def list_all_iff receipt_fits_def entry_receipt_of_def entry_fits_def)

lemma builtin_lengths: "length builtin_manifest \<le> 4096" "length builtin_sha256 \<le> 64"
  by (simp_all add: builtin_manifest_def builtin_sha256_def)

lemma pr_package_wr:
  assumes fits: "package_fits J c ep es"
  shows "pr_package J (wr_package (package_of c ep es)) = Inr ((package_of c ep es, records_of 0 es), [])"
proof -
  let ?p = "package_of c ep es" and ?n = "length es"
  have n: "?n \<le> 8" and acc: "entries_accepted J c ep 0 0 es"
    using fits by (simp_all add: package_fits_def commit_limit_def)
  have high: "unat (of_nat ?n :: u64) = ?n" "(ucast (word_of_nat ?n :: u32) :: u64) = of_nat ?n"
      "(of_nat ?n :: u64) \<le> of_nat commit_limit"
  proof -
    show h: "unat (of_nat ?n :: u64) = ?n" using n by (simp add: unsigned_of_nat take_bit_nat_eq_self_iff)
    show "(ucast (word_of_nat ?n :: u32) :: u64) = of_nat ?n"
      using n h unat_u32_small [of ?n] by (simp add: word_unat_eq_iff)
    show "(of_nat ?n :: u64) \<le> of_nat commit_limit"
      using n h by (simp add: word_le_nat_alt commit_limit_def)
  qed
  have fields: "package_config ?p = c" "package_epoch ?p = ep" "package_entries ?p = map fst es"
      "package_receipts ?p = receipts_from (low_of (of_nat ?n)) es" "package_high ?p = of_nat ?n"
      "package_low ?p = low_of (of_nat ?n)"
    by (simp_all add: package_of_def package_high_def package_low_def)
  have rl: "length (receipts_from low es) \<le> 8" for low
    using n by (simp add: receipts_from_def le_trans [OF length_filter_le])
  have eta: "\<lparr>config_world_id = config_world_id c, config_seed = config_seed c,
      config_max_slots = config_max_slots c, byte_quota = byte_quota c\<rparr> = c"
    by (cases c) simp
  have header: "pr_header (wr_package ?p) =
      Inr ((c, ep, of_nat ?n), concat (map wr_entry (map fst es)) @
        wr_u32 (word_of_nat (length (package_receipts ?p))) @ concat (map wr_receipt (package_receipts ?p)))"
    using fits builtin_lengths high
    by (simp add: eta pr_header_def wr_package_def fields rd_bind_def rd_check_eq pr_magic_str pr_text_wr pr_u32_wr pr_u64_wr
        Let_def package_fits_def epoch_ok_def)
  define rs where "rs = receipts_from (low_of (of_nat ?n)) es"
  have whole: "\<lparr>package_config = c, package_epoch = ep, package_entries = map fst es, package_receipts = rs\<rparr> = ?p"
    by (simp add: package_of_def rs_def)
  have "unat (word_of_nat (length rs) :: u32) = length rs"
    by (rule unat_u32_small) (use rl [of "low_of (of_nat ?n)"] in \<open>simp add: rs_def\<close>)
  moreover have "pr_receipts rs (concat (map wr_receipt rs)) = Inr (rs, [])"
    using pr_receipts_wr [of rs "[]"] receipts_fit [OF acc] by (simp add: rs_def)
  ultimately show ?thesis
    using pr_entries_wr [OF acc, of "low_of (of_nat ?n)"] high(1)
    by (simp add: pr_package_def rd_bind_def header fields(4) pr_u32_wr rd_check_eq pr_end_def flip: rs_def)
      (simp add: whole)
qed

section \<open>Frames\<close>

definition frame_head :: "package \<Rightarrow> bytes \<Rightarrow> bytes" where
  "frame_head p payload =
     str_bytes ''OWJRN001'' @ wr_u32 (word_of_nat (length payload)) @ wr_u64 (package_high p)"

definition frame_bytes :: "package \<Rightarrow> bytes \<Rightarrow> bytes" where
  "frame_bytes p payload =
     (let head = frame_head p payload; body = head @ digest_of head @ payload
      in body @ digest_of body @ str_bytes ''OWEND001'')"

lemma length_frame_head [simp]: "length (frame_head p payload) = 20"
  by (simp add: frame_head_def)

lemma store_frame_Inr:
  assumes "store_frame p = Inr bs"
  obtains payload where "encode_package p = Inr payload" "length payload \<le> package_limit"
    "bs = frame_bytes p payload"
proof -
  obtain payload where e: "encode_package p = Inr payload" using assms by (auto simp: store_frame_def res_simps)
  then have len: "length payload \<le> package_limit" by (auto simp: encode_package_def Let_def res_simps)
  have "bs = frame_bytes p payload"
    using assms len
    by (simp add: store_frame_def e frame_bytes_def Let_def sha256_small package_limit_def flip: frame_head_def)
  with e len show ?thesis using that by blast
qed

lemma length_frame_bytes: "length (frame_bytes p payload) = length payload + frame_overhead"
  by (simp add: frame_bytes_def Let_def length_digest_of frame_overhead_def)

text \<open>What \<open>read_frame\<close> sees of a frame that is cut off or continued.\<close>

lemma read_frame_of:
  assumes limit: "length payload \<le> package_limit" and high: "package_high p \<le> of_nat commit_limit"
    and bytes: "remaining = take k (frame_bytes p payload) @ rest" and cut: "k < length (frame_bytes p payload) \<longrightarrow> rest = []"
  shows "read_frame remaining =
    Inr (if k < length (frame_bytes p payload) then None else Some (payload, package_high p, rest))"
proof -
  let ?h = "frame_head p payload"
  let ?body = "?h @ digest_of ?h @ payload"
  let ?f = "frame_bytes p payload"
  have f: "?f = ?body @ digest_of ?body @ str_bytes ''OWEND001''" by (simp add: frame_bytes_def Let_def)
  have len: "length ?f = length payload + 92" by (simp add: length_frame_bytes frame_overhead_def)
  have small: "sha256 ?h = Inr (digest_of ?h)" "sha256 ?body = Inr (digest_of ?body)"
    using limit by (simp_all add: sha256_small package_limit_def length_digest_of)
  show ?thesis
  proof (cases "k < 52")
    case True
    then have r: "remaining = take k (?h @ digest_of ?h)" "length remaining = k"
      using bytes cut len by (simp_all add: f length_digest_of)
    have "take (min k 8) remaining = take (min k 8) (str_bytes ''OWJRN001'')"
      using r by (simp add: frame_head_def min_def)
    moreover have "sha256 (take 20 remaining) = Inr (digest_of ?h)" "drop 20 remaining = take (k - 20) (digest_of ?h)"
      if "k > 20"
      using that r(1) True small(1) by (simp_all add: drop_take length_digest_of min_def)
    ultimately have "torn_header_ok remaining = Inr ()"
      using r(2) by (auto simp: torn_header_ok_def)
    then show ?thesis using r(2) True len by (simp add: read_frame_def header_size_def)
  next
    case False
    define tail0 where "tail0 = take (k - 52) (payload @ digest_of ?body @ str_bytes ''OWEND001'') @ rest"
    have r: "remaining = ?h @ digest_of ?h @ tail0"
      using bytes False by (simp add: f tail0_def length_digest_of)
    have lr: "length remaining = 52 + length tail0" by (simp add: r length_digest_of)
    have head: "read_frame remaining =
        (if length remaining < length payload + 92 then Inr None
         else rbind (rd_take corrupt (length payload) tail0) (\<lambda>(found, r5).
          rbind (rd_take corrupt 32 r5) (\<lambda>(digest, r6).
          rbind (sha256 (take (52 + length payload) remaining)) (\<lambda>expected.
          rbind (require (digest = expected) corrupt) (\<lambda>_.
          rbind (pr_magic ''OWEND001'' r6) (\<lambda>(_, r7).
          Inr (Some (found, package_high p, r7))))))))"
    proof -
      have sz: "unat (word_of_nat (length payload) :: u32) = length payload"
        using limit by (intro unat_u32_small) (simp add: package_limit_def)
      have "take 20 remaining = ?h" "take 32 (drop 20 remaining) = digest_of ?h"
        by (simp_all add: r length_digest_of)
      moreover have "pr_magic ''OWJRN001'' remaining = Inr ((), wr_u32 (word_of_nat (length payload)) @
          wr_u64 (package_high p) @ digest_of ?h @ tail0)"
        using pr_magic_str by (simp add: r frame_head_def)
      ultimately show ?thesis
        using lr small(1) sz limit high
        by (simp add: read_frame_def header_size_def frame_overhead_def pr_u32_wr pr_u64_wr length_digest_of)
    qed
    show ?thesis
    proof (cases "k < length ?f")
      case True
      then have "length remaining < length payload + 92" using bytes cut len by simp
      then show ?thesis using head True by simp
    next
      case whole: False
      then have t: "tail0 = payload @ digest_of ?body @ str_bytes ''OWEND001'' @ rest"
        using len by (simp add: tail0_def length_digest_of)
      have "take (52 + length payload) remaining = ?body"
        by (simp add: r t length_digest_of)
      then show ?thesis
        using head whole lr small(2) pr_magic_str [of "''OWEND001''" rest] by (simp add: t length_digest_of)
    qed
  qed
qed

end
