(* ===== verification/Persistence_Laws.thy ===== *)
theory Persistence_Laws
  imports Persistence_Codec
begin

text \<open>
  Laws of the durable store: what a history of commits is, that its package decodes to the world it
  leads to, that the journal of its frames is scanned back to the last of them whatever torn tail
  follows, and what the bytes of the directory are after every call, whichever fails.
\<close>

section \<open>The JSON library\<close>

text \<open>What the library prints it reads back.\<close>

definition library_prints :: "json_lib \<Rightarrow> bool" where
  "library_prints J \<longleftrightarrow>
     (\<forall>e v. validated_json e = Inr v \<longrightarrow> json_dump J v \<noteq> None \<longrightarrow> reads_back J v)"

lemma serialize_parse:
  assumes "library_prints J" "serialize J e = Inr t"
  shows "parse J t = Inr e"
proof -
  obtain v where v: "validated_json e = Inr v" and d: "json_dump J v = Some t"
    using assms(2) by (auto simp: serialize_def res_simps split: sum.splits option.splits)
  have r: "reads_back J v" using assms(1) v d by (simp add: library_prints_def)
  have "length t \<le> max_envelope_bytes" using assms(2) serialize_Inr_iff [OF v r d] by simp
  then show ?thesis by (rule parse_printed [OF v r d])
qed

text \<open>
  The form in which a command is replayed (\<open>replay_envelope\<close>: a fixed transaction number, a shorter
  epoch, another expiry) differs from the command in a few short fields only; a library that prints
  the command prints it too, compactly.
\<close>

definition prints_replays :: "json_lib \<Rightarrow> store_config \<Rightarrow> bool" where
  "prints_replays J c \<longleftrightarrow>
     (\<forall>e payload r v. serialize J e = Inr payload \<longrightarrow> length (epoch (idempotency e)) = 64 \<longrightarrow>
        world_id e = config_world_id c \<longrightarrow> record_operations r = operations e \<longrightarrow> record_budget r = budget e \<longrightarrow>
        expected_revision r = expected_world_revision e \<longrightarrow> record_sequence r = idem_sequence (idempotency e) \<longrightarrow>
        envelope_json (replay_envelope (log_of c []) r) = Inr v \<longrightarrow> prints_compactly J v)"

section \<open>Histories\<close>

definition last_tick :: "u64 \<Rightarrow> (store_entry \<times> envelope) list \<Rightarrow> u64" where
  "last_tick tick es = (if es = [] then tick else store_tick (fst (last es)))"

lemma entries_accepted_append:
  "entries_accepted J c ep i tick (es @ fs) \<longleftrightarrow>
     entries_accepted J c ep i tick es \<and> entries_accepted J c ep (i + length es) (last_tick tick es) fs"
  by (induction J c ep i tick es rule: entries_accepted.induct) (auto simp: last_tick_def)

lemma records_of_append: "records_of i (es @ fs) = records_of i es @ records_of (i + length es) fs"
  by (induction i es rule: records_of.induct) auto

lemma length_records_of [simp]: "length (records_of i es) = length es"
  by (induction i es rule: records_of.induct) auto

lemma in_order_prefix: "in_order (rs @ qs) \<Longrightarrow> in_order rs"
  by (auto simp: in_order_def sorted_append nth_append split: if_splits)

lemma recorded_chain_append:
  "recorded_chain w (rs @ qs) w' \<longleftrightarrow> (\<exists>w1. recorded_chain w rs w1 \<and> recorded_chain w1 qs w')"
  by (induction rs arbitrary: w) auto

definition history :: "json_lib \<Rightarrow> store_config \<Rightarrow> string \<Rightarrow> (store_entry \<times> envelope) list \<Rightarrow> world \<Rightarrow> bool" where
  "history J c ep es w \<longleftrightarrow>
     package_fits J c ep es \<and> list_all record_ok (records_of 0 es) \<and> in_order (records_of 0 es) \<and>
     (\<forall>r \<in> set (records_of 0 es). preflight_command J (log_of c []) r = Inr ()) \<and>
     (\<exists>a w0. make_world a (config_world_id c) (config_seed c) (config_max_slots c) = Inr w0 \<and>
        recorded_chain w0 (records_of 0 es) w)"

lemma history_prefix:
  assumes "history J c ep (es @ fs) w"
  shows "\<exists>w'. history J c ep es w'"
proof -
  obtain a w0 w1 where "make_world a (config_world_id c) (config_seed c) (config_max_slots c) = Inr w0"
    "recorded_chain w0 (records_of 0 es) w1"
    using assms by (auto simp: history_def records_of_append recorded_chain_append)
  then have "history J c ep es w1"
    using assms in_order_prefix
    by (auto simp: history_def package_fits_def entries_accepted_append records_of_append)
  then show ?thesis by blast
qed

lemma history_take: "history J c ep es w \<Longrightarrow> \<exists>w'. history J c ep (take n es) w'"
  using history_prefix [of J c ep "take n es" "drop n es" w] by simp

lemma history_length: "history J c ep es w \<Longrightarrow> length es \<le> 8"
  by (simp add: history_def package_fits_def commit_limit_def)

text \<open>The world of a serving store: reached by the history, well formed and of the configured identity.\<close>

definition live_history ::
  "json_lib \<Rightarrow> store_config \<Rightarrow> string \<Rightarrow> (store_entry \<times> envelope) list \<Rightarrow> world \<Rightarrow> bool" where
  "live_history J c ep es w \<longleftrightarrow>
     history J c ep es w \<and> wf_snapshot (state w) \<and> snapshot_world_id (state w) = config_world_id c"

lemma decode_history:
  assumes "history J c ep es w"
  shows "\<exists>w'. decode_package J address (wr_package (package_of c ep es)) = Inr (package_of c ep es, w') \<and>
    state w' = state w \<and> live_history J c ep es w'"
proof -
  let ?log = "log_of c (records_of 0 es)"
  have fits: "package_fits J c ep es" using assms by (simp add: history_def)
  obtain a w0 where made: "make_world a (config_world_id c) (config_seed c) (config_max_slots c) = Inr w0"
    and chain: "recorded_chain w0 (records_of 0 es) w" using assms by (auto simp: history_def)
  have "preflight_command J ?log r = preflight_command J (log_of c []) r" for r
    by (simp add: preflight_command_def replay_envelope_def log_of_def)
  then have "\<exists>w'. reconstruct J address ?log [builtin_asset] = Inr w' \<and> state w' = state w"
    using assms fits
    by (intro chain_reconstructs [OF made _ log_of_def chain])
      (simp_all add: history_def package_fits_def config_ok_def commit_limit_def entry_limit_def)
  then obtain w' where w': "reconstruct J address ?log [builtin_asset] = Inr w'" "state w' = state w" by blast
  have "decode_package J address (wr_package (package_of c ep es)) = Inr (package_of c ep es, w')"
    using pr_package_wr [OF fits] w'(1) by (simp add: decode_package_def package_of_def)
  moreover have "history J c ep es w'"
    using assms reconstruct_sound [OF w'(1)] by (auto simp: history_def log_of_def)
  moreover have "snapshot_world_id (state w') = config_world_id c"
    using reconstruct_sound [OF w'(1)] by (simp add: log_of_def)
  ultimately show ?thesis using w'(2) reconstruct_sound [OF w'(1)] unfolding live_history_def by blast
qed

lemma history_revision:
  assumes "history J c ep es w"
  shows "world_revision (state w) = of_nat (length es)"
proof -
  obtain a w0 where made: "make_world a (config_world_id c) (config_seed c) (config_max_slots c) = Inr w0"
    and chain: "recorded_chain w0 (records_of 0 es) w" using assms by (auto simp: history_def)
  have "world_revision (state w0) = 0" using made by (auto simp: make_world_def split: if_splits)
  then show ?thesis using recorded_chain_revision [OF chain] by simp
qed

section \<open>One more commit\<close>

lemma accepted_sequences:
  "entries_accepted J c ep i tick es \<Longrightarrow> k < length es \<Longrightarrow> store_sequence (fst (es ! k)) = of_nat (i + k + 1)"
proof (induction J c ep i tick es arbitrary: k rule: entries_accepted.induct)
  case (2 J c ep i tick entry e es)
  then show ?case by (cases k) (auto simp: accept_entry_def res_simps)
qed simp

lemma filter_drop:
  assumes "\<And>k. k < length xs \<Longrightarrow> P (xs ! k) \<longleftrightarrow> n \<le> k"
  shows "filter P xs = drop n xs"
  using assms
proof (induction xs arbitrary: n)
  case (Cons x xs)
  have "P (xs ! k) \<longleftrightarrow> n - 1 \<le> k" if "k < length xs" for k
    using Cons.prems [of "Suc k"] that by auto
  from Cons.IH [OF this] show ?case using Cons.prems [of 0] by (cases n) auto
qed simp

lemma receipts_from_drop:
  assumes acc: "entries_accepted J c ep 0 0 es" and len: "length es \<le> 8" and n: "n \<le> 8"
  shows "receipts_from (of_nat (n + 1)) es = map (\<lambda>(x, e). entry_receipt_of x e) (drop n es)"
proof -
  have "(of_nat (n + 1) :: u64) \<le> store_sequence (fst (es ! k)) \<longleftrightarrow> n \<le> k" if "k < length es" for k
  proof -
    have "unat (of_nat (m + 1) :: u64) = m + 1" if "m \<le> 8" for m
      using that by (simp add: unsigned_of_nat take_bit_nat_eq_self_iff del: of_nat_Suc)
    then show ?thesis
      using accepted_sequences [OF acc that] that len n by (simp add: word_le_nat_alt del: of_nat_Suc)
  qed
  then have "filter (\<lambda>(x, e). of_nat (n + 1) \<le> store_sequence x) es = drop n es"
    by (intro filter_drop) (auto simp: case_prod_beta)
  then show ?thesis by (simp add: receipts_from_def)
qed

lemma low_of_nat:
  assumes "n \<le> 8"
  shows "low_of (of_nat n) = of_nat ((n - 4) + 1)"
proof -
  have "unat (of_nat n :: u64) = n" using assms by (simp add: unsigned_of_nat take_bit_nat_eq_self_iff)
  then have "(of_nat n > (4 :: u64)) \<longleftrightarrow> n > 4" by (simp add: word_less_nat_alt)
  then show ?thesis by (cases "n > 4") (auto simp: low_of_def receipt_limit_def of_nat_diff)
qed

lemma package_receipts_of:
  assumes "entries_accepted J c ep 0 0 es" "length es \<le> 8"
  shows "package_receipts (package_of c ep es) = map (\<lambda>(x, e). entry_receipt_of x e) (drop (length es - 4) es)"
  using receipts_from_drop [OF assms, of "length es - 4"] low_of_nat [OF assms(2)] assms(2)
  by (simp add: package_of_def)

lemma package_of_snoc:
  assumes acc: "entries_accepted J c ep 0 0 (es @ [(x, e)])" and len: "length es < 8"
    and r: "durable_receipt r = entry_receipt_of x e"
  shows "extend_package (package_of c ep es) x r = package_of c ep (es @ [(x, e)])"
proof -
  have old: "package_receipts (package_of c ep es) = map (\<lambda>(x, e). entry_receipt_of x e) (drop (length es - 4) es)"
    using acc len by (intro package_receipts_of [of J]) (simp_all add: entries_accepted_append)
  have new: "package_receipts (package_of c ep (es @ [(x, e)])) =
      map (\<lambda>(x, e). entry_receipt_of x e) (drop (length es + 1 - 4) (es @ [(x, e)]))"
    using package_receipts_of [OF acc] len by simp
  have "keep_last (package_receipts (package_of c ep es) @ [durable_receipt r]) =
      package_receipts (package_of c ep (es @ [(x, e)]))"
  proof (cases "length es < 4")
    case True
    then show ?thesis by (simp add: old new r keep_last_def receipt_limit_def)
  next
    case False
    then have "length es + 1 - 4 = 1 + (length es - 4)" by simp
    then show ?thesis
      using False by (simp add: old new r keep_last_def receipt_limit_def drop_map)
  qed
  then show ?thesis by (simp add: extend_package_def package_of_def)
qed

lemma history_snoc:
  assumes h: "history J c ep es w" and len: "length es < 8"
    and acc: "accept_entry J c ep (length es) (last_tick 0 es) x = Inr e" and fits: "entry_fits x"
    and step: "recorded_step w (entry_record (length es) x e) w'" "record_ok (entry_record (length es) x e)"
    and pre: "preflight_command J (log_of c []) (entry_record (length es) x e) = Inr ()"
  shows "history J c ep (es @ [(x, e)]) w'"
proof -
  let ?r = "entry_record (length es) x e"
  have recs: "records_of 0 (es @ [(x, e)]) = records_of 0 es @ [?r]" by (simp add: records_of_append)
  have tick: "records_of 0 es \<noteq> [] \<longrightarrow> boundary_tick (last (records_of 0 es)) \<le> boundary_tick ?r"
  proof
    assume "records_of 0 es \<noteq> []"
    then obtain fs y f where es: "es = fs @ [(y, f)]" by (cases es rule: rev_cases) auto
    then show "boundary_tick (last (records_of 0 es)) \<le> boundary_tick ?r"
      using acc by (auto simp: records_of_append entry_record_def accept_entry_def last_tick_def res_simps)
  qed
  have "in_order (records_of 0 es @ [?r])"
    using h acc tick by (intro in_order_snoc) (auto simp: history_def entry_record_def accept_entry_def res_simps)
  then show ?thesis
    using h len acc fits step pre
    by (auto simp: history_def recs package_fits_def commit_limit_def entries_accepted_append recorded_chain_snoc)
qed

section \<open>The frames of a history\<close>

definition payload_of :: "store_config \<Rightarrow> string \<Rightarrow> (store_entry \<times> envelope) list \<Rightarrow> nat \<Rightarrow> bytes" where
  "payload_of c ep es n = wr_package (package_of c ep (take n es))"

definition frame_of :: "store_config \<Rightarrow> string \<Rightarrow> (store_entry \<times> envelope) list \<Rightarrow> nat \<Rightarrow> bytes" where
  "frame_of c ep es n = frame_bytes (package_of c ep (take n es)) (payload_of c ep es n)"

definition frame_fits :: "store_config \<Rightarrow> string \<Rightarrow> (store_entry \<times> envelope) list \<Rightarrow> nat \<Rightarrow> bool" where
  "frame_fits c ep es n \<longleftrightarrow> length (payload_of c ep es n) \<le> package_limit"

text \<open>The frames numbered \<open>a\<close> to \<open>length es\<close>.\<close>

definition journal_of :: "store_config \<Rightarrow> string \<Rightarrow> (store_entry \<times> envelope) list \<Rightarrow> nat \<Rightarrow> bytes" where
  "journal_of c ep es a = concat (map (frame_of c ep es) [a ..< length es + 1])"

text \<open>A proper prefix of some frame.\<close>

definition torn_tail :: "bytes \<Rightarrow> bool" where
  "torn_tail bs \<longleftrightarrow>
     (\<exists>p payload k. length payload \<le> package_limit \<and> package_high p \<le> of_nat commit_limit \<and>
        k < length (frame_bytes p payload) \<and> bs = take k (frame_bytes p payload))"

lemma package_high_of: "package_high (package_of c ep es) = of_nat (length es)"
  by (simp add: package_high_def package_of_def)

lemma unat_high: "n \<le> 9 \<Longrightarrow> unat (of_nat n :: u64) = n"
  by (simp add: unsigned_of_nat take_bit_nat_eq_self_iff)

lemma high_small: "n \<le> 8 \<Longrightarrow> (of_nat n :: u64) \<le> of_nat commit_limit"
  using unat_high [of n] by (simp add: word_le_nat_alt commit_limit_def)

lemma package_of_fields:
  "package_config (package_of c ep es) = c" "package_epoch (package_of c ep es) = ep"
  "package_entries (package_of c ep es) = map fst es"
  by (simp_all add: package_of_def)

lemma length_frame_of: "length (frame_of c ep es n) = length (payload_of c ep es n) + frame_overhead"
  by (simp add: frame_of_def length_frame_bytes)

lemma store_frame_of:
  "store_frame (package_of c ep (take n es)) = Inr bs \<longleftrightarrow> frame_fits c ep es n \<and> bs = frame_of c ep es n"
proof -
  have e: "encode_package (package_of c ep (take n es)) = Inr payload \<longleftrightarrow>
      frame_fits c ep es n \<and> payload = payload_of c ep es n" for payload
    by (auto simp: encode_package_def frame_fits_def payload_of_def Let_def res_simps)
  show ?thesis
  proof
    assume "store_frame (package_of c ep (take n es)) = Inr bs"
    then show "frame_fits c ep es n \<and> bs = frame_of c ep es n"
      by (rule store_frame_Inr) (auto simp: e frame_of_def)
  next
    assume *: "frame_fits c ep es n \<and> bs = frame_of c ep es n"
    then have "length (payload_of c ep es n) \<le> package_limit" by (simp add: frame_fits_def)
    then show "store_frame (package_of c ep (take n es)) = Inr bs"
      using * e [of "payload_of c ep es n"]
      by (simp add: store_frame_def frame_of_def frame_bytes_def Let_def sha256_small package_limit_def length_digest_of
          flip: frame_head_def)
  qed
qed

lemma read_whole_frame:
  assumes "frame_fits c ep es n" "n \<le> length es" "length es \<le> 8"
  shows "read_frame (frame_of c ep es n @ rest) = Inr (Some (payload_of c ep es n, of_nat n, rest))"
  using read_frame_of [of "payload_of c ep es n" "package_of c ep (take n es)" "frame_of c ep es n @ rest"
      "length (frame_of c ep es n)" rest] assms high_small [of n]
  by (simp add: frame_of_def frame_fits_def package_high_of min_def)

lemma read_torn_tail: "torn_tail bs \<Longrightarrow> read_frame bs = Inr None"
  using read_frame_of [where rest = "[]"] by (fastforce simp: torn_tail_def)

lemma torn_empty: "torn_tail []"
proof -
  have "length ([] :: bytes) \<le> package_limit \<and> package_high (package_of undefined undefined []) \<le> of_nat commit_limit \<and>
      0 < length (frame_bytes (package_of undefined undefined []) []) \<and>
      [] = take 0 (frame_bytes (package_of undefined undefined []) [])"
    by (simp add: package_high_of length_frame_bytes frame_overhead_def)
  then show ?thesis unfolding torn_tail_def by blast
qed

lemma journal_of_step: "a \<le> length es \<Longrightarrow> journal_of c ep es a = frame_of c ep es a @ journal_of c ep es (a + 1)"
  by (simp add: journal_of_def upt_conv_Cons [of a] del: upt_Suc)

lemma journal_of_end: "journal_of c ep es (Suc (length es)) = []"
  by (simp add: journal_of_def)

lemma frame_of_append: "n \<le> length es \<Longrightarrow> frame_of c ep (es @ fs) n = frame_of c ep es n"
  and payload_of_append: "n \<le> length es \<Longrightarrow> payload_of c ep (es @ fs) n = payload_of c ep es n"
  by (simp_all add: frame_of_def payload_of_def)

lemma frame_fits_append: "n \<le> length es \<Longrightarrow> frame_fits c ep (es @ fs) n = frame_fits c ep es n"
  by (simp add: frame_fits_def payload_of_append)

lemma journal_of_snoc:
  assumes "a \<le> length es + 1"
  shows "journal_of c ep (es @ [x]) a = journal_of c ep es a @ frame_of c ep (es @ [x]) (length es + 1)"
proof -
  have m: "map (frame_of c ep (es @ [x])) [a ..< length es + 1] = map (frame_of c ep es) [a ..< length es + 1]"
    by (intro map_cong refl frame_of_append) auto
  have i: "[a ..< length (es @ [x]) + 1] = [a ..< length es + 1] @ [length es + 1]"
    using assms by simp
  show ?thesis unfolding journal_of_def i map_append m by simp
qed

section \<open>Scanning the journal\<close>

lemma prefix_check_take:
  assumes "m \<le> n" "n \<le> length es" "length es \<le> 8"
  shows "prefix_check (package_of c ep (take m es)) (package_of c ep (take n es)) = Inr ()"
proof -
  have "(of_nat m :: u64) \<le> of_nat n"
    using assms unat_high [of m] unat_high [of n] by (simp add: word_le_nat_alt)
  moreover have "take m (take n (map fst es)) = take m (map fst es)" using assms(1) by (simp add: min_def)
  ultimately show ?thesis
    using assms by (simp add: prefix_check_def package_high_of same_config_def package_of_fields take_map min_def)
qed

lemma accept_frame_Inr:
  assumes "high = package_high p" "package_high p > 0"
    and "case prior of None \<Rightarrow> package_high p \<le> package_high selected + 1
         | Some q \<Rightarrow> package_high p = package_high q + 1 \<and> prefix_check q p = Inr ()"
    and "if package_high p \<le> package_high selected then prefix_check p selected = Inr ()
         else package_high p = package_high (fst restored) + 1 \<and> prefix_check (fst restored) p = Inr ()"
  shows "accept_frame selected restored prior high (p, w) =
    Inr (if package_high p > package_high (fst restored) then (p, w) else restored)"
  using assms by (cases prior) (auto simp: accept_frame_def Let_def split: if_splits)

text \<open>
  The journal from frame \<open>k\<close> on: \<open>cp\<close> is the number of the checkpoint and \<open>m\<close> of the newest package so
  far; \<open>W\<close> gives the worlds the packages decode to.
\<close>

lemma scan_journal_of:
  assumes len: "length es \<le> 8" and cp: "cp \<le> length es"
    and fits: "\<And>n. a \<le> n \<Longrightarrow> n \<le> length es \<Longrightarrow> frame_fits c ep es n"
    and dec: "\<And>n. n \<le> length es \<Longrightarrow>
      decode_package J address (payload_of c ep es n) = Inr (package_of c ep (take n es), W n)"
    and tail: "torn_tail torn" and a: "1 \<le> a" "a \<le> cp + 1"
    and k: "a \<le> k" "k \<le> length es + 1"
  shows "scan_journal J address (package_of c ep (take cp es)) (package_of c ep (take (max cp (k - 1)) es), W (max cp (k - 1)))
      (if k = a then None else Some (package_of c ep (take (k - 1) es))) (journal_of c ep es k @ torn) =
    Inr ((package_of c ep (take (max cp (length es)) es), W (max cp (length es))), torn)"
  using k
proof (induction "length es + 1 - k" arbitrary: k)
  case 0
  then have k: "k = Suc (length es)" by simp
  have "scan_journal J address sel res prior torn = Inr (res, torn)" for sel res prior
    using read_torn_tail [OF tail] by (subst scan_journal.simps) simp
  then show ?case using cp by (simp add: journal_of_end k max_def)
next
  case (Suc n)
  then have k: "k \<le> length es" "1 \<le> k" using a by simp_all
  let ?P = "\<lambda>n. package_of c ep (take n es)"
  have head: "read_frame (journal_of c ep es k @ torn) = Inr (Some (payload_of c ep es k, of_nat k, journal_of c ep es (k + 1) @ torn))"
    using read_whole_frame [of c ep es k "journal_of c ep es (k + 1) @ torn"] fits Suc.prems(1) k len
    by (simp add: journal_of_step)
  have num: "package_high (?P m) = of_nat m" if "m \<le> length es" for m using that by (simp add: package_high_of)
  have le: "((of_nat m :: u64) \<le> of_nat m') = (m \<le> m')" "((of_nat m :: u64) < of_nat m') = (m < m')"
    "((of_nat m :: u64) = of_nat m') = (m = m')" if "m \<le> 9" "m' \<le> 9" for m m'
    using unat_high [OF that(1)] unat_high [OF that(2)] by (simp_all add: word_le_nat_alt word_less_nat_alt word_unat_eq_iff)
  have acc: "accept_frame (?P cp) (?P (max cp (k - 1)), W (max cp (k - 1)))
      (if k = a then None else Some (?P (k - 1))) (of_nat k) (?P k, W k) = Inr (?P (max cp k), W (max cp k))"
  proof -
    have high: "package_high (?P k) = of_nat k" "package_high (?P (k - 1)) = of_nat (k - 1)"
        "package_high (?P cp) = of_nat cp" "package_high (?P (max cp (k - 1))) = of_nat (max cp (k - 1))"
      using k cp by (intro num; simp)+
    have succ: "(of_nat k :: u64) = of_nat (k - 1) + 1" using k by (cases k) simp_all
    have prior: "case (if k = a then None else Some (?P (k - 1))) of
        None \<Rightarrow> package_high (?P k) \<le> package_high (?P cp) + 1
      | Some q \<Rightarrow> package_high (?P k) = package_high q + 1 \<and> prefix_check q (?P k) = Inr ()"
    proof (cases "k = a")
      case True
      have "(of_nat k :: u64) \<le> of_nat (cp + 1)" using le [of k "cp + 1"] a True len cp k by simp
      then show ?thesis using True unfolding high by (simp add: add.commute)
    next
      case False
      have "prefix_check (?P (k - 1)) (?P k) = Inr ()" using k len by (intro prefix_check_take) simp_all
      then show ?thesis using False succ high(1,2) by simp
    qed
    have rest: "if package_high (?P k) \<le> package_high (?P cp) then prefix_check (?P k) (?P cp) = Inr ()
      else package_high (?P k) = package_high (?P (max cp (k - 1))) + 1 \<and> prefix_check (?P (max cp (k - 1))) (?P k) = Inr ()"
    proof (cases "k \<le> cp")
      case True
      then show ?thesis using le [of k cp] k cp len prefix_check_take [of k cp es c ep] by (simp add: high)
    next
      case False
      then have m: "max cp (k - 1) = k - 1" by simp
      have above: "((of_nat k :: u64) \<le> of_nat cp) = False" using False le(1) [of k cp] k cp len by simp
      have "prefix_check (?P (k - 1)) (?P k) = Inr ()" using k len by (intro prefix_check_take) simp_all
      then show ?thesis unfolding m high(1,2,3) above if_False using succ by blast
    qed
    have pos: "package_high (?P k) > 0" using le(2) [of 0 k] k len by (simp add: high)
    have newer: "package_high (?P k) > package_high (?P (max cp (k - 1))) \<longleftrightarrow> max cp (k - 1) < k"
      unfolding high using le(2) [of "max cp (k - 1)" k] cp k len by simp
    have pick: "(if max cp (k - 1) < k then (?P k, W k) else (?P (max cp (k - 1)), W (max cp (k - 1)))) =
        (?P (max cp k), W (max cp k))"
      using k by (cases "k \<le> cp") (simp_all add: max_def)
    show ?thesis
      using accept_frame_Inr [OF high(1) [symmetric] pos prior,
          where restored = "(?P (max cp (k - 1)), W (max cp (k - 1)))" and w = "W k"] rest
      unfolding fst_conv newer pick by blast
  qed
  have ne: "journal_of c ep es k @ torn \<noteq> []"
    using k by (simp add: journal_of_step frame_of_def frame_bytes_def frame_head_def Let_def str_bytes_def)
  have step: "scan_journal J address (?P cp) (?P (max cp (k - 1)), W (max cp (k - 1)))
      (if k = a then None else Some (?P (k - 1))) (journal_of c ep es k @ torn) =
    scan_journal J address (?P cp) (?P (max cp k), W (max cp k)) (Some (?P k)) (journal_of c ep es (k + 1) @ torn)"
    by (subst scan_journal.simps) (simp only: ne head dec [OF k(1)] acc fst_conv if_False sum.case option.case prod.case)
  have "k + 1 \<noteq> a" using Suc.prems(1) by simp
  then show ?case
    using Suc.hyps(1) [of "k + 1"] Suc.hyps(2) Suc.prems(1) k cp unfolding step by simp
qed

section \<open>The bytes of the directory\<close>

definition disk_bytes :: "disk \<Rightarrow> nat" where
  "disk_bytes d =
     length (contents (checkpoint_file d)) + length (contents (scratch_file d)) + length (contents (journal_file d))"

definition disk_image ::
  "store_config \<Rightarrow> string \<Rightarrow> (store_entry \<times> envelope) list \<Rightarrow> bytes \<Rightarrow> nat \<Rightarrow> nat \<Rightarrow> disk \<Rightarrow> bool" where
  "disk_image c ep es torn cp a d \<longleftrightarrow>
     checkpoint_file d = Some (frame_of c ep es cp) \<and> journal_file d = Some (journal_of c ep es a @ torn) \<and>
     cp \<le> length es \<and> 1 \<le> a \<and> a \<le> cp + 1 \<and> frame_fits c ep es cp \<and>
     (\<forall>n. a \<le> n \<and> n \<le> length es \<longrightarrow> frame_fits c ep es n) \<and> torn_tail torn \<and> (torn \<noteq> [] \<longrightarrow> length es < 8) \<and>
     \<not> stray_entry d \<and> length (contents (scratch_file d)) \<le> package_limit + frame_overhead \<and>
     disk_bytes d \<le> unat (byte_quota c)"

text \<open>What a directory holds: a history, whatever is torn after it.\<close>

definition disk_holds :: "store_config \<Rightarrow> string \<Rightarrow> (store_entry \<times> envelope) list \<Rightarrow> disk \<Rightarrow> bool" where
  "disk_holds c ep es d \<longleftrightarrow> (\<exists>torn cp a. disk_image c ep es torn cp a d)"

text \<open>Nothing torn, and the package of the history in memory.\<close>

definition disk_whole :: "store_config \<Rightarrow> string \<Rightarrow> (store_entry \<times> envelope) list \<Rightarrow> disk \<Rightarrow> bool" where
  "disk_whole c ep es d \<longleftrightarrow> (\<exists>cp a. disk_image c ep es [] cp a d)"

lemma disk_whole_holds: "disk_whole c ep es d \<Longrightarrow> disk_holds c ep es d"
  by (auto simp: disk_whole_def disk_holds_def)

lemma add_size_Inr:
  "add_size used f = Inr n \<longleftrightarrow>
     unat used + length (contents f) \<le> unat maximum_quota \<and> n = word_of_nat (unat used + length (contents f))"
  if "unat used \<le> unat maximum_quota"
proof -
  have m: "unat maximum_quota = 8388608" by (simp add: maximum_quota_def)
  show ?thesis
  proof (cases "length (contents f) \<le> 8388608")
    case True
    have n: "unat (word_of_nat (length (contents f)) :: u64) = length (contents f)"
      using True by (simp add: unsigned_of_nat take_bit_nat_eq_self_iff)
    have "unat (maximum_quota - word_of_nat (length (contents f))) = 8388608 - length (contents f)"
      using True n m by (simp add: unat_sub word_le_nat_alt)
    then have "used > maximum_quota - word_of_nat (length (contents f)) \<longleftrightarrow> unat used > 8388608 - length (contents f)"
      by (simp add: word_less_nat_alt)
    then show ?thesis using True m n by (auto simp: add_size_def Let_def)
  next
    case False
    then show ?thesis using m by (simp add: add_size_def Let_def)
  qed
qed

lemma bytes_used_Inr:
  "bytes_used d = Inr n \<longleftrightarrow> \<not> stray_entry d \<and> disk_bytes d \<le> unat maximum_quota \<and> n = word_of_nat (disk_bytes d)"
proof -
  have u: "unat (word_of_nat k :: u64) = k" if "k \<le> unat maximum_quota" for k
    using that by (simp add: unsigned_of_nat take_bit_nat_eq_self_iff maximum_quota_def)
  have step: "add_size (word_of_nat k) f = Inr m \<longleftrightarrow>
      k + length (contents f) \<le> unat maximum_quota \<and> m = word_of_nat (k + length (contents f))"
    if "k \<le> unat maximum_quota" for k f m
    using add_size_Inr [of "word_of_nat k" f m] u [OF that] that by simp
  have start: "add_size 0 f = Inr m \<longleftrightarrow> length (contents f) \<le> unat maximum_quota \<and> m = word_of_nat (length (contents f))"
    for f m
    using step [of 0 f m] by simp
  show ?thesis
    unfolding bytes_used_def check_directory_def disk_bytes_def res_simps start
    using step by (auto simp del: of_nat_add)
qed

lemma quota_check_Inr:
  assumes "byte_quota (package_config p) \<le> maximum_quota"
  shows "quota_check d p added = Inr () \<longleftrightarrow>
    \<not> stray_entry d \<and> disk_bytes d + added \<le> unat (byte_quota (package_config p))"
proof -
  let ?q = "byte_quota (package_config p)"
  have q: "unat ?q \<le> unat maximum_quota" using assms by (simp add: word_le_nat_alt)
  have "\<not> (word_of_nat (disk_bytes d) > ?q \<or> added > unat (?q - word_of_nat (disk_bytes d))) \<longleftrightarrow>
      disk_bytes d + added \<le> unat ?q" if "disk_bytes d \<le> unat maximum_quota"
  proof -
    have u: "unat (word_of_nat (disk_bytes d) :: u64) = disk_bytes d"
      using that by (simp add: unsigned_of_nat take_bit_nat_eq_self_iff maximum_quota_def)
    show ?thesis
    proof (cases "disk_bytes d \<le> unat ?q")
      case True
      then have "unat (?q - word_of_nat (disk_bytes d)) = unat ?q - disk_bytes d"
        using u by (simp add: unat_sub word_le_nat_alt)
      then show ?thesis using True u by (auto simp: word_less_nat_alt)
    next
      case False
      then show ?thesis using u by (simp add: word_less_nat_alt)
    qed
  qed
  then show ?thesis using q by (auto simp: quota_check_def Let_def res_simps bytes_used_Inr)
qed

end
