(* ===== verification/Persistence_Crash.thy ===== *)
theory Persistence_Crash
  imports Persistence_Laws
begin

text \<open>
  The steps of the store on its directory, whichever call of the operating system fails after
  however many bytes and wherever the fault hook throws.  \<open>outcome m Q R d\<close> says that \<open>m\<close>, started on
  \<open>d\<close>, leaves a directory with \<open>Q\<close> when it stops with an error and with \<open>R\<close> of its result otherwise; the
  rules of \<open>outcome_intros\<close> take a sequence of steps apart.
\<close>

section \<open>Outcomes\<close>

definition outcome :: "'a store_io \<Rightarrow> (disk \<Rightarrow> bool) \<Rightarrow> ('a \<Rightarrow> disk \<Rightarrow> bool) \<Rightarrow> disk \<Rightarrow> bool" where
  "outcome m Q R d \<longleftrightarrow> (case m d of (d', Inl x) \<Rightarrow> Q d' | (d', Inr a) \<Rightarrow> R a d')"

named_theorems outcome_intros \<open>taking a sequence of steps apart\<close>

lemma outcome_bind [outcome_intros]:
  "outcome m Q (\<lambda>a. outcome (f a) Q R) d \<Longrightarrow> outcome (gbind m f) Q R d"
  by (auto simp: outcome_def gbind_def split: prod.splits sum.splits)

lemma outcome_ret [outcome_intros]: "R a d \<Longrightarrow> outcome (gret a) Q R d"
  by (simp add: outcome_def gret_def)

lemma outcome_phase [outcome_intros]:
  "(hook_throws env p \<Longrightarrow> Q d) \<Longrightarrow> R () d \<Longrightarrow> outcome (store_phase env p) Q R d"
  by (simp add: outcome_def store_phase_def)

lemma outcome_call [outcome_intros]:
  "(\<And>n. call_fails env p = Some n \<Longrightarrow> Q (act (Some n) d)) \<Longrightarrow> R () (act None d) \<Longrightarrow> outcome (io_call env p act) Q R d"
  by (auto simp: outcome_def io_call_def split: option.splits)

lemma outcome_fail_as: "r = Inr a \<Longrightarrow> R a d \<Longrightarrow> outcome (fail_as r) Q R d"
  by (simp add: outcome_def fail_as_def)

lemma outcome_read:
  assumes "f d = Some bs" "length bs \<le> limit" "\<And>n. call_fails env p = Some n \<Longrightarrow> Q d" "R bs d"
  shows "outcome (\<lambda>d. io_read env p (f d) limit d) Q R d"
  using assms by (auto simp: outcome_def io_read_def no_effect_def io_call_def gbind_def split: option.splits)

lemma outcome_check:
  assumes "\<And>a. r d = Inr a \<Longrightarrow> R a d" "\<And>code. r d = Inl code \<Longrightarrow> Q d"
  shows "outcome (\<lambda>d. fail_as (r d) d) Q R d"
  using assms by (auto simp: outcome_def fail_as_def split: sum.splits)

lemma outcome_mono: "outcome m Q R d \<Longrightarrow> (\<And>d. Q d \<Longrightarrow> Q' d) \<Longrightarrow> (\<And>a d. R a d \<Longrightarrow> R' a d) \<Longrightarrow> outcome m Q' R' d"
  by (auto simp: outcome_def split: prod.splits sum.splits)

lemma atomically_cases: "P d \<Longrightarrow> P (f d) \<Longrightarrow> P (atomically f r d)"
  by (simp add: atomically_def)

section \<open>Images\<close>

lemma disk_wholeI: "disk_image c ep es [] cp a d \<Longrightarrow> disk_whole c ep es d"
  by (auto simp: disk_whole_def)

lemma disk_holdsI: "disk_image c ep es torn cp a d \<Longrightarrow> disk_holds c ep es d"
  by (auto simp: disk_holds_def)

lemma disk_image_lock [simp]: "disk_image c ep es torn cp a (d\<lparr>lock_taken := l\<rparr>) = disk_image c ep es torn cp a d"
  by (simp add: disk_image_def disk_bytes_def)

lemma disk_image_release [simp]: "disk_image c ep es torn cp a (release_lock d) = disk_image c ep es torn cp a d"
  by (simp add: release_lock_def)

lemma length_concat_bounded: "(\<And>x. x \<in> set xs \<Longrightarrow> length (f x) \<le> k) \<Longrightarrow> length (concat (map f xs)) \<le> k * length xs"
proof (induction xs)
  case (Cons x xs)
  have "length (f x) \<le> k" "length (concat (map f xs)) \<le> k * length xs" using Cons by simp_all
  then show ?case by simp
qed simp

lemma journal_of_length:
  assumes "\<And>n. a \<le> n \<Longrightarrow> n \<le> length es \<Longrightarrow> frame_fits c ep es n" "1 \<le> a"
  shows "length (journal_of c ep es a) \<le> length es * (package_limit + frame_overhead)"
proof -
  have "length (frame_of c ep es n) \<le> package_limit + frame_overhead" if "n \<in> set [a ..< length es + 1]" for n
    using assms(1) [of n] that by (auto simp: length_frame_of frame_fits_def)
  then have "length (journal_of c ep es a) \<le> (package_limit + frame_overhead) * length [a ..< length es + 1]"
    unfolding journal_of_def by (rule length_concat_bounded)
  also have "\<dots> \<le> (package_limit + frame_overhead) * length es"
  proof (rule mult_le_mono2)
    show "length [a ..< length es + 1] \<le> length es" unfolding length_upt using assms(2) by linarith
  qed
  finally show ?thesis by (simp add: mult.commute)
qed

lemma torn_length: "torn_tail torn \<Longrightarrow> length torn \<le> package_limit + frame_overhead"
  by (auto simp: torn_tail_def length_frame_bytes)

lemma image_journal_length:
  assumes i: "disk_image c ep es torn cp a d" and len: "length es \<le> 8"
  shows "length (journal_of c ep es a @ torn) \<le> journal_limit"
proof -
  have j: "length (journal_of c ep es a) \<le> length es * (package_limit + frame_overhead)"
    using i by (intro journal_of_length) (auto simp: disk_image_def)
  have t: "length torn \<le> package_limit + frame_overhead" "torn \<noteq> [] \<longrightarrow> length es < 8"
    using i by (auto simp: disk_image_def intro: torn_length)
  show ?thesis
  proof (cases "torn = []")
    case True
    then have "length (journal_of c ep es a @ torn) \<le> length es * (package_limit + frame_overhead)" using j by simp
    also have "\<dots> \<le> 8 * (package_limit + frame_overhead)" using len by (intro mult_right_mono) simp_all
    finally show ?thesis by (simp add: journal_limit_def commit_limit_def)
  next
    case False
    then have "length (journal_of c ep es a @ torn) \<le> Suc (length es) * (package_limit + frame_overhead)" using j t by simp
    also have "\<dots> \<le> 8 * (package_limit + frame_overhead)" using False t(2) by (intro mult_right_mono) simp_all
    finally show ?thesis by (simp add: journal_limit_def commit_limit_def)
  qed
qed

section \<open>Appending a frame\<close>

lemma torn_frame:
  assumes "frame_fits c ep es n" "n \<le> length es" "length es \<le> 8" "k < length (frame_of c ep es n)"
  shows "torn_tail (take k (frame_of c ep es n))"
proof -
  have "length (payload_of c ep es n) \<le> package_limit \<and>
      package_high (package_of c ep (take n es)) \<le> of_nat commit_limit \<and>
      k < length (frame_bytes (package_of c ep (take n es)) (payload_of c ep es n)) \<and>
      take k (frame_of c ep es n) = take k (frame_bytes (package_of c ep (take n es)) (payload_of c ep es n))"
    using assms high_small [of n] by (simp add: frame_fits_def package_high_of frame_of_def min_def)
  then show ?thesis unfolding torn_tail_def by blast
qed

text \<open>The journal after \<open>k\<close> bytes of the frame of one more entry.\<close>

lemma image_append:
  assumes i: "disk_image c ep es [] cp a d" and len: "length es < 8"
    and fits: "frame_fits c ep (es @ [x]) (length es + 1)"
    and quota: "disk_bytes d + length (frame_of c ep (es @ [x]) (length es + 1)) \<le> unat (byte_quota c)"
    and d': "d' = d\<lparr>journal_file := Some (journal_of c ep es a @ take k (frame_of c ep (es @ [x]) (length es + 1)))\<rparr>"
  shows "if k < length (frame_of c ep (es @ [x]) (length es + 1))
    then disk_image c ep es (take k (frame_of c ep (es @ [x]) (length es + 1))) cp a d'
    else disk_image c ep (es @ [x]) [] cp a d'"
proof -
  let ?f = "frame_of c ep (es @ [x]) (length es + 1)"
  have j: "journal_file d = Some (journal_of c ep es a)" and cp: "cp \<le> length es" and a: "1 \<le> a" "a \<le> cp + 1"
    using i by (simp_all add: disk_image_def)
  have bytes: "disk_bytes d' \<le> unat (byte_quota c)"
    using quota by (simp add: disk_bytes_def d' j contents_def min_def)
  show ?thesis
  proof (cases "k < length ?f")
    case True
    have "torn_tail (take k ?f)" using torn_frame [OF fits _ _ True] len by simp
    then show ?thesis using True i len bytes by (simp add: disk_image_def d')
  next
    case False
    have "frame_fits c ep (es @ [x]) n" if "a \<le> n" "n \<le> length (es @ [x])" for n
    proof (cases "n \<le> length es")
      case True
      then show ?thesis using i that by (simp add: frame_fits_append disk_image_def)
    next
      case False
      then have "n = length es + 1" using that by simp
      then show ?thesis using fits by simp
    qed
    moreover have "journal_of c ep (es @ [x]) a = journal_of c ep es a @ ?f"
      using cp a by (intro journal_of_snoc) simp
    ultimately show ?thesis
      using False i bytes cp by (simp add: disk_image_def d' frame_of_append frame_fits_append)
  qed
qed

lemma append_written: "append_journal bs r d = d\<lparr>journal_file := Some (contents (journal_file d) @ written bs r)\<rparr>"
  by (simp add: append_journal_def)

lemma written_take: "\<exists>k. written bs r = take k bs"
  by (cases r) (auto simp: written_def intro: exI [of _ "length bs"])

lemma write_frame_outcome:
  assumes i: "disk_image c ep es [] cp a d" and len: "length es < 8"
    and fits: "frame_fits c ep (es @ [x]) (length es + 1)"
    and quota: "disk_bytes d + length (frame_of c ep (es @ [x]) (length es + 1)) \<le> unat (byte_quota c)"
  shows "outcome (write_frame env (frame_of c ep (es @ [x]) (length es + 1)))
    (\<lambda>d'. (disk_holds c ep es d' \<or> disk_whole c ep (es @ [x]) d') \<and> lock_taken d' = lock_taken d)
    (\<lambda>_ d'. disk_whole c ep (es @ [x]) d' \<and> lock_taken d' = lock_taken d) d"
proof -
  let ?f = "frame_of c ep (es @ [x]) (length es + 1)"
  let ?at = "\<lambda>k. d\<lparr>journal_file := Some (journal_of c ep es a @ take k ?f)\<rparr>"
  let ?Q = "\<lambda>d'. (disk_holds c ep es d' \<or> disk_whole c ep (es @ [x]) d') \<and> lock_taken d' = lock_taken d"
  let ?R = "\<lambda>_ d'. disk_whole c ep (es @ [x]) d' \<and> lock_taken d' = lock_taken d"
  have j: "journal_file d = Some (journal_of c ep es a)" using i by (simp add: disk_image_def)
  have torn: "?Q (?at k)" for k
    using image_append [OF i len fits quota refl, of k] by (auto simp: disk_holds_def disk_whole_def split: if_splits)
  have whole: "?R u (?at (length ?f))" for u
    using image_append [OF i len fits quota refl, of "length ?f"] by (auto simp: disk_whole_def)
  let ?h = "length ?f - 40"
  have first: "\<exists>k. append_journal (take ?h ?f) r d = ?at k" for r
    using written_take [of "take ?h ?f" r] by (auto simp: append_written j contents_def)
  have head: "append_journal (take ?h ?f) None d = ?at ?h"
    by (simp add: append_written j contents_def written_def)
  have second: "\<exists>k. append_journal (drop ?h ?f) r (?at ?h) = ?at k" for r
  proof -
    obtain k where k: "written (drop ?h ?f) r = take k (drop ?h ?f)"
      using written_take by blast
    have "take ?h ?f @ take k (drop ?h ?f) = take (?h + k) ?f" by (simp add: take_add)
    then have "append_journal (drop ?h ?f) r (?at ?h) = ?at (?h + k)"
      using k by (simp add: append_written contents_def)
    then show ?thesis by blast
  qed
  have tail: "append_journal (drop ?h ?f) None (?at ?h) = ?at (length ?f)"
    by (simp add: append_written contents_def written_def)
  have Qfirst: "?Q (append_journal (take ?h ?f) r d)" for r using first [of r] torn by metis
  have Qsecond: "?Q (append_journal (drop ?h ?f) r (?at ?h))" for r using second [of r] torn by metis
  show ?thesis
    unfolding write_frame_def
    by (intro outcome_intros, unfold head tail no_effect_def) (rule Qfirst Qsecond torn whole)+
qed

section \<open>Writing a checkpoint\<close>

lemma image_scratch:
  assumes i: "disk_image c ep es torn cp a d" and quota: "disk_bytes d + length bs \<le> unat (byte_quota c)"
    and small: "length bs \<le> package_limit + frame_overhead"
  shows "disk_image c ep es torn cp a (d\<lparr>scratch_file := Some (take k bs)\<rparr>)"
  using i quota small by (auto simp: disk_image_def disk_bytes_def contents_def split: option.splits)

lemma image_replaced:
  assumes i: "disk_image c ep es torn cp a d" and f: "frame_fits c ep es (length es)"
    and s: "scratch_file d = Some (frame_of c ep es (length es))"
  shows "disk_image c ep es torn (length es) a (d\<lparr>checkpoint_file := scratch_file d, scratch_file := None\<rparr>)"
  using i f s by (auto simp: disk_image_def disk_bytes_def contents_def)

lemma image_reclaimed:
  assumes i: "disk_image c ep es torn (length es) a d"
  shows "disk_image c ep es [] (length es) (length es + 1) (d\<lparr>journal_file := Some []\<rparr>)"
  using i by (auto simp: disk_image_def disk_bytes_def contents_def journal_of_end torn_empty)

lemma frame_small: "frame_fits c ep es n \<Longrightarrow> length (frame_of c ep es n) \<le> package_limit + frame_overhead"
  by (simp add: length_frame_of frame_fits_def)

text \<open>The checkpoint of the history is replaced; on an error the old one may still be there.\<close>

lemma write_checkpoint_outcome:
  assumes i: "disk_image c ep es [] cp a d" and f: "frame_fits c ep es (length es)"
    and quota: "disk_bytes d + length (frame_of c ep es (length es)) \<le> unat (byte_quota c)"
  shows "outcome (write_checkpoint env (frame_of c ep es (length es)))
    (\<lambda>d'. disk_whole c ep es d' \<and> lock_taken d' = lock_taken d)
    (\<lambda>_ d'. (\<exists>a'. disk_image c ep es [] (length es) a' d') \<and> lock_taken d' = lock_taken d) d"
proof -
  let ?f = "frame_of c ep es (length es)"
  let ?d = "d\<lparr>scratch_file := Some ?f\<rparr>"
  let ?d' = "d\<lparr>checkpoint_file := Some ?f, scratch_file := None\<rparr>"
  let ?Q = "\<lambda>d'. disk_whole c ep es d' \<and> lock_taken d' = lock_taken d"
  have written: "?Q (write_scratch ?f r d)" for r
  proof -
    obtain k where "written ?f r = take k ?f" using written_take by blast
    then show ?thesis
      using disk_wholeI [OF image_scratch [OF i quota frame_small [OF f], of k]] by (simp add: write_scratch_def)
  qed
  have scratch: "write_scratch ?f None d = ?d" by (simp add: write_scratch_def written_def)
  have whole: "?Q ?d" using written [of None] by (simp add: scratch)
  have "disk_image c ep es [] cp a ?d" using image_scratch [OF i quota frame_small [OF f], of "length ?f"] by simp
  from image_replaced [OF this f] have new: "disk_image c ep es [] (length es) a ?d'" by simp
  then have fine: "?Q ?d'" by (auto simp: disk_whole_def)
  have step: "atomically (\<lambda>d. d\<lparr>checkpoint_file := scratch_file d, scratch_file := None\<rparr>) None ?d = ?d'"
    by (simp add: atomically_def)
  have swap: "?Q (atomically (\<lambda>d. d\<lparr>checkpoint_file := scratch_file d, scratch_file := None\<rparr>) r ?d)" for r
    by (rule atomically_cases) (use whole fine in simp_all)
  have res: "(\<exists>a'. disk_image c ep es [] (length es) a' ?d') \<and> lock_taken ?d' = lock_taken d" using new by auto
  have same: "require (?f = ?f) corrupt = Inr ()" by simp
  have stored: "scratch_file ?d = Some ?f" by simp
  show ?thesis
    unfolding write_checkpoint_def
    apply (intro outcome_intros)
    apply (unfold scratch no_effect_def)
    apply (rule written whole)+
    apply (rule outcome_read [where f = scratch_file, OF stored frame_small [OF f]])
    apply (rule whole)
    apply (intro outcome_intros outcome_fail_as [OF same])
    apply (unfold step)
    apply (rule whole swap fine res)+
    done
qed

lemma outcome_seq:
  assumes "outcome m Q R d" "\<And>a d'. R a d' \<Longrightarrow> outcome (f a) Q R' d'"
  shows "outcome (gbind m f) Q R' d"
  by (rule outcome_bind, rule outcome_mono [OF assms(1)]) (use assms(2) in blast)+

lemma compact_outcome:
  assumes i: "disk_image c ep es [] cp a d" and f: "frame_fits c ep es (length es)"
    and quota: "disk_bytes d + length (frame_of c ep es (length es)) \<le> unat (byte_quota c)"
  shows "outcome (compact_steps env (frame_of c ep es (length es)))
    (\<lambda>d'. disk_whole c ep es d' \<and> lock_taken d' = lock_taken d)
    (\<lambda>_ d'. disk_whole c ep es d' \<and> lock_taken d' = lock_taken d) d"
  unfolding compact_steps_def
proof (rule outcome_seq [OF write_checkpoint_outcome [OF i f quota]])
  fix u d1
  assume d1: "(\<exists>a'. disk_image c ep es [] (length es) a' d1) \<and> lock_taken d1 = lock_taken d"
  let ?Q = "\<lambda>d'. disk_whole c ep es d' \<and> lock_taken d' = lock_taken d"
  let ?d2 = "d1\<lparr>journal_file := Some []\<rparr>"
  have old: "?Q d1" using d1 by (auto intro: disk_wholeI)
  have new: "?Q ?d2" using d1 by (auto intro: disk_wholeI image_reclaimed)
  have step: "empty_journal None d1 = ?d2" by (simp add: empty_journal_def atomically_def)
  have reclaim: "?Q (empty_journal r d1)" for r
    unfolding empty_journal_def by (rule atomically_cases) (use old new in simp_all)
  show "outcome (gbind (store_phase env Before_Journal_Reclaim) (\<lambda>_.
     gbind (io_call env Empty_Journal empty_journal) (\<lambda>_.
     gbind (io_call env Journal_Flush no_effect) (\<lambda>_.
     gbind (io_call env Sync_Directory no_effect) (\<lambda>_.
     store_phase env After_Journal_Reclaim))))) ?Q (\<lambda>_. ?Q) d1"
    by (intro outcome_intros, unfold step no_effect_def) (rule old new reclaim)+
qed

section \<open>Creation\<close>

lemma checkpoint_written:
  assumes "length bs \<le> package_limit + frame_overhead"
  shows "outcome (write_checkpoint env bs) (\<lambda>_. True)
    (\<lambda>_ d'. d' = d\<lparr>checkpoint_file := Some bs, scratch_file := None\<rparr>) d"
proof -
  have scratch: "scratch_file (write_scratch bs None d) = Some bs" by (simp add: write_scratch_def written_def)
  have same: "require (bs = bs) corrupt = Inr ()" by simp
  show ?thesis
    unfolding write_checkpoint_def
    apply (intro outcome_intros TrueI)
    apply (unfold no_effect_def)
    apply (rule outcome_read [where f = scratch_file, OF scratch assms TrueI])
    apply (intro outcome_intros outcome_fail_as [OF same] TrueI)
    apply (simp add: atomically_def write_scratch_def written_def)
    done
qed

text \<open>The lock is taken for the steps; an error of theirs releases it.\<close>

lemma outcome_lock:
  assumes "\<not> lock_taken d" "outcome m (\<lambda>d'. Q (release_lock d')) R (d\<lparr>lock_taken := True\<rparr>)"
    and "call_fails env Take_Lock \<noteq> None \<Longrightarrow> Q d"
  shows "outcome (holding_lock env m) Q R d"
  using assms
  by (auto simp: outcome_def holding_lock_def take_lock_def io_call_def gbind_def split: prod.splits sum.splits option.splits)

text \<open>A new directory holds the empty history.\<close>

lemma create_outcome:
  assumes p: "p = package_of c ep []" and q: "byte_quota c \<le> maximum_quota"
  shows "outcome (create_steps env p) (\<lambda>_. True) (\<lambda>_ d'. disk_whole c ep [] d' \<and> lock_taken d') empty_disk"
proof -
  let ?f = "frame_of c ep [] 0"
  let ?d = "empty_disk\<lparr>lock_taken := True\<rparr>"
  let ?d' = "?d\<lparr>journal_file := Some [], checkpoint_file := Some ?f, scratch_file := None\<rparr>"
  have image: "disk_whole c ep [] ?d' \<and> lock_taken ?d'"
    if f: "store_frame p = Inr bs" and quota: "quota_check ?d p (length bs) = Inr ()" for bs
  proof -
    have "frame_fits c ep [] 0 \<and> bs = ?f" using f store_frame_of [of c ep 0 "[]" bs] by (simp add: p)
    moreover have "byte_quota (package_config p) \<le> maximum_quota" using q by (simp add: p package_of_fields)
    ultimately have "disk_image c ep [] [] 0 1 ?d'"
      using quota quota_check_Inr [of p ?d "length bs"]
      by (auto simp: disk_image_def disk_bytes_def contents_def empty_disk_def journal_of_def torn_empty p package_of_fields)
    then show ?thesis by (auto intro: disk_wholeI)
  qed
  have small: "length bs \<le> package_limit + frame_overhead \<and> bs = ?f" if "store_frame p = Inr bs" for bs
    using that store_frame_of [of c ep 0 "[]" bs] frame_small by (auto simp: p)
  have dir: "check_directory empty_disk = Inr ()" by (simp add: check_directory_def empty_disk_def)
  have tail: "outcome (gbind (io_call env Empty_Journal empty_journal) (\<lambda>_.
     gbind (io_call env Journal_Flush no_effect) (\<lambda>_.
     gbind (write_checkpoint env bs) (\<lambda>_.
     gbind (io_call env Sync_Directory no_effect) (\<lambda>_.
     io_call env Sync_Parent no_effect))))) (\<lambda>_. True) (\<lambda>_ d'. disk_whole c ep [] d' \<and> lock_taken d') ?d"
    if f: "store_frame p = Inr bs" and quota: "quota_check ?d p (length bs) = Inr ()" for bs
  proof -
    have start: "empty_journal None ?d = ?d\<lparr>journal_file := Some []\<rparr>" by (simp add: empty_journal_def atomically_def)
    have small': "length bs \<le> package_limit + frame_overhead" using small [OF f] by blast
    have last: "outcome (gbind (io_call env Sync_Directory no_effect) (\<lambda>_. io_call env Sync_Parent no_effect))
        (\<lambda>_. True) (\<lambda>_ d'. disk_whole c ep [] d' \<and> lock_taken d') d2"
      if "d2 = ?d\<lparr>journal_file := Some [], checkpoint_file := Some bs, scratch_file := None\<rparr>" for d2
      using image [OF f quota] small [OF f] that
      by (intro outcome_intros TrueI) (simp add: no_effect_def)
    show ?thesis
      apply (intro outcome_bind outcome_call TrueI)
      apply (unfold no_effect_def start)
      apply (rule outcome_mono [OF checkpoint_written [OF small'] TrueI])
      apply (rule last [unfolded no_effect_def])
      apply simp
      done
  qed
  have body: "outcome (gbind (fail_as (store_frame p)) (\<lambda>bs.
     gbind (\<lambda>d. fail_as (quota_check d p (length bs)) d) (\<lambda>_.
     gbind (io_call env Empty_Journal empty_journal) (\<lambda>_.
     gbind (io_call env Journal_Flush no_effect) (\<lambda>_.
     gbind (write_checkpoint env bs) (\<lambda>_.
     gbind (io_call env Sync_Directory no_effect) (\<lambda>_.
     io_call env Sync_Parent no_effect))))))) (\<lambda>_. True) (\<lambda>_ d'. disk_whole c ep [] d' \<and> lock_taken d') ?d"
  proof (cases "store_frame p")
    case (Inl code)
    then show ?thesis by (simp add: outcome_def gbind_def fail_as_def)
  next
    case f: (Inr bs)
    show ?thesis
      by (rule outcome_bind, rule outcome_fail_as [OF f], rule outcome_bind, rule outcome_check)
        (use tail [OF f] in simp_all)
  qed
  show ?thesis
    unfolding create_steps_def
    by (rule outcome_bind, rule outcome_check, rule outcome_lock)
      (use body in \<open>simp_all add: empty_disk_def\<close>)
qed

section \<open>Recovery\<close>

text \<open>An environment in which nothing fails.\<close>

definition calm :: "environment \<Rightarrow> bool" where
  "calm env \<longleftrightarrow> (\<forall>p. call_fails env p = None) \<and> (\<forall>p. \<not> hook_throws env p)"

lemma image_truncated:
  assumes "disk_image c ep es torn cp a d"
  shows "disk_image c ep es [] cp a (d\<lparr>journal_file := Some (journal_of c ep es a)\<rparr>)"
  using assms by (auto simp: disk_image_def disk_bytes_def contents_def torn_empty)

lemma image_no_scratch: "disk_image c ep es torn cp a d \<Longrightarrow> disk_image c ep es torn cp a (d\<lparr>scratch_file := None\<rparr>)"
  by (auto simp: disk_image_def disk_bytes_def contents_def)

lemma repair_outcome:
  assumes i: "disk_image c ep es torn cp a d" and l: "lock_taken d"
  shows "outcome (repair_journal env (length (journal_of c ep es a)) (torn \<noteq> []))
    (\<lambda>d'. \<not> calm env \<and> disk_holds c ep es (release_lock d') \<and> \<not> lock_taken (release_lock d'))
    (\<lambda>_ d'. disk_image c ep es [] cp a d' \<and> lock_taken d') d"
proof (cases "torn = []")
  case True
  then show ?thesis using i l by (simp add: repair_journal_def outcome_ret)
next
  case False
  let ?d = "d\<lparr>journal_file := Some (journal_of c ep es a)\<rparr>"
  let ?Q = "\<lambda>d'. \<not> calm env \<and> disk_holds c ep es (release_lock d') \<and> \<not> lock_taken (release_lock d')"
  have j: "contents (journal_file d) = journal_of c ep es a @ torn" using i by (simp add: disk_image_def contents_def)
  have new: "disk_image c ep es [] cp a ?d" by (rule image_truncated [OF i])
  have q: "?Q d" "?Q ?d" if "\<not> calm env"
    using that i new by (auto simp: disk_holds_def release_lock_def)
  have fails: "\<not> calm env" if "call_fails env p = Some n" for p n using that by (auto simp: calm_def)
  have cut: "truncate_journal (length (journal_of c ep es a)) None d = ?d"
    by (simp add: truncate_journal_def atomically_def j)
  have "?Q (truncate_journal (length (journal_of c ep es a)) r d)" if "\<not> calm env" for r
    unfolding truncate_journal_def by (rule atomically_cases) (use q [OF that] in \<open>simp_all add: j\<close>)
  then show ?thesis
    using False new l q fails cut
    by (auto simp: repair_journal_def no_effect_def intro!: outcome_intros)
qed

lemma remove_outcome:
  assumes i: "disk_image c ep es [] cp a d" and l: "lock_taken d"
  shows "outcome (remove_scratch env)
    (\<lambda>d'. \<not> calm env \<and> disk_holds c ep es (release_lock d') \<and> \<not> lock_taken (release_lock d'))
    (\<lambda>_ d'. disk_whole c ep es d' \<and> lock_taken d') d"
proof (cases "scratch_file d = None")
  case True
  then show ?thesis using i l by (auto simp: remove_scratch_def outcome_def intro: disk_wholeI)
next
  case False
  let ?d = "d\<lparr>scratch_file := None\<rparr>"
  let ?Q = "\<lambda>d'. \<not> calm env \<and> disk_holds c ep es (release_lock d') \<and> \<not> lock_taken (release_lock d')"
  let ?R = "\<lambda>_ d'. disk_whole c ep es d' \<and> lock_taken d'"
  let ?m = "gbind (io_call env Remove_Scratch (atomically (\<lambda>d. d\<lparr>scratch_file := None\<rparr>)))
      (\<lambda>_. io_call env Sync_Directory no_effect)"
  have new: "disk_image c ep es [] cp a ?d" by (rule image_no_scratch [OF i])
  have q: "?Q d" "?Q ?d" if "\<not> calm env"
    using that i new by (auto simp: disk_holds_def release_lock_def)
  have fails: "\<not> calm env" if "call_fails env p = Some n" for p n using that by (auto simp: calm_def)
  have "?Q (atomically (\<lambda>d. d\<lparr>scratch_file := None\<rparr>) r d)" if "\<not> calm env" for r
    by (rule atomically_cases) (use q [OF that] in simp_all)
  then have "outcome ?m ?Q ?R d"
    using new l q fails
    by (intro outcome_intros) (auto simp: no_effect_def atomically_def intro: disk_wholeI)
  then show ?thesis using False by (auto simp: outcome_def remove_scratch_def)
qed

lemma read_checkpoint_of:
  assumes "frame_fits c ep es cp" "cp \<le> length es" "length es \<le> 8"
    and "decode_package J address (payload_of c ep es cp) = Inr (package_of c ep (take cp es), w)"
  shows "read_checkpoint J address (frame_of c ep es cp) = Inr (package_of c ep (take cp es), w)"
  using read_whole_frame [OF assms(1-3), of "[]"] assms
  by (simp add: read_checkpoint_def package_high_of min_def)

lemma open_checks_image:
  assumes "disk_image c ep es torn cp a d" "byte_quota c \<le> maximum_quota"
  shows "open_checks (package_of c ep es, w) d = Inr ()"
proof -
  have b: "disk_bytes d \<le> unat (byte_quota c)" "\<not> stray_entry d" using assms(1) by (simp_all add: disk_image_def)
  moreover have q: "unat (byte_quota c) \<le> unat maximum_quota" using assms(2) by (simp add: word_le_nat_alt)
  ultimately have used: "bytes_used d = Inr (word_of_nat (disk_bytes d))" by (simp add: bytes_used_Inr)
  have "unat (word_of_nat (disk_bytes d) :: u64) = disk_bytes d"
    using b q by (simp add: unsigned_of_nat take_bit_nat_eq_self_iff maximum_quota_def)
  then have "(word_of_nat (disk_bytes d) :: u64) \<le> byte_quota c" using b by (simp add: word_le_nat_alt)
  then show ?thesis
    using assms(1)
    by (auto simp: open_checks_def used package_of_fields disk_image_def contents_def res_simps require_def
        split: option.splits)
qed

lemma history_worlds:
  assumes "history J c ep es w"
  obtains W where "\<And>n. n \<le> length es \<Longrightarrow>
      decode_package J address (payload_of c ep es n) = Inr (package_of c ep (take n es), W n)"
    "state (W (length es)) = state w" "live_history J c ep es (W (length es))"
proof -
  have "\<forall>n. \<exists>w'. decode_package J address (payload_of c ep es n) = Inr (package_of c ep (take n es), w')"
  proof
    fix n
    obtain w1 where "history J c ep (take n es) w1" using history_take [OF assms] by blast
    from decode_history [OF this, of address] show
      "\<exists>w'. decode_package J address (payload_of c ep es n) = Inr (package_of c ep (take n es), w')"
      unfolding payload_of_def by blast
  qed
  then obtain W where W: "\<And>n. decode_package J address (payload_of c ep es n) = Inr (package_of c ep (take n es), W n)"
    by metis
  moreover have "state (W (length es)) = state w \<and> live_history J c ep es (W (length es))"
    using decode_history [OF assms, of address] W [of "length es"] by (auto simp: payload_of_def)
  ultimately show ?thesis using that by blast
qed

lemma open_outcome:
  assumes h: "history J c ep es w" and i: "disk_image c ep es torn cp a d" and free: "\<not> lock_taken d"
  shows "outcome (open_steps J env address)
    (\<lambda>d'. \<not> calm env \<and> disk_holds c ep es d' \<and> \<not> lock_taken d')
    (\<lambda>r d'. fst r = package_of c ep es \<and> state (snd r) = state w \<and> live_history J c ep es (snd r) \<and>
       disk_whole c ep es d' \<and> lock_taken d') d"
proof -
  obtain W where dec: "\<And>n. n \<le> length es \<Longrightarrow>
      decode_package J address (payload_of c ep es n) = Inr (package_of c ep (take n es), W n)"
    and W: "state (W (length es)) = state w" "live_history J c ep es (W (length es))"
    using history_worlds [OF h] by metis
  let ?d = "d\<lparr>lock_taken := True\<rparr>"
  let ?j = "journal_of c ep es a @ torn"
  let ?Q = "\<lambda>d'. \<not> calm env \<and> disk_holds c ep es (release_lock d') \<and> \<not> lock_taken (release_lock d')"
  have len: "length es \<le> 8" by (rule history_length [OF h])
  have quota: "byte_quota c \<le> maximum_quota" using h by (simp add: history_def package_fits_def config_ok_def)
  have img: "disk_image c ep es torn cp a ?d" using i by simp
  have c: "cp \<le> length es" "1 \<le> a" "a \<le> cp + 1" "frame_fits c ep es cp" "torn_tail torn"
    and fits: "\<And>n. a \<le> n \<Longrightarrow> n \<le> length es \<Longrightarrow> frame_fits c ep es n"
    and files: "checkpoint_file ?d = Some (frame_of c ep es cp)" "journal_file ?d = Some ?j" "\<not> stray_entry d"
    using i by (auto simp: disk_image_def)
  have cpr: "read_checkpoint J address (frame_of c ep es cp) = Inr (package_of c ep (take cp es), W cp)"
    by (rule read_checkpoint_of [OF c(4) c(1) len dec [OF c(1)]])
  have m: "max cp (a - 1) = cp" "max cp (length es) = length es" "a \<le> length es + 1" using c by simp_all
  have scan: "scan_journal J address (package_of c ep (take cp es)) (package_of c ep (take cp es), W cp) None ?j =
      Inr ((package_of c ep es, W (length es)), torn)"
    using scan_journal_of [OF len c(1) fits dec c(5) c(2,3), of a] m by simp
  have checks: "open_checks (package_of c ep es, W (length es)) ?d = Inr ()"
    by (rule open_checks_image [OF img quota])
  have keep: "length ?j - length torn = length (journal_of c ep es a)" by simp
  have q: "?Q ?d" if "call_fails env p = Some n" for p n
    using that i by (auto simp: disk_holds_def release_lock_def calm_def)
  have res: "outcome (gbind (repair_journal env (length ?j - length torn) (torn \<noteq> [])) (\<lambda>_.
      gbind (remove_scratch env) (\<lambda>_. gret (package_of c ep es, W (length es))))) ?Q
    (\<lambda>r d'. fst r = package_of c ep es \<and> state (snd r) = state w \<and> live_history J c ep es (snd r) \<and>
       disk_whole c ep es d' \<and> lock_taken d') ?d"
    unfolding keep
    by (rule outcome_seq [OF repair_outcome [OF img]], simp, rule outcome_seq [OF remove_outcome])
      (use W in \<open>auto intro: outcome_ret\<close>)
  have dir: "check_directory d = Inr ()" using files(3) by (simp add: check_directory_def)
  show ?thesis
    unfolding open_steps_def
    apply (rule outcome_bind, rule outcome_check)
     apply (rule outcome_lock [OF free])
      apply (rule outcome_bind, rule outcome_read [where f = checkpoint_file, OF files(1) frame_small [OF c(4)]])
       apply (rule q, assumption)
      apply (rule outcome_bind, rule outcome_fail_as [OF cpr])
      apply (rule outcome_bind, rule outcome_read [where f = journal_file, OF files(2) image_journal_length [OF img len]])
       apply (rule q, assumption)
      apply (simp only: fst_conv)
      apply (rule outcome_bind, rule outcome_fail_as [OF scan])
      apply (simp only: prod.case)
      apply (rule outcome_bind, rule outcome_check)
       apply (rule res)
      apply (simp add: checks)
     apply (use i free in \<open>auto simp: calm_def disk_holds_def\<close>)[1]
    apply (simp add: dir)
    done
qed

end
