(* ===== verification/Persistence_Claims.thy ===== *)
theory Persistence_Claims
  imports Persistence_Crash "HOL-Library.Sublist"
begin

text \<open>
  What the durable store promises: a commit it has acknowledged is in the store that any later
  recovery opens, whatever calls failed in between, and a store that was not sealed reopens with
  the very snapshot it served.  The sessions of a store, with every failure of the environment, are
  the relation \<open>store_run\<close>.
\<close>

section \<open>A commit\<close>

lemma stored_bounded_operations: "stored_command_bounded e \<Longrightarrow> operations_bounded (operations e)"
proof -
  have t: "stored_target_bounded t = replay_target_bounded t" for t by (cases t) simp_all
  have "stored_operation_bounded op = replay_operation_bounded op" for op
    by (cases op) (auto simp: t split: option.split)
  then have "stored_operation_bounded = replay_operation_bounded" by (intro ext)
  then show "stored_command_bounded e \<Longrightarrow> operations_bounded (operations e)"
    by (simp add: stored_command_bounded_def operations_bounded_def)
qed

lemma bindings_ok_fit: "list_all replay_binding_ok bs \<Longrightarrow> length bs \<le> operation_limit \<Longrightarrow> bindings_fit bs"
  by (auto simp: bindings_fit_def list_all_iff binding_fits_def replay_binding_ok_def)

text \<open>The command of a call, as the store has checked it before it runs the coordinator.\<close>

definition command_checked ::
  "json_lib \<Rightarrow> string \<Rightarrow> (store_entry \<times> envelope) list \<Rightarrow> envelope \<Rightarrow> string \<Rightarrow> u64 \<Rightarrow> bool" where
  "command_checked J ep es e payload tick \<longleftrightarrow>
     stored_command_bounded e \<and> serialize J e = Inr payload \<and> length payload \<le> command_limit \<and>
     epoch (idempotency e) = ep \<and> idem_sequence (idempotency e) = of_nat (length es + 1) \<and> length es < 8 \<and>
     (es \<noteq> [] \<longrightarrow> last_tick 0 es \<le> tick)"

definition new_entry :: "(store_entry \<times> envelope) list \<Rightarrow> string \<Rightarrow> u64 \<Rightarrow> created_binding list \<Rightarrow> snapshot \<Rightarrow> store_entry" where
  "new_entry es payload tick created sn =
     \<lparr>store_sequence = of_nat (length es + 1), store_tick = tick, store_payload = payload, store_created = created,
      store_checkpoint = canonical_bytes sn\<rparr>"

lemma commit_history:
  assumes lib: "library_prints J" "prints_replays J c" and h: "live_history J c ep es w"
    and cmd: "command_checked J ep es e payload tick"
    and adm0: "admission w J e = Inr ()"
    and staged: "stage (None :: unit staging_hooks option) None (state w) (operations e) g1 = (g2, Inr st)"
    and small: "length (canonical_bytes (committed_snapshot (state w) st)) \<le> checkpoint_limit"
  shows "live_history J c ep (es @ [(new_entry es payload tick (staged_created st) (committed_snapshot (state w) st), e)])
      (w\<lparr>state := committed_snapshot (state w) st\<rparr>)"
proof -
  let ?x = "new_entry es payload tick (staged_created st) (committed_snapshot (state w) st)"
  let ?w = "w\<lparr>state := committed_snapshot (state w) st\<rparr>"
  let ?r = "entry_record (length es) ?x e"
  have hist: "history J c ep es w" and wf: "wf_snapshot (state w)" and wid: "snapshot_world_id (state w) = config_world_id c"
    using h by (simp_all add: live_history_def)
  note adm = admission_Inr [OF adm0]
  have rev: "world_revision (state w) = of_nat (length es)" by (rule history_revision [OF hist])
  have epoch: "epoch_ok ep" using hist by (simp add: history_def package_fits_def)
  have e: "stored_command_bounded e" "serialize J e = Inr payload" "length payload \<le> command_limit" "length es < 8"
      "epoch (idempotency e) = ep" "idem_sequence (idempotency e) = of_nat (length es + 1)"
      "es \<noteq> [] \<longrightarrow> last_tick 0 es \<le> tick"
    using cmd by (simp_all add: command_checked_def)
  have acc: "accept_entry J c ep (length es) (last_tick 0 es) ?x = Inr e"
    using e adm wid rev serialize_parse [OF lib(1) e(2)]
    by (auto simp: accept_entry_def new_entry_def require_def)
  have fields: "expected_revision ?r = world_revision (state w)" "record_operations ?r = operations e"
      "record_created ?r = staged_created st" "checkpoint ?r = canonical_bytes (state ?w)"
      "record_budget ?r = budget e"
    using rev by (simp_all add: entry_record_def new_entry_def)
  have small': "length (canonical_bytes (state ?w)) \<le> checkpoint_limit" using small by simp
  note step = commit_recorded [OF adm0 staged refl stored_bounded_operations [OF e(1)] wf small' fields]
  have pre: "preflight_command J (log_of c []) ?r = Inr ()"
  proof (rule preflight_command_ok)
    show "admitted_record ?r" using step by (simp add: record_ok_def)
    show "record_sequence ?r = of_nat (length es + 1)" by (simp add: entry_record_def new_entry_def)
    show "length es < entry_limit" using e(4) by (simp add: entry_limit_def)
    show "ascii_id 128 (log_world_id (log_of c []))" using wf wid by (simp add: log_of_def wf_snapshot_def)
    fix v
    assume v: "envelope_json (replay_envelope (log_of c []) ?r) = Inr v"
    have "length (epoch (idempotency e)) = 64" using e(5) epoch by (simp add: epoch_ok_def)
    moreover have "world_id e = config_world_id c" using adm wid by simp
    moreover have "record_budget ?r = budget e" "expected_revision ?r = expected_world_revision e"
        "record_sequence ?r = idem_sequence (idempotency e)"
      using adm rev e(6) by (simp_all add: entry_record_def new_entry_def)
    ultimately show "prints_compactly J v" using lib(2) e(2) fields(2) v unfolding prints_replays_def by blast
  qed
  have "bindings_fit (staged_created st)"
    using step fields(3) by (intro bindings_ok_fit) (simp_all add: record_ok_def)
  then have "entry_fits ?x" using e(3) small by (simp add: entry_fits_def new_entry_def)
  then have "history J c ep (es @ [(?x, e)]) ?w"
    using history_snoc [OF hist e(4) acc] step pre by simp
  then show ?thesis using step wid by (simp add: live_history_def same_world_def)
qed

section \<open>A serving store\<close>

definition serving :: "json_lib \<Rightarrow> store_config \<Rightarrow> string \<Rightarrow> (store_entry \<times> envelope) list \<Rightarrow> disk \<Rightarrow> store \<Rightarrow> bool" where
  "serving J c ep es d s \<longleftrightarrow>
     \<not> sealed s \<and> store_package s = package_of c ep es \<and> live_history J c ep es (store_world s) \<and>
     disk_whole c ep es d \<and> lock_taken d"

definition receipts_of :: "(store_entry \<times> envelope) list \<Rightarrow> receipt list" where
  "receipts_of es = map (\<lambda>(x, e). entry_receipt_of x e) es"

text \<open>The receipt of a call that has acknowledged a new commit.\<close>

definition acknowledged :: "store_result \<Rightarrow> receipt list" where
  "acknowledged r =
     (case stored_receipt r of
        None \<Rightarrow> []
      | Some rc \<Rightarrow>
          if stored_code r = [] \<and> \<not> stored_replayed r \<and> receipt_status rc = ''committed'' then [rc] else [])"

definition store_keeps :: "json_lib \<Rightarrow> store_config \<Rightarrow> receipt list \<Rightarrow> disk \<Rightarrow> store option \<Rightarrow> bool" where
  "store_keeps J c acks d so \<longleftrightarrow>
     (\<exists>ep es w. history J c ep es w \<and> disk_holds c ep es d \<and> subseq acks (receipts_of es) \<and>
        (case so of None \<Rightarrow> \<not> lock_taken d | Some s \<Rightarrow> sealed s \<or> serving J c ep es d s))"

lemma store_keeps_serving:
  "serving J c ep es d s \<Longrightarrow> subseq acks (receipts_of es) \<Longrightarrow> store_keeps J c acks d (Some s)"
  by (auto simp: store_keeps_def serving_def live_history_def intro: disk_whole_holds)

lemma store_keeps_sealed:
  "history J c ep es w \<Longrightarrow> disk_holds c ep es d \<Longrightarrow> subseq acks (receipts_of es) \<Longrightarrow> sealed s \<Longrightarrow>
    store_keeps J c acks d (Some s)"
  by (auto simp: store_keeps_def)

lemma receipts_of_snoc: "receipts_of (es @ [(x, e)]) = receipts_of es @ [entry_receipt_of x e]"
  by (simp add: receipts_of_def)

lemma receipts_grow: "subseq acks (receipts_of es) \<Longrightarrow> subseq acks (receipts_of (es @ [(x, e)]))"
  by (simp add: receipts_of_snoc list_emb_prefix)

lemma prepare_receipt:
  assumes "world_revision (state w) = of_nat (length es)"
  shows "durable_receipt (commit_receipt (initial_receipt (None :: unit staging_hooks option) w e)
      (world_revision (state w) + 1) created) = entry_receipt_of (new_entry es payload tick created sn) e"
  using assms
  by (simp add: durable_receipt_def commit_receipt_def initial_receipt_def empty_receipt_def entry_receipt_of_def new_entry_def)

lemma store_prepare_cases:
  assumes prep: "store_prepare env payload tick sn r0 obs = (obs1, pr)"
    and obs: "observed_disk obs = d" "observed_package obs = package_of c ep es" "\<not> observed_touched obs"
      "observed_result obs = store_result_of s []"
    and x: "x = new_entry es payload tick (receipt_created r0) sn" and len: "length es < 8"
    and rc: "durable_receipt r0 = entry_receipt_of x e"
    and acc: "length (canonical_bytes sn) \<le> checkpoint_limit \<longrightarrow> entries_accepted J c ep 0 0 (es @ [(x, e)])"
    and disk: "disk_whole c ep es d" and quota: "byte_quota c \<le> maximum_quota"
  obtains (untouched) z where "pr = Inl (Throws z)" "observed_disk obs1 = d" "observed_package obs1 = package_of c ep es"
      "\<not> observed_touched obs1"
  | (failed) z where "pr = Inl (Throws z)" "observed_touched obs1" "length (canonical_bytes sn) \<le> checkpoint_limit"
      "disk_holds c ep es (observed_disk obs1) \<or> disk_whole c ep (es @ [(x, e)]) (observed_disk obs1)"
  | (written) "pr = Inr ()" "observed_prepared obs1 = package_of c ep (es @ [(x, e)])"
      "length (canonical_bytes sn) \<le> checkpoint_limit"
      "disk_whole c ep (es @ [(x, e)]) (observed_disk obs1)" "lock_taken (observed_disk obs1) = lock_taken d"
      "stored_receipt (observed_result obs1) = Some (entry_receipt_of x e)"
      "stored_code (observed_result obs1) = []" "\<not> stored_replayed (observed_result obs1)"
proof (cases "length (canonical_bytes sn) > checkpoint_limit")
  case True
  then show ?thesis
    using prep obs by (intro untouched) (auto simp: store_prepare_def Let_def)
next
  case False
  let ?es = "es @ [(x, e)]"
  let ?p = "package_of c ep ?es"
  have entry: "\<lparr>store_sequence = package_high (package_of c ep es) + 1, store_tick = tick, store_payload = payload,
      store_created = receipt_created r0, store_checkpoint = canonical_bytes sn\<rparr> = x"
    by (simp add: x new_entry_def package_high_of)
  have p: "extend_package (package_of c ep es) x r0 = ?p"
    using False acc by (intro package_of_snoc [of J, OF _ len rc]) auto
  have ck: "store_checkpoint x = canonical_bytes sn" by (simp add: x new_entry_def)
  note run = prep [unfolded store_prepare_def Let_def obs entry p ck]
  have whole: "take (length es + 1) ?es = ?es" by simp
  show ?thesis
  proof (cases "store_frame ?p")
    case (Inl code)
    then show ?thesis using run False obs by (intro untouched) auto
  next
    case f: (Inr bs)
    have fits: "frame_fits c ep ?es (length es + 1)" and bs: "bs = frame_of c ep ?es (length es + 1)"
      using f store_frame_of [of c ep "length es + 1" ?es bs] unfolding whole by blast+
    show ?thesis
    proof (cases "quota_check d ?p (length bs)")
      case (Inl code)
      then show ?thesis using run False obs f by (intro untouched) auto
    next
      case q: (Inr u)
      have room: "disk_bytes d + length (frame_of c ep ?es (length es + 1)) \<le> unat (byte_quota c)"
        using q quota_check_Inr [of ?p d "length bs"] quota by (simp add: package_of_fields bs)
      obtain cp a where i: "disk_image c ep es [] cp a d" using disk by (auto simp: disk_whole_def)
      note out = write_frame_outcome [OF i len fits room, of env, folded bs]
      show ?thesis
      proof (cases "write_frame env bs d")
        case (Pair d1 res)
        show ?thesis
        proof (cases res)
          case (Inl z)
          then show ?thesis
            using run False f q Pair out by (intro failed) (auto simp: outcome_def)
        next
          case (Inr v)
          then show ?thesis
            using run False f q Pair out
            by (intro written) (auto simp: outcome_def store_result_of_def result_of_def rc)
        qed
      qed
    qed
  qed
qed

lemma store_commit_keeps:
  assumes lib: "library_prints J" "prints_replays J c" and sv: "serving J c ep es d s"
    and cmd: "command_checked J ep es e payload tick" and acks: "subseq acks (receipts_of es)"
    and call: "store_commit J env e payload tick (d, s) = ((d', s'), r)"
  shows "store_keeps J c (acks @ acknowledged r) d' (Some s')"
proof -
  let ?w = "store_world s" and ?p = "package_of c ep es"
  let ?obs = "\<lparr>observed_disk = d, observed_package = ?p, observed_prepared = ?p, observed_touched = False,
    observed_result = store_result_of s []\<rparr>"
  have h: "live_history J c ep es ?w" and hist: "history J c ep es ?w" and p: "store_package s = ?p"
    and whole: "disk_whole c ep es d" and lock: "lock_taken d" and open_: "\<not> sealed s"
    using sv by (simp_all add: serving_def live_history_def)
  have len: "length es < 8" using cmd by (simp add: command_checked_def)
  have quota: "byte_quota c \<le> maximum_quota" using hist by (simp add: history_def package_fits_def config_ok_def)
  have rev: "world_revision (state ?w) = of_nat (length es)" by (rule history_revision [OF hist])
  have s: "s\<lparr>store_world := ?w, store_package := ?p\<rparr> = s" using p by (cases s) simp
  have none: "acknowledged (store_result_of z code) = []" for z code
    by (simp add: acknowledged_def store_result_of_def result_of_def)
  obtain b res where run: "apply_at_boundary J (None :: unit staging_hooks option)
      (Some (storing_observer env payload tick)) e (?w, (), ?obs) = (b, res)"
    by (cases "apply_at_boundary J (None :: unit staging_hooks option)
      (Some (storing_observer env payload tick)) e (?w, (), ?obs)") auto
  obtain w' g' obs' where b: "b = (w', g', obs')" by (cases b)
  note call' = call [unfolded store_commit_def Let_def prod.case p run b]
  have same: "store_keeps J c acks d (Some s)" by (rule store_keeps_serving [OF sv acks])
  show ?thesis
    using run [unfolded apply_at_boundary_def b]
  proof (cases rule: observed_cases)
    case (rejected r0)
    then have "d' = d \<and> s' = s \<and> stored_receipt r = Some r0" using call' s by auto
    moreover have "acknowledged r = []" if "stored_receipt r = Some r0"
      using that rejected(4) by (simp add: acknowledged_def)
    ultimately show ?thesis using same by simp
  next
    case (prepared g1 g2 st obs1 pr)
    let ?sn = "committed_snapshot (state ?w) st"
    let ?x = "new_entry es payload tick (staged_created st) ?sn"
    let ?r0 = "commit_receipt (initial_receipt (None :: unit staging_hooks option) ?w e) (world_revision (state ?w) + 1) (staged_created st)"
    have created: "receipt_created ?r0 = staged_created st" by (simp add: commit_receipt_def)
    have hist': "live_history J c ep (es @ [(?x, e)]) (?w\<lparr>state := ?sn\<rparr>)"
      if "length (canonical_bytes ?sn) \<le> checkpoint_limit"
      by (rule commit_history [OF lib h cmd prepared(1,2) that])
    have acc: "length (canonical_bytes ?sn) \<le> checkpoint_limit \<longrightarrow> entries_accepted J c ep 0 0 (es @ [(?x, e)])"
      using hist' by (simp add: live_history_def history_def package_fits_def)
    have prep: "store_prepare env payload tick ?sn ?r0 ?obs = (obs1, pr)"
      using prepared(3) by (simp add: storing_observer_def)
    have x: "?x = new_entry es payload tick (receipt_created ?r0) ?sn" by (simp only: created)
    note rc = prepare_receipt [OF rev, of e "staged_created st" payload tick ?sn]
    have obs: "observed_disk ?obs = d" "observed_package ?obs = ?p" "\<not> observed_touched ?obs"
      "observed_result ?obs = store_result_of s []" by simp_all
    have seal: "acknowledged r = [] \<and> d' = observed_disk obs1 \<and> sealed s'"
      if "pr = Inl (Throws z)" "observed_touched obs1" for z
      using that prepared(4) call' none by auto
    show ?thesis
    proof (cases rule: store_prepare_cases [OF prep obs x len rc acc whole quota, case_names untouched failed written])
      case (untouched z)
      then have "d' = d \<and> s' = s \<and> acknowledged r = []" using prepared(4) call' s none by auto
      then show ?thesis using same by simp
    next
      case (failed z)
      note seal = seal [OF failed(1,2)]
      show ?thesis
        using failed(4)
      proof
        assume "disk_holds c ep es (observed_disk obs1)"
        then show ?thesis using store_keeps_sealed [OF hist _ acks] seal by simp
      next
        assume "disk_whole c ep (es @ [(?x, e)]) (observed_disk obs1)"
        moreover have "history J c ep (es @ [(?x, e)]) (?w\<lparr>state := ?sn\<rparr>)"
          using hist' [OF failed(3)] by (simp add: live_history_def)
        ultimately show ?thesis
          using store_keeps_sealed [OF _ disk_whole_holds receipts_grow [OF acks]] seal by simp
      qed
    next
      case written
      let ?w' = "?w\<lparr>state := ?sn\<rparr>" and ?es = "es @ [(?x, e)]"
      let ?s = "s\<lparr>store_world := ?w', store_package := package_of c ep ?es\<rparr>"
      note hist' = hist' [OF written(3)]
      have out: "w' = ?w'" "obs' = store_publish obs1" "res = Inr ?r0" using prepared(4) written(1) by (simp_all add: storing_observer_def)
      have "receipt_status ?r0 = ''committed''" by (simp add: commit_receipt_def)
      then have eqs: "d' = observed_disk obs1" "s' = (if hook_throws env Before_Ack then ?s\<lparr>sealed := True\<rparr> else ?s)"
          "r = (if hook_throws env Before_Ack then store_result_of (?s\<lparr>sealed := True\<rparr>) ''OUTCOME_UNKNOWN'' else observed_result obs1)"
        using call' out written(2) by (auto simp: store_publish_def split: if_splits)
      show ?thesis
      proof (cases "hook_throws env Before_Ack")
        case True
        have "history J c ep ?es ?w'" using hist' by (simp add: live_history_def)
        then show ?thesis
          using store_keeps_sealed [OF _ disk_whole_holds [OF written(4)] receipts_grow [OF acks]] eqs True none by simp
      next
        case False
        have "acknowledged r = [entry_receipt_of ?x e]"
          using False eqs written(6-8) by (simp add: acknowledged_def entry_receipt_of_def)
        moreover have "serving J c ep ?es d' ?s"
          using eqs hist' written(4,5) lock open_ by (simp add: serving_def)
        moreover have "subseq (acks @ [entry_receipt_of ?x e]) (receipts_of ?es)"
          using acks by (simp add: receipts_of_snoc)
        ultimately show ?thesis using store_keeps_serving eqs(2) False by metis
      qed
    qed
  qed
qed

section \<open>The other operations\<close>

lemma result_not_acknowledged [simp]: "acknowledged (store_result_of s code) = []"
  by (simp add: acknowledged_def store_result_of_def result_of_def)

lemma lookup_not_acknowledged [simp]: "acknowledged (store_lookup s n) = []"
  by (simp add: store_lookup_def Let_def) (simp add: acknowledged_def)

lemma store_replay_kept:
  assumes "store_replay env payload n s = (s', r)"
  shows "(s' = s \<or> s' = s\<lparr>sealed := True\<rparr>) \<and> acknowledged r = []"
  using assms by (auto simp: store_replay_def split: if_splits)

lemma store_keeps_seal: "store_keeps J c acks d (Some s) \<Longrightarrow> sealed s' \<Longrightarrow> store_keeps J c acks d (Some s')"
  by (auto simp: store_keeps_def)

lemma high_next:
  assumes "n \<le> 8"
  shows "(of_nat n :: u64) + 1 = of_nat (n + 1)" and "(of_nat n :: u64) = of_nat commit_limit \<longleftrightarrow> n = 8"
proof -
  have "unat (of_nat n :: u64) = n" "unat (of_nat 8 :: u64) = 8" using assms by (intro unat_high; simp)+
  then have "(of_nat n :: u64) = of_nat 8 \<Longrightarrow> n = 8" by metis
  then show "(of_nat n :: u64) = of_nat commit_limit \<longleftrightarrow> n = 8" by (auto simp: commit_limit_def)
qed simp

lemma apply_keeps:
  assumes lib: "library_prints J" "prints_replays J c" and k: "store_keeps J c acks d (Some s)"
    and call: "apply_await_durable J env e tick (d, s) = ((d', s'), r)"
  shows "store_keeps J c (acks @ acknowledged r) d' (Some s')"
proof (cases "d' = d \<and> (s' = s \<or> s' = s\<lparr>sealed := True\<rparr>) \<and> acknowledged r = []")
  case True
  then show ?thesis using k store_keeps_seal [OF k, of s'] by auto
next
  case False
  note call' = call [unfolded apply_await_durable_def Let_def prod.case]
  have open_: "\<not> sealed s" using call' False by (auto split: if_splits)
  then obtain ep es where sv: "serving J c ep es d s" and acks: "subseq acks (receipts_of es)"
    using k by (auto simp: store_keeps_def)
  have p: "store_package s = package_of c ep es" and hist: "history J c ep es (store_world s)"
    using sv by (simp_all add: serving_def live_history_def)
  note len = history_length [OF hist]
  obtain payload where run: "store_commit J env e payload tick (d, s) = ((d', s'), r)"
    and cmd: "stored_command_bounded e" "serialize J e = Inr payload" "length payload \<le> command_limit"
      "epoch (idempotency e) = ep" "idem_sequence (idempotency e) = of_nat (length es) + 1"
      "(of_nat (length es) :: u64) \<noteq> of_nat commit_limit"
      "package_entries (store_package s) = [] \<or> tick \<ge> store_tick (last (package_entries (store_package s)))"
    using call' False open_
    by (auto simp: p package_of_fields package_high_of not_less split: if_splits sum.splits prod.splits dest!: store_replay_kept)
  have "command_checked J ep es e payload tick"
    using cmd len high_next [OF len]
    by (auto simp: command_checked_def p package_of_fields last_tick_def last_map)
  then show ?thesis by (rule store_commit_keeps [OF lib sv _ acks run])
qed

lemma compact_keeps:
  assumes k: "store_keeps J c acks d (Some s)" and call: "store_compact env (d, s) = ((d', s'), r)"
  shows "store_keeps J c acks d' (Some s')"
proof (cases "d' = d \<and> s' = s")
  case True
  then show ?thesis using k by simp
next
  case False
  note call' = call [unfolded store_compact_def Let_def prod.case]
  have open_: "\<not> sealed s" using call' False by (auto split: if_splits)
  then obtain ep es where sv: "serving J c ep es d s" and acks: "subseq acks (receipts_of es)"
    using k by (auto simp: store_keeps_def)
  have p: "store_package s = package_of c ep es" and hist: "history J c ep es (store_world s)"
    using sv by (simp_all add: serving_def live_history_def)
  have quota: "byte_quota c \<le> maximum_quota" using hist by (simp add: history_def package_fits_def config_ok_def)
  have all: "take (length es) es = es" by simp
  obtain bs where f: "store_frame (package_of c ep es) = Inr bs"
    and q: "quota_check d (package_of c ep es) (length bs) = Inr ()"
    using call' False open_ by (auto simp: p split: sum.splits)
  have fits: "frame_fits c ep es (length es)" and bs: "bs = frame_of c ep es (length es)"
    using f store_frame_of [of c ep "length es" es bs] unfolding all by blast+
  have room: "disk_bytes d + length (frame_of c ep es (length es)) \<le> unat (byte_quota c)"
    using q quota_check_Inr [of "package_of c ep es" d "length bs"] quota by (simp add: package_of_fields bs)
  obtain cp a where i: "disk_image c ep es [] cp a d" using sv by (auto simp: serving_def disk_whole_def)
  note out = compact_outcome [OF i fits room, of env, folded bs]
  have "disk_whole c ep es d' \<and> lock_taken d' = lock_taken d \<and> (s' = s \<or> sealed s')"
    using call' open_ f q out by (auto simp: p outcome_def split: prod.splits sum.splits)
  then show ?thesis
    using sv store_keeps_serving [OF _ acks, of J c ep d' s] store_keeps_sealed [OF hist disk_whole_holds acks, of d' s']
    by (auto simp: serving_def)
qed

lemma notify_keeps:
  assumes k: "store_keeps J c acks d (Some s)" and call: "notify_acknowledged env s = (s', r)"
  shows "store_keeps J c acks d (Some s')"
  using k call store_keeps_seal [OF k, of s'] by (auto simp: notify_acknowledged_def split: if_splits)

lemma open_keeps:
  assumes k: "store_keeps J c acks d None" and call: "store_open J env address d = (d', res)"
  shows "store_keeps J c acks d' (case res of Inl _ \<Rightarrow> None | Inr s \<Rightarrow> Some s)"
proof -
  obtain ep es w torn cp a where hist: "history J c ep es w" and i: "disk_image c ep es torn cp a d"
    and acks: "subseq acks (receipts_of es)" and free: "\<not> lock_taken d"
    using k by (auto simp: store_keeps_def disk_holds_def)
  note out = open_outcome [OF hist i free, of env address]
  show ?thesis
  proof (cases res)
    case (Inl code)
    then have "disk_holds c ep es d' \<and> \<not> lock_taken d'"
      using call out
      by (auto simp: store_open_def rethrow_def outcome_def split: prod.splits sum.splits store_exn.splits)
    then show ?thesis using Inl hist acks by (auto simp: store_keeps_def)
  next
    case (Inr s)
    then have "serving J c ep es d' s"
      using call out
      by (auto simp: store_open_def rethrow_def outcome_def serving_def split: prod.splits sum.splits store_exn.splits)
    then show ?thesis using Inr store_keeps_serving acks by simp
  qed
qed

lemma epoch_text_ok:
  assumes "length random = 32"
  shows "epoch_ok (epoch_text random)"
proof -
  have len: "length (epoch_text bs) = 2 * length bs" for bs by (induction bs) (simp_all add: epoch_text_def)
  have nibble: "is_lower_hex (''0123456789abcdef'' ! n)" if "n < 16" for n :: nat
  proof -
    have "\<forall>n < 16. is_lower_hex (''0123456789abcdef'' ! n)" by code_simp
    then show ?thesis using that by blast
  qed
  have "unat (drop_bit 4 b) < 16" "unat (and b 15) < 16" for b :: u8
  proof -
    have "unat (drop_bit 4 b) = unat b div 16" by (simp add: drop_bit_eq_div unat_div)
    moreover have "unat b < 2 ^ LENGTH(8)" by (rule unsigned_less)
    then have "unat b div 16 < 16" by (intro less_mult_imp_div_less) simp
    ultimately show "unat (drop_bit 4 b) < 16" by simp
    have "and b 15 = take_bit 4 b" by (simp add: take_bit_eq_mask mask_eq_exp_minus_1)
    then show "unat (and b 15) < 16" by (simp add: unsigned_take_bit_eq take_bit_nat_def)
  qed
  then have "list_all is_lower_hex (epoch_text bs)" for bs
    by (induction bs) (simp_all add: epoch_text_def nibble)
  then show ?thesis using assms len by (simp add: epoch_ok_def)
qed

lemma create_keeps:
  assumes call: "store_create env address random c None = (Some d, Inr s)" and random: "length random = 32"
  shows "store_keeps J c [] d (Some s)"
proof -
  let ?ep = "epoch_text random"
  have one: "1 \<le> x \<longleftrightarrow> x \<noteq> 0" for x :: u32 by (simp add: word_le_nat_alt Suc_le_eq unat_gt_0)
  have ok: "config_ok c" "length (config_world_id c) \<le> 128" and q: "byte_quota c \<le> maximum_quota"
    using call by (auto simp: store_create_def config_ok_def one not_less split: if_splits)
  have p: "\<lparr>package_config = c, package_epoch = ?ep, package_entries = [], package_receipts = []\<rparr> = package_of c ?ep []"
    by (simp add: package_of_def receipts_from_def)
  obtain w where made: "make_world address (config_world_id c) (config_seed c) (config_max_slots c) = Inr w"
    and steps: "create_steps env (package_of c ?ep []) empty_disk = (d, Inr ())"
    and s: "s = \<lparr>store_package = package_of c ?ep [], store_world = w, sealed = False\<rparr>"
    using call
    by (auto simp: store_create_def Let_def rethrow_def p split: if_splits sum.splits prod.splits store_exn.splits)
  have "history J c ?ep [] w"
    using ok epoch_text_ok [OF random] made by (auto simp: history_def package_fits_def in_order_def)
  then have "live_history J c ?ep [] w"
    using make_world_wf [OF made] made by (auto simp: live_history_def make_world_def split: if_splits)
  moreover have "disk_whole c ?ep [] d \<and> lock_taken d"
    using create_outcome [OF refl q, of env ?ep] steps by (simp add: outcome_def)
  ultimately have "serving J c ?ep [] d s" using s by (simp add: serving_def)
  then show ?thesis by (rule store_keeps_serving) simp
qed

section \<open>Sessions\<close>

text \<open>
  What may happen to a store: \<open>acks\<close> are the receipts of the commits it has acknowledged, \<open>None\<close> is a
  store that no process has open.  The environment of every step is arbitrary; a process may end at
  any point between two calls, which gives the lock back.
\<close>

inductive store_run :: "json_lib \<Rightarrow> store_config \<Rightarrow> receipt list \<Rightarrow> disk \<Rightarrow> store option \<Rightarrow> bool" for J c where
  created: "store_create env address random c None = (Some d, Inr s) \<Longrightarrow> length random = 32 \<Longrightarrow>
    store_run J c [] d (Some s)"
| applied: "store_run J c acks d (Some s) \<Longrightarrow> apply_await_durable J env e tick (d, s) = ((d', s'), r) \<Longrightarrow>
    store_run J c (acks @ acknowledged r) d' (Some s')"
| compacted: "store_run J c acks d (Some s) \<Longrightarrow> store_compact env (d, s) = ((d', s'), r) \<Longrightarrow>
    store_run J c acks d' (Some s')"
| notified: "store_run J c acks d (Some s) \<Longrightarrow> notify_acknowledged env s = (s', res) \<Longrightarrow> store_run J c acks d (Some s')"
| ended: "store_run J c acks d (Some s) \<Longrightarrow> store_run J c acks (release_lock d) None"
| opened: "store_run J c acks d None \<Longrightarrow> store_open J env address d = (d', Inr s) \<Longrightarrow> store_run J c acks d' (Some s)"
| not_opened: "store_run J c acks d None \<Longrightarrow> store_open J env address d = (d', Inl code) \<Longrightarrow>
    store_run J c acks d' None"

lemma release_keeps: "store_keeps J c acks d (Some s) \<Longrightarrow> store_keeps J c acks (release_lock d) None"
  by (auto simp: store_keeps_def release_lock_def disk_holds_def) blast+

lemma run_keeps:
  assumes "store_run J c acks d so" "library_prints J" "prints_replays J c"
  shows "store_keeps J c acks d so"
  using assms(1)
proof induction
  case (opened acks d env address d' s)
  then show ?case using open_keeps [OF opened.IH opened.hyps(2)] by simp
next
  case (not_opened acks d env address d' code)
  then show ?case using open_keeps [OF not_opened.IH not_opened.hyps(2)] by simp
next
  case (created env address random d s)
  then show ?case by (rule create_keeps)
next
  case (applied acks d s env e tick d' s' r)
  then show ?case using apply_keeps [OF assms(2,3) applied.IH applied.hyps(2)] by simp
next
  case (compacted acks d s env d' s' r)
  then show ?case using compact_keeps [OF compacted.IH compacted.hyps(2)] by simp
next
  case (notified acks d s env s' res)
  then show ?case using notify_keeps [OF notified.IH notified.hyps(2)] by simp
next
  case (ended acks d s)
  then show ?case using release_keeps by simp
qed

text \<open>The receipts of the commits in a package.\<close>

definition recorded_receipts :: "json_lib \<Rightarrow> package \<Rightarrow> receipt list" where
  "recorded_receipts J p =
     map (\<lambda>x. case parse J (store_payload x) of Inr e \<Rightarrow> entry_receipt_of x e | Inl _ \<Rightarrow> empty_receipt)
       (package_entries p)"

lemma recorded_receipts_of:
  assumes "history J c ep es w"
  shows "recorded_receipts J (package_of c ep es) = receipts_of es"
proof -
  have "parse J (store_payload x) = Inr e"
    if "entries_accepted J c ep i tick es" "(x, e) \<in> set es" for i tick x e
    using that
    by (induction J c ep i tick es rule: entries_accepted.induct)
      (auto simp: accept_entry_def res_simps split: sum.splits)
  then show ?thesis
    using assms by (auto simp: recorded_receipts_def receipts_of_def package_of_fields history_def package_fits_def)
qed

lemma open_serves:
  assumes hist: "history J c ep es w" and holds: "disk_holds c ep es d" and free: "\<not> lock_taken d" and env: "calm env"
  obtains d' s where "store_open J env address d = (d', Inr s)" "serving J c ep es d' s" "state (store_world s) = state w"
proof -
  obtain torn cp a where i: "disk_image c ep es torn cp a d" using holds by (auto simp: disk_holds_def)
  obtain d' res where call: "store_open J env address d = (d', res)" by (cases "store_open J env address d")
  have "\<exists>s. res = Inr s \<and> serving J c ep es d' s \<and> state (store_world s) = state w"
    using open_outcome [OF hist i free, of env address] call env
    by (auto simp: store_open_def rethrow_def outcome_def serving_def split: prod.splits sum.splits store_exn.splits)
  then obtain s where s: "res = Inr s" "serving J c ep es d' s" "state (store_world s) = state w" by blast
  show ?thesis by (rule that [OF call [unfolded s(1)] s(2,3)])
qed

section \<open>A small session\<close>

definition calm_environment :: environment where
  "calm_environment = \<lparr>hook_throws = (\<lambda>p. False), call_fails = (\<lambda>p. None)\<rparr>"

definition small_config :: store_config where
  "small_config = \<lparr>config_world_id = ''w'', config_seed = 7, config_max_slots = 4, byte_quota = 65536\<rparr>"

definition small_epoch :: string where
  "small_epoch = replicate 64 CHR ''0''"

definition stored_envelope :: envelope where
  "stored_envelope = first_envelope\<lparr>idempotency := \<lparr>epoch = small_epoch, idem_sequence = 1\<rparr>\<rparr>"

text \<open>A library that knows two values: the command, and the form in which it is replayed.\<close>

definition two_value_lib :: "json \<Rightarrow> json \<Rightarrow> json_lib" where
  "two_value_lib v w =
     \<lparr>sax_events = (\<lambda>s. json_events (if s = ''{}'' then v else w)),
      json_parse = (\<lambda>s. Some (if s = ''{}'' then v else w)),
      json_dump = (\<lambda>u. if u = v then Some ''{}'' else if u = w then Some ''[]'' else None)\<rparr>"

definition store_lib :: json_lib where
  "store_lib = two_value_lib (printed_json stored_envelope) (printed_json first_envelope)"

lemma two_value_reads_back: "json_dump (two_value_lib v w) u \<noteq> None \<Longrightarrow> reads_back (two_value_lib v w) u"
  by (auto simp: reads_back_def two_value_lib_def split: if_splits)

lemma small_values:
  "validated_json stored_envelope = Inr (printed_json stored_envelope)"
  "validated_json first_envelope = Inr (printed_json first_envelope)"
  by code_simp+

lemma store_prints: "library_prints store_lib"
  by (simp add: library_prints_def store_lib_def two_value_reads_back)

lemma values_differ: "printed_json stored_envelope \<noteq> printed_json first_envelope"
proof
  assume same: "printed_json stored_envelope = printed_json first_envelope"
  note c = small_values [THEN validated_json_convert]
  have "stored_envelope = first_envelope"
    by (rule sum.inject(2) [THEN iffD1]) (rule trans [OF c(1) [unfolded same, symmetric] c(2)])
  then have "length (epoch (idempotency stored_envelope)) = length (epoch (idempotency first_envelope))" by simp
  then show False by (simp add: stored_envelope_def first_envelope_def small_epoch_def)
qed

lemma store_serialize: "serialize store_lib stored_envelope = Inr ''{}''" "serialize store_lib first_envelope = Inr ''[]''"
proof -
  have d: "json_dump store_lib (printed_json stored_envelope) = Some ''{}''"
    "json_dump store_lib (printed_json first_envelope) = Some ''[]''"
    using values_differ by (simp_all add: store_lib_def two_value_lib_def)
  then have "reads_back store_lib (printed_json stored_envelope)" "reads_back store_lib (printed_json first_envelope)"
    by (simp_all add: store_lib_def two_value_reads_back)
  note r = this
  from serialize_Inr_iff [OF small_values(1) r(1) d(1)] serialize_Inr_iff [OF small_values(2) r(2) d(2)]
  show "serialize store_lib stored_envelope = Inr ''{}''" "serialize store_lib first_envelope = Inr ''[]''"
    by (simp_all add: max_envelope_bytes_def)
qed

lemma store_known:
  assumes "serialize store_lib e = Inr payload"
  shows "e = stored_envelope \<or> e = first_envelope"
proof -
  obtain v where v: "validated_json e = Inr v" and "json_dump store_lib v \<noteq> None"
    using assms by (auto simp: serialize_def res_simps split: sum.splits option.splits)
  then have "v = printed_json stored_envelope \<or> v = printed_json first_envelope"
    by (auto simp: store_lib_def two_value_lib_def split: if_splits)
  then show ?thesis
    using validated_json_convert [OF v] small_values [THEN validated_json_convert] by auto
qed

lemma store_lib_compact: "prints_compactly store_lib (printed_json first_envelope)"
proof -
  have d: "json_dump store_lib (printed_json first_envelope) = Some ''[]''"
    using values_differ by (simp add: store_lib_def two_value_lib_def)
  moreover have "Suc (Suc 0) \<le> json_width v" for v by (cases v) simp_all
  moreover have "reads_back store_lib (printed_json first_envelope)"
    using d by (simp add: store_lib_def two_value_reads_back)
  ultimately show ?thesis by (simp add: prints_compactly_def)
qed

lemma small_normal_form: "prints_replays store_lib small_config"
  unfolding prints_replays_def
proof (intro allI impI)
  fix e payload v and r :: replay_record
  assume e: "serialize store_lib e = Inr payload" "length (epoch (idempotency e)) = 64" "world_id e = config_world_id small_config"
    and r: "record_operations r = operations e" "record_budget r = budget e"
      "expected_revision r = expected_world_revision e" "record_sequence r = idem_sequence (idempotency e)"
    and v: "envelope_json (replay_envelope (log_of small_config []) r) = Inr v"
  have "e = stored_envelope"
    using store_known [OF e(1)] e(2) by (auto simp: first_envelope_def)
  then have "replay_envelope (log_of small_config []) r = first_envelope"
    using r by (simp add: replay_envelope_def stored_envelope_def first_envelope_def log_of_def small_config_def one_printed)
  moreover have "envelope_json first_envelope = Inr (printed_json first_envelope)"
    using small_values(2) by (auto simp: validated_json_def res_simps)
  ultimately have "v = printed_json first_envelope" using v by simp
  then show "prints_compactly store_lib v" using store_lib_compact by simp
qed

section \<open>Its store\<close>

lemma small_epoch_text: "epoch_text (replicate 32 0) = small_epoch"
  by code_simp

definition small_package :: package where
  "small_package = package_of small_config small_epoch []"

lemma wr_lengths [simp]:
  "length (wr_u64 v) = 8" "length (wr_u32 x) = 4" "length (wr_text s) = 4 + length s" "length (wr_blob bs) = 4 + length bs"
  by (simp_all add: wr_u64_def wr_u32_def wr_text_def wr_blob_def)

lemma small_frame: "frame_fits small_config small_epoch [] 0" "length (frame_of small_config small_epoch [] 0) \<le> 1024"
  by (simp_all add: frame_fits_def payload_of_def wr_package_def package_of_def receipts_from_def small_config_def
      small_epoch_def builtin_manifest_def builtin_sha256_def package_limit_def length_frame_of frame_overhead_def Let_def)

definition small_disk :: disk where
  "small_disk =
     \<lparr>checkpoint_file = Some (frame_of small_config small_epoch [] 0), scratch_file = None, journal_file = Some [],
      stray_entry = False, lock_taken = True\<rparr>"

definition small_store :: store where
  "small_store = \<lparr>store_package = small_package, store_world = small_world, sealed = False\<rparr>"

lemma small_created:
  "store_create calm_environment 1 (replicate 32 0) small_config None = (Some small_disk, Inr small_store)"
proof -
  have f: "store_frame small_package = Inr (frame_of small_config small_epoch [] 0)"
    using store_frame_of [of small_config small_epoch 0 "[]"] small_frame by (simp add: small_package_def)
  have q: "quota_check \<lparr>checkpoint_file = None, scratch_file = None, journal_file = None, stray_entry = False, lock_taken = True\<rparr>
      small_package (length (frame_of small_config small_epoch [] 0)) = Inr ()"
    using quota_check_Inr [of small_package "\<lparr>checkpoint_file = None, scratch_file = None, journal_file = None, stray_entry = False, lock_taken = True\<rparr>"] small_frame(2)
    by (simp add: small_package_def package_of_fields small_config_def maximum_quota_def disk_bytes_def empty_disk_def contents_def)
  have p: "\<lparr>package_config = small_config, package_epoch = small_epoch, package_entries = [], package_receipts = []\<rparr> = small_package"
    by (simp add: small_package_def package_of_def receipts_from_def)
  have steps: "create_steps calm_environment small_package empty_disk = (small_disk, Inr ())"
    using small_frame(2)
    by (simp add: create_steps_def gbind_def fail_as_def check_directory_def holding_lock_def take_lock_def io_call_def
        calm_environment_def f q write_checkpoint_def store_phase_def io_read_def no_effect_def empty_journal_def atomically_def
        write_scratch_def written_def package_limit_def frame_overhead_def small_disk_def empty_disk_def gret_def)
  have c: "config_world_id small_config = ''w''" "config_seed small_config = 7" "config_max_slots small_config = 4"
      "\<not> byte_quota small_config > maximum_quota" "call_fails calm_environment Make_Directory = None"
    by (simp_all add: small_config_def maximum_quota_def calm_environment_def)
  show ?thesis
    using small_made by (simp add: store_create_def c p small_epoch_text rethrow_def steps small_store_def Let_def)
qed

section \<open>Its first commit\<close>

definition small_entry :: store_entry where
  "small_entry = new_entry [] ''{}'' 5 [first_binding] first_snapshot"

definition small_log :: "(store_entry \<times> envelope) list" where
  "small_log = [(small_entry, stored_envelope)]"

definition small_receipt :: receipt where
  "small_receipt = entry_receipt_of small_entry stored_envelope"

lemma small_checkpoint: "length (canonical_bytes first_snapshot) \<le> 1024"
  by (simp add: first_snapshot_def small_world_def empty_world_def canonical_bytes_def canonical_magic_def
      header_bytes_def slot_bytes_def live_def entity_bytes_def new_entity_def text_bytes_def numbers_def
      transform_bytes_def parent_bytes_def tags_bytes_def uuid_a_def unit_cube_def default_transform_def)

definition small_bytes :: bytes where
  "small_bytes = frame_of small_config small_epoch small_log 1"

lemma small_log_frame: "length small_bytes \<le> 4096"
  using small_checkpoint
  by (simp add: small_bytes_def length_frame_of payload_of_def wr_package_def package_of_def receipts_from_def small_config_def
      small_epoch_def builtin_manifest_def builtin_sha256_def frame_overhead_def Let_def small_log_def low_of_def
      small_entry_def new_entry_def wr_entry_def wr_receipt_def entry_receipt_of_def wr_bindings_def wr_binding_def
      first_binding_def stored_envelope_def first_envelope_def uuid_a_def)

lemma small_log_fits: "frame_fits small_config small_epoch small_log 1"
  using small_log_frame by (simp add: small_bytes_def frame_fits_def length_frame_of frame_overhead_def package_limit_def)

lemma calm_frame: "write_frame calm_environment bs d =
    (append_journal (drop (length bs - 40) bs) None (append_journal (take (length bs - 40) bs) None d), Inr ())"
  by (simp add: write_frame_def gbind_def io_call_def store_phase_def calm_environment_def no_effect_def)

definition small_disk1 :: disk where
  "small_disk1 =
     append_journal (drop (length small_bytes - 40) small_bytes) None
       (append_journal (take (length small_bytes - 40) small_bytes) None
          small_disk)"

definition small_store1 :: store where
  "small_store1 =
     \<lparr>store_package = package_of small_config small_epoch small_log, store_world = small_world\<lparr>state := first_snapshot\<rparr>,
      sealed = False\<rparr>"

lemma small_commit:
  obtains r where "apply_await_durable store_lib calm_environment stored_envelope 5 (small_disk, small_store) =
      ((small_disk1, small_store1), r)" "acknowledged r = [small_receipt]"
proof -
  let ?p = "package_of small_config small_epoch small_log" 
  let ?r = "commit_receipt (initial_receipt (None :: unit staging_hooks option) small_world stored_envelope) 1 [first_binding]"
  have rev: "world_revision (state small_world) = 0" "first_snapshot\<lparr>world_revision := 1\<rparr> = first_snapshot"
    by (simp_all add: small_world_def empty_world_def first_snapshot_def)
  have rc: "durable_receipt ?r = small_receipt" "receipt_created ?r = [first_binding]" "receipt_status ?r = ''committed''"
    using prepare_receipt [of small_world "[]" stored_envelope "[first_binding]" "''{}''" 5 first_snapshot] rev
    by (simp_all add: small_receipt_def small_entry_def commit_receipt_def)
  have high: "package_high small_package = 0" "package_low small_package = 1" by (simp_all add: small_package_def package_high_def package_of_def package_low_def low_of_def)
  have entry: "\<lparr>store_sequence = 1, store_tick = 5, store_payload = ''{}'', store_created = [first_binding],
      store_checkpoint = canonical_bytes first_snapshot\<rparr> = small_entry"
    by (simp add: small_entry_def new_entry_def)
  have ext: "extend_package small_package small_entry ?r = ?p"
    by (simp add: extend_package_def small_package_def rc package_of_def receipts_from_def small_log_def keep_last_def
        receipt_limit_def low_of_def small_entry_def new_entry_def small_receipt_def)
  have frame: "store_frame ?p = Inr small_bytes"
    using store_frame_of [of small_config small_epoch 1 small_log small_bytes] small_log_fits by (simp add: small_log_def small_bytes_def)
  have room: "quota_check small_disk ?p (length small_bytes) = Inr ()"
    using quota_check_Inr [of ?p small_disk "length small_bytes"] small_frame(2) small_log_frame
    by (simp add: package_of_fields small_config_def maximum_quota_def small_disk_def disk_bytes_def contents_def)
  have adm: "admission small_world store_lib stored_envelope = Inr ()"
    by (simp add: admission_def store_serialize)
      (simp add: small_world_def empty_world_def stored_envelope_def first_envelope_def)
  have ops: "operations stored_envelope = operations first_envelope" by (simp add: stored_envelope_def)
  have small: "\<not> length (canonical_bytes first_snapshot) > checkpoint_limit"
    using small_checkpoint by (simp add: checkpoint_limit_def)
  let ?obs = "\<lparr>observed_disk = small_disk, observed_package = small_package, observed_prepared = small_package,
      observed_touched = False, observed_result = store_result_of small_store []\<rparr>"
  let ?res = "(store_result_of small_store [])\<lparr>stored_receipt := Some small_receipt, durable_revision := package_high ?p,
      high_water := package_high ?p, low_water := package_low ?p\<rparr>"
  have prep: "store_prepare calm_environment ''{}'' 5 first_snapshot ?r ?obs =
      (?obs\<lparr>observed_prepared := ?p, observed_result := ?res, observed_disk := small_disk1, observed_touched := True\<rparr>, Inr ())"
    using small
    by (simp add: store_prepare_def Let_def high rc entry ext frame room calm_frame small_disk1_def)
  have fields: "store_package small_store = small_package" "store_world small_store = small_world" "\<not> sealed small_store"
      "hook_throws calm_environment p = False" for p
    by (simp_all add: small_store_def calm_environment_def)
  have commit: "store_commit store_lib calm_environment stored_envelope ''{}'' 5 (small_disk, small_store) =
      ((small_disk1, small_store1), ?res)"
    using rc(3)
    by (simp add: store_commit_def Let_def apply_at_boundary_def apply_envelope_def adm ops first_stage hook_def
        storing_observer_def rev fields prep publish_commit_def store_publish_def)
      (simp add: small_store_def small_store1_def)
  have bounded: "stored_command_bounded stored_envelope"
    by (simp add: stored_command_bounded_def stored_envelope_def first_envelope_def operation_limit_def unit_cube_def small_epoch_def)
  have numbers: "epoch (idempotency stored_envelope) = package_epoch small_package"
      "idem_sequence (idempotency stored_envelope) = 1" "package_entries small_package = []"
    by (simp_all add: stored_envelope_def small_package_def package_of_def)
  have "apply_await_durable store_lib calm_environment stored_envelope 5 (small_disk, small_store) =
      ((small_disk1, small_store1), ?res)"
    by (simp add: apply_await_durable_def Let_def fields bounded store_serialize numbers high commit command_limit_def
        commit_limit_def)
  moreover have "acknowledged ?res = [small_receipt]"
    by (simp add: acknowledged_def store_result_of_def result_of_def small_receipt_def entry_receipt_of_def)
  ultimately show ?thesis by (rule that)
qed

text \<open>The store is created, commits and ends.\<close>

lemma small_run: "store_run store_lib small_config [small_receipt] small_disk1 (Some small_store1)"
proof -
  obtain r where r: "apply_await_durable store_lib calm_environment stored_envelope 5 (small_disk, small_store) =
      ((small_disk1, small_store1), r)" "acknowledged r = [small_receipt]" by (rule small_commit)
  show ?thesis using store_run.applied [OF store_run.created [OF small_created] r(1)] by (simp add: r(2))
qed

lemma small_calm: "calm calm_environment"
  by (simp add: calm_def calm_environment_def)

section \<open>Properties\<close>

text \<open>C35: No acknowledged commit is lost: after any session of a store (commits, compactions, crashes
  between calls, failing system calls, torn writes, failed recoveries), a recovery in which nothing
  fails opens the store, and the package it restores holds the receipts of every acknowledged commit
  in their order; the restored store serves a well-formed snapshot whose revision is the number of
  its commits.  Of the JSON library it is used that it reads back what it prints, and prints a
  command in the form it is replayed in when it prints the command.\<close>

theorem acknowledged_commits_survive:
  assumes "store_run J c acks d None" "library_prints J" "prints_replays J c" "calm env"
  shows "\<exists>d' s sn. store_open J env address d = (d', Inr s) \<and>
    subseq acks (recorded_receipts J (store_package s)) \<and> store_snapshot s = Inr sn \<and> wf_snapshot sn \<and>
    world_revision sn = of_nat (length (package_entries (store_package s)))"
proof -
  obtain ep es w where hist: "history J c ep es w" and holds: "disk_holds c ep es d" "\<not> lock_taken d"
    and acks: "subseq acks (receipts_of es)"
    using run_keeps [OF assms(1-3)] by (auto simp: store_keeps_def)
  obtain d' s where s: "store_open J env address d = (d', Inr s)" "serving J c ep es d' s"
    by (rule open_serves [OF hist holds assms(4)])
  then have "live_history J c ep es (store_world s)" "store_package s = package_of c ep es" "\<not> sealed s"
    by (simp_all add: serving_def)
  moreover from this(1) have "world_revision (state (store_world s)) = of_nat (length es)" "wf_snapshot (state (store_world s))"
    by (auto simp: live_history_def intro: history_revision)
  ultimately show ?thesis
    using s(1) acks recorded_receipts_of [OF hist] by (simp add: store_snapshot_def package_of_fields)
qed

theorem acknowledged_commits_survive_witness:
  "\<exists>d' s sn. store_open store_lib calm_environment 1 (release_lock small_disk1) = (d', Inr s) \<and>
    subseq [small_receipt] (recorded_receipts store_lib (store_package s)) \<and> store_snapshot s = Inr sn \<and> wf_snapshot sn \<and>
    world_revision sn = of_nat (length (package_entries (store_package s)))"
  by (rule acknowledged_commits_survive [OF store_run.ended [OF small_run] store_prints small_normal_form small_calm])

text \<open>C36: What a store serves it serves again: when a process that has a store open, not sealed, ends
  and another recovers the directory without failures, the package and the snapshot are the same.\<close>

theorem reopened_store_serves_same:
  assumes "store_run J c acks d (Some s)" "library_prints J" "prints_replays J c" "calm env" "\<not> sealed s"
  shows "\<exists>d' s'. store_open J env address (release_lock d) = (d', Inr s') \<and>
    store_package s' = store_package s \<and> store_snapshot s' = store_snapshot s"
proof -
  obtain ep es where sv: "serving J c ep es d s"
    using run_keeps [OF assms(1-3)] assms(5) by (auto simp: store_keeps_def)
  then have hist: "history J c ep es (store_world s)" and whole: "disk_whole c ep es d"
    by (simp_all add: serving_def live_history_def)
  have "disk_holds c ep es (release_lock d)" "\<not> lock_taken (release_lock d)"
    using disk_whole_holds [OF whole] by (simp_all add: disk_holds_def release_lock_def)
  then obtain d' s' where s': "store_open J env address (release_lock d) = (d', Inr s')" "serving J c ep es d' s'"
      "state (store_world s') = state (store_world s)"
    by (rule open_serves [OF hist _ _ assms(4)])
  then show ?thesis using sv by (auto simp: serving_def store_snapshot_def)
qed

theorem reopened_store_serves_same_witness:
  "\<exists>d' s'. store_open store_lib calm_environment 1 (release_lock small_disk1) = (d', Inr s') \<and>
    store_package s' = store_package small_store1 \<and> store_snapshot s' = Inr first_snapshot"
proof -
  have "\<not> sealed small_store1" "store_snapshot small_store1 = Inr first_snapshot"
    by (simp_all add: small_store1_def store_snapshot_def)
  then show ?thesis
    using reopened_store_serves_same [OF small_run store_prints small_normal_form small_calm, of 1] by simp
qed

end
