(* ===== verification/Gltf.thy ===== *)
theory Gltf
  imports Assets Json Presentation
begin

text \<open>
  The glTF importer of \<open>include/omniweft/gltf.hpp\<close> and \<open>src/gltf.cpp\<close>, first half: the GLB container,
  the SAX limits, the checked access to JSON, buffer views, accessors, materials and meshes.  The
  JSON parser is the parameter \<^theory_text>\<open>json_lib\<close>.  A vector or matrix is the list of its components.
\<close>

section \<open>Data\<close>

type_synonym gl_vector = "f64 list"

record gl_bounds =
  bounds_minimum :: gl_vector
  bounds_maximum :: gl_vector

record gl_primitive =
  primitive_positions :: "gl_vector list"
  primitive_indices :: "u32 list"
  primitive_material :: "u32 option"
  primitive_bounds :: gl_bounds

record gl_mesh =
  primitives :: "gl_primitive list"

record gl_node =
  node_mesh :: "u32 option"
  node_children :: "u32 list"
  node_translation :: gl_vector
  node_rotation :: gl_vector
  node_scale :: gl_vector
  local_matrix :: gl_vector
  world_matrix :: gl_vector
  node_bounds :: "gl_bounds option"

record gl_material =
  material_name :: string
  base_color_factor :: gl_vector
  metallic_factor :: f64
  roughness_factor :: f64
  double_sided :: bool

record gl_view =
  view_offset :: u32
  view_length :: u32
  view_stride :: u32
  view_target :: u32
  view_positions :: nat
  view_indices :: nat

record gl_accessor =
  accessor_positions :: "gl_vector list"
  accessor_indices :: "u32 list"
  accessor_bounds :: gl_bounds

definition no_bounds :: gl_bounds where
  "no_bounds = \<lparr>bounds_minimum = [f_zero, f_zero, f_zero], bounds_maximum = [f_zero, f_zero, f_zero]\<rparr>"

section \<open>Numbers\<close>

text \<open>The \<open>double\<close> of the \<open>float\<close> with the given bits; every finite one is exact.\<close>

definition widen :: "u32 \<Rightarrow> f64" where
  "widen x =
     (let s = 2 ^ 31 \<le> uint x; e = uint x div 2 ^ 23 mod 256; m = uint x mod 2 ^ 23 in
      if e = 255 then (if m = 0 then f_infinity s else f_nan)
      else if e = 0 then round64 s m (- 149)
      else round64 s (m + 2 ^ 23) (e - 150))"

text \<open>\<open>static_cast<double>\<close> of an unsigned integer, and the constants of the checks.\<close>

definition f_of_nat :: "nat \<Rightarrow> f64" where
  "f_of_nat n = round64 False (int n) 0"

definition single_max :: f64 where
  "single_max = round64 False (2 ^ 24 - 1) 104"

definition f_integral :: "f64 \<Rightarrow> bool" where
  "f_integral x \<longleftrightarrow> f_exp x \<ge> 0 \<or> f_mant x mod 2 ^ nat (- f_exp x) = 0"

definition f_truncated :: "f64 \<Rightarrow> int" where
  "f_truncated x = (if f_exp x \<ge> 0 then f_mant x * 2 ^ nat (f_exp x) else f_mant x div 2 ^ nat (- f_exp x))"

definition plus_zero :: "f64 \<Rightarrow> f64" where
  "plus_zero x = (if is_zero x then f_zero else x)"

definition std_min :: "f64 \<Rightarrow> f64 \<Rightarrow> f64" where
  "std_min a b = (if flt b a then b else a)"

definition std_max :: "f64 \<Rightarrow> f64 \<Rightarrow> f64" where
  "std_max a b = (if flt a b then b else a)"

section \<open>The container\<close>

definition file_cap :: nat where
  "file_cap = 65536"

definition json_cap :: nat where
  "json_cap = 16384"

record gl_sax =
  sax_stack :: "(bool \<times> string set) list"
  sax_count :: nat

definition count_event :: "gl_sax \<Rightarrow> string + gl_sax" where
  "count_event s =
     rbind (require (sax_count s + 1 \<le> 4096) ''BUDGET_EXCEEDED'') (\<lambda>_. Inr (s\<lparr>sax_count := sax_count s + 1\<rparr>))"

definition open_level :: "bool \<Rightarrow> gl_sax \<Rightarrow> string + gl_sax" where
  "open_level object s =
     rbind (count_event s) (\<lambda>s.
     rbind (require (length (sax_stack s) \<noteq> 16) ''BUDGET_EXCEEDED'') (\<lambda>_.
     Inr (s\<lparr>sax_stack := (object, {}) # sax_stack s\<rparr>)))"

fun gl_sax_step :: "gl_sax \<Rightarrow> sax_event \<Rightarrow> string + gl_sax" where
  "gl_sax_step s (Sax_Float x) = (if is_finite x then count_event s else Inl ''NONFINITE_VALUE'')"
| "gl_sax_step s (Sax_String v) = (if length v \<le> 256 then count_event s else Inl ''BUDGET_EXCEEDED'')"
| "gl_sax_step s Sax_Binary = Inl ''INVALID_SCHEMA''"
| "gl_sax_step s Sax_Start_Object = open_level True s"
| "gl_sax_step s Sax_Start_Array = open_level False s"
| "gl_sax_step s (Sax_Key key) =
     rbind (count_event s) (\<lambda>s.
     rbind (require (length key \<le> 256) ''BUDGET_EXCEEDED'') (\<lambda>_.
     case sax_stack s of
       (True, keys) # frames \<Rightarrow>
         if key \<in> keys then Inl ''INVALID_SCHEMA''
         else Inr (s\<lparr>sax_stack := (True, insert key keys) # frames\<rparr>)
     | _ \<Rightarrow> Inl ''INVALID_SCHEMA''))"
| "gl_sax_step s Sax_End_Object = count_event (s\<lparr>sax_stack := tl (sax_stack s)\<rparr>)"
| "gl_sax_step s Sax_End_Array = count_event (s\<lparr>sax_stack := tl (sax_stack s)\<rparr>)"
| "gl_sax_step s (Sax_Parse_Error n) = Inl (if n = 406 then ''NONFINITE_VALUE'' else ''INVALID_SCHEMA'')"
| "gl_sax_step s _ = count_event s"

fun gl_sax_run :: "gl_sax \<Rightarrow> sax_event list \<Rightarrow> string + gl_sax" where
  "gl_sax_run s [] = Inr s"
| "gl_sax_run s (ev # evs) = rbind (gl_sax_step s ev) (\<lambda>s'. gl_sax_run s' evs)"

definition le32 :: "bytes \<Rightarrow> nat \<Rightarrow> string + u32" where
  "le32 bs at =
     (if at > length bs \<or> length bs - at < 4 then Inl ''INVALID_GLB''
      else Inr (or_bytes (take 4 (drop at bs))))"

text \<open>The chunks from \<open>offset\<close> on, with the JSON and the binary chunk seen so far and their ordinal.\<close>

function gl_chunks ::
  "bytes \<Rightarrow> nat \<Rightarrow> nat \<Rightarrow> bytes option \<Rightarrow> bytes option \<Rightarrow> string + bytes option \<times> bytes option" where
  "gl_chunks bs offset ordinal js bin =
     (if offset \<ge> length bs then Inr (js, bin)
      else if length bs - offset < 8 then Inl ''INVALID_GLB''
      else
        rbind (le32 bs offset) (\<lambda>n.
        rbind (le32 bs (offset + 4)) (\<lambda>kind.
        let start = offset + 8 in
        if unat n mod 4 \<noteq> 0 \<or> unat n > length bs - start then Inl ''INVALID_GLB''
        else
          let data = take (unat n) (drop start bs) in
          if ordinal = 0 \<and> kind \<noteq> 0x4e4f534a then Inl ''INVALID_GLB''
          else if kind = 0x4e4f534a then
            (if js \<noteq> None \<or> ordinal \<noteq> 0 then Inl ''INVALID_GLB''
             else gl_chunks bs (start + unat n) (ordinal + 1) (Some data) bin)
          else if kind = 0x004e4942 then
            (if bin \<noteq> None \<or> ordinal \<noteq> 1 then Inl ''INVALID_GLB''
             else gl_chunks bs (start + unat n) (ordinal + 1) js (Some data))
          else gl_chunks bs (start + unat n) (ordinal + 1) js bin)))"
  by pat_completeness auto

termination gl_chunks
  by (relation "measure (\<lambda>(bs, offset, ordinal, js, bin). length bs - offset)") (auto simp: rbind_def split: sum.splits)

declare gl_chunks.simps [simp del]

definition gl_container :: "json_lib \<Rightarrow> bytes \<Rightarrow> string + json \<times> bytes" where
  "gl_container J bs =
     rbind (require (length bs \<le> file_cap) ''BUDGET_EXCEEDED'') (\<lambda>_.
     rbind (require (length bs \<ge> 12) ''INVALID_GLB'') (\<lambda>_.
     rbind (le32 bs 0) (\<lambda>magic.
     rbind (require (magic = 0x46546c67) ''INVALID_GLB'') (\<lambda>_.
     rbind (le32 bs 4) (\<lambda>version.
     rbind (require (version = 2) ''INVALID_GLB'') (\<lambda>_.
     rbind (le32 bs 8) (\<lambda>n.
     rbind (require (unat n = length bs) ''INVALID_GLB'') (\<lambda>_.
     rbind (gl_chunks bs 12 0 None None) (\<lambda>chunks.
     case chunks of
       (Some js, Some bin) \<Rightarrow>
         rbind (require (length js \<le> json_cap) ''BUDGET_EXCEEDED'') (\<lambda>_.
         rbind (require (js \<noteq> [] \<and> 0 \<notin> set js \<and> \<not> (length js \<ge> 3 \<and> take 3 js = [0xef, 0xbb, 0xbf]))
           ''INVALID_SCHEMA'') (\<lambda>_.
         rbind (gl_sax_run \<lparr>sax_stack = [], sax_count = 0\<rparr> (sax_events J (bytes_str js))) (\<lambda>_.
         case json_parse J (bytes_str js) of
           None \<Rightarrow> Inl ''INVALID_SCHEMA''
         | Some v \<Rightarrow> Inr (v, bin))))
     | _ \<Rightarrow> Inl ''INVALID_GLB'')))))))))"

section \<open>Checked access\<close>

definition gl_field :: "string list \<Rightarrow> string \<times> json \<Rightarrow> string + unit" where
  "gl_field allowed m =
     (if fst m = ''extras'' then Inr ()
      else if fst m = ''extensions'' then
        rbind (require (is_object (snd m)) ''INVALID_SCHEMA'') (\<lambda>_.
        require (members (snd m) = []) ''UNSUPPORTED_PROFILE'')
      else require (fst m \<in> set allowed) ''UNSUPPORTED_PROFILE'')"

definition gl_fields :: "json \<Rightarrow> string list \<Rightarrow> string list \<Rightarrow> string + unit" where
  "gl_fields v allowed required =
     rbind (require (is_object v) ''INVALID_SCHEMA'') (\<lambda>_.
     rbind (rmap_list (gl_field allowed) (members v)) (\<lambda>_.
     require (list_all (contains v) required) ''INVALID_SCHEMA''))"

definition gl_text :: "json \<Rightarrow> string + string" where
  "gl_text v =
     (case v of
        JStr s \<Rightarrow> rbind (require (length s \<le> 256) ''BUDGET_EXCEEDED'') (\<lambda>_. Inr s)
      | _ \<Rightarrow> Inl ''INVALID_SCHEMA'')"

text \<open>The member \<open>key\<close> of an object, converted when it is there.\<close>

definition gl_optional :: "json \<Rightarrow> string \<Rightarrow> 'a \<Rightarrow> (json \<Rightarrow> string + 'a) \<Rightarrow> string + 'a" where
  "gl_optional v key fallback conv = (if contains v key then conv (jget v key) else Inr fallback)"

definition gl_name :: "json \<Rightarrow> string + string" where
  "gl_name v = gl_optional v ''name'' [] gl_text"

definition gl_integer :: "json \<Rightarrow> string + u32" where
  "gl_integer v =
     (case v of
        JUInt n \<Rightarrow> rbind (require (unat n \<le> 4294967295) ''INVALID_SCHEMA'') (\<lambda>_. Inr (ucast n))
      | _ \<Rightarrow>
        (case json_number v of
           None \<Rightarrow> Inl ''INVALID_SCHEMA''
         | Some x \<Rightarrow>
             rbind (require (is_finite x) ''NONFINITE_VALUE'') (\<lambda>_.
             rbind (require (\<not> flt x f_zero \<and> \<not> flt (f_of_nat 4294967295) x \<and> f_integral x) ''INVALID_SCHEMA'') (\<lambda>_.
             Inr (word_of_int (f_truncated x))))))"

definition optional_integer :: "json \<Rightarrow> string \<Rightarrow> u32 \<Rightarrow> string + u32" where
  "optional_integer v key fallback = gl_optional v key fallback gl_integer"

definition gl_index :: "nat \<Rightarrow> json \<Rightarrow> string + u32" where
  "gl_index count v =
     rbind (gl_integer v) (\<lambda>n. rbind (require (unat n < count) ''INVALID_SCHEMA'') (\<lambda>_. Inr n))"

definition gl_array :: "json \<Rightarrow> nat \<Rightarrow> bool \<Rightarrow> string + json list" where
  "gl_array v maximum nonempty =
     (case v of
        JArr vs \<Rightarrow>
          rbind (require (\<not> (nonempty \<and> vs = [])) ''INVALID_SCHEMA'') (\<lambda>_.
          rbind (require (length vs \<le> maximum) ''BUDGET_EXCEEDED'') (\<lambda>_. Inr vs))
      | _ \<Rightarrow> Inl ''INVALID_SCHEMA'')"

definition gl_number :: "json \<Rightarrow> string + f64" where
  "gl_number v =
     (case json_number v of
        None \<Rightarrow> Inl ''INVALID_SCHEMA''
      | Some x \<Rightarrow> rbind (require (is_finite x) ''NONFINITE_VALUE'') (\<lambda>_. Inr (plus_zero x)))"

definition gl_vector_of :: "nat \<Rightarrow> json \<Rightarrow> string + gl_vector" where
  "gl_vector_of n v =
     (case v of
        JArr vs \<Rightarrow> rbind (require (length vs = n) ''INVALID_SCHEMA'') (\<lambda>_. rmap_list gl_number vs)
      | _ \<Rightarrow> Inl ''INVALID_SCHEMA'')"

definition gl_flag :: "json \<Rightarrow> string + bool" where
  "gl_flag v = (case v of JBool b \<Rightarrow> Inr b | _ \<Rightarrow> Inl ''INVALID_SCHEMA'')"

definition single_precision :: "f64 \<Rightarrow> string + f64" where
  "single_precision x =
     rbind (require (\<not> flt single_max (fabs x)) ''NONFINITE_VALUE'') (\<lambda>_.
     let y = widen (narrow x) in
     rbind (require (is_finite y) ''NONFINITE_VALUE'') (\<lambda>_. Inr y))"

definition position_extrema :: "json \<Rightarrow> string + gl_vector" where
  "position_extrema v = rbind (gl_vector_of 3 v) (rmap_list single_precision)"

definition bounds_add :: "gl_bounds \<Rightarrow> gl_vector \<Rightarrow> gl_bounds" where
  "bounds_add b p =
     \<lparr>bounds_minimum = map2 std_min (bounds_minimum b) p, bounds_maximum = map2 std_max (bounds_maximum b) p\<rparr>"

definition bounds_merge :: "gl_bounds option \<Rightarrow> gl_bounds \<Rightarrow> gl_bounds option" where
  "bounds_merge b v =
     Some (case b of None \<Rightarrow> v | Some c \<Rightarrow> bounds_add (bounds_add c (bounds_minimum v)) (bounds_maximum v))"

text \<open>The bounds of a vertex and of those before it.\<close>

definition bounds_grow :: "gl_bounds option \<Rightarrow> gl_vector \<Rightarrow> gl_bounds" where
  "bounds_grow b p = (case b of None \<Rightarrow> \<lparr>bounds_minimum = p, bounds_maximum = p\<rparr> | Some c \<Rightarrow> bounds_add c p)"

section \<open>Buffer views\<close>

definition gl_view_of :: "nat \<Rightarrow> json \<Rightarrow> string + gl_view" where
  "gl_view_of n v =
     rbind (gl_fields v [''buffer'', ''byteOffset'', ''byteLength'', ''byteStride'', ''target'', ''name'']
       [''buffer'', ''byteLength'']) (\<lambda>_.
     rbind (gl_name v) (\<lambda>_.
     rbind (gl_integer (jget v ''buffer'')) (\<lambda>buffer.
     rbind (require (buffer = 0) ''INVALID_SCHEMA'') (\<lambda>_.
     rbind (optional_integer v ''byteOffset'' 0) (\<lambda>offset.
     rbind (gl_integer (jget v ''byteLength'')) (\<lambda>len.
     rbind (optional_integer v ''byteStride'' 0) (\<lambda>stride.
     rbind (optional_integer v ''target'' 0) (\<lambda>target.
     rbind (require (len \<noteq> 0 \<and> unat offset \<le> n \<and> unat len \<le> n - unat offset) ''INVALID_SCHEMA'') (\<lambda>_.
     rbind (require (\<not> (contains v ''byteStride'' \<and> (stride < 4 \<or> stride > 252 \<or> stride mod 4 \<noteq> 0)))
       ''INVALID_SCHEMA'') (\<lambda>_.
     rbind (require (\<not> (contains v ''target'' \<and> target \<noteq> 34962 \<and> target \<noteq> 34963)) ''INVALID_SCHEMA'') (\<lambda>_.
     rbind (require (\<not> (target = 34963 \<and> contains v ''byteStride'')) ''INVALID_SCHEMA'') (\<lambda>_.
     Inr \<lparr>view_offset = offset, view_length = len, view_stride = stride, view_target = target,
          view_positions = 0, view_indices = 0\<rparr>))))))))))))"

definition gl_views :: "json \<Rightarrow> nat \<Rightarrow> string + gl_view list" where
  "gl_views input n = rbind (gl_array input 8 True) (rmap_list (gl_view_of n))"

section \<open>Accessors\<close>

text \<open>What the checks of an accessor leave: its kind, size and place.\<close>

record gl_layout =
  layout_position :: bool
  layout_component :: u32
  layout_count :: nat
  layout_size :: nat
  layout_start :: nat
  layout_stride :: nat

definition component_size :: "u32 \<Rightarrow> nat" where
  "component_size component = (if component = 5121 then 1 else if component = 5123 then 2 else 4)"

definition element_size :: "bool \<Rightarrow> u32 \<Rightarrow> nat" where
  "element_size position component = (if position then 12 else component_size component)"

definition effective_stride :: "gl_view \<Rightarrow> nat \<Rightarrow> nat" where
  "effective_stride view extent = (if view_stride view = 0 then extent else unat (view_stride view))"

definition accessor_place :: "gl_view \<Rightarrow> bool \<Rightarrow> u32 \<Rightarrow> nat \<Rightarrow> nat \<Rightarrow> string + gl_layout" where
  "accessor_place view position component count offset =
     (let width = component_size component;
          extent = element_size position component;
          stride = effective_stride view extent
      in rbind (require (\<not> (offset mod width \<noteq> 0 \<or> (unat (view_offset view) + offset) mod width \<noteq> 0 \<or>
              stride < extent \<or> stride mod width \<noteq> 0 \<or> offset > unat (view_length view) \<or>
              extent > unat (view_length view) - offset \<or>
              count - 1 > (unat (view_length view) - offset - extent) div stride)) ''INVALID_SCHEMA'') (\<lambda>_.
         Inr \<lparr>layout_position = position, layout_component = component, layout_count = count, layout_size = extent,
              layout_start = unat (view_offset view) + offset, layout_stride = stride\<rparr>))"

text \<open>A view is used for positions or for indices, and several positions need an explicit stride.\<close>

definition use_view :: "gl_view \<Rightarrow> bool \<Rightarrow> nat \<Rightarrow> nat \<Rightarrow> string + gl_view" where
  "use_view view position offset stride =
     rbind (if position
            then rbind (require (\<not> (view_target view = 34963 \<or> offset mod 4 \<noteq> 0 \<or> stride mod 4 \<noteq> 0)) ''INVALID_SCHEMA'')
                   (\<lambda>_. Inr (view\<lparr>view_positions := view_positions view + 1\<rparr>))
            else rbind (require (\<not> (view_target view = 34962 \<or> view_stride view \<noteq> 0)) ''INVALID_SCHEMA'')
                   (\<lambda>_. Inr (view\<lparr>view_indices := view_indices view + 1\<rparr>))) (\<lambda>used.
     rbind (require (\<not> (view_positions used \<noteq> 0 \<and> view_indices used \<noteq> 0)) ''INVALID_SCHEMA'') (\<lambda>_.
     rbind (require (\<not> (view_positions used > 1 \<and> view_stride used = 0)) ''INVALID_SCHEMA'') (\<lambda>_. Inr used)))"

definition position_component :: "bytes \<Rightarrow> nat \<Rightarrow> string + f64" where
  "position_component bin at =
     rbind (le32 bin at) (\<lambda>bits.
     let x = widen bits in
     rbind (require (is_finite x) ''NONFINITE_VALUE'') (\<lambda>_.
     rbind (require (\<not> flt (f_of_nat 1000000) (fabs x)) ''INVALID_SCHEMA'') (\<lambda>_. Inr (plus_zero x))))"

definition index_sentinel :: "u32 \<Rightarrow> u32" where
  "index_sentinel component = (if component = 5121 then 255 else if component = 5123 then 65535 else 4294967295)"

definition vertex_index :: "bytes \<Rightarrow> u32 \<Rightarrow> nat \<Rightarrow> string + u32" where
  "vertex_index bin component at =
     (let vertex = or_bytes (take (component_size component) (drop at bin)) in
      rbind (require (vertex \<noteq> index_sentinel component) ''INVALID_INDEX'') (\<lambda>_. Inr vertex))"

text \<open>The elements from number \<open>n\<close> on; \<open>k\<close> of them are left.\<close>

fun read_positions :: "bytes \<Rightarrow> gl_layout \<Rightarrow> nat \<Rightarrow> nat \<Rightarrow> gl_accessor \<Rightarrow> string + gl_accessor" where
  "read_positions bin l 0 n acc = Inr acc"
| "read_positions bin l (Suc k) n acc =
     rbind (rmap_list (\<lambda>j. position_component bin (layout_start l + n * layout_stride l + j * 4)) [0, 1, 2]) (\<lambda>p.
     read_positions bin l k (n + 1)
       (acc\<lparr>accessor_bounds := bounds_grow (if accessor_positions acc = [] then None else Some (accessor_bounds acc)) p,
            accessor_positions := accessor_positions acc @ [p]\<rparr>))"

definition read_indices :: "bytes \<Rightarrow> gl_layout \<Rightarrow> string + u32 list" where
  "read_indices bin l =
     rmap_list (\<lambda>n. vertex_index bin (layout_component l) (layout_start l + n * layout_stride l)) [0 ..< layout_count l]"

definition empty_accessor :: gl_accessor where
  "empty_accessor = \<lparr>accessor_positions = [], accessor_indices = [], accessor_bounds = no_bounds\<rparr>"

definition read_accessor :: "bytes \<Rightarrow> gl_layout \<Rightarrow> string + gl_accessor" where
  "read_accessor bin l =
     (if layout_position l then read_positions bin l (layout_count l) 0 empty_accessor
      else rbind (read_indices bin l) (\<lambda>is. Inr (empty_accessor\<lparr>accessor_indices := is\<rparr>)))"

definition same_vector :: "gl_vector \<Rightarrow> gl_vector \<Rightarrow> bool" where
  "same_vector xs ys \<longleftrightarrow> list_all2 feq xs ys"

definition extremum_matches :: "json \<Rightarrow> string \<Rightarrow> u32 \<Rightarrow> string + unit" where
  "extremum_matches v key n =
     (if contains v key
      then rbind (gl_vector_of 1 (jget v key)) (\<lambda>xs. require (feq (hd xs) (f_of_nat (unat n))) ''INVALID_SCHEMA'')
      else Inr ())"

definition check_extrema :: "json \<Rightarrow> bool \<Rightarrow> gl_accessor \<Rightarrow> string + unit" where
  "check_extrema v position acc =
     (if position then
        rbind (require (contains v ''min'' \<and> contains v ''max'') ''INVALID_SCHEMA'') (\<lambda>_.
        rbind (position_extrema (jget v ''min'')) (\<lambda>lo.
        rbind (require (same_vector lo (bounds_minimum (accessor_bounds acc))) ''INVALID_SCHEMA'') (\<lambda>_.
        rbind (position_extrema (jget v ''max'')) (\<lambda>hi.
        require (same_vector hi (bounds_maximum (accessor_bounds acc))) ''INVALID_SCHEMA''))))
      else
        rbind (extremum_matches v ''min'' (Min (set (accessor_indices acc)))) (\<lambda>_.
        extremum_matches v ''max'' (Max (set (accessor_indices acc)))))"

record gl_reading =
  read_accessors :: "gl_accessor list"
  read_views :: "gl_view list"
  vertex_total :: nat
  index_total :: nat

definition accessor_step :: "bytes \<Rightarrow> json \<Rightarrow> gl_reading \<Rightarrow> string + gl_reading" where
  "accessor_step bin v st =
     rbind (gl_fields v [''bufferView'', ''byteOffset'', ''componentType'', ''normalized'', ''count'', ''type'',
         ''min'', ''max'', ''name''] [''bufferView'', ''componentType'', ''count'', ''type'']) (\<lambda>_.
     rbind (gl_name v) (\<lambda>_.
     rbind (gl_optional v ''normalized'' False gl_flag) (\<lambda>normalized.
     rbind (require (\<not> normalized) ''UNSUPPORTED_PROFILE'') (\<lambda>_.
     rbind (gl_index (length (read_views st)) (jget v ''bufferView'')) (\<lambda>b.
     let view = read_views st ! unat b in
     rbind (gl_integer (jget v ''componentType'')) (\<lambda>component.
     rbind (gl_integer (jget v ''count'')) (\<lambda>count.
     rbind (gl_text (jget v ''type'')) (\<lambda>kind.
     let position = (kind = ''VEC3'' \<and> component = 5126) in
     rbind (require (position \<or> kind = ''SCALAR'' \<and> (component = 5121 \<or> component = 5123 \<or> component = 5125))
       ''UNSUPPORTED_PROFILE'') (\<lambda>_.
     rbind (require (count \<noteq> 0) ''INVALID_SCHEMA'') (\<lambda>_.
     rbind (require (unat count \<le> (if position then 256 else 768)) ''BUDGET_EXCEEDED'') (\<lambda>_.
     let used = (if position then vertex_total st else index_total st) in
     rbind (require (unat count \<le> (if position then 1024 else 3072) - used) ''BUDGET_EXCEEDED'') (\<lambda>_.
     rbind (optional_integer v ''byteOffset'' 0) (\<lambda>offset.
     rbind (accessor_place view position component (unat count) (unat offset)) (\<lambda>l.
     rbind (use_view view position (unat offset) (layout_stride l)) (\<lambda>view'.
     rbind (read_accessor bin l) (\<lambda>acc.
     rbind (check_extrema v position acc) (\<lambda>_.
     Inr \<lparr>read_accessors = read_accessors st @ [acc], read_views = (read_views st)[unat b := view'],
          vertex_total = vertex_total st + (if position then unat count else 0),
          index_total = index_total st + (if position then 0 else unat count)\<rparr>)))))))))))))))))"

fun accessor_steps :: "bytes \<Rightarrow> json list \<Rightarrow> gl_reading \<Rightarrow> string + gl_reading" where
  "accessor_steps bin [] st = Inr st"
| "accessor_steps bin (v # vs) st = rbind (accessor_step bin v st) (accessor_steps bin vs)"

definition gl_accessors :: "json \<Rightarrow> gl_view list \<Rightarrow> bytes \<Rightarrow> string + gl_accessor list" where
  "gl_accessors input vs bin =
     rbind (gl_array input 8 True) (\<lambda>items.
     rbind (accessor_steps bin items \<lparr>read_accessors = [], read_views = vs, vertex_total = 0, index_total = 0\<rparr>) (\<lambda>st.
     Inr (read_accessors st)))"

section \<open>Materials\<close>

definition plain_material :: gl_material where
  "plain_material =
     \<lparr>material_name = [], base_color_factor = [f_one, f_one, f_one, f_one], metallic_factor = f_one,
      roughness_factor = f_one, double_sided = False\<rparr>"

definition unit_interval :: "f64 \<Rightarrow> bool" where
  "unit_interval x \<longleftrightarrow> \<not> (flt x f_zero \<or> flt f_one x)"

definition pbr_factors :: "json \<Rightarrow> string + gl_vector \<times> f64 \<times> f64" where
  "pbr_factors v =
     rbind (gl_fields v [''baseColorFactor'', ''metallicFactor'', ''roughnessFactor''] []) (\<lambda>_.
     rbind (gl_optional v ''baseColorFactor'' (base_color_factor plain_material) (gl_vector_of 4)) (\<lambda>color.
     rbind (gl_optional v ''metallicFactor'' f_one gl_number) (\<lambda>metal.
     rbind (gl_optional v ''roughnessFactor'' f_one gl_number) (\<lambda>rough. Inr (color, metal, rough)))))"

definition gl_material_of :: "json \<Rightarrow> string + gl_material" where
  "gl_material_of v =
     rbind (gl_fields v [''name'', ''pbrMetallicRoughness'', ''doubleSided'', ''alphaMode''] []) (\<lambda>_.
     rbind (gl_name v) (\<lambda>label.
     rbind (gl_optional v ''alphaMode'' ''OPAQUE'' gl_text) (\<lambda>alpha.
     rbind (require (alpha = ''OPAQUE'') ''UNSUPPORTED_PROFILE'') (\<lambda>_.
     rbind (gl_optional v ''doubleSided'' False gl_flag) (\<lambda>sided.
     rbind (gl_optional v ''pbrMetallicRoughness'' (base_color_factor plain_material, f_one, f_one) pbr_factors)
       (\<lambda>(color, metal, rough).
     rbind (require (list_all unit_interval color) ''INVALID_SCHEMA'') (\<lambda>_.
     rbind (require (unit_interval metal \<and> unit_interval rough) ''INVALID_SCHEMA'') (\<lambda>_.
     Inr \<lparr>material_name = label, base_color_factor = color, metallic_factor = metal, roughness_factor = rough,
          double_sided = sided\<rparr>))))))))"

definition gl_materials :: "json \<Rightarrow> string + gl_material list" where
  "gl_materials input = rbind (gl_array input 4 True) (rmap_list gl_material_of)"

section \<open>Meshes\<close>

record gl_usage =
  used_primitives :: nat
  used_vertices :: nat
  used_indices :: nat

definition gl_primitive_of ::
  "gl_accessor list \<Rightarrow> nat \<Rightarrow> gl_usage \<Rightarrow> json \<Rightarrow> string + gl_primitive \<times> gl_usage" where
  "gl_primitive_of decoded materials u v =
     rbind (require (used_primitives u + 1 \<le> 4) ''BUDGET_EXCEEDED'') (\<lambda>_.
     rbind (gl_fields v [''attributes'', ''indices'', ''material'', ''mode''] [''attributes'', ''indices'']) (\<lambda>_.
     rbind (gl_fields (jget v ''attributes'') [''POSITION''] [''POSITION'']) (\<lambda>_.
     rbind (require (length (members (jget v ''attributes'')) = 1) ''UNSUPPORTED_PROFILE'') (\<lambda>_.
     rbind (optional_integer v ''mode'' 4) (\<lambda>mode.
     rbind (require (mode = 4) ''UNSUPPORTED_PROFILE'') (\<lambda>_.
     rbind (gl_index (length decoded) (jget (jget v ''attributes'') ''POSITION'')) (\<lambda>a.
     rbind (gl_index (length decoded) (jget v ''indices'')) (\<lambda>b.
     let ps = accessor_positions (decoded ! unat a); is = accessor_indices (decoded ! unat b) in
     rbind (require (\<not> (ps = [] \<or> is = [] \<or> length is mod 3 \<noteq> 0)) ''INVALID_SCHEMA'') (\<lambda>_.
     rbind (require (list_all (\<lambda>i. unat i < length ps) is) ''INVALID_INDEX'') (\<lambda>_.
     rbind (require (\<not> (length ps > 1024 - used_vertices u \<or> length is > 3072 - used_indices u)) ''BUDGET_EXCEEDED'') (\<lambda>_.
     rbind (gl_optional v ''material'' None (\<lambda>m. rbind (gl_index materials m) (\<lambda>k. Inr (Some k)))) (\<lambda>material.
     Inr (\<lparr>primitive_positions = ps, primitive_indices = is, primitive_material = material,
           primitive_bounds = accessor_bounds (decoded ! unat a)\<rparr>,
          \<lparr>used_primitives = used_primitives u + 1, used_vertices = used_vertices u + length ps,
           used_indices = used_indices u + length is\<rparr>)))))))))))))"

fun gl_primitives ::
  "gl_accessor list \<Rightarrow> nat \<Rightarrow> gl_usage \<Rightarrow> json list \<Rightarrow> string + gl_primitive list \<times> gl_usage" where
  "gl_primitives decoded materials u [] = Inr ([], u)"
| "gl_primitives decoded materials u (v # vs) =
     rbind (gl_primitive_of decoded materials u v) (\<lambda>(p, u').
     rbind (gl_primitives decoded materials u' vs) (\<lambda>(ps, u''). Inr (p # ps, u'')))"

fun gl_mesh_list :: "gl_accessor list \<Rightarrow> nat \<Rightarrow> gl_usage \<Rightarrow> json list \<Rightarrow> string + gl_mesh list" where
  "gl_mesh_list decoded materials u [] = Inr []"
| "gl_mesh_list decoded materials u (v # vs) =
     rbind (gl_fields v [''primitives'', ''name''] [''primitives'']) (\<lambda>_.
     rbind (gl_name v) (\<lambda>_.
     rbind (gl_array (jget v ''primitives'') 4 True) (\<lambda>items.
     rbind (gl_primitives decoded materials u items) (\<lambda>(ps, u').
     rbind (gl_mesh_list decoded materials u' vs) (\<lambda>ms. Inr (\<lparr>primitives = ps\<rparr> # ms))))))"

definition gl_meshes :: "json \<Rightarrow> gl_accessor list \<Rightarrow> nat \<Rightarrow> string + gl_mesh list" where
  "gl_meshes input decoded materials =
     rbind (gl_array input 4 True)
       (gl_mesh_list decoded materials \<lparr>used_primitives = 0, used_vertices = 0, used_indices = 0\<rparr>)"

end
