(* ===== verification/Gltf_Scene.thy ===== *)
theory Gltf_Scene
  imports Gltf
begin

text \<open>
  The glTF importer, second half: node transforms, the node hierarchy, the scene and the import
  into the asset catalog (\<open>src/gltf.cpp\<close> from \<open>local\<close> on).
\<close>

section \<open>Transforms\<close>

definition f_1em6 :: f64 where
  "f_1em6 = 0x3EB0C6F7A0B5ED8D"

definition magnitude_within :: "nat \<Rightarrow> f64 \<Rightarrow> bool" where
  "magnitude_within limit x \<longleftrightarrow> \<not> flt (f_of_nat limit) (fabs x)"

definition rotation_norm :: "gl_vector \<Rightarrow> f64" where
  "rotation_norm q = foldl (\<lambda>norm v. fadd norm (fmul v v)) f_zero q"

definition matrix_of :: "gl_vector \<Rightarrow> gl_vector \<Rightarrow> gl_vector \<Rightarrow> gl_vector" where
  "matrix_of t q s =
     (let x = q ! 0; y = q ! 1; z = q ! 2; w = q ! 3;
          diagonal = (\<lambda>a b. fsub f_one (fmul f_two (fadd (fmul a a) (fmul b b))));
          plus = (\<lambda>a b c d. fmul f_two (fadd (fmul a b) (fmul c d)));
          minus = (\<lambda>a b c d. fmul f_two (fsub (fmul a b) (fmul c d)))
      in [fmul (diagonal y z) (s ! 0), fmul (plus x y z w) (s ! 0), fmul (minus x z y w) (s ! 0), f_zero,
          fmul (minus x y z w) (s ! 1), fmul (diagonal x z) (s ! 1), fmul (plus y z x w) (s ! 1), f_zero,
          fmul (plus x z y w) (s ! 2), fmul (minus y z x w) (s ! 2), fmul (diagonal x y) (s ! 2), f_zero,
          t ! 0, t ! 1, t ! 2, f_one])"

text \<open>The matrix of a node, whose rotation is normalised on the way.\<close>

definition gl_local :: "gl_node \<Rightarrow> string + gl_node" where
  "gl_local node =
     rbind (require (list_all (magnitude_within 1000000) (node_translation node)) ''INVALID_TRANSFORM'') (\<lambda>_.
     rbind (require (list_all (magnitude_within 1000) (node_scale node)) ''INVALID_TRANSFORM'') (\<lambda>_.
     let norm = rotation_norm (node_rotation node) in
     rbind (require (is_finite norm \<and> \<not> flt f_1em6 (fabs (fsub norm f_one))) ''INVALID_TRANSFORM'') (\<lambda>_.
     let rotation = map (\<lambda>v. fdiv v (fsqrt norm)) (node_rotation node) in
     Inr (node\<lparr>node_rotation := rotation, local_matrix := matrix_of (node_translation node) rotation (node_scale node)\<rparr>))))"

definition matrix_entry :: "gl_vector \<Rightarrow> gl_vector \<Rightarrow> nat \<Rightarrow> nat \<Rightarrow> f64" where
  "matrix_entry a b col row = foldl (\<lambda>v k. fadd v (fmul (a ! (k * 4 + row)) (b ! (col * 4 + k)))) f_zero [0, 1, 2, 3]"

definition gl_multiply :: "gl_vector \<Rightarrow> gl_vector \<Rightarrow> string + gl_vector" where
  "gl_multiply a b =
     rmap_list (\<lambda>i. let v = matrix_entry a b (i div 4) (i mod 4)
                    in rbind (require (is_finite v) ''NONFINITE_VALUE'') (\<lambda>_. Inr v)) [0 ..< 16]"

definition gl_transform :: "gl_vector \<Rightarrow> gl_vector \<Rightarrow> string + gl_vector" where
  "gl_transform m p =
     rmap_list (\<lambda>row.
       let v = foldl (\<lambda>v k. fadd v (fmul (m ! (k * 4 + row)) (p ! k))) (m ! (12 + row)) [0, 1, 2] in
       rbind (require (is_finite v) ''NONFINITE_VALUE'') (\<lambda>_.
       rbind (require (magnitude_within 1000000000000 v) ''INVALID_TRANSFORM'') (\<lambda>_. Inr v))) [0, 1, 2]"

section \<open>The node hierarchy\<close>

definition plain_node :: gl_node where
  "plain_node =
     \<lparr>node_mesh = None, node_children = [], node_translation = [f_zero, f_zero, f_zero],
      node_rotation = [f_zero, f_zero, f_zero, f_one], node_scale = [f_one, f_one, f_one],
      local_matrix = replicate 16 f_zero, world_matrix = replicate 16 f_zero, node_bounds = None\<rparr>"

definition node_fields :: "nat \<Rightarrow> json \<Rightarrow> string + gl_node" where
  "node_fields meshes v =
     rbind (gl_fields v [''mesh'', ''children'', ''translation'', ''rotation'', ''scale'', ''name''] []) (\<lambda>_.
     rbind (gl_name v) (\<lambda>_.
     rbind (gl_optional v ''mesh'' None (\<lambda>m. rbind (gl_index meshes m) (\<lambda>k. Inr (Some k)))) (\<lambda>mesh.
     rbind (gl_optional v ''translation'' (node_translation plain_node) (gl_vector_of 3)) (\<lambda>t.
     rbind (gl_optional v ''rotation'' (node_rotation plain_node) (gl_vector_of 4)) (\<lambda>q.
     rbind (gl_optional v ''scale'' (node_scale plain_node) (gl_vector_of 3)) (\<lambda>s.
     gl_local (plain_node\<lparr>node_mesh := mesh, node_translation := t, node_rotation := q, node_scale := s\<rparr>)))))))"

text \<open>The children of node \<open>n\<close>: each gets its parent, at most once.\<close>

fun adopt :: "nat \<Rightarrow> json list \<Rightarrow> nat option list \<Rightarrow> string + u32 list \<times> nat option list" where
  "adopt n [] parents = Inr ([], parents)"
| "adopt n (v # vs) parents =
     rbind (gl_index (length parents) v) (\<lambda>child.
     rbind (require (parents ! unat child = None) ''INVALID_SCHEMA'') (\<lambda>_.
     rbind (adopt n vs (parents[unat child := Some n])) (\<lambda>(children, parents'). Inr (child # children, parents'))))"

definition node_children_of :: "nat \<Rightarrow> json \<Rightarrow> nat option list \<Rightarrow> string + u32 list \<times> nat option list" where
  "node_children_of n v parents =
     (if contains v ''children''
      then rbind (gl_array (jget v ''children'') 8 True) (\<lambda>items. adopt n items parents)
      else Inr ([], parents))"

fun read_nodes ::
  "nat \<Rightarrow> nat \<Rightarrow> json list \<Rightarrow> nat option list \<Rightarrow> string + gl_node list \<times> nat option list" where
  "read_nodes meshes n [] parents = Inr ([], parents)"
| "read_nodes meshes n (v # vs) parents =
     rbind (node_fields meshes v) (\<lambda>node.
     rbind (node_children_of n v parents) (\<lambda>(children, parents').
     rbind (read_nodes meshes (n + 1) vs parents') (\<lambda>(nodes, parents'').
     Inr (node\<lparr>node_children := children\<rparr> # nodes, parents''))))"

text \<open>The bounds of a mesh under a matrix, vertex by vertex.\<close>

fun vertex_bounds :: "gl_vector \<Rightarrow> gl_vector list \<Rightarrow> gl_bounds option \<Rightarrow> string + gl_bounds option" where
  "vertex_bounds m [] b = Inr b"
| "vertex_bounds m (v # vs) b = rbind (gl_transform m v) (\<lambda>p. vertex_bounds m vs (Some (bounds_grow b p)))"

definition mesh_bounds :: "gl_vector \<Rightarrow> gl_mesh list \<Rightarrow> u32 option \<Rightarrow> string + gl_bounds option" where
  "mesh_bounds m meshes mesh =
     (case mesh of
        None \<Rightarrow> Inr None
      | Some k \<Rightarrow> vertex_bounds m (concat (map primitive_positions (primitives (meshes ! unat k)))) None)"

text \<open>
  The states of the nodes (0 new, 1 being visited, 2 done) with the nodes themselves.  A node that
  is being visited again lies on a cycle; an index past the end, which the importer never passes,
  is refused the same way.
\<close>

function visit_node ::
  "nat option list \<Rightarrow> gl_mesh list \<Rightarrow> nat \<Rightarrow> nat list \<times> gl_node list \<Rightarrow> string + nat list \<times> gl_node list" where
  "visit_node parents meshes i (st, ns) =
     (if i \<ge> length st \<or> st ! i = 1 then Inl ''INVALID_SCHEMA''
      else if st ! i \<noteq> 0 then Inr (st, ns)
      else
        rbind (case parents ! i of
                 Some up \<Rightarrow>
                   rbind (visit_node parents meshes up (st[i := 1], ns)) (\<lambda>(st', ns').
                   rbind (gl_multiply (world_matrix (ns' ! up)) (local_matrix (ns' ! i))) (\<lambda>m. Inr (st', ns', m)))
               | None \<Rightarrow> Inr (st[i := 1], ns, local_matrix (ns ! i))) (\<lambda>(st', ns', m).
        rbind (gl_transform m [f_zero, f_zero, f_zero]) (\<lambda>_.
        rbind (mesh_bounds m meshes (node_mesh (ns' ! i))) (\<lambda>b.
        Inr (st'[i := 2], ns'[i := (ns' ! i)\<lparr>world_matrix := m, node_bounds := b\<rparr>])))))"
  by pat_completeness auto

lemma fewer_new: "i < length st \<Longrightarrow> st ! i = 0 \<Longrightarrow> length (filter ((=) 0) (st[i := Suc 0])) < length (filter ((=) 0) st)"
proof (induction st arbitrary: i)
  case (Cons x st)
  then show ?case by (cases i) auto
qed simp

termination visit_node
  by (relation "measure (\<lambda>(parents, meshes, i, st, ns). length (filter ((=) 0) st))") (auto intro: fewer_new)

declare visit_node.simps [simp del]

fun visit_nodes ::
  "nat option list \<Rightarrow> gl_mesh list \<Rightarrow> nat list \<Rightarrow> nat list \<times> gl_node list \<Rightarrow> string + nat list \<times> gl_node list" where
  "visit_nodes parents meshes [] s = Inr s"
| "visit_nodes parents meshes (i # is) s = rbind (visit_node parents meshes i s) (visit_nodes parents meshes is)"

fun select_roots :: "nat option list \<Rightarrow> json list \<Rightarrow> u32 list \<Rightarrow> string + u32 list" where
  "select_roots parents [] chosen = Inr chosen"
| "select_roots parents (v # vs) chosen =
     rbind (gl_index (length parents) v) (\<lambda>i.
     rbind (require (\<not> (parents ! unat i \<noteq> None \<or> i \<in> set chosen)) ''INVALID_SCHEMA'') (\<lambda>_.
     select_roots parents vs (chosen @ [i])))"

text \<open>
  The bounds of the subtrees of \<open>ids\<close>, merged into \<open>agg\<close>.  The recursion follows the children
  without a check of its own; the fuel bounds its depth and \<open>None\<close> is running out of it.
\<close>

fun aggregate_nodes ::
  "nat \<Rightarrow> gl_node list \<Rightarrow> u32 list \<Rightarrow> gl_bounds option \<Rightarrow> gl_bounds option option" where
  "aggregate_nodes fuel ns [] agg = Some agg"
| "aggregate_nodes 0 ns (i # is) agg = None"
| "aggregate_nodes (Suc fuel) ns (i # is) agg =
     (let node = ns ! unat i;
          agg1 = (case node_bounds node of None \<Rightarrow> agg | Some b \<Rightarrow> bounds_merge agg b)
      in case aggregate_nodes fuel ns (node_children node) agg1 of
           None \<Rightarrow> None
         | Some agg2 \<Rightarrow> aggregate_nodes (Suc fuel) ns is agg2)"

text \<open>Everything \<open>nodes\<close> does before it aggregates: the nodes with their matrices, and the roots.\<close>

definition link_nodes :: "gl_mesh list \<Rightarrow> json \<Rightarrow> json \<Rightarrow> string + gl_node list \<times> u32 list" where
  "link_nodes meshes input chosen_roots =
     rbind (gl_array input 8 True) (\<lambda>items.
     rbind (read_nodes (length meshes) 0 items (replicate (length items) None)) (\<lambda>(ns, parents).
     rbind (visit_nodes parents meshes [0 ..< length ns] (replicate (length items) 0, ns)) (\<lambda>(st, ns').
     rbind (gl_array chosen_roots 8 True) (\<lambda>chosen.
     rbind (select_roots parents chosen []) (\<lambda>rs. Inr (ns', rs))))))"

definition gl_nodes :: "gl_mesh list \<Rightarrow> json \<Rightarrow> json \<Rightarrow> string + gl_node list \<times> u32 list \<times> gl_bounds" where
  "gl_nodes meshes input chosen_roots =
     rbind (link_nodes meshes input chosen_roots) (\<lambda>(ns, rs).
     case aggregate_nodes (length ns) ns rs None of
       None \<Rightarrow> Inl ''OUT_OF_FUEL''
     | Some None \<Rightarrow> Inl ''UNSUPPORTED_PROFILE''
     | Some (Some b) \<Rightarrow> Inr (ns, rs, b))"

section \<open>The scene\<close>

record gl_scene =
  scene_roots :: "u32 list"
  scene_meshes :: "gl_mesh list"
  scene_nodes :: "gl_node list"
  scene_materials :: "gl_material list"
  scene_bounds :: gl_bounds

definition check_required :: "json \<Rightarrow> string + unit" where
  "check_required v =
     (if contains v ''extensionsRequired'' then
        rbind (gl_array (jget v ''extensionsRequired'') 4096 False) (\<lambda>required.
        rbind (rmap_list gl_text required) (\<lambda>_.
        require (required = []) ''UNSUPPORTED_REQUIRED_EXTENSION''))
      else Inr ())"

fun unique_texts :: "json list \<Rightarrow> string list \<Rightarrow> string + unit" where
  "unique_texts [] seen = Inr ()"
| "unique_texts (v # vs) seen =
     rbind (gl_text v) (\<lambda>s.
     rbind (require (s \<notin> set seen) ''INVALID_SCHEMA'') (\<lambda>_. unique_texts vs (s # seen)))"

definition check_extensions :: "json \<Rightarrow> string \<Rightarrow> string + unit" where
  "check_extensions v key =
     (if contains v key then
        rbind (gl_array (jget v key) 4096 False) (\<lambda>listed.
        rbind (unique_texts listed []) (\<lambda>_.
        require (\<not> (key = ''extensionsRequired'' \<and> listed \<noteq> [])) ''UNSUPPORTED_REQUIRED_EXTENSION''))
      else Inr ())"

definition check_asset :: "json \<Rightarrow> string + unit" where
  "check_asset a =
     rbind (gl_fields a [''version'', ''minVersion'', ''generator'', ''copyright''] [''version'']) (\<lambda>_.
     rbind (gl_text (jget a ''version'')) (\<lambda>version.
     rbind (require (version = ''2.0'') ''UNSUPPORTED_PROFILE'') (\<lambda>_.
     rbind (gl_optional a ''generator'' [] gl_text) (\<lambda>_.
     rbind (gl_optional a ''copyright'' [] gl_text) (\<lambda>_.
     rbind (gl_optional a ''minVersion'' ''2.0'' gl_text) (\<lambda>least.
     require (least = ''2.0'') ''UNSUPPORTED_PROFILE''))))))"

text \<open>The declared length of the one buffer, which the binary chunk holds with at most three zero bytes after it.\<close>

definition buffer_length :: "json \<Rightarrow> bytes \<Rightarrow> string + nat" where
  "buffer_length v bin =
     rbind (gl_array v 1 True) (\<lambda>buffers.
     rbind (gl_fields (hd buffers) [''byteLength'', ''name''] [''byteLength'']) (\<lambda>_.
     rbind (gl_name (hd buffers)) (\<lambda>_.
     rbind (gl_integer (jget (hd buffers) ''byteLength'')) (\<lambda>n.
     rbind (require (n \<noteq> 0 \<and> unat n \<le> length bin \<and> length bin - unat n \<le> 3) ''INVALID_GLB'') (\<lambda>_.
     rbind (require (list_all ((=) 0) (drop (unat n) bin)) ''INVALID_GLB'') (\<lambda>_. Inr (unat n)))))))"

definition decode_scene :: "json \<Rightarrow> bytes \<Rightarrow> string + gl_scene" where
  "decode_scene v bin =
     rbind (check_required v) (\<lambda>_.
     rbind (gl_fields v [''asset'', ''buffers'', ''bufferViews'', ''accessors'', ''meshes'', ''nodes'', ''materials'',
         ''scenes'', ''scene'', ''extensionsUsed'', ''extensionsRequired'']
       [''asset'', ''buffers'', ''bufferViews'', ''accessors'', ''meshes'', ''nodes'', ''scenes'']) (\<lambda>_.
     rbind (check_extensions v ''extensionsUsed'') (\<lambda>_.
     rbind (check_extensions v ''extensionsRequired'') (\<lambda>_.
     rbind (check_asset (jget v ''asset'')) (\<lambda>_.
     rbind (buffer_length (jget v ''buffers'') bin) (\<lambda>n.
     rbind (gl_views (jget v ''bufferViews'') n) (\<lambda>views.
     rbind (gl_accessors (jget v ''accessors'') views (take n bin)) (\<lambda>decoded.
     rbind (gl_optional v ''materials'' [] gl_materials) (\<lambda>materials.
     rbind (gl_meshes (jget v ''meshes'') decoded (length materials)) (\<lambda>meshes.
     rbind (gl_array (jget v ''scenes'') 1 True) (\<lambda>scenes.
     rbind (gl_fields (hd scenes) [''nodes'', ''name''] [''nodes'']) (\<lambda>_.
     rbind (gl_name (hd scenes)) (\<lambda>_.
     rbind (gl_optional v ''scene'' 0 (gl_index 1)) (\<lambda>_.
     rbind (gl_nodes meshes (jget v ''nodes'') (jget (hd scenes) ''nodes'')) (\<lambda>(ns, rs, b).
     Inr \<lparr>scene_roots = rs, scene_meshes = meshes, scene_nodes = ns, scene_materials = materials,
          scene_bounds = b\<rparr>)))))))))))))))"

definition gl_decode :: "json_lib \<Rightarrow> bytes \<Rightarrow> string + gl_scene" where
  "gl_decode J bs = rbind (gl_container J bs) (\<lambda>(v, bin). decode_scene v bin)"

section \<open>Import\<close>

text \<open>The bundle of one asset and one literal blob; its path has 70 characters.\<close>

definition gl_bundle :: "asset \<Rightarrow> bytes \<Rightarrow> string + bytes" where
  "gl_bundle a glb =
     rbind (canonical_manifest (asset_manifest a)) (\<lambda>m.
     Inr (str_bytes ''OWASB001'' @ put32 1 @ put32 1 @ put32 1 @ nibble_pairs (asset_key a) @
       put32 (word_of_nat (length m)) @ m @ [70, 0] @ str_bytes (''blobs/'' @ manifest_hash (asset_manifest a)) @ [0] @
       put32 (word_of_nat (length glb)) @ put32 (word_of_nat (length glb)) @ glb))"

record import_request =
  request_glb :: bytes
  request_source :: string
  request_license :: string
  request_revision :: u64

record import_result =
  import_receipt :: catalog_receipt
  import_scene :: "(asset \<times> gl_scene) option"

definition provenance :: "string \<Rightarrow> nat \<Rightarrow> string + unit" where
  "provenance s limit = require (\<not> (s = [] \<or> length s > limit \<or> \<not> list_all printable s)) ''INVALID_MANIFEST''"

definition stage_import :: "json_lib \<Rightarrow> import_request \<Rightarrow> string + (asset \<times> gl_scene) \<times> bytes" where
  "stage_import J r =
     rbind (provenance (request_source r) 128) (\<lambda>_.
     rbind (provenance (request_license r) 64) (\<lambda>_.
     rbind (gl_decode J (request_glb r)) (\<lambda>scene.
     rbind (content_hash (request_glb r)) (\<lambda>digest.
     let m = \<lparr>manifest_version = 1, manifest_hash = digest, decoded_length = word_of_nat (length (request_glb r)),
              media_type = ''model/gltf-binary'', source_text = request_source r, license = request_license r\<rparr> in
     rbind (asset_id m) (\<lambda>key.
     let a = \<lparr>asset_key = key, asset_manifest = m\<rparr> in
     rbind (gl_bundle a (request_glb r)) (\<lambda>bundle. Inr ((a, scene), bundle)))))))"

definition import_glb ::
  "json_lib \<Rightarrow> bool \<Rightarrow> import_request \<Rightarrow> catalog \<Rightarrow> catalog \<times> import_result" where
  "import_glb J exhausted r c =
     (if request_revision r \<noteq> catalog_revision c
      then (c, \<lparr>import_receipt = catalog_rejection c ''REVISION_CONFLICT'', import_scene = None\<rparr>)
      else case stage_import J r of
        Inl code \<Rightarrow> (c, \<lparr>import_receipt = catalog_rejection c code, import_scene = None\<rparr>)
      | Inr (scene, bundle) \<Rightarrow>
          (case catalog_apply exhausted (Import bundle) (request_revision r) c of
             (c', receipt) \<Rightarrow>
               (c', \<lparr>import_receipt = receipt,
                     import_scene = (if catalog_status receipt = ''committed'' then Some scene else None)\<rparr>)))"

end
