(* ===== verification/Gltf_Laws.thy ===== *)
theory Gltf_Laws
  imports Gltf_Scene
begin

text \<open>
  Laws of the glTF importer: the visit of the nodes places every node under its parent, a rank grows
  from every node to its children, and every reference of a decoded scene is in range.
\<close>

section \<open>Children and parents\<close>

lemma gl_index_less: "gl_index count v = Inr i \<Longrightarrow> unat i < count"
  by (auto simp: gl_index_def res_simps)

text \<open>What an adoption leaves of the parents it found.\<close>

definition extends_parents :: "nat option list \<Rightarrow> nat option list \<Rightarrow> bool" where
  "extends_parents ps qs \<longleftrightarrow> length qs = length ps \<and> (\<forall>k < length ps. ps ! k \<noteq> None \<longrightarrow> qs ! k = ps ! k)"

lemma extends_parents_refl: "extends_parents ps ps"
  and extends_parents_trans: "extends_parents ps qs \<Longrightarrow> extends_parents qs rs \<Longrightarrow> extends_parents ps rs"
  by (auto simp: extends_parents_def)

definition children_of :: "nat \<Rightarrow> nat option list \<Rightarrow> u32 list \<Rightarrow> bool" where
  "children_of n ps cs \<longleftrightarrow> (\<forall>c \<in> set cs. unat c < length ps \<and> ps ! unat c = Some n)"

lemma children_of_extends: "children_of n ps cs \<Longrightarrow> extends_parents ps qs \<Longrightarrow> children_of n qs cs"
  by (auto simp: children_of_def extends_parents_def)

lemma adopt_children: "adopt n vs ps = Inr (cs, qs) \<Longrightarrow> extends_parents ps qs \<and> children_of n qs cs"
proof (induction vs arbitrary: ps cs)
  case Nil
  then show ?case by (simp add: extends_parents_refl children_of_def)
next
  case (Cons v vs)
  from Cons.prems obtain c cs' where i: "gl_index (length ps) v = Inr c" and none: "ps ! unat c = None"
    and run: "adopt n vs (ps[unat c := Some n]) = Inr (cs', qs)" and cs: "cs = c # cs'"
    by (auto simp: res_simps)
  have c: "unat c < length ps" by (rule gl_index_less [OF i])
  from Cons.IH [OF run] have ext: "extends_parents (ps[unat c := Some n]) qs" and rest: "children_of n qs cs'" by simp_all
  have "extends_parents ps (ps[unat c := Some n])"
    using none by (metis extends_parents_def length_list_update nth_list_update_neq)
  then have "extends_parents ps qs" using ext by (rule extends_parents_trans)
  moreover have "qs ! unat c = Some n \<and> length qs = length ps" using ext c by (auto simp: extends_parents_def)
  ultimately show ?case using rest c by (simp add: cs children_of_def)
qed

lemma node_children_ok: "node_children_of n v ps = Inr (cs, qs) \<Longrightarrow> extends_parents ps qs \<and> children_of n qs cs"
  by (auto simp: node_children_of_def res_simps extends_parents_refl children_of_def
      dest: adopt_children split: if_splits)

definition family :: "nat \<Rightarrow> gl_node list \<Rightarrow> nat option list \<Rightarrow> bool" where
  "family n ns ps \<longleftrightarrow> (\<forall>i < length ns. children_of (n + i) ps (node_children (ns ! i)))"

lemma read_nodes_family:
  "read_nodes meshes n vs ps = Inr (ns, qs) \<Longrightarrow> length ns = length vs \<and> extends_parents ps qs \<and> family n ns qs"
proof (induction vs arbitrary: n ps ns)
  case Nil
  then show ?case by (simp add: extends_parents_refl family_def)
next
  case (Cons v vs)
  from Cons.prems obtain node cs ps' ns' where c: "node_children_of n v ps = Inr (cs, ps')"
    and run: "read_nodes meshes (n + 1) vs ps' = Inr (ns', qs)" and ns: "ns = node\<lparr>node_children := cs\<rparr> # ns'"
    by (auto simp: res_simps)
  from node_children_ok [OF c] have e: "extends_parents ps ps'" and cs: "children_of n ps' cs" by simp_all
  from Cons.IH [OF run] have len: "length ns' = length vs" and e': "extends_parents ps' qs" and f: "family (n + 1) ns' qs"
    by simp_all
  have "family n ns qs"
    unfolding family_def
  proof (intro allI impI)
    fix i
    assume "i < length ns"
    then show "children_of (n + i) qs (node_children (ns ! i))"
      using f children_of_extends [OF cs e'] by (cases i) (simp_all add: ns family_def)
  qed
  then show ?case using len extends_parents_trans [OF e e'] by (simp add: ns)
qed

section \<open>Visiting\<close>

text \<open>A node is placed when its matrix and bounds are those its parent, or the lack of one, gives it.\<close>

definition placed :: "nat option list \<Rightarrow> gl_mesh list \<Rightarrow> gl_node list \<Rightarrow> nat \<Rightarrow> bool" where
  "placed parents meshes ns i \<longleftrightarrow>
     (case parents ! i of
        None \<Rightarrow> world_matrix (ns ! i) = local_matrix (ns ! i)
      | Some up \<Rightarrow> gl_multiply (world_matrix (ns ! up)) (local_matrix (ns ! i)) = Inr (world_matrix (ns ! i))) \<and>
     mesh_bounds (world_matrix (ns ! i)) meshes (node_mesh (ns ! i)) = Inr (node_bounds (ns ! i))"

definition finished :: "nat list \<Rightarrow> nat" where
  "finished st = length (filter ((=) 2) st)"

lemma finished_update:
  "i < length st \<Longrightarrow> st ! i \<noteq> 2 \<Longrightarrow> finished (st[i := x]) = (if x = 2 then finished st + 1 else finished st)"
proof (induction st arbitrary: i)
  case (Cons y st)
  then show ?case by (cases i) (auto simp: finished_def)
qed simp

lemma finished_le: "finished st \<le> length st"
  by (simp add: finished_def)

text \<open>
  The invariant of the visit: finished nodes are placed, and the rank of a finished node, its place
  in the order of finishing, is above that of its parent.
\<close>

definition visited ::
  "nat option list \<Rightarrow> gl_mesh list \<Rightarrow> (nat \<Rightarrow> nat) \<Rightarrow> nat list \<Rightarrow> gl_node list \<Rightarrow> bool" where
  "visited parents meshes rank st ns \<longleftrightarrow>
     length ns = length st \<and> (\<forall>i < length st. st ! i \<le> 2) \<and>
     (\<forall>i < length st. st ! i = 2 \<longrightarrow> rank i < finished st \<and> placed parents meshes ns i \<and>
        (\<forall>up. parents ! i = Some up \<longrightarrow> up < length st \<and> st ! up = 2 \<and> rank up < rank i))"

lemma visitedD:
  assumes "visited parents meshes rank st ns" "i < length st" "st ! i = 2"
  shows "rank i < finished st" "placed parents meshes ns i"
    "parents ! i = Some up \<Longrightarrow> up < length st \<and> st ! up = 2 \<and> rank up < rank i"
  using assms unfolding visited_def by blast+

lemma visitedI:
  assumes "length ns = length st" "\<forall>i < length st. st ! i \<le> 2"
    and "\<And>i. i < length st \<Longrightarrow> st ! i = 2 \<Longrightarrow> rank i < finished st \<and> placed parents meshes ns i"
    and "\<And>i up. i < length st \<Longrightarrow> st ! i = 2 \<Longrightarrow> parents ! i = Some up \<Longrightarrow>
      up < length st \<and> st ! up = 2 \<and> rank up < rank i"
  shows "visited parents meshes rank st ns"
  unfolding visited_def using assms by blast

lemma visited_bound: "visited parents meshes rank st ns \<Longrightarrow> i < length st \<Longrightarrow> st ! i \<le> 2"
  unfolding visited_def by blast

lemma bounded_update: "\<forall>j < length st. st ! j \<le> 2 \<Longrightarrow> x \<le> 2 \<Longrightarrow> \<forall>j < length st. st[i := x] ! j \<le> (2 :: nat)"
proof (intro allI impI)
  fix j
  assume "\<forall>j < length st. st ! j \<le> 2" "x \<le> 2" "j < length st"
  then show "st[i := x] ! j \<le> 2" by (cases "i = j") simp_all
qed

text \<open>What a visit leaves alone: the links, meshes and local matrices, and everything of a node not new.\<close>

definition same_node :: "gl_node \<Rightarrow> gl_node \<Rightarrow> bool" where
  "same_node a b \<longleftrightarrow> node_children b = node_children a \<and> node_mesh b = node_mesh a \<and> local_matrix b = local_matrix a"

lemma same_node_refl: "same_node a a"
  and same_node_trans: "same_node a b \<Longrightarrow> same_node b c \<Longrightarrow> same_node a c"
  by (simp_all add: same_node_def)

definition visit_frame :: "nat list \<Rightarrow> gl_node list \<Rightarrow> nat list \<Rightarrow> gl_node list \<Rightarrow> bool" where
  "visit_frame st ns st' ns' \<longleftrightarrow>
     length st' = length st \<and> length ns' = length ns \<and> (\<forall>i < length ns. same_node (ns ! i) (ns' ! i)) \<and>
     (\<forall>i < length st. st ! i \<noteq> 0 \<longrightarrow> st' ! i = st ! i \<and> ns' ! i = ns ! i)"

lemma visit_frame_refl: "visit_frame st ns st ns"
  by (simp add: visit_frame_def same_node_refl)

lemma visit_frame_trans:
  assumes "visit_frame st ns st1 ns1" "visit_frame st1 ns1 st2 ns2"
  shows "visit_frame st ns st2 ns2"
  unfolding visit_frame_def
proof (intro conjI allI impI)
  fix i
  assume "i < length ns"
  then have "same_node (ns ! i) (ns1 ! i)" "same_node (ns1 ! i) (ns2 ! i)"
    using assms by (simp_all add: visit_frame_def)
  then show "same_node (ns ! i) (ns2 ! i)" by (rule same_node_trans)
next
  fix i
  assume i: "i < length st" "st ! i \<noteq> 0"
  then have 1: "st1 ! i = st ! i" "ns1 ! i = ns ! i" and len: "length st1 = length st"
    using assms(1) unfolding visit_frame_def by blast+
  then have "st2 ! i = st1 ! i \<and> ns2 ! i = ns1 ! i" using assms(2) i unfolding visit_frame_def by metis
  then show "st2 ! i = st ! i" "ns2 ! i = ns ! i" using 1 by simp_all
qed (use assms in \<open>simp_all add: visit_frame_def\<close>)

text \<open>Finishing node \<open>i\<close>, whose parent, if any, is finished.\<close>

lemma visited_finish:
  assumes v: "visited parents meshes rank st ns" and i: "i < length st" "st ! i \<noteq> 2"
    and up: "\<And>up. parents ! i = Some up \<Longrightarrow> up < length st \<and> st ! up = 2 \<and>
        gl_multiply (world_matrix (ns ! up)) (local_matrix (ns ! i)) = Inr m"
    and top: "parents ! i = None \<Longrightarrow> m = local_matrix (ns ! i)"
    and b: "mesh_bounds m meshes (node_mesh (ns ! i)) = Inr b"
  shows "visited parents meshes (rank(i := finished st)) (st[i := 2])
    (ns[i := (ns ! i)\<lparr>world_matrix := m, node_bounds := b\<rparr>])"
proof -
  let ?ns = "ns[i := (ns ! i)\<lparr>world_matrix := m, node_bounds := b\<rparr>]"
  have len: "length ns = length st" using v by (simp add: visited_def)
  have here: "placed parents meshes ?ns i"
  proof (cases "parents ! i")
    case None
    then show ?thesis using top b i len by (simp add: placed_def)
  next
    case (Some u)
    then have "u \<noteq> i" using up i(2) by blast
    then show ?thesis using up [OF Some] b i len Some by (simp add: placed_def)
  qed
  have upf: "u < length st \<and> st ! u = 2 \<and> rank u < finished st \<and> u \<noteq> i" if "parents ! i = Some u" for u
    using up [OF that] visitedD(1) [OF v] i(2) by auto
  have fin: "finished (st[i := 2]) = finished st + 1" using i by (simp add: finished_update)
  show ?thesis
  proof (rule visitedI)
    show "length ?ns = length (st[i := 2])" using len by simp
    show "\<forall>j < length (st[i := 2]). st[i := 2] ! j \<le> 2"
      using bounded_update [of st 2 i] visited_bound [OF v] by simp
  next
    fix j
    assume j: "j < length (st[i := 2])" "st[i := 2] ! j = 2"
    show "(rank(i := finished st)) j < finished (st[i := 2]) \<and> placed parents meshes ?ns j"
    proof (cases "j = i")
      case True
      then show ?thesis using here fin by simp
    next
      case False
      then have old: "j < length st" "st ! j = 2" using j by simp_all
      have "?ns ! j = ns ! j" using False by simp
      moreover have "?ns ! u = ns ! u" if "parents ! j = Some u" for u
        using visitedD(3) [OF v old that] i(2) by (cases "u = i") simp_all
      ultimately have "placed parents meshes ?ns j"
        using visitedD(2) [OF v old] unfolding placed_def by (cases "parents ! j") auto
      then show ?thesis using visitedD(1) [OF v old] fin False by simp
    qed
  next
    fix j u
    assume j: "j < length (st[i := 2])" "st[i := 2] ! j = 2" and p: "parents ! j = Some u"
    show "u < length (st[i := 2]) \<and> st[i := 2] ! u = 2 \<and> (rank(i := finished st)) u < (rank(i := finished st)) j"
    proof (cases "j = i")
      case True
      then show ?thesis using upf p by simp
    next
      case False
      then have old: "j < length st" "st ! j = 2" using j by simp_all
      then show ?thesis using visitedD(3) [OF v old p] i(2) False by (cases "u = i") simp_all
    qed
  qed
qed

lemma visited_start:
  assumes i: "i < length st" "st ! i = 0" and v: "visited parents meshes rank st ns"
  shows "visited parents meshes rank (st[i := 1]) ns"
proof -
  have fin: "finished (st[i := 1]) = finished st" using i by (simp add: finished_update)
  have two: "st[i := 1] ! j = 2 \<longleftrightarrow> st ! j = 2" for j
    using i by (cases "j = i") simp_all
  show ?thesis
  proof (rule visitedI)
    show "length ns = length (st[i := 1])" using v by (simp add: visited_def)
    show "\<forall>j < length (st[i := 1]). st[i := 1] ! j \<le> 2"
      using bounded_update [of st 1 i] visited_bound [OF v] by simp
  next
    fix j
    assume "j < length (st[i := 1])" "st[i := 1] ! j = 2"
    then show "rank j < finished (st[i := 1]) \<and> placed parents meshes ns j"
      unfolding fin two using visitedD(1,2) [OF v] by simp
  next
    fix j u
    assume "j < length (st[i := 1])" "st[i := 1] ! j = 2" "parents ! j = Some u"
    then show "u < length (st[i := 1]) \<and> st[i := 1] ! u = 2 \<and> rank u < rank j"
      unfolding two using visitedD(3) [OF v, of j u] by simp
  qed
qed

lemma visit_frame_update:
  assumes f: "visit_frame st ns st1 ns1" and i: "i < length ns" "st ! i = 0" and n: "same_node (ns1 ! i) node"
  shows "visit_frame st ns (st1[i := x]) (ns1[i := node])"
  unfolding visit_frame_def
proof (intro conjI allI impI)
  fix j
  assume j: "j < length ns"
  have "length ns1 = length ns" "same_node (ns ! j) (ns1 ! j)" using f j by (simp_all add: visit_frame_def)
  then show "same_node (ns ! j) (ns1[i := node] ! j)"
    using n i(1) same_node_trans [of "ns ! i" "ns1 ! i" node] by (cases "i = j") simp_all
next
  fix j
  assume j: "j < length st" "st ! j \<noteq> 0"
  then have "i \<noteq> j" using i(2) by auto
  moreover have "st1 ! j = st ! j \<and> ns1 ! j = ns ! j" using f j unfolding visit_frame_def by blast
  ultimately show "st1[i := x] ! j = st ! j" "ns1[i := node] ! j = ns ! j" by simp_all
qed (use f in \<open>simp_all add: visit_frame_def\<close>)

lemma visit_node_ok:
  assumes "visit_node parents meshes i (st, ns) = Inr (st', ns')" "visited parents meshes rank st ns"
  shows "visit_frame st ns st' ns' \<and> st' ! i = 2 \<and> i < length st \<and> (\<exists>rank'. visited parents meshes rank' st' ns')"
  using assms
proof (induction parents meshes i "(st, ns)" arbitrary: st ns st' ns' rank rule: visit_node.induct)
  case (1 parents meshes i st ns)
  note run = "1.prems"(1) [unfolded visit_node.simps [of parents meshes i st ns]]
  have i: "i < length st" "st ! i \<noteq> 1" using run by (auto split: if_splits)
  show ?case
  proof (cases "st ! i = 0")
    case False
    then have "st' = st" "ns' = ns" using run i by simp_all
    moreover have "st ! i = 2" using visited_bound [OF "1.prems"(2) i(1)] i(2) False by linarith
    ultimately show ?thesis using "1.prems"(2) i visit_frame_refl by auto
  next
    case new: True
    have v1: "visited parents meshes rank (st[i := 1]) ns" by (rule visited_start [OF i(1) new "1.prems"(2)])
    have len: "length ns = length st" using "1.prems"(2) by (simp add: visited_def)
    have f1: "visit_frame st ns (st[i := 1]) ns"
      using visit_frame_update [OF visit_frame_refl [of st ns], of i "ns ! i" 1] new i len by (simp add: same_node_refl)
    obtain st1 ns1 m b rank1 where v: "visited parents meshes rank1 st1 ns1" and f: "visit_frame (st[i := 1]) ns st1 ns1"
      and up: "\<And>up. parents ! i = Some up \<Longrightarrow> up < length st1 \<and> st1 ! up = 2 \<and>
        gl_multiply (world_matrix (ns1 ! up)) (local_matrix (ns1 ! i)) = Inr m"
      and top: "parents ! i = None \<Longrightarrow> m = local_matrix (ns1 ! i)"
      and b: "mesh_bounds m meshes (node_mesh (ns1 ! i)) = Inr b"
      and res: "st' = st1[i := 2]" "ns' = ns1[i := (ns1 ! i)\<lparr>world_matrix := m, node_bounds := b\<rparr>]"
    proof (cases "parents ! i")
      case None
      then have "\<exists>b. mesh_bounds (local_matrix (ns ! i)) meshes (node_mesh (ns ! i)) = Inr b \<and> st' = st[i := 1, i := 2] \<and>
          ns' = ns[i := (ns ! i)\<lparr>world_matrix := local_matrix (ns ! i), node_bounds := b\<rparr>]"
        using run i new by (auto simp: res_simps)
      then show ?thesis using that [OF v1 visit_frame_refl] None by auto
    next
      case (Some u)
      then obtain st1 ns1 m b where sub: "visit_node parents meshes u (st[i := 1], ns) = Inr (st1, ns1)"
        and m: "gl_multiply (world_matrix (ns1 ! u)) (local_matrix (ns1 ! i)) = Inr m"
        and b: "mesh_bounds m meshes (node_mesh (ns1 ! i)) = Inr b"
        and res: "st' = st1[i := 2]" "ns' = ns1[i := (ns1 ! i)\<lparr>world_matrix := m, node_bounds := b\<rparr>]"
        using run i new by (auto simp: res_simps)
      have "visit_frame (st[i := 1]) ns st1 ns1 \<and> st1 ! u = 2 \<and> u < length (st[i := 1]) \<and>
          (\<exists>rank'. visited parents meshes rank' st1 ns1)"
        using "1.hyps" [OF _ _ Some sub v1] i new by simp
      then show ?thesis using that [of _ st1 ns1 m b] m b res Some by (auto simp: visit_frame_def)
    qed
    have s1: "length st1 = length st" "st1 ! i = 1" "length ns1 = length st"
      using f i(1) len by (auto simp: visit_frame_def)
    have fine: "visited parents meshes (rank1(i := finished st1)) st' ns'"
      unfolding res using v s1 i(1) up top b by (intro visited_finish) auto
    have "visit_frame st ns st1 ns1" by (rule visit_frame_trans [OF f1 f])
    then have "visit_frame st ns st' ns'"
      unfolding res using new i(1) len by (intro visit_frame_update) (simp_all add: same_node_def)
    then show ?thesis using fine s1 i(1) by (auto simp: res)
  qed
qed

lemma visit_frame_done: "visit_frame st ns st' ns' \<Longrightarrow> i < length st \<Longrightarrow> st ! i = 2 \<Longrightarrow> st' ! i = 2"
  unfolding visit_frame_def by simp

lemma visit_nodes_ok:
  assumes "visit_nodes parents meshes is (st, ns) = Inr (st', ns')" "visited parents meshes rank st ns"
  shows "visit_frame st ns st' ns' \<and> (\<forall>i \<in> set is. i < length st \<and> st' ! i = 2) \<and>
    (\<exists>rank'. visited parents meshes rank' st' ns')"
  using assms
proof (induction "is" arbitrary: st ns rank)
  case Nil
  then show ?case using visit_frame_refl by auto
next
  case (Cons i "is")
  from Cons.prems(1) obtain st1 ns1 where one: "visit_node parents meshes i (st, ns) = Inr (st1, ns1)"
    and run: "visit_nodes parents meshes is (st1, ns1) = Inr (st', ns')"
    by (auto simp: res_simps)
  from visit_node_ok [OF one Cons.prems(2)] obtain rank1 where f1: "visit_frame st ns st1 ns1"
    and i: "st1 ! i = 2" "i < length st" and v: "visited parents meshes rank1 st1 ns1" by auto
  have len: "length st1 = length st" using f1 by (simp add: visit_frame_def)
  from Cons.IH [OF run v] have f2: "visit_frame st1 ns1 st' ns'"
    and rest: "\<forall>k \<in> set is. k < length st1 \<and> st' ! k = 2" "\<exists>rank'. visited parents meshes rank' st' ns'" by simp_all
  have "st' ! i = 2" using visit_frame_done [OF f2 _ i(1)] i(2) len by simp
  then show ?case using visit_frame_trans [OF f1 f2] rest i(2) len by auto
qed

section \<open>Aggregation\<close>

text \<open>A rank that grows from every node to its children.\<close>

definition ranked :: "(nat \<Rightarrow> nat) \<Rightarrow> gl_node list \<Rightarrow> bool" where
  "ranked rank ns \<longleftrightarrow>
     (\<forall>i < length ns. rank i < length ns \<and>
        (\<forall>c \<in> set (node_children (ns ! i)). unat c < length ns \<and> rank i < rank (unat c)))"

lemma aggregate_returns:
  assumes "ranked rank ns" "\<forall>i \<in> set is. unat i < length ns \<and> length ns \<le> fuel + rank (unat i)"
  shows "\<exists>b. aggregate_nodes fuel ns is agg = Some b"
  using assms
proof (induction fuel ns "is" agg rule: aggregate_nodes.induct)
  case (1 fuel ns agg)
  then show ?case by simp
next
  case (2 ns i "is" agg)
  then have "length ns \<le> rank (unat i)" "unat i < length ns" by simp_all
  then show ?case using "2.prems"(1) by (auto simp: ranked_def)
next
  case (3 fuel ns i "is" agg)
  let ?agg = "case node_bounds (ns ! unat i) of None \<Rightarrow> agg | Some b \<Rightarrow> bounds_merge agg b"
  have i: "unat i < length ns" "length ns \<le> Suc fuel + rank (unat i)" using "3.prems"(2) by simp_all
  have "\<forall>c \<in> set (node_children (ns ! unat i)). unat c < length ns \<and> length ns \<le> fuel + rank (unat c)"
    using "3.prems"(1) i by (fastforce simp: ranked_def)
  with "3.IH"(1) [OF refl refl "3.prems"(1)] obtain b where
    b: "aggregate_nodes fuel ns (node_children (ns ! unat i)) ?agg = Some b" by auto
  show ?case
    using "3.IH"(2) [OF refl refl b "3.prems"(1)] "3.prems"(2) b by (auto simp: Let_def)
qed

lemma aggregate_more_fuel:
  "aggregate_nodes fuel ns is agg = Some b \<Longrightarrow> aggregate_nodes (fuel + k) ns is agg = Some b"
  by (induction fuel ns "is" agg arbitrary: b rule: aggregate_nodes.induct) (auto simp: Let_def split: option.splits)

section \<open>Linked nodes\<close>

lemma select_roots_ok:
  "select_roots parents vs chosen = Inr rs \<Longrightarrow>
     \<forall>r \<in> set chosen. unat r < length parents \<and> parents ! unat r = None \<Longrightarrow> distinct chosen \<Longrightarrow>
     (\<forall>r \<in> set rs. unat r < length parents \<and> parents ! unat r = None) \<and> distinct rs \<and>
     length rs = length chosen + length vs"
proof (induction vs arbitrary: chosen)
  case (Cons v vs)
  from Cons.prems(1) obtain i where i: "gl_index (length parents) v = Inr i" "parents ! unat i = None" "i \<notin> set chosen"
    and run: "select_roots parents vs (chosen @ [i]) = Inr rs" by (auto simp: res_simps)
  show ?case
    using Cons.IH [OF run] Cons.prems(2,3) i gl_index_less [OF i(1)] by auto
qed simp

text \<open>
  The nodes \<open>ns\<close> with their roots \<open>rs\<close>, the parents \<open>ps\<close> the children lists give, and the rank of the visit.
\<close>

definition linked :: "gl_mesh list \<Rightarrow> gl_node list \<Rightarrow> u32 list \<Rightarrow> nat option list \<Rightarrow> (nat \<Rightarrow> nat) \<Rightarrow> bool" where
  "linked meshes ns rs ps rank \<longleftrightarrow>
     length ps = length ns \<and> family 0 ns ps \<and> (\<forall>i < length ns. placed ps meshes ns i) \<and> ranked rank ns \<and>
     (\<forall>r \<in> set rs. unat r < length ns \<and> ps ! unat r = None) \<and> distinct rs \<and> rs \<noteq> []"

lemma gl_array_Inr:
  "gl_array v n nonempty = Inr vs \<longleftrightarrow> v = JArr vs \<and> length vs \<le> n \<and> (nonempty \<longrightarrow> vs \<noteq> [])"
  by (cases v) (auto simp: gl_array_def res_simps)

lemma link_nodes_linked:
  assumes "link_nodes meshes input chosen_roots = Inr (ns, rs)"
  shows "\<exists>ps rank. linked meshes ns rs ps rank"
proof -
  obtain items ns0 ps st chosen where items: "gl_array input 8 True = Inr items"
    and read: "read_nodes (length meshes) 0 items (replicate (length items) None) = Inr (ns0, ps)"
    and visit: "visit_nodes ps meshes [0 ..< length ns0] (replicate (length items) 0, ns0) = Inr (st, ns)"
    and chosen: "gl_array chosen_roots 8 True = Inr chosen" and roots: "select_roots ps chosen [] = Inr rs"
    using assms by (auto simp: link_nodes_def res_simps)
  have len0: "length ns0 = length items" "length ps = length items" and fam0: "family 0 ns0 ps"
    using read_nodes_family [OF read] by (simp_all add: extends_parents_def)
  have "visited ps meshes (\<lambda>_. 0) (replicate (length items) 0) ns0"
    using len0 by (intro visitedI) simp_all
  from visit_nodes_ok [OF visit this] obtain rank where frame: "visit_frame (replicate (length items) 0) ns0 st ns"
    and fine: "\<forall>i < length items. st ! i = 2" and v: "visited ps meshes rank st ns"
    using len0 by auto
  have len: "length ns = length items" "length st = length items" using frame len0 by (simp_all add: visit_frame_def)
  have fam: "family 0 ns ps"
    using fam0 frame len0 by (simp add: family_def visit_frame_def same_node_def)
  have "ranked rank ns"
    unfolding ranked_def
  proof (intro allI impI conjI ballI)
    fix i
    assume i: "i < length ns"
    show "rank i < length ns" using visitedD(1) [OF v, of i] fine i len finished_le [of st] by simp
    fix c
    assume "c \<in> set (node_children (ns ! i))"
    then have c: "unat c < length ps" "ps ! unat c = Some i" using fam i by (auto simp: family_def children_of_def)
    then show "unat c < length ns" using len0 len by simp
    then show "rank i < rank (unat c)" using visitedD(3) [OF v, of "unat c" i] fine c len by simp
  qed
  moreover have "\<forall>i < length ns. placed ps meshes ns i" using visitedD(2) [OF v] fine len by simp
  moreover have "(\<forall>r \<in> set rs. unat r < length ps \<and> ps ! unat r = None) \<and> distinct rs \<and> length rs = length chosen"
    using select_roots_ok [OF roots] by simp
  moreover have "chosen \<noteq> []" using chosen by (simp add: gl_array_Inr)
  ultimately have "linked meshes ns rs ps rank"
    using fam len len0 by (auto simp: linked_def)
  then show ?thesis by blast
qed

section \<open>References in range\<close>

lemma gl_optional_Inr:
  "gl_optional v key fallback conv = Inr x \<longleftrightarrow>
     (if contains v key then conv (jget v key) = Inr x else x = fallback)"
  by (auto simp: gl_optional_def)

definition primitive_ok :: "nat \<Rightarrow> gl_primitive \<Rightarrow> bool" where
  "primitive_ok materials p \<longleftrightarrow>
     primitive_positions p \<noteq> [] \<and> primitive_indices p \<noteq> [] \<and> length (primitive_indices p) mod 3 = 0 \<and>
     (\<forall>i \<in> set (primitive_indices p). unat i < length (primitive_positions p)) \<and>
     (case primitive_material p of None \<Rightarrow> True | Some k \<Rightarrow> unat k < materials)"

definition mesh_primitives :: "gl_mesh list \<Rightarrow> gl_primitive list" where
  "mesh_primitives ms = concat (map primitives ms)"

definition vertex_sum :: "gl_primitive list \<Rightarrow> nat" where
  "vertex_sum ps = sum_list (map (\<lambda>p. length (primitive_positions p)) ps)"

definition index_sum :: "gl_primitive list \<Rightarrow> nat" where
  "index_sum ps = sum_list (map (\<lambda>p. length (primitive_indices p)) ps)"

definition usage_ok :: "gl_usage \<Rightarrow> bool" where
  "usage_ok u \<longleftrightarrow> used_primitives u \<le> 4 \<and> used_vertices u \<le> 1024 \<and> used_indices u \<le> 3072"

definition usage_after :: "gl_usage \<Rightarrow> gl_primitive list \<Rightarrow> gl_usage" where
  "usage_after u ps =
     \<lparr>used_primitives = used_primitives u + length ps, used_vertices = used_vertices u + vertex_sum ps,
      used_indices = used_indices u + index_sum ps\<rparr>"

lemma primitive_ok:
  assumes "gl_primitive_of decoded materials u v = Inr (p, u')" "usage_ok u"
  shows "primitive_ok materials p \<and> u' = usage_after u [p] \<and> usage_ok u'"
  using assms
  by (auto simp: gl_primitive_of_def Let_def res_simps gl_optional_Inr primitive_ok_def usage_after_def usage_ok_def
      vertex_sum_def index_sum_def list_all_iff dest: gl_index_less split: if_splits)

lemma usage_after_append: "usage_after (usage_after u ps) qs = usage_after u (ps @ qs)"
  by (simp add: usage_after_def vertex_sum_def index_sum_def)

lemma primitives_ok:
  "gl_primitives decoded materials u vs = Inr (ps, u') \<Longrightarrow> usage_ok u \<Longrightarrow>
     list_all (primitive_ok materials) ps \<and> u' = usage_after u ps \<and> usage_ok u'"
proof (induction vs arbitrary: u ps)
  case Nil
  then show ?case by (cases u) (simp add: usage_after_def vertex_sum_def index_sum_def)
next
  case (Cons v vs)
  from Cons.prems(1) obtain p u1 ps' where p: "gl_primitive_of decoded materials u v = Inr (p, u1)"
    and run: "gl_primitives decoded materials u1 vs = Inr (ps', u')" and ps: "ps = p # ps'"
    by (auto simp: res_simps)
  from primitive_ok [OF p Cons.prems(2)] have 1: "primitive_ok materials p" "u1 = usage_after u [p]" "usage_ok u1" by blast+
  from Cons.IH [OF run 1(3)] show ?case
    using 1 usage_after_append [of u "[p]" ps'] unfolding ps by auto
qed

lemma mesh_list_ok:
  "gl_mesh_list decoded materials u vs = Inr ms \<Longrightarrow> usage_ok u \<Longrightarrow>
     list_all (primitive_ok materials) (mesh_primitives ms) \<and> usage_ok (usage_after u (mesh_primitives ms)) \<and>
     length ms = length vs"
proof (induction vs arbitrary: u ms)
  case Nil
  then show ?case by (cases u) (simp add: mesh_primitives_def usage_after_def vertex_sum_def index_sum_def)
next
  case (Cons v vs)
  from Cons.prems(1) obtain items ps u1 ms' where p: "gl_primitives decoded materials u items = Inr (ps, u1)"
    and run: "gl_mesh_list decoded materials u1 vs = Inr ms'" and ms: "ms = \<lparr>primitives = ps\<rparr> # ms'"
    by (auto simp: res_simps)
  from primitives_ok [OF p Cons.prems(2)] have 1: "list_all (primitive_ok materials) ps" "u1 = usage_after u ps" "usage_ok u1"
    by blast+
  from Cons.IH [OF run 1(3)] show ?case
    using 1 by (simp add: ms mesh_primitives_def usage_after_append)
qed

definition meshes_ok :: "nat \<Rightarrow> gl_mesh list \<Rightarrow> bool" where
  "meshes_ok materials ms \<longleftrightarrow>
     list_all (primitive_ok materials) (mesh_primitives ms) \<and> length (mesh_primitives ms) \<le> 4 \<and>
     vertex_sum (mesh_primitives ms) \<le> 1024 \<and> index_sum (mesh_primitives ms) \<le> 3072"

lemma gl_meshes_ok: "gl_meshes input decoded materials = Inr ms \<Longrightarrow> meshes_ok materials ms"
  using mesh_list_ok [of decoded materials "\<lparr>used_primitives = 0, used_vertices = 0, used_indices = 0\<rparr>"]
  by (auto simp: gl_meshes_def res_simps meshes_ok_def usage_ok_def usage_after_def)

definition node_ok :: "nat \<Rightarrow> gl_node list \<Rightarrow> gl_node \<Rightarrow> bool" where
  "node_ok meshes ns node \<longleftrightarrow>
     (case node_mesh node of None \<Rightarrow> True | Some k \<Rightarrow> unat k < meshes) \<and>
     (\<forall>c \<in> set (node_children node). unat c < length ns)"

definition scene_ok :: "gl_scene \<Rightarrow> bool" where
  "scene_ok s \<longleftrightarrow>
     meshes_ok (length (scene_materials s)) (scene_meshes s) \<and>
     list_all (node_ok (length (scene_meshes s)) (scene_nodes s)) (scene_nodes s) \<and>
     length (scene_nodes s) \<le> 8 \<and> length (scene_materials s) \<le> 4 \<and> scene_roots s \<noteq> [] \<and> distinct (scene_roots s) \<and>
     (\<forall>r \<in> set (scene_roots s). unat r < length (scene_nodes s))"

definition mesh_in_range :: "nat \<Rightarrow> gl_node \<Rightarrow> bool" where
  "mesh_in_range meshes node \<longleftrightarrow> (case node_mesh node of None \<Rightarrow> True | Some k \<Rightarrow> unat k < meshes)"

lemma gl_local_mesh: "gl_local node = Inr node' \<Longrightarrow> node_mesh node' = node_mesh node"
  by (auto simp: gl_local_def Let_def res_simps)

lemma node_fields_mesh:
  assumes "node_fields meshes v = Inr node"
  shows "mesh_in_range meshes node"
proof -
  obtain mesh t q s where
    mesh: "gl_optional v ''mesh'' None (\<lambda>m. rbind (gl_index meshes m) (\<lambda>k. Inr (Some k))) = Inr mesh"
    and "gl_local (plain_node\<lparr>node_mesh := mesh, node_translation := t, node_rotation := q, node_scale := s\<rparr>) = Inr node"
    using assms unfolding node_fields_def rbind_eq_Inr by blast
  then have same: "node_mesh node = mesh" using gl_local_mesh by fastforce
  show ?thesis
  proof (cases mesh)
    case None
    then show ?thesis by (simp add: mesh_in_range_def same)
  next
    case (Some k)
    then have "gl_index meshes (jget v ''mesh'') = Inr k" using mesh by (auto simp: gl_optional_Inr res_simps split: if_splits)
    then show ?thesis using Some gl_index_less by (simp add: mesh_in_range_def same)
  qed
qed

lemma read_nodes_mesh: "read_nodes meshes n vs ps = Inr (ns, qs) \<Longrightarrow> list_all (mesh_in_range meshes) ns"
proof (induction vs arbitrary: n ps ns)
  case (Cons v vs)
  from Cons.prems obtain node cs ps' ns' where node: "node_fields meshes v = Inr node"
    and run: "read_nodes meshes (n + 1) vs ps' = Inr (ns', qs)" and ns: "ns = node\<lparr>node_children := cs\<rparr> # ns'"
    by (auto simp: res_simps)
  show ?case using node_fields_mesh [OF node] Cons.IH [OF run] by (simp add: ns mesh_in_range_def)
qed simp

lemma link_nodes_meshes:
  assumes "link_nodes meshes input chosen_roots = Inr (ns, rs)"
  shows "length ns \<le> 8 \<and> list_all (mesh_in_range (length meshes)) ns"
proof -
  obtain items ns0 ps st where items: "gl_array input 8 True = Inr items"
    and read: "read_nodes (length meshes) 0 items (replicate (length items) None) = Inr (ns0, ps)"
    and visit: "visit_nodes ps meshes [0 ..< length ns0] (replicate (length items) 0, ns0) = Inr (st, ns)"
    using assms by (auto simp: link_nodes_def res_simps)
  have len: "length ns0 = length items" using read_nodes_family [OF read] by simp
  then have "visited ps meshes (\<lambda>_. 0) (replicate (length items) 0) ns0"
    by (intro visitedI) simp_all
  from visit_nodes_ok [OF visit this] have frame: "visit_frame (replicate (length items) 0) ns0 st ns" by simp
  then have "\<forall>i < length ns. node_mesh (ns ! i) = node_mesh (ns0 ! i)" "length ns = length ns0"
    by (simp_all add: visit_frame_def same_node_def)
  then show ?thesis
    using read_nodes_mesh [OF read] items len by (simp add: list_all_length mesh_in_range_def gl_array_Inr)
qed

lemma decode_scene_ok:
  assumes "decode_scene v bin = Inr s"
  shows "scene_ok s"
proof -
  obtain decoded materials meshes chosen_roots ns rs b where
    mats: "gl_optional v ''materials'' [] gl_materials = Inr materials"
    and ms: "gl_meshes (jget v ''meshes'') decoded (length materials) = Inr meshes"
    and nodes: "gl_nodes meshes (jget v ''nodes'') chosen_roots = Inr (ns, rs, b)"
    and s: "s = \<lparr>scene_roots = rs, scene_meshes = meshes, scene_nodes = ns, scene_materials = materials, scene_bounds = b\<rparr>"
    using assms by (auto simp: decode_scene_def res_simps)
  have link: "link_nodes meshes (jget v ''nodes'') chosen_roots = Inr (ns, rs)"
    using nodes by (auto simp: gl_nodes_def res_simps split: option.splits)
  have "length materials \<le> 4"
    using mats by (auto simp: gl_optional_Inr gl_materials_def gl_array_Inr res_simps dest: rmap_list_Inr_length split: if_splits)
  moreover obtain ps rank where l: "linked meshes ns rs ps rank" using link_nodes_linked [OF link] by blast
  have "\<forall>i < length ns. \<forall>c \<in> set (node_children (ns ! i)). unat c < length ns"
    using l by (auto simp: linked_def ranked_def)
  ultimately show ?thesis
    using gl_meshes_ok [OF ms] link_nodes_meshes [OF link] l
    by (auto simp: s scene_ok_def node_ok_def mesh_in_range_def list_all_length linked_def)
qed

end
