(* ===== verification/Gltf_Claims.thy ===== *)
theory Gltf_Claims
  imports Gltf_Laws Catalog_Claims Float_Code
begin

text \<open>
  What the glTF importer promises: world matrices follow the hierarchy, aggregation terminates, and
  an import commits the decoded scene's source bundle or changes nothing.  The witnesses import a
  file with one triangle.
\<close>

section \<open>The bundle of an import\<close>

lemma stage_import_Inr:
  assumes "stage_import J r = Inr ((a, s), pack)"
  obtains h where "gl_decode J (request_glb r) = Inr s" "content_hash (request_glb r) = Inr h"
    "manifest_hash (asset_manifest a) = h" "entries_ok [a] [\<lparr>blob_hash = h, blob_bytes = request_glb r\<rparr>]"
    "pack = bundle_bytes [a] [\<lparr>blob_hash = h, blob_bytes = request_glb r\<rparr>]"
proof -
  obtain h k where d: "gl_decode J (request_glb r) = Inr s" and h: "content_hash (request_glb r) = Inr h"
    and k: "asset_id (asset_manifest a) = Inr k" and b: "gl_bundle a (request_glb r) = Inr pack"
    and a: "a = \<lparr>asset_key = k, asset_manifest =
      \<lparr>manifest_version = 1, manifest_hash = h, decoded_length = word_of_nat (length (request_glb r)),
       media_type = ''model/gltf-binary'', source_text = request_source r, license = request_license r\<rparr>\<rparr>"
    using assms by (auto simp: stage_import_def Let_def res_simps)
  have hv: "valid_hash h" by (rule content_hash_valid [OF h])
  have len: "length (request_glb r) \<le> blob_byte_limit" using h by (simp add: content_hash_Inr)
  then have n: "unat (word_of_nat (length (request_glb r)) :: u32) = length (request_glb r)"
    by (intro unat_u32_of_nat) (simp add: blob_byte_limit_def)
  have ok: "asset_ok a" using k by (simp add: asset_ok_def asset_id_Inr a)
  have entries: "entries_ok [a] [\<lparr>blob_hash = h, blob_bytes = request_glb r\<rparr>]"
    using ok h len n by (simp add: entries_ok_def blob_ok_def blob_sizes_def asset_limits a)
  have mb: "canonical_manifest (asset_manifest a) = Inr (manifest_bytes (asset_manifest a))"
    using asset_okD [OF ok] by (simp add: canonical_manifest_Inr)
  have "length (''blobs/'' @ h) = 70" using hv by (simp add: valid_hash_def)
  then have "put_text (''blobs/'' @ h) = [70, 0] @ str_bytes (''blobs/'' @ h)"
    unfolding put_text_def by (simp add: put16_def)
  then have "pack = bundle_bytes [a] [\<lparr>blob_hash = h, blob_bytes = request_glb r\<rparr>]"
    using b mb by (simp add: gl_bundle_def bundle_bytes_def asset_bytes_def export_blob_def Let_def a)
  then show ?thesis using that d h entries by (simp add: a)
qed

lemma import_entries:
  assumes run: "import_bundle (bundle_bytes xs bs) c = Inr (c', ids)" and e: "entries_ok xs bs" and c: "catalog_ok c"
  shows "(\<forall>a \<in> set xs. a \<in> set (catalog_assets c')) \<and>
    (\<forall>b \<in> set bs. \<exists>b' \<in> set (catalog_blobs c'). blob_hash b' = blob_hash b \<and> blob_bytes b' = blob_bytes b) \<and>
    set (catalog_assets c) \<subseteq> set (catalog_assets c') \<and> set (catalog_blobs c) \<subseteq> set (catalog_blobs c') \<and>
    current_roots c' = current_roots c \<and> history_roots c' = history_roots c \<and> catalog_revision c' = catalog_revision c"
proof -
  obtain incoming content ys cs where s: "sort_entries xs bs = (incoming, content)"
    and xs: "add_assets (catalog_assets c) incoming = Inr ys" and bs: "add_blobs (catalog_blobs c) content = Inr cs"
    and c': "c' = c\<lparr>catalog_assets := fst (sort_entries ys cs), catalog_blobs := snd (sort_entries ys cs)\<rparr>"
    using run decode_bundle_bytes [OF e]
    by (cases "sort_entries xs bs") (auto simp: import_bundle_def res_simps split_beta)
  have sets: "set incoming = set xs" "set content = set bs" "set (catalog_assets c') = set ys" "set (catalog_blobs c') = set cs"
    using s by (auto simp: c' sort_entries_def)
  have old: "distinct (map asset_key (catalog_assets c))" "length (catalog_assets c) \<le> manifest_limit"
      "distinct (map blob_hash (catalog_blobs c))" "length (catalog_blobs c) \<le> blob_limit"
    using c by (simp_all add: catalog_ok_def entries_ok_def)
  have same: "a' = a" if "asset_key a' = asset_key a" "asset_manifest a' = asset_manifest a" for a a' :: asset
    using that by (cases a; cases a') simp
  have "\<forall>a \<in> set xs. a \<in> set ys" using add_assets_Inr [OF xs old(1,2)] same by (metis sets(1))
  then show ?thesis
    using add_assets_Inr [OF xs old(1,2)] add_blobs_Inr [OF bs old(3,4)] by (simp add: sets) (simp add: c')
qed

section \<open>A file with one triangle\<close>

definition tri_bin :: bytes where
  "tri_bin =
     [0, 0, 0, 0, 0, 0, 0, 0, 0, 0, 0, 0,
      0, 0, 0x80, 0x3F, 0, 0, 0, 0, 0, 0, 0, 0,
      0, 0, 0, 0, 0, 0, 0x80, 0x3F, 0, 0, 0, 0,
      0, 1, 2, 0]"

definition tri_file :: bytes where
  "tri_file =
     [0x67, 0x6C, 0x54, 0x46, 2, 0, 0, 0, 72, 0, 0, 0, 4, 0, 0, 0, 0x4A, 0x53, 0x4F, 0x4E, 0x7B, 0x7D, 0x20, 0x20,
      40, 0, 0, 0, 0x42, 0x49, 0x4E, 0] @ tri_bin"

definition tri_lib :: json_lib where
  "tri_lib = one_value_lib (JObj [])"

named_theorems unit_floats \<open>arithmetic on zero and one\<close>

lemma unit_products [unit_floats]:
  "fmul f_zero f_zero = f_zero" "fmul f_zero f_one = f_zero" "fmul f_one f_zero = f_zero" "fmul f_one f_one = f_one"
  "fmul f_two f_zero = f_zero"
  by code_simp+

lemma unit_sums [unit_floats]:
  "fadd f_zero f_zero = f_zero" "fadd f_zero f_one = f_one" "fadd f_one f_zero = f_one"
  "fsub f_one f_zero = f_one" "fsub f_zero f_zero = f_zero" "fsub f_one f_one = f_zero"
  by code_simp+

lemma unit_quotients [unit_floats]: "fsqrt f_one = f_one" "fdiv f_zero f_one = f_zero" "fdiv f_one f_one = f_one"
  by code_simp+

lemma unit_checks [unit_floats]:
  "is_finite f_zero" "is_finite f_one" "fabs f_zero = f_zero" "fabs f_one = f_one" "\<not> flt f_1em6 f_zero"
  "\<not> flt f_one f_zero" "flt f_zero f_one" "\<not> flt f_zero f_zero" "\<not> flt f_one f_one" "plus_zero f_zero = f_zero"
  "plus_zero f_one = f_one" "feq f_zero f_zero" "feq f_one f_one"
  by code_simp+

lemma unit_magnitudes [unit_floats]:
  "magnitude_within 1000000 f_zero" "magnitude_within 1000 f_one" "magnitude_within 1000000000000 f_zero"
  "magnitude_within 1000000000000 f_one" "\<not> flt (f_of_nat 1000000) f_zero" "\<not> flt (f_of_nat 1000000) f_one"
  by code_simp+

lemma unit_conversions [unit_floats]:
  "json_number (JUInt 0) = Some f_zero" "json_number (JUInt 1) = Some f_one"
  "single_precision f_zero = Inr f_zero" "single_precision f_one = Inr f_one"
  "widen 0 = f_zero" "widen 0x3F800000 = f_one"
  by code_simp+

definition identity :: gl_vector where
  "identity =
     [f_one, f_zero, f_zero, f_zero, f_zero, f_one, f_zero, f_zero, f_zero, f_zero, f_one, f_zero,
      f_zero, f_zero, f_zero, f_one]"

lemma identity_entries:
  "identity ! 0 = f_one" "identity ! 1 = f_zero" "identity ! 2 = f_zero" "identity ! 3 = f_zero"
  "identity ! 4 = f_zero" "identity ! 5 = f_one" "identity ! 6 = f_zero" "identity ! 7 = f_zero"
  "identity ! 8 = f_zero" "identity ! 9 = f_zero" "identity ! 10 = f_one" "identity ! 11 = f_zero"
  "identity ! 12 = f_zero" "identity ! 13 = f_zero" "identity ! 14 = f_zero" "identity ! 15 = f_one"
  by (simp_all add: identity_def)

lemma index_sums:
  "(0::nat) * 4 + 0 = 0" "(0::nat) * 4 + 1 = 1" "(0::nat) * 4 + 2 = 2" "(0::nat) * 4 + 3 = 3"
  "(1::nat) * 4 + 0 = 4" "(1::nat) * 4 + 1 = 5" "(1::nat) * 4 + 2 = 6" "(1::nat) * 4 + 3 = 7"
  "(2::nat) * 4 + 0 = 8" "(2::nat) * 4 + 1 = 9" "(2::nat) * 4 + 2 = 10" "(2::nat) * 4 + 3 = 11"
  "(3::nat) * 4 + 0 = 12" "(3::nat) * 4 + 1 = 13" "(3::nat) * 4 + 2 = 14" "(3::nat) * 4 + 3 = 15"
  by simp_all

lemma identity_product: "c \<in> {0, 1, 2, 3} \<Longrightarrow> r \<in> {0, 1, 2, 3} \<Longrightarrow>
    matrix_entry identity identity c r = (if c = r then f_one else f_zero)"
  unfolding matrix_entry_def foldl_Cons foldl_Nil
  by (elim insertE; hypsubst?; (simp only: empty_iff)?;
      simp only: index_sums identity_entries unit_floats if_True if_False zero_neq_one one_neq_zero; simp)

lemma multiply_identity: "gl_multiply identity identity = Inr identity"
proof -
  have at: "identity ! i = (if i div 4 = i mod 4 then f_one else f_zero)" if "i < 16" for i
  proof -
    have "\<forall>i < 16. identity ! i = (if i div 4 = i mod 4 then f_one else f_zero)" by code_simp
    then show ?thesis using that by blast
  qed
  have "matrix_entry identity identity (i div 4) (i mod 4) = identity ! i" if "i < 16" for i
  proof -
    have small: "k \<in> {0, 1, 2, 3}" if "k < 4" for k :: nat using that by auto
    have "i div 4 < 4" "i mod 4 < 4" using that by auto
    then show ?thesis using at [OF that] identity_product [OF small small] by simp
  qed
  moreover have "is_finite (identity ! i)" if "i < 16" for i using at [OF that] by (simp add: unit_floats)
  moreover have "length identity = 16" by (simp add: identity_def)
  ultimately show ?thesis
    unfolding gl_multiply_def rmap_list_Inr_conv by (simp add: list_all2_conv_all_nth Let_def del: upt_Suc)
qed

definition tri_positions :: "gl_vector list" where
  "tri_positions = [[f_zero, f_zero, f_zero], [f_one, f_zero, f_zero], [f_zero, f_one, f_zero]]"

definition tri_bounds :: gl_bounds where
  "tri_bounds = \<lparr>bounds_minimum = [f_zero, f_zero, f_zero], bounds_maximum = [f_one, f_one, f_zero]\<rparr>"

definition tri_mesh :: gl_mesh where
  "tri_mesh =
     \<lparr>primitives = [\<lparr>primitive_positions = tri_positions, primitive_indices = [0, 1, 2], primitive_material = None,
        primitive_bounds = tri_bounds\<rparr>]\<rparr>"

lemma transform_entries:
  "(12::nat) + 0 = 12" "(12::nat) + 1 = 13" "(12::nat) + 2 = 14" "[x, y, z] ! 0 = x" "[x, y, z] ! 1 = y" "[x, y, z] ! 2 = z"
  by simp_all

lemma transform_identity: "v \<in> set tri_positions \<Longrightarrow> gl_transform identity v = Inr v"
  unfolding tri_positions_def gl_transform_def list.set foldl_Cons foldl_Nil rmap_list.simps Let_def
  by (elim insertE; hypsubst?; (simp only: empty_iff)?;
      simp only: index_sums transform_entries identity_entries unit_floats require_def if_True rbind_Inr)

lemma tri_mesh_bounds: "mesh_bounds identity [tri_mesh] (Some 0) = Inr (Some tri_bounds)"
  by (simp add: mesh_bounds_def tri_mesh_def transform_identity tri_positions_def bounds_grow_def bounds_add_def
      std_min_def std_max_def unit_floats tri_bounds_def)

lemma unit_norm: "rotation_norm [f_zero, f_zero, f_zero, f_one] = f_one"
  by (simp only: rotation_norm_def foldl_Cons foldl_Nil unit_floats)

lemma unit_matrix: "matrix_of [f_zero, f_zero, f_zero] [f_zero, f_zero, f_zero, f_one] [f_one, f_one, f_one] = identity"
  by (simp only: matrix_of_def Let_def nth_Cons_0 nth_Cons_Suc numeral_2_eq_2 numeral_3_eq_3 One_nat_def unit_floats identity_def)

lemma local_identity: "gl_local (plain_node\<lparr>node_mesh := mesh\<rparr>) = Inr (plain_node\<lparr>node_mesh := mesh, local_matrix := identity\<rparr>)"
proof -
  let ?n = "plain_node\<lparr>node_mesh := mesh\<rparr>"
  have f: "node_translation ?n = [f_zero, f_zero, f_zero]" "node_rotation ?n = [f_zero, f_zero, f_zero, f_one]"
    "node_scale ?n = [f_one, f_one, f_one]" by (simp_all add: plain_node_def)
  have norm: "is_finite f_one \<and> \<not> flt f_1em6 (fabs (fsub f_one f_one))" by (simp add: unit_floats)
  have rot: "map (\<lambda>v. fdiv v (fsqrt f_one)) [f_zero, f_zero, f_zero, f_one] = [f_zero, f_zero, f_zero, f_one]"
    by (simp add: unit_floats)
  have "?n\<lparr>node_rotation := [f_zero, f_zero, f_zero, f_one], local_matrix := identity\<rparr> =
      plain_node\<lparr>node_mesh := mesh, local_matrix := identity\<rparr>"
    by (simp add: plain_node_def)
  then show ?thesis
    unfolding gl_local_def f unit_norm Let_def rot unit_matrix using norm by (simp add: unit_floats)
qed

definition tri_parent :: json where
  "tri_parent = JObj [(''children'', JArr [JUInt 1])]"

definition tri_leaf :: json where
  "tri_leaf = JObj [(''mesh'', JUInt 0)]"

lemma tri_node_fields:
  "node_fields 1 tri_parent = Inr (plain_node\<lparr>local_matrix := identity\<rparr>)"
  "node_fields 1 tri_leaf = Inr (plain_node\<lparr>node_mesh := Some 0, local_matrix := identity\<rparr>)"
proof -
  have keys: "gl_fields v [''mesh'', ''children'', ''translation'', ''rotation'', ''scale'', ''name''] [] = Inr ()"
      "gl_name v = Inr []" "\<not> contains v ''translation''" "\<not> contains v ''rotation''" "\<not> contains v ''scale''"
    if "v \<in> {tri_parent, tri_leaf}" for v
    using that by (auto simp: gl_fields_def gl_field_def gl_name_def gl_optional_def contains_def tri_parent_def tri_leaf_def)
  have mesh: "\<not> contains tri_parent ''mesh''" "contains tri_leaf ''mesh''" "gl_index 1 (jget tri_leaf ''mesh'') = Inr 0"
    by (simp_all add: contains_def tri_parent_def tri_leaf_def jget_def gl_index_def gl_integer_def)
  have plain: "plain_node\<lparr>node_mesh := m, node_translation := node_translation plain_node,
      node_rotation := node_rotation plain_node, node_scale := node_scale plain_node\<rparr> = plain_node\<lparr>node_mesh := m\<rparr>" for m
    by (simp add: plain_node_def)
  have none: "plain_node\<lparr>node_mesh := None\<rparr> = plain_node" by (simp add: plain_node_def)
  show "node_fields 1 tri_parent = Inr (plain_node\<lparr>local_matrix := identity\<rparr>)"
    using local_identity [of None] keys [of tri_parent] mesh by (simp add: node_fields_def gl_optional_def plain none)
  show "node_fields 1 tri_leaf = Inr (plain_node\<lparr>node_mesh := Some 0, local_matrix := identity\<rparr>)"
    using local_identity [of "Some 0"] keys [of tri_leaf] mesh by (simp add: node_fields_def gl_optional_def plain)
qed

definition tri_node :: "u32 option \<Rightarrow> u32 list \<Rightarrow> gl_bounds option \<Rightarrow> gl_node" where
  "tri_node mesh children b =
     plain_node\<lparr>node_mesh := mesh, node_children := children, local_matrix := identity, world_matrix := identity,
       node_bounds := b\<rparr>"

lemma tri_read: "read_nodes 1 0 [tri_parent, tri_leaf] [None, None] =
    Inr ([plain_node\<lparr>local_matrix := identity, node_children := [1]\<rparr>,
      plain_node\<lparr>node_mesh := Some 0, local_matrix := identity, node_children := []\<rparr>], [None, Some 0])"
proof -
  have "node_children_of 0 tri_parent [None, None] = Inr ([1], [None, Some 0])"
    "node_children_of (Suc 0) tri_leaf ps = Inr ([], ps)" for ps
    by (simp_all add: node_children_of_def tri_parent_def tri_leaf_def contains_def jget_def gl_array_def gl_index_def gl_integer_def)
  then show ?thesis using tri_node_fields by simp
qed

lemma tri_visit: "visit_nodes [None, Some 0] [tri_mesh] [0, 1] ([0, 0],
     [plain_node\<lparr>local_matrix := identity, node_children := [1]\<rparr>,
      plain_node\<lparr>node_mesh := Some 0, local_matrix := identity, node_children := []\<rparr>]) =
   Inr ([2, 2], [tri_node None [1] None, tri_node (Some 0) [] (Some tri_bounds)])"
proof -
  have zero: "gl_transform identity [f_zero, f_zero, f_zero] = Inr [f_zero, f_zero, f_zero]"
    by (rule transform_identity) (simp add: tri_positions_def)
  have none: "mesh_bounds identity [tri_mesh] None = Inr None" by (simp add: mesh_bounds_def)
  show ?thesis
    by (simp add: visit_node.simps [of _ _ 0] visit_node.simps [of _ _ "Suc 0"] zero none tri_mesh_bounds multiply_identity
        tri_node_def plain_node_def)
qed

lemma tri_linked: "link_nodes [tri_mesh] (JArr [tri_parent, tri_leaf]) (JArr [JUInt 0]) =
    Inr ([tri_node None [1] None, tri_node (Some 0) [] (Some tri_bounds)], [0])"
  using tri_read tri_visit
  by (simp add: link_nodes_def gl_array_def gl_index_def gl_integer_def numeral_2_eq_2)

definition tri_request :: import_request where
  "tri_request = \<lparr>request_glb = tri_file, request_source = ''a triangle'', request_license = ''CC0-1.0'', request_revision = 0\<rparr>"

section \<open>The promises\<close>

text \<open>C37: Importing a file keeps every promise of the header comment: a refused import returns no
  scene, a rejected receipt and the very same catalog; a committed one was asked for at the
  catalog's revision, advances it by exactly one, keeps every asset, blob and root, stores the
  caller's bytes under their content hash and the scene's asset beside them, stays a catalog that
  commands can reach, and returns the decoded scene, all of whose references (vertices, materials,
  meshes, children, roots) are in range and within the budgets of the profile.\<close>

theorem import_commits_or_keeps:
  assumes "catalog_run c"
  shows "case import_glb J exhausted r c of (c', res) \<Rightarrow>
    (case import_scene res of
       None \<Rightarrow> c' = c \<and> catalog_status (import_receipt res) = ''rejected''
     | Some (a, s) \<Rightarrow>
         catalog_status (import_receipt res) = ''committed'' \<and> gl_decode J (request_glb r) = Inr s \<and> scene_ok s \<and>
         catalog_run c' \<and> request_revision r = catalog_revision c \<and>
         unat (catalog_revision c') = unat (catalog_revision c) + 1 \<and>
         a \<in> set (catalog_assets c') \<and> content_hash (request_glb r) = Inr (manifest_hash (asset_manifest a)) \<and>
         (\<exists>b \<in> set (catalog_blobs c'). blob_hash b = manifest_hash (asset_manifest a) \<and> blob_bytes b = request_glb r) \<and>
         set (catalog_assets c) \<subseteq> set (catalog_assets c') \<and> set (catalog_blobs c) \<subseteq> set (catalog_blobs c') \<and>
         current_roots c' = current_roots c \<and> history_roots c' = history_roots c)"
proof (cases "request_revision r \<noteq> catalog_revision c")
  case True
  then show ?thesis by (simp add: import_glb_def catalog_rejection_def empty_catalog_receipt_def)
next
  case rev: False
  show ?thesis
  proof (cases "stage_import J r")
    case (Inl code)
    then show ?thesis using rev by (simp add: import_glb_def catalog_rejection_def empty_catalog_receipt_def)
  next
    case (Inr staged)
    then obtain a s pack where st: "stage_import J r = Inr ((a, s), pack)" by (cases staged) auto
    obtain c' receipt where app: "catalog_apply exhausted (Import pack) (request_revision r) c = (c', receipt)" by fastforce
    from st obtain h where d: "gl_decode J (request_glb r) = Inr s" and h: "content_hash (request_glb r) = Inr h"
      "manifest_hash (asset_manifest a) = h" and e: "entries_ok [a] [\<lparr>blob_hash = h, blob_bytes = request_glb r\<rparr>]"
      and b: "pack = bundle_bytes [a] [\<lparr>blob_hash = h, blob_bytes = request_glb r\<rparr>]"
      by (rule stage_import_Inr)
    from app show ?thesis
    proof (cases rule: catalog_apply_cases)
      case (rejected code)
      then show ?thesis
        using rev st app by (simp add: import_glb_def catalog_rejection_def empty_catalog_receipt_def)
    next
      case (committed staged r0)
      then obtain ids where i: "import_bundle pack c = Inr (staged, ids)" by (auto simp: res_simps)
      have "scene_ok s" using d by (auto simp: gl_decode_def res_simps intro: decode_scene_ok)
      moreover have "catalog_run c'" by (rule catalog_run.obeyed [OF assms app])
      moreover have "unat (catalog_revision c + 1) = unat (catalog_revision c) + 1"
        using committed(2) by (simp add: u64_less_max_no_wrap)
      ultimately show ?thesis
        using rev st app committed import_entries [OF i [unfolded b] e catalog_run_ok [OF assms]] d h
        by (simp add: import_glb_def)
    qed
  qed
qed

theorem import_commits_or_keeps_witness:
  "case import_glb tri_lib False tri_request new_catalog of (c', res) \<Rightarrow>
    (case import_scene res of
       None \<Rightarrow> c' = new_catalog \<and> catalog_status (import_receipt res) = ''rejected''
     | Some (a, s) \<Rightarrow> unat (catalog_revision c') = 1 \<and> a \<in> set (catalog_assets c') \<and> scene_ok s)"
  using import_commits_or_keeps [OF catalog_run.fresh, where J = tri_lib and exhausted = False and r = tri_request]
  by (auto simp: new_catalog_def split: option.splits)

text \<open>C38: The hierarchy: whatever order the nodes are listed and visited in, every child's world
  matrix is its parent's times its own local one, a selected root's is its local one, and the bounds
  of a node are those of its mesh under its world matrix.  A list of nodes with a cycle or a node with
  two parents is refused: every node is the child of at most one, and depths grow along the children.\<close>

theorem world_matrices_follow_hierarchy:
  assumes "link_nodes meshes input chosen_roots = Inr (ns, rs)"
  shows "(\<forall>i < length ns. \<forall>c \<in> set (node_children (ns ! i)).
       gl_multiply (world_matrix (ns ! i)) (local_matrix (ns ! unat c)) = Inr (world_matrix (ns ! unat c))) \<and>
    (\<forall>r \<in> set rs. world_matrix (ns ! unat r) = local_matrix (ns ! unat r)) \<and>
    (\<forall>i < length ns. mesh_bounds (world_matrix (ns ! i)) meshes (node_mesh (ns ! i)) = Inr (node_bounds (ns ! i))) \<and>
    (\<forall>i < length ns. \<forall>j < length ns. set (node_children (ns ! i)) \<inter> set (node_children (ns ! j)) \<noteq> {} \<longrightarrow> i = j) \<and>
    (\<exists>depth :: nat \<Rightarrow> nat. \<forall>i < length ns. \<forall>c \<in> set (node_children (ns ! i)). unat c < length ns \<and> depth i < depth (unat c))"
proof -
  obtain ps rank where l: "linked meshes ns rs ps rank" using link_nodes_linked [OF assms] by blast
  have p: "placed ps meshes ns i" if "i < length ns" for i using l that by (simp add: linked_def)
  have c: "unat c < length ns \<and> ps ! unat c = Some i" if "i < length ns" "c \<in> set (node_children (ns ! i))" for i c
    using l that by (auto simp: linked_def family_def children_of_def)
  have r: "unat r < length ns \<and> ps ! unat r = None" if "r \<in> set rs" for r using l that by (simp add: linked_def)
  have "gl_multiply (world_matrix (ns ! i)) (local_matrix (ns ! unat c)) = Inr (world_matrix (ns ! unat c))"
    if "i < length ns" "c \<in> set (node_children (ns ! i))" for i c
    using p [of "unat c"] c [OF that] by (simp add: placed_def)
  moreover have "world_matrix (ns ! unat r) = local_matrix (ns ! unat r)" if "r \<in> set rs" for r
    using p [of "unat r"] r [OF that] by (simp add: placed_def)
  moreover have "mesh_bounds (world_matrix (ns ! i)) meshes (node_mesh (ns ! i)) = Inr (node_bounds (ns ! i))"
    if "i < length ns" for i
    using p [OF that] by (simp add: placed_def)
  moreover have "i = j"
    if "i < length ns" "j < length ns" "set (node_children (ns ! i)) \<inter> set (node_children (ns ! j)) \<noteq> {}" for i j
    using that(3) c [OF that(1)] c [OF that(2)] by (metis disjoint_iff option.inject)
  moreover have "\<forall>i < length ns. \<forall>c \<in> set (node_children (ns ! i)). unat c < length ns \<and> rank i < rank (unat c)"
    using l c by (auto simp: linked_def ranked_def)
  ultimately show ?thesis by blast
qed

theorem world_matrices_follow_hierarchy_witness:
  "gl_multiply identity identity = Inr identity \<and> mesh_bounds identity [tri_mesh] (Some 0) = Inr (Some tri_bounds)"
  using world_matrices_follow_hierarchy [OF tri_linked] by (simp add: tri_node_def plain_node_def All_less_Suc numeral_2_eq_2)

text \<open>C39: Aggregating the bounds of the selected roots terminates, although \<open>aggregate_node\<close> recurses
  into the children without a check of its own: on every hierarchy that was linked, recursion as
  deep as the number of nodes is enough, and more fuel gives the same bounds.\<close>

theorem aggregation_terminates:
  assumes "link_nodes meshes input chosen_roots = Inr (ns, rs)"
  shows "\<exists>b. \<forall>k. aggregate_nodes (length ns + k) ns rs agg = Some b"
proof -
  obtain ps rank where l: "linked meshes ns rs ps rank" using link_nodes_linked [OF assms] by blast
  have "\<exists>b. aggregate_nodes (length ns) ns rs agg = Some b"
    using l by (intro aggregate_returns) (auto simp: linked_def)
  then show ?thesis using aggregate_more_fuel by blast
qed

theorem aggregation_terminates_witness:
  "\<exists>b. \<forall>k. aggregate_nodes (2 + k) [tri_node None [1] None, tri_node (Some 0) [] (Some tri_bounds)] [0] None = Some b"
  using aggregation_terminates [OF tri_linked, of None] by simp

end
