(* ===== verification/Spec2Isabelle.thy ===== *)
theory Spec2Isabelle
  imports Simulation Retry History_Claims Policy_Claims Catalog_Claims Replay_Claims Presentation_Claims Observe_Claims Persistence_Claims Gltf_Claims
begin

text \<open>
  A verification development for OmniWeft, an authoring world that is edited by transactional
  command envelopes.

  \<^bold>\<open>The program and how its parts interact.\<close>  A world (\<open>src/world.cpp\<close>) is an array of
  generation-counted slots that hold entities with a local and a cached transform, tags and a parent.
  It changes in one place only: \<open>Coordinator::apply\<close> (\<open>src/transactions.cpp\<close>) admits an envelope,
  stages its operations on a copy, asks an optional staging guard at every operation, offers the
  result to an optional commit observer and swaps it in.  Everything else hangs on these two hooks and
  on the snapshot.  The admission policy (\<open>policy.cpp\<close>) is a staging guard; the replay recorder
  (\<open>replay.cpp\<close>) and the durable store (\<open>persistence.cpp\<close>) are commit observers, and both recover by
  replaying envelopes with the bindings they recorded; the undo history (\<open>history.cpp\<close>) sends edits
  and their inverses through the coordinator; read sessions (\<open>observe.cpp\<close>) and the presentation
  packet (\<open>presentation.cpp\<close>) read a snapshot.  The command protocol (\<open>commands.cpp\<close>) turns untrusted
  bytes into envelopes and back; the retry window (\<open>retry.cpp\<close>) makes a repeated request replay its
  receipt.  The asset catalog (\<open>assets.cpp\<close>) is a second, content-addressed state with commands of
  its own, which the glTF importer (\<open>gltf.cpp\<close>) feeds.  The fixed-step clock (\<open>simulation.cpp\<close>) stands
  alone.

  \<^bold>\<open>Conventions.\<close>  A struct or class is a \<open>record\<close>, a variant a \<open>datatype\<close>, an enumeration compared by
  name the same strings; \<open>std::uint64_t\<close> and \<open>std::uint32_t\<close> are words and wrap, \<open>std::size_t\<close> sizes of
  containers are naturals; \<open>double\<close> is its 64-bit representation with the arithmetic of \<open>Ieee754\<close>,
  \<open>float\<close> its 32-bit one.  A thrown failure or an early return is the left value of a sum; a
  computation that changes a state and may throw has the type \<open>gx\<close> of \<open>Prelude\<close> and returns the state
  also when it throws.  Loops are recursive functions with a termination proof.  Definitions carry
  the name of the C++ function where there is one.

  \<^bold>\<open>Theories, in the order of the code.\<close>
  \<^item> \<open>Prelude\<close>, \<open>Byte_Codec\<close>, \<open>Reader\<close>, \<open>Search\<close>, \<open>Ieee754\<close>, \<open>Float_Code\<close>, \<open>Json\<close>: shared vocabulary.
    Results and their simplification rules; little-endian integers, hexadecimal text and the contract
    \<open>self_delimiting\<close> of an encoding; readers over untrusted bytes and the contract \<open>readable\<close> between
    a writer and a reader; the library's binary search; floating point; JSON values and events.
  \<^item> \<open>World\<close>, \<open>Hierarchy\<close>: \<open>world.hpp\<close>, \<open>world.cpp\<close> and the part of \<open>transactions.cpp\<close> that works on a
    staged snapshot (\<open>compose\<close>, \<open>relative\<close>, \<open>subtree\<close>, \<open>reparent\<close>).  The canonical bytes determine the
    snapshot; each of their fields is an interpretation of \<open>self_delimiting\<close>.
  \<^item> \<open>Commands\<close>: \<open>commands.hpp\<close>, \<open>commands.cpp\<close> (\<open>sax_step\<close>, \<open>convert\<close>, \<open>parse\<close>, \<open>serialize\<close>).
  \<^item> \<open>Transactions\<close>: \<open>Coordinator\<close>.  \<open>Subtree_Laws\<close>, \<open>World_Invariant\<close> and \<open>Transaction_Laws\<close> show what
    the breadth-first update does, that every operation keeps a snapshot well formed, and what a call
    guarantees; \<open>reachable\<close> is the relation of worlds that calls connect, under any guards and
    observers.  \<open>Transaction_Claims\<close> states the properties.
  \<^item> \<open>Retry\<close>, \<open>Simulation\<close>: \<open>retry.cpp\<close> and \<open>simulation.cpp\<close> with their properties.
  \<^item> \<open>History\<close>, \<open>History_Laws\<close>, \<open>History_Claims\<close>: \<open>history.cpp\<close>.  A history in use is related to a
    timeline of authored contents; \<open>session\<close> is the relation of what can be called.
  \<^item> \<open>Policy\<close>, \<open>Guard_Laws\<close>, \<open>Policy_Laws\<close>, \<open>Policy_Claims\<close>: \<open>policy.cpp\<close>.  The contract between the
    coordinator and a guard is the locale \<open>staging_guard\<close>, which extends \<open>hook_invariant\<close>; both are
    interpreted on the hooks of the policy, and the properties rest on these interpretations.
  \<^item> \<open>Sha256\<close>, \<open>Assets\<close>, \<open>Asset_Codec\<close>, \<open>Catalog_Claims\<close>: the digest of \<open>persistence_io.cpp\<close> and
    \<open>assets.cpp\<close>; manifests and bundles are interpretations of \<open>readable\<close>, \<open>catalog_run\<close> holds of the
    catalogs that commands lead to.
  \<^item> \<open>Replay\<close>, \<open>Command_Width\<close>, \<open>Replay_Claims\<close>: \<open>replay.cpp\<close>; \<open>Command_Width\<close> bounds the printed size
    of the command in which a record is replayed, so that the checks of \<open>preflight\<close> are proved.
  \<^item> \<open>Persistence\<close>, \<open>Persistence_Codec\<close>, \<open>Persistence_Laws\<close>, \<open>Persistence_Crash\<close>,
    \<open>Persistence_Claims\<close>: \<open>persistence.cpp\<close> and the portable part of \<open>persistence_io.cpp\<close>.  The directory is
    the record \<open>disk\<close>; the contracts of the binary fields are interpretations of \<open>readable\<close>; the rules
    of \<open>outcome\<close> follow a call through every point where it may fail; \<open>store_run\<close> is the relation of
    what can happen to a store.
  \<^item> \<open>Observe\<close>, \<open>Observe_Claims\<close> and \<open>Presentation\<close>, \<open>Presentation_Claims\<close>: the two readers of a snapshot.
  \<^item> \<open>Gltf\<close>, \<open>Gltf_Scene\<close>, \<open>Gltf_Laws\<close>, \<open>Gltf_Claims\<close>: \<open>gltf.cpp\<close>, from the GLB container to the import
    into the catalog.

  \<^bold>\<open>What is shown.\<close>
  \<^item> Core (C1 to C6, C34): a call commits or keeps the world; every reachable world is well formed; a
    lost handle never resolves again; a replay repeats a commit exactly with its bindings; the subtree
    update and the cycle check are exact; an error path gives back its operation.
  \<^item> Protocol (C7 to C10): print and parse are inverse, accepted envelopes satisfy the schema, printing
    succeeds exactly for valid envelopes, the streaming pass accepts exactly the bounded values.
  \<^item> Retry (C11, C12): each number is applied once; a repeated request replays its receipt.
  \<^item> History (C13 to C16): undo and redo restore authored content, over every session.
  \<^item> Policy (C17 to C19): committed changes stay in scope; the books balance; admission is exact.
  \<^item> Catalog (C20 to C24): the invariant of every command, round trips of bundles and manifests, the
    retention report predicts collection, padding keeps inputs apart.
  \<^item> Replay (C25 to C27): recorded sessions reconstruct; the recorder logs exactly the commits, and what
    an edit outside the recorder does; what a reconstruction has checked.
  \<^item> Readers (C28 to C33): the packet matches the snapshot within exact budgets; reading delivers the
    rows up to the first that does not fit a page of its own; the copy is exactly what the grant shows.
  \<^item> Store (C35, C36): acknowledged commits survive; a store that was not sealed reopens as it was.
  \<^item> Import (C37 to C39) and clock (C40): an import commits or keeps; world matrices follow the hierarchy;
    the unchecked recursion over it ends; no time is lost.

  \<^bold>\<open>Bounds and fuel.\<close>  The constants of the code (slot, operation, row, payload and frame limits) are
  definitions with its values.  Two functions carry fuel.  \<open>aggregate_nodes\<close> recurses into children
  that the code does not check; C39 shows that a depth of the number of nodes is enough and that more
  changes nothing.  \<open>read_pages\<close> is a reader's loop over \<open>next\<close>; C30 gives it one more call than there
  are rows, and shows that it ends within them.

  \<^bold>\<open>Parameters and their laws.\<close>  The JSON library is the parameter \<open>json_lib\<close>.  The properties that
  need it name what they use: \<open>reads_back\<close> (its parser and its event stream return the value that \<open>dump\<close>
  printed), \<open>prints_compactly\<close> (\<open>dump\<close> adds no white space, at most six characters for a byte of a
  string, 20 for an integer and 24 for a number), \<open>library_prints\<close> (\<open>reads_back\<close> for the values of
  validated envelopes that it prints) and \<open>prints_replays\<close> (a command it has printed it also prints,
  compactly, in the form in which replay sends it, which differs in a fixed transaction number, epoch
  and expiry).  The witnesses instantiate it with concrete libraries.  Clock readings, random bytes,
  the addresses of worlds, failing allocations of the catalog and failing calls of the operating
  system are arguments.

  \<^bold>\<open>The store's environment.\<close>  A call of the operating system may fail, a write after any number of its
  bytes, and the fault hook may throw at any phase; a process may end between any two calls.  What was
  written stays written: a flush has no effect of its own, so the loss of data that had not reached
  the disk when the machine fails is outside the model.

  \<^bold>\<open>Not modelled.\<close>  The HTTP gateway (\<open>control.cpp\<close>), the Vulkan renderer (\<open>render_vulkan.cpp\<close>) and its
  generated shader words, the host programs and the runnable examples: sockets, threads, graphics
  calls and reports around the components above.  The wrappers of \<open>persistence_io.cpp\<close> over descriptors,
  locks and syncs appear as the calls that may fail.  The policy's mutex is held from admission to the
  end of a guard, so its calls are sequential; exhausted memory is modelled only where the code
  catches it, in the catalog.
\<close>

end
